(* ===== verification/Prelude.thy ===== *)
theory Prelude
  imports Main "HOL-Library.Word" "HOL-Library.AList"
begin

text \<open>
  Shared types, library models and lemmas of the development: machine integers and byte
  strings of the Go sources, Go's \<open>copy\<close> into a fixed array, checked slice indexing,
  big-endian encodings, the binary search of the standard library's \<open>sort.Search\<close>, and the
  generic facts on lists and association lists that the component theories use.
\<close>

unbundle bit_operations_syntax

named_theorems go_defs \<open>definitions of Go's built-in operations\<close>

section \<open>Machine integers and byte strings\<close>

type_synonym byte = "8 word"
type_synonym uint8 = "8 word"
type_synonym uint32 = "32 word"
type_synonym uint64 = "64 word"
type_synonym bytes = "byte list"

text \<open>
  A \<open>[32]byte\<close> array (\<open>common.Hash\<close>, a Merkle node) is a byte list; \<open>copy(res[:], b)\<close> into a
  fresh array of \<open>n\<close> zero bytes keeps the first \<open>n\<close> bytes of \<open>b\<close> and pads with zeros.
\<close>

type_synonym hash32 = bytes

definition copy_into :: "nat \<Rightarrow> bytes \<Rightarrow> bytes" where
  "copy_into n b = take n (b @ replicate n 0)"

definition zero_hash :: hash32 where
  "zero_hash = replicate 32 0"

text \<open>\<open>xs[i]\<close>: a run-time panic, the error \<open>e\<close>, when the index is out of range.\<close>

definition index_or :: "'e \<Rightarrow> 'a list \<Rightarrow> nat \<Rightarrow> 'e + 'a" where
  "index_or e xs i = (if i < length xs then Inr (xs ! i) else Inl e)"

text \<open>\<open>binary.BigEndian.PutUint64\<close> into an eight byte buffer.\<close>

definition put_uint64 :: "uint64 \<Rightarrow> bytes" where
  "put_uint64 v = map (\<lambda>k. ucast (drop_bit (8 * (7 - k)) v)) [0..<8]"

declare index_or_def [go_defs]

lemma length_copy_into [simp]: "length (copy_into n b) = n"
  by (simp add: copy_into_def)

lemma length_zero_hash [simp]: "length zero_hash = 32"
  by (simp add: zero_hash_def)

lemma length_put_uint64 [simp]: "length (put_uint64 v) = 8"
  by (simp add: put_uint64_def)

lemma index_or_Inr [simp]: "i < length xs \<Longrightarrow> index_or e xs i = Inr (xs ! i)"
  by (simp add: index_or_def)

lemma index_or_Inl [simp]: "length xs \<le> i \<Longrightarrow> index_or e xs i = Inl e"
  by (simp add: index_or_def)

text \<open>Testing one bit of an unsigned integer with a mask.\<close>

lemma and_mask_bit_iff:
  fixes w :: "'a::len word"
  shows "w AND push_bit h 1 \<noteq> 0 \<longleftrightarrow> odd (unat w div 2 ^ h)"
proof -
  have "w AND push_bit h 1 \<noteq> 0 \<longleftrightarrow> bit w h"
    by (simp add: push_bit_of_1 and_exp_eq_0_iff_not_bit)
  also have "\<dots> \<longleftrightarrow> odd (unat w div 2 ^ h)"
    by (simp flip: bit_iff_odd add: bit_unsigned_iff)
  finally show ?thesis .
qed

lemma unat_of_nat_less: "n < 2 ^ LENGTH('a) \<Longrightarrow> unat (of_nat n :: 'a::len word) = n"
  by (simp add: unat_of_nat take_bit_nat_eq_self)

lemma odd_unat_iff: "odd (unat w) \<longleftrightarrow> odd w" for w :: "'a::len word"
  using bit_unsigned_iff [where 'a = nat, of w 0] by (simp add: bit_0)

lemma mod_2_eq_1_iff: "w mod 2 = 1 \<longleftrightarrow> odd (unat w)" for w :: "'a::len word"
  unfolding odd_unat_iff by (rule odd_iff_mod_2_eq_one [symmetric])

lemma unat_plus_one: "unat w + 1 < 2 ^ LENGTH('a) \<Longrightarrow> unat (w + 1) = unat w + 1" for w :: "'a::len word"
  by (simp add: unat_word_ariths)

lemma unat_minus_one_pos: "0 < unat w \<Longrightarrow> unat (w - 1) = unat w - 1" for w :: "'a::len word"
  by (metis unat_minus_one unat_0 less_irrefl)

lemma le_of_nat_iff:
  "n < 2 ^ LENGTH('a) \<Longrightarrow> of_nat n \<le> w \<longleftrightarrow> n \<le> unat w" for w :: "'a::len word"
  by (simp add: word_le_nat_alt unat_of_nat_less)

lemma div_pow_div_2: "n div 2 ^ h div 2 = n div 2 ^ Suc h" for n :: nat
  by (metis div_mult2_eq power_Suc2)

text \<open>How adding one changes the bits of a number, as an incremental Merkle tree sees it.\<close>

lemma Suc_div_pow:
  "Suc n div 2 ^ h = (if 2 ^ h dvd Suc n then Suc (n div 2 ^ h) else n div 2 ^ h)"
  by (simp add: div_Suc dvd_eq_mod_eq_0)

lemma pow_Suc_dvd_iff:
  "(2::nat) ^ Suc h dvd m \<longleftrightarrow> 2 ^ h dvd m \<and> even (m div 2 ^ h)"
  by (metis dvd_div_iff_mult dvd_mult_right power_Suc zero_neq_numeral power_eq_0_iff)

section \<open>Binary search\<close>

text \<open>
  \<open>sort.Search\<close> of the Go library: the loop keeps the predicate false below \<open>i\<close> and true from \<open>j\<close>
  on.  The predicate may panic (\<open>None\<close>).
\<close>

function searchLoop :: "(nat \<Rightarrow> bool option) \<Rightarrow> nat \<Rightarrow> nat \<Rightarrow> nat option" where
  "searchLoop f i j =
     (if i < j then
        (let h = (i + j) div 2
         in case f h of
              None \<Rightarrow> None
            | Some b \<Rightarrow> if \<not> b then searchLoop f (h + 1) j else searchLoop f i h)
      else Some i)"
  by pat_completeness auto
termination
  by (relation "measure (\<lambda>(f, i, j). j - i)") auto

declare searchLoop.simps [simp del]

definition sortSearch :: "nat \<Rightarrow> (nat \<Rightarrow> bool option) \<Rightarrow> nat option" where
  "sortSearch n f = searchLoop f 0 n"

lemma searchLoop_spec:
  assumes f: "\<And>k. k < n \<Longrightarrow> f k = Some (P k)" and mono: "\<And>a b. a \<le> b \<Longrightarrow> b < n \<Longrightarrow> P a \<Longrightarrow> P b"
    and "i \<le> j" "j \<le> n" "\<forall>k < i. \<not> P k" "\<forall>k. j \<le> k \<and> k < n \<longrightarrow> P k"
  shows "\<exists>r. searchLoop f i j = Some r \<and> r \<le> n \<and> (\<forall>k < r. \<not> P k) \<and> (\<forall>k. r \<le> k \<and> k < n \<longrightarrow> P k)"
  using assms(3-6)
proof (induction "j - i" arbitrary: i j rule: less_induct)
  case less
  show ?case
  proof (cases "i < j")
    case True
    define h where "h = (i + j) div 2"
    have h: "i \<le> h" "h < j" "h < n" using True less.prems(2) by (auto simp: h_def)
    show ?thesis
    proof (cases "P h")
      case True
      then have "\<exists>r. searchLoop f i h = Some r \<and> r \<le> n \<and> (\<forall>k < r. \<not> P k) \<and> (\<forall>k. r \<le> k \<and> k < n \<longrightarrow> P k)"
        using h less.prems(3) mono [of h] by (intro less.hyps) auto
      then show ?thesis using True \<open>i < j\<close> f [OF h(3)] by (subst searchLoop.simps) (simp add: h_def Let_def)
    next
      case False
      then have "\<exists>r. searchLoop f (h + 1) j = Some r \<and> r \<le> n \<and> (\<forall>k < r. \<not> P k) \<and> (\<forall>k. r \<le> k \<and> k < n \<longrightarrow> P k)"
        using h less.prems mono [of _ h] by (intro less.hyps) (auto simp: less_Suc_eq_le)
      then show ?thesis using False \<open>i < j\<close> f [OF h(3)] by (subst searchLoop.simps) (simp add: h_def Let_def)
    qed
  qed (use less.prems in \<open>auto simp: searchLoop.simps\<close>)
qed

text \<open>On a list where \<open>Q\<close> is false and then true, the search finds the length of the first part.\<close>

lemma sortSearch_takeWhile:
  assumes f: "\<And>k. k < length xs \<Longrightarrow> f k = Some (Q (xs ! k))"
    and mono: "\<And>a b. a \<le> b \<Longrightarrow> b < length xs \<Longrightarrow> Q (xs ! a) \<Longrightarrow> Q (xs ! b)"
  shows "sortSearch (length xs) f = Some (length (takeWhile (\<lambda>x. \<not> Q x) xs))"
proof -
  have "\<exists>r. searchLoop f 0 (length xs) = Some r \<and> r \<le> length xs \<and> (\<forall>k < r. \<not> Q (xs ! k))
      \<and> (\<forall>k. r \<le> k \<and> k < length xs \<longrightarrow> Q (xs ! k))"
    by (rule searchLoop_spec) (use f mono in auto)
  then obtain r where r: "searchLoop f 0 (length xs) = Some r" "r \<le> length xs" "\<forall>k < r. \<not> Q (xs ! k)"
      "\<forall>k. r \<le> k \<and> k < length xs \<longrightarrow> Q (xs ! k)"
    by blast
  have "takeWhile (\<lambda>x. \<not> Q x) xs = take r xs"
    by (rule takeWhile_eq_take_P_nth) (use r in auto)
  with r show ?thesis by (simp add: sortSearch_def)
qed

end
