(* ===== verification/L1InfoTree.thy ===== *)
theory L1InfoTree
  imports Prelude
begin

text \<open>
  The L1 info tree (\<open>src/l1infotree/hash.go\<close>, \<open>src/l1infotree/tree.go\<close>): the incremental Merkle
  tree over the L1 global exit roots.  Keccak is code outside the repository and is the parameter
  \<open>kc\<close> of every definition (\<open>kc2\<close> for the second library that hashes the leaf data).  The theory
  holds the operations, the abstract Merkle root they compute, and the proofs that building the
  root from all leaves, adding leaves one by one and the Merkle proofs agree with it.
\<close>

section \<open>Definitions\<close>

subsection \<open>hash.go\<close>

definition Hash :: "(bytes \<Rightarrow> bytes) \<Rightarrow> hash32 list \<Rightarrow> hash32" where
  "Hash kc data = copy_into 32 (kc (concat data))"

definition generateZeroHashes :: "(bytes \<Rightarrow> bytes) \<Rightarrow> uint8 \<Rightarrow> hash32 list" where
  "generateZeroHashes kc height =
     fold (\<lambda>i zeroHashes. zeroHashes @ [Hash kc [zeroHashes ! (i - 1), zeroHashes ! (i - 1)]])
       [1..<unat height + 1] [zero_hash]"

definition HashLeafData :: "(bytes list \<Rightarrow> bytes) \<Rightarrow> hash32 \<Rightarrow> hash32 \<Rightarrow> uint64 \<Rightarrow> hash32" where
  "HashLeafData kc2 ger prevBlockHash minTimestamp =
     copy_into 32 (kc2 [ger, prevBlockHash, put_uint64 minTimestamp])"

subsection \<open>tree.go\<close>

record L1InfoTree =
  height :: uint8
  zeroHashes :: "hash32 list"
  count :: uint32
  siblings :: "hash32 list"
  currentRoot :: hash32

datatype l1_error =
    MismatchedLeafCount uint32 uint32
  | MoreThanOneRoot
  | CountLengthMismatch
  | IndexPanic

text \<open>A node is the slice \<open>[hash, left, right]\<close>.\<close>

type_synonym node = "hash32 list"

fun buildIntermediate ::
  "(bytes \<Rightarrow> bytes) \<Rightarrow> hash32 list \<Rightarrow> l1_error + (node list \<times> hash32 list)" where
  "buildIntermediate kc [] = Inr ([], [])"
| "buildIntermediate kc [_] = Inl IndexPanic"
| "buildIntermediate kc (left # right # leaves) =
     (let hash = Hash kc [left, right] in
      case buildIntermediate kc leaves of
        Inl e \<Rightarrow> Inl e
      | Inr (nodes, hashes) \<Rightarrow> Inr ([hash, left, right] # nodes, hash # hashes))"

text \<open>Both level loops pad an odd level with the zero hash of that level.\<close>

definition padLevel :: "hash32 list \<Rightarrow> nat \<Rightarrow> hash32 list \<Rightarrow> l1_error + hash32 list" where
  "padLevel zs h leaves =
     (if length leaves mod 2 = 1
      then (case index_or IndexPanic zs h of Inl e \<Rightarrow> Inl e | Inr z \<Rightarrow> Inr (leaves @ [z]))
      else Inr leaves)"

function buildRootLoop ::
  "(bytes \<Rightarrow> bytes) \<Rightarrow> hash32 list \<Rightarrow> nat \<Rightarrow> nat \<Rightarrow> node list \<Rightarrow> hash32 list \<Rightarrow> l1_error + node list"
where
  "buildRootLoop kc zs hgt h ns leaves =
     (if h < hgt then
        (case padLevel zs h leaves of
           Inl e \<Rightarrow> Inl e
         | Inr leaves' \<Rightarrow>
             (case buildIntermediate kc leaves' of
                Inl e \<Rightarrow> Inl e
              | Inr (ns', hashes) \<Rightarrow> buildRootLoop kc zs hgt (Suc h) ns' hashes))
      else Inr ns)"
  by pat_completeness auto
termination
  by (relation "measure (\<lambda>(kc, zs, hgt, h, ns, leaves). hgt - h)") auto

definition firstRoot :: "node list \<Rightarrow> l1_error + hash32" where
  "firstRoot ns = (if length ns \<noteq> 1 then Inl MoreThanOneRoot
     else case index_or IndexPanic ns 0 of Inl e \<Rightarrow> Inl e | Inr n \<Rightarrow> index_or IndexPanic n 0)"

text \<open>An empty leaf list is replaced by the single zero leaf.\<close>

definition orZeroLeaf :: "hash32 list \<Rightarrow> hash32 list \<Rightarrow> l1_error + hash32 list" where
  "orZeroLeaf zs leaves =
     (if length leaves = 0
      then (case index_or IndexPanic zs 0 of Inl e \<Rightarrow> Inl e | Inr z \<Rightarrow> Inr (leaves @ [z]))
      else Inr leaves)"

definition BuildL1InfoRoot ::
  "(bytes \<Rightarrow> bytes) \<Rightarrow> L1InfoTree \<Rightarrow> hash32 list \<Rightarrow> l1_error + hash32" where
  "BuildL1InfoRoot kc mt leaves =
     (case orZeroLeaf (zeroHashes mt) leaves of
        Inl e \<Rightarrow> Inl e
      | Inr leaves' \<Rightarrow>
          (case buildRootLoop kc (zeroHashes mt) (unat (height mt)) 0 [] leaves' of
             Inl e \<Rightarrow> Inl e
           | Inr ns \<Rightarrow> firstRoot ns))"

text \<open>
  \<open>uint32(float64(index) / 2)\<close> is \<open>index div 2\<close>: a float64 holds every uint32 exactly and the
  conversion back truncates.
\<close>

definition siblingAt :: "hash32 list \<Rightarrow> nat \<Rightarrow> uint32 \<Rightarrow> hash32 list \<Rightarrow> l1_error + hash32" where
  "siblingAt zs h index leaves =
     (if index \<ge> of_nat (length leaves) then index_or IndexPanic zs h
      else if index mod 2 = 1 then index_or IndexPanic leaves (unat (index - 1))
      else index_or IndexPanic leaves (unat (index + 1)))"

function merkleProofLoop ::
  "(bytes \<Rightarrow> bytes) \<Rightarrow> hash32 list \<Rightarrow> nat \<Rightarrow> nat \<Rightarrow> uint32 \<Rightarrow> hash32 list \<Rightarrow> node list \<Rightarrow> hash32 list
     \<Rightarrow> l1_error + (hash32 list \<times> node list)"
where
  "merkleProofLoop kc zs hgt h index sibs ns leaves =
     (if h < hgt then
        (case padLevel zs h leaves of
           Inl e \<Rightarrow> Inl e
         | Inr leaves' \<Rightarrow>
             (case siblingAt zs h index leaves' of
                Inl e \<Rightarrow> Inl e
              | Inr s \<Rightarrow>
                  (case buildIntermediate kc leaves' of
                     Inl e \<Rightarrow> Inl e
                   | Inr (nsi, hashes) \<Rightarrow>
                       merkleProofLoop kc zs hgt (Suc h) (index div 2) (sibs @ [s]) nsi hashes)))
      else Inr (sibs, ns))"
  by pat_completeness auto
termination
  by (relation "measure (\<lambda>(kc, zs, hgt, h, index, sibs, ns, leaves). hgt - h)") auto

definition ComputeMerkleProof ::
  "(bytes \<Rightarrow> bytes) \<Rightarrow> L1InfoTree \<Rightarrow> uint32 \<Rightarrow> hash32 list \<Rightarrow> l1_error + (hash32 list \<times> hash32)" where
  "ComputeMerkleProof kc mt gerIndex leaves =
     (case orZeroLeaf (zeroHashes mt) leaves of
        Inl e \<Rightarrow> Inl e
      | Inr leaves' \<Rightarrow>
          (case merkleProofLoop kc (zeroHashes mt) (unat (height mt)) 0 gerIndex [] [] leaves' of
             Inl e \<Rightarrow> Inl e
           | Inr (sibs, ns) \<Rightarrow> (case firstRoot ns of Inl e \<Rightarrow> Inl e | Inr r \<Rightarrow> Inr (sibs, r))))"

function addLeafLoop ::
  "(bytes \<Rightarrow> bytes) \<Rightarrow> hash32 list \<Rightarrow> nat \<Rightarrow> uint32 \<Rightarrow> nat \<Rightarrow> bool \<Rightarrow> hash32 \<Rightarrow> hash32 list
     \<Rightarrow> l1_error + (hash32 \<times> hash32 list)"
where
  "addLeafLoop kc zs hgt index h isFilledSubTree cur sibs =
     (if h < hgt then
        (if index AND push_bit h 1 > 0 then
           (case index_or IndexPanic sibs h of
              Inl e \<Rightarrow> Inl e
            | Inr s \<Rightarrow> addLeafLoop kc zs hgt index (Suc h) isFilledSubTree (Hash kc [s, cur]) sibs)
         else if isFilledSubTree \<and> length sibs \<le> h then Inl IndexPanic
         else
           (let sibs' = (if isFilledSubTree then sibs[h := cur] else sibs) in
            case index_or IndexPanic zs h of
              Inl e \<Rightarrow> Inl e
            | Inr z \<Rightarrow> addLeafLoop kc zs hgt index (Suc h) False (Hash kc [cur, z]) sibs'))
      else Inr (cur, sibs))"
  by pat_completeness auto
termination
  by (relation "measure (\<lambda>(kc, zs, hgt, index, h, f, cur, sibs). hgt - h)") auto

definition AddLeaf ::
  "(bytes \<Rightarrow> bytes) \<Rightarrow> L1InfoTree \<Rightarrow> uint32 \<Rightarrow> hash32 \<Rightarrow> l1_error + (L1InfoTree \<times> hash32)" where
  "AddLeaf kc mt index leaf =
     (if index \<noteq> count mt then Inl (MismatchedLeafCount index (count mt))
      else case addLeafLoop kc (zeroHashes mt) (unat (height mt)) index 0 True leaf (siblings mt) of
        Inl e \<Rightarrow> Inl e
      | Inr (cur, sibs) \<Rightarrow>
          Inr (mt\<lparr>siblings := sibs, currentRoot := cur, count := count mt + 1\<rparr>, cur))"

definition initSiblings ::
  "(bytes \<Rightarrow> bytes) \<Rightarrow> L1InfoTree \<Rightarrow> hash32 list \<Rightarrow> l1_error + (hash32 list \<times> hash32)" where
  "initSiblings kc mt initialLeaves =
     (if count mt \<noteq> of_nat (length initialLeaves) then Inl CountLengthMismatch
      else if count mt = 0 then
        (if length (zeroHashes mt) < unat (height mt) then Inl IndexPanic
         else case BuildL1InfoRoot kc mt initialLeaves of
           Inl e \<Rightarrow> Inl e
         | Inr root \<Rightarrow> Inr (take (unat (height mt)) (zeroHashes mt), root))
      else ComputeMerkleProof kc mt (count mt) initialLeaves)"

definition newTree :: "(bytes \<Rightarrow> bytes) \<Rightarrow> uint8 \<Rightarrow> hash32 list \<Rightarrow> l1_error + L1InfoTree" where
  "newTree kc hgt initialLeaves =
     (let mt = \<lparr>height = hgt, zeroHashes = generateZeroHashes kc hgt,
                count = of_nat (length initialLeaves), siblings = [], currentRoot = zero_hash\<rparr> in
      case initSiblings kc mt initialLeaves of
        Inl e \<Rightarrow> Inl e
      | Inr (sibs, root) \<Rightarrow> Inr (mt\<lparr>siblings := sibs, currentRoot := root\<rparr>))"

definition NewL1InfoTree :: "(bytes \<Rightarrow> bytes) \<Rightarrow> uint8 \<Rightarrow> hash32 list \<Rightarrow> l1_error + L1InfoTree" where
  "NewL1InfoTree kc hgt initialLeaves = newTree kc hgt initialLeaves"

definition ResetL1InfoTree :: "(bytes \<Rightarrow> bytes) \<Rightarrow> hash32 list \<Rightarrow> l1_error + L1InfoTree" where
  "ResetL1InfoTree kc initialLeaves = newTree kc 32 initialLeaves"

definition GetCurrentRootCountAndSiblings :: "L1InfoTree \<Rightarrow> hash32 \<times> uint32 \<times> hash32 list" where
  "GetCurrentRootCountAndSiblings mt = (currentRoot mt, count mt, siblings mt)"

text \<open>Adding leaves one after the other, each at the index the tree expects.\<close>

fun addLeaves :: "(bytes \<Rightarrow> bytes) \<Rightarrow> L1InfoTree \<Rightarrow> hash32 list \<Rightarrow> l1_error + L1InfoTree" where
  "addLeaves kc mt [] = Inr mt"
| "addLeaves kc mt (l # ls) =
     (case AddLeaf kc mt (count mt) l of Inl e \<Rightarrow> Inl e | Inr (mt', _) \<Rightarrow> addLeaves kc mt' ls)"

section \<open>Proofs\<close>

declare buildRootLoop.simps [simp del] merkleProofLoop.simps [simp del] addLeafLoop.simps [simp del]

subsection \<open>The abstract Merkle tree\<close>

fun node_of :: "(bytes \<Rightarrow> bytes) \<Rightarrow> (nat \<Rightarrow> hash32) \<Rightarrow> nat \<Rightarrow> nat \<Rightarrow> hash32" where
  "node_of kc f 0 i = f i"
| "node_of kc f (Suc d) i = Hash kc [node_of kc f d (2 * i), node_of kc f d (2 * i + 1)]"

definition leaf_at :: "hash32 list \<Rightarrow> nat \<Rightarrow> hash32" where
  "leaf_at ls i = (if i < length ls then ls ! i else zero_hash)"

definition merkle_root :: "(bytes \<Rightarrow> bytes) \<Rightarrow> nat \<Rightarrow> hash32 list \<Rightarrow> hash32" where
  "merkle_root kc d ls = node_of kc (leaf_at ls) d 0"

fun zero_node :: "(bytes \<Rightarrow> bytes) \<Rightarrow> nat \<Rightarrow> hash32" where
  "zero_node kc 0 = zero_hash"
| "zero_node kc (Suc d) = Hash kc [zero_node kc d, zero_node kc d]"

text \<open>The number of nodes that the level loops keep at level \<open>d\<close>.\<close>

fun level_size :: "nat \<Rightarrow> nat \<Rightarrow> nat" where
  "level_size n 0 = max 1 n"
| "level_size n (Suc d) = (level_size n d + 1) div 2"

definition level :: "(bytes \<Rightarrow> bytes) \<Rightarrow> hash32 list \<Rightarrow> nat \<Rightarrow> hash32 list" where
  "level kc ls d = map (node_of kc (leaf_at ls) d) [0..<level_size (length ls) d]"

lemma generateZeroHashes_eq:
  "generateZeroHashes kc hgt = map (zero_node kc) [0..<unat hgt + 1]"
proof -
  have "fold (\<lambda>i zs. zs @ [Hash kc [zs ! (i - 1), zs ! (i - 1)]]) [1..<n + 1] [zero_hash]
      = map (zero_node kc) [0..<n + 1]" for n
    by (induction n) (auto simp: nth_append)
  then show ?thesis by (simp add: generateZeroHashes_def)
qed

lemma level_size_le_iff: "0 < k \<Longrightarrow> level_size n d \<le> k \<longleftrightarrow> n \<le> k * 2 ^ d"
proof (induction d arbitrary: k)
  case 0
  then show ?case by auto
next
  case (Suc d)
  have "level_size n (Suc d) \<le> k \<longleftrightarrow> level_size n d \<le> 2 * k"
    by (simp, presburger)
  also have "\<dots> \<longleftrightarrow> n \<le> k * 2 ^ Suc d"
    using Suc.IH [of "2 * k"] Suc.prems by (simp add: mult.assoc mult.left_commute)
  finally show ?case .
qed

lemma level_size_pos [simp]: "0 < level_size n d"
  by (induction d) auto

lemma level_size_eq_1_iff: "level_size n d = Suc 0 \<longleftrightarrow> n \<le> 2 ^ d"
  using level_size_le_iff [of 1 n d] level_size_pos [of n d] by linarith

lemma level_size_le_length: "level_size n d \<le> max 1 n"
proof (induction d)
  case (Suc d)
  have "level_size n (Suc d) \<le> level_size n d"
    using level_size_pos [of n d] by simp
  with Suc.IH show ?case by linarith
qed simp

lemma node_beyond_level: "level_size (length ls) d \<le> i \<Longrightarrow> node_of kc (leaf_at ls) d i = zero_node kc d"
proof (induction d arbitrary: i)
  case 0
  then show ?case by (simp add: leaf_at_def)
next
  case (Suc d)
  then have "level_size (length ls) d \<le> 2 * i" by simp
  then show ?case using Suc.IH by simp
qed

lemma node_of_cong:
  assumes "\<And>j. i * 2 ^ d \<le> j \<Longrightarrow> j < (i + 1) * 2 ^ d \<Longrightarrow> f j = g j"
  shows "node_of kc f d i = node_of kc g d i"
  using assms
proof (induction d arbitrary: i)
  case 0
  then show ?case by simp
next
  case (Suc d)
  have "node_of kc f d (2 * i) = node_of kc g d (2 * i)"
    by (rule Suc.IH, rule Suc.prems) (auto simp: algebra_simps)
  moreover have "node_of kc f d (2 * i + 1) = node_of kc g d (2 * i + 1)"
    by (rule Suc.IH, rule Suc.prems) (auto simp: algebra_simps)
  ultimately show ?case by simp
qed

subsection \<open>One level of the loops\<close>

lemma buildIntermediate_even:
  "even (length xs) \<Longrightarrow> \<exists>ns hs. buildIntermediate kc xs = Inr (ns, hs) \<and> map hd ns = hs \<and> [] \<notin> set ns
     \<and> length hs = length xs div 2 \<and> (\<forall>j < length xs div 2. hs ! j = Hash kc [xs ! (2 * j), xs ! (2 * j + 1)])"
proof (induction kc xs rule: buildIntermediate.induct)
  case (3 kc left right leaves)
  then obtain ns hs where b: "buildIntermediate kc leaves = Inr (ns, hs)" "map hd ns = hs" "[] \<notin> set ns"
      "length hs = length leaves div 2"
      "\<And>j. j < length leaves div 2 \<Longrightarrow> hs ! j = Hash kc [leaves ! (2 * j), leaves ! (2 * j + 1)]"
    by auto
  have "(Hash kc [left, right] # hs) ! j
      = Hash kc [(left # right # leaves) ! (2 * j), (left # right # leaves) ! (2 * j + 1)]"
    if "j < length (left # right # leaves) div 2" for j
    using that b(5) by (cases j) auto
  with b show ?case
    by (auto simp: Let_def)
qed auto

text \<open>The level \<open>d\<close> of the tree padded to an even number of nodes.\<close>

definition padded_level :: "(bytes \<Rightarrow> bytes) \<Rightarrow> hash32 list \<Rightarrow> nat \<Rightarrow> hash32 list" where
  "padded_level kc ls d = map (node_of kc (leaf_at ls) d) [0..<2 * level_size (length ls) (Suc d)]"

lemma length_level [simp]: "length (level kc ls d) = level_size (length ls) d"
  by (simp add: level_def)

lemma length_padded_level [simp]: "length (padded_level kc ls d) = 2 * level_size (length ls) (Suc d)"
  by (simp add: padded_level_def)

lemma padLevel_level:
  assumes "d < length zs" "zs ! d = zero_node kc d"
  shows "padLevel zs d (level kc ls d) = Inr (padded_level kc ls d)"
proof (cases "even (level_size (length ls) d)")
  case True
  then have "2 * ((level_size (length ls) d + 1) div 2) = level_size (length ls) d" by presburger
  with True show ?thesis by (simp add: padLevel_def padded_level_def level_def even_iff_mod_2_eq_zero)
next
  case False
  then have sz: "2 * level_size (length ls) (Suc d) = Suc (level_size (length ls) d)"
    by simp
  have "padded_level kc ls d = level kc ls d @ [zero_node kc d]"
    unfolding padded_level_def sz by (simp add: level_def node_beyond_level)
  with False assms show ?thesis by (simp add: padLevel_def odd_iff_mod_2_eq_one)
qed

lemma buildIntermediate_level:
  "\<exists>ns. buildIntermediate kc (padded_level kc ls d) = Inr (ns, level kc ls (Suc d))
     \<and> map hd ns = level kc ls (Suc d) \<and> [] \<notin> set ns"
proof -
  let ?xs = "padded_level kc ls d"
  obtain ns hs where b: "buildIntermediate kc ?xs = Inr (ns, hs)" "map hd ns = hs" "[] \<notin> set ns"
      "length hs = length ?xs div 2"
      "\<And>j. j < length ?xs div 2 \<Longrightarrow> hs ! j = Hash kc [?xs ! (2 * j), ?xs ! (2 * j + 1)]"
    using buildIntermediate_even [of ?xs kc] by auto
  have "hs = level kc ls (Suc d)"
  proof (rule nth_equalityI)
    fix j
    assume "j < length hs"
    then have j: "j < level_size (length ls) (Suc d)" using b(4) by simp
    then show "hs ! j = level kc ls (Suc d) ! j"
      using b(5) [of j] by (simp add: level_def padded_level_def)
  qed (simp add: b)
  with b(1-3) show ?thesis by auto
qed

lemma orZeroLeaf_level:
  assumes "0 < length zs" "zs ! 0 = zero_hash"
  shows "orZeroLeaf zs ls = Inr (level kc ls 0)"
proof (cases "ls = []")
  case False
  then have "level kc ls 0 = ls"
    by (intro nth_equalityI) (auto simp: level_def leaf_at_def max_def Suc_le_eq)
  with False show ?thesis by (simp add: orZeroLeaf_def)
qed (use assms in \<open>simp add: orZeroLeaf_def level_def leaf_at_def\<close>)

subsection \<open>Building the root\<close>

lemma buildRootLoop_level:
  assumes zs: "\<And>d. d < hgt \<Longrightarrow> d < length zs \<and> zs ! d = zero_node kc d"
    and "h \<le> hgt" and "h < hgt \<or> map hd ns = level kc ls hgt \<and> [] \<notin> set ns"
  shows "\<exists>ns'. buildRootLoop kc zs hgt h ns (level kc ls h) = Inr ns'
    \<and> map hd ns' = level kc ls hgt \<and> [] \<notin> set ns'"
  using assms(2,3)
proof (induction "hgt - h" arbitrary: h ns)
  case 0
  then show ?case by (simp add: buildRootLoop.simps)
next
  case (Suc k)
  then have h: "h < hgt" "Suc h \<le> hgt" "k = hgt - Suc h" by auto
  obtain ns1 where ns1: "buildIntermediate kc (padded_level kc ls h) = Inr (ns1, level kc ls (Suc h))"
      "map hd ns1 = level kc ls (Suc h)" "[] \<notin> set ns1"
    using buildIntermediate_level by blast
  have c: "Suc h < hgt \<or> map hd ns1 = level kc ls hgt \<and> [] \<notin> set ns1"
    using ns1 h by (metis le_neq_implies_less)
  show ?case
    using Suc.hyps(1) [OF h(3) h(2) c] h ns1 zs [OF h(1)]
    by (subst buildRootLoop.simps) (simp add: padLevel_level)
qed

lemma firstRoot_level:
  assumes "map hd ns = level kc ls hgt" "[] \<notin> set ns"
  shows "firstRoot ns = (if length ls \<le> 2 ^ hgt then Inr (merkle_root kc hgt ls) else Inl MoreThanOneRoot)"
proof -
  have len: "length ns = level_size (length ls) hgt"
    using assms(1) by (metis length_level length_map)
  show ?thesis
  proof (cases "length ls \<le> 2 ^ hgt")
    case True
    then have one: "level_size (length ls) hgt = Suc 0" by (simp add: level_size_eq_1_iff)
    with len obtain n where n: "ns = [n]" by (auto simp: length_Suc_conv)
    with assms one True show ?thesis
      by (cases n) (simp_all add: firstRoot_def level_def merkle_root_def)
  next
    case False
    then show ?thesis
      using len by (simp add: firstRoot_def level_size_eq_1_iff)
  qed
qed

definition zero_hashes_ok :: "(bytes \<Rightarrow> bytes) \<Rightarrow> L1InfoTree \<Rightarrow> bool" where
  "zero_hashes_ok kc mt \<longleftrightarrow> 0 < height mt \<and> zeroHashes mt = map (zero_node kc) [0..<unat (height mt) + 1]"

lemma zero_hashes_nth:
  assumes "zero_hashes_ok kc mt" "d \<le> unat (height mt)"
  shows "d < length (zeroHashes mt) \<and> zeroHashes mt ! d = zero_node kc d"
  using assms by (auto simp: zero_hashes_ok_def simp del: upt_Suc)

lemma BuildL1InfoRoot_eq:
  assumes "zero_hashes_ok kc mt"
  shows "BuildL1InfoRoot kc mt ls =
    (if length ls \<le> 2 ^ unat (height mt) then Inr (merkle_root kc (unat (height mt)) ls)
     else Inl MoreThanOneRoot)"
proof -
  let ?h = "unat (height mt)"
  have h: "0 < ?h" using assms by (simp add: zero_hashes_ok_def word_greater_zero_iff unat_gt_0)
  obtain ns where "buildRootLoop kc (zeroHashes mt) ?h 0 [] (level kc ls 0) = Inr ns"
      "map hd ns = level kc ls ?h" "[] \<notin> set ns"
    using buildRootLoop_level [of ?h "zeroHashes mt" kc 0 "[]" ls] zero_hashes_nth [OF assms] h by auto
  then show ?thesis
    using orZeroLeaf_level [of "zeroHashes mt" ls kc] zero_hashes_nth [OF assms, of 0] firstRoot_level
    by (simp add: BuildL1InfoRoot_def)
qed

subsection \<open>Merkle proofs\<close>

definition sibling_index :: "nat \<Rightarrow> nat" where
  "sibling_index j = (if odd j then j - 1 else j + 1)"

text \<open>The siblings on the path from leaf \<open>i\<close> to the root of a tree of height \<open>d\<close>.\<close>

definition path_siblings :: "(bytes \<Rightarrow> bytes) \<Rightarrow> hash32 list \<Rightarrow> nat \<Rightarrow> nat \<Rightarrow> hash32 list" where
  "path_siblings kc ls d i = map (\<lambda>h. node_of kc (leaf_at ls) h (sibling_index (i div 2 ^ h))) [0..<d]"

lemma siblingAt_level:
  assumes zs: "h < length zs" "zs ! h = zero_node kc h"
    and small: "2 * level_size (length ls) (Suc h) < 2 ^ 32"
  shows "siblingAt zs h index (padded_level kc ls h)
    = Inr (node_of kc (leaf_at ls) h (sibling_index (unat index)))"
proof -
  let ?L = "2 * level_size (length ls) (Suc h)" and ?i = "unat index"
  have ge: "index \<ge> of_nat (length (padded_level kc ls h)) \<longleftrightarrow> ?L \<le> ?i"
    using small by (subst le_of_nat_iff) auto
  have beyond: "node_of kc (leaf_at ls) h j = zero_node kc h" if "?L \<le> j" for j
    by (rule node_beyond_level) (use that in simp)
  consider (out) "?L \<le> ?i" | (right) "?i < ?L" "odd ?i" | (left) "?i < ?L" "even ?i" by linarith
  then show ?thesis
  proof cases
    case out
    then have "?L \<le> sibling_index ?i" by (auto simp: sibling_index_def elim!: oddE)
    with out ge zs beyond show ?thesis by (simp add: siblingAt_def del: length_padded_level)
  next
    case right
    then have "unat (index - 1) = ?i - 1" by (intro unat_minus_one_pos) (auto simp: odd_pos)
    with right ge show ?thesis
      by (simp add: siblingAt_def mod_2_eq_1_iff sibling_index_def padded_level_def
          del: length_padded_level level_size.simps)
  next
    case left
    then have lt: "?i + 1 < ?L" by (auto elim!: evenE)
    then have "unat (index + 1) = ?i + 1" using small by (intro unat_plus_one) simp
    with left lt ge show ?thesis
      by (simp add: siblingAt_def mod_2_eq_1_iff sibling_index_def padded_level_def
          del: length_padded_level level_size.simps)
  qed
qed

lemma merkleProofLoop_level:
  assumes zs: "\<And>d. d < hgt \<Longrightarrow> d < length zs \<and> zs ! d = zero_node kc d"
    and small: "\<And>d. d < hgt \<Longrightarrow> 2 * level_size (length ls) (Suc d) < 2 ^ 32"
    and "h \<le> hgt" and "h < hgt \<or> map hd ns = level kc ls hgt \<and> [] \<notin> set ns"
    and "unat index = i div 2 ^ h"
  shows "\<exists>ns'. merkleProofLoop kc zs hgt h index (path_siblings kc ls h i) ns (level kc ls h)
      = Inr (path_siblings kc ls hgt i, ns') \<and> map hd ns' = level kc ls hgt \<and> [] \<notin> set ns'"
  using assms(3-5)
proof (induction "hgt - h" arbitrary: h ns index)
  case 0
  then show ?case by (simp add: merkleProofLoop.simps)
next
  case (Suc k)
  then have h: "h < hgt" "Suc h \<le> hgt" "k = hgt - Suc h" by auto
  obtain ns1 where ns1: "buildIntermediate kc (padded_level kc ls h) = Inr (ns1, level kc ls (Suc h))"
      "map hd ns1 = level kc ls (Suc h)" "[] \<notin> set ns1"
    using buildIntermediate_level by blast
  have c: "Suc h < hgt \<or> map hd ns1 = level kc ls hgt \<and> [] \<notin> set ns1"
    using ns1 h by (metis le_neq_implies_less)
  have ix: "unat (index div 2) = i div 2 ^ Suc h"
    using Suc.prems(3) by (simp add: unat_div div_pow_div_2)
  have sib: "siblingAt zs h index (padded_level kc ls h)
      = Inr (node_of kc (leaf_at ls) h (sibling_index (i div 2 ^ h)))"
    using siblingAt_level [of h zs kc ls index] zs [OF h(1)] small [OF h(1)] Suc.prems(3) by simp
  have path: "path_siblings kc ls h i @ [node_of kc (leaf_at ls) h (sibling_index (i div 2 ^ h))]
      = path_siblings kc ls (Suc h) i"
    by (simp add: path_siblings_def)
  show ?case
    using Suc.hyps(1) [OF h(3) h(2) c ix] h ns1 zs [OF h(1)]
    by (subst merkleProofLoop.simps) (simp add: padLevel_level sib path)
qed

lemma level_small:
  assumes "length ls < 2 ^ 32 - 1"
  shows "2 * level_size (length ls) (Suc d) < 2 ^ 32"
  using level_size_le_length [of "length ls" d] assms by simp

lemma ComputeMerkleProof_eq:
  assumes ok: "zero_hashes_ok kc mt" and len: "length ls \<le> 2 ^ unat (height mt)" "length ls < 2 ^ 32 - 1"
  shows "ComputeMerkleProof kc mt index ls =
    Inr (path_siblings kc ls (unat (height mt)) (unat index), merkle_root kc (unat (height mt)) ls)"
proof -
  let ?h = "unat (height mt)"
  have h: "0 < ?h" using ok by (simp add: zero_hashes_ok_def word_greater_zero_iff unat_gt_0)
  obtain ns where "merkleProofLoop kc (zeroHashes mt) ?h 0 index [] [] (level kc ls 0)
        = Inr (path_siblings kc ls ?h (unat index), ns)"
      "map hd ns = level kc ls ?h" "[] \<notin> set ns"
    using merkleProofLoop_level [of ?h "zeroHashes mt" kc ls 0 "[]" index "unat index"]
      zero_hashes_nth [OF ok] level_small [OF len(2)] h by (auto simp: path_siblings_def)
  then show ?thesis
    using orZeroLeaf_level [of "zeroHashes mt" ls kc] zero_hashes_nth [OF ok, of 0]
      firstRoot_level [of ns kc ls ?h] len
    by (simp add: ComputeMerkleProof_def)
qed

text \<open>The verification of a Merkle proof, as the rollup contracts and the prover do it.\<close>

fun verify_path :: "(bytes \<Rightarrow> bytes) \<Rightarrow> nat \<Rightarrow> hash32 \<Rightarrow> hash32 list \<Rightarrow> hash32" where
  "verify_path kc i cur [] = cur"
| "verify_path kc i cur (s # sibs) =
     verify_path kc (i div 2) (if odd i then Hash kc [s, cur] else Hash kc [cur, s]) sibs"

lemma node_of_sibling:
  "node_of kc f (Suc d) (i div 2) =
    (if odd i then Hash kc [node_of kc f d (sibling_index i), node_of kc f d i]
     else Hash kc [node_of kc f d i, node_of kc f d (sibling_index i)])"
  by (auto simp: sibling_index_def elim!: evenE oddE)

lemma verify_path_segment:
  "verify_path kc (i div 2 ^ h) (node_of kc f h (i div 2 ^ h))
     (map (\<lambda>d. node_of kc f d (sibling_index (i div 2 ^ d))) [h..<h + n])
   = node_of kc f (h + n) (i div 2 ^ (h + n))"
proof (induction n arbitrary: h)
  case (Suc n)
  have "[h..<h + Suc n] = h # [Suc h..<Suc h + n]"
    by (simp add: upt_conv_Cons)
  moreover have "i div 2 ^ h div 2 = i div 2 ^ Suc h"
    by (rule div_pow_div_2)
  ultimately show ?case
    using Suc.IH [of "Suc h"] node_of_sibling [of kc f h "i div 2 ^ h"] by (simp del: upt_Suc)
qed simp

lemma verify_path_siblings:
  assumes "i < 2 ^ d"
  shows "verify_path kc i (leaf_at ls i) (path_siblings kc ls d i) = merkle_root kc d ls"
  using verify_path_segment [of kc i 0 "leaf_at ls" d] assms
  by (simp add: path_siblings_def merkle_root_def)

subsection \<open>Adding a leaf\<close>

definition frontier_ok :: "(bytes \<Rightarrow> bytes) \<Rightarrow> hash32 list \<Rightarrow> nat \<Rightarrow> hash32 list \<Rightarrow> bool" where
  "frontier_ok kc ls hgt sibs \<longleftrightarrow> length sibs = hgt \<and>
     (\<forall>h < hgt. odd (length ls div 2 ^ h) \<longrightarrow>
        sibs ! h = node_of kc (leaf_at ls) h (length ls div 2 ^ h - 1))"

lemma leaf_at_append: "j < length ls \<Longrightarrow> leaf_at (ls @ xs) j = leaf_at ls j"
  by (simp add: leaf_at_def nth_append)

lemma node_left_of_new_leaf:
  assumes "odd (length ls div 2 ^ h)"
  shows "node_of kc (leaf_at (ls @ [leaf])) h (length ls div 2 ^ h - 1)
    = node_of kc (leaf_at ls) h (length ls div 2 ^ h - 1)"
proof (rule node_of_cong)
  fix j
  assume "j < (length ls div 2 ^ h - 1 + 1) * 2 ^ h"
  also have "\<dots> = length ls div 2 ^ h * 2 ^ h"
    using assms by (simp add: odd_pos)
  also have "\<dots> \<le> length ls" by simp
  finally show "leaf_at (ls @ [leaf]) j = leaf_at ls j" by (rule leaf_at_append)
qed

lemma node_right_of_new_leaf:
  "node_of kc (leaf_at (ls @ [leaf])) h (length ls div 2 ^ h + 1) = zero_node kc h"
proof (rule node_beyond_level)
  have "length ls < (length ls div 2 ^ h + 1) * 2 ^ h"
    using dividend_less_div_times [of "2 ^ h" "length ls"] by simp
  then show "level_size (length (ls @ [leaf])) h \<le> length ls div 2 ^ h + 1"
    by (subst level_size_le_iff) auto
qed

lemma addLeafLoop_correct:
  assumes zs: "\<And>d. d < hgt \<Longrightarrow> d < length zs \<and> zs ! d = zero_node kc d"
    and front: "frontier_ok kc ls hgt orig" and index: "unat index = length ls"
    and "h \<le> hgt" and "cur = node_of kc (leaf_at (ls @ [leaf])) h (length ls div 2 ^ h)"
    and "filled \<longleftrightarrow> 2 ^ h dvd Suc (length ls)" and "length sibs = hgt"
    and "\<And>k. h \<le> k \<Longrightarrow> k < hgt \<Longrightarrow> sibs ! k = orig ! k"
    and "\<And>k. k < h \<Longrightarrow> odd (Suc (length ls) div 2 ^ k) \<Longrightarrow>
      sibs ! k = node_of kc (leaf_at (ls @ [leaf])) k (Suc (length ls) div 2 ^ k - 1)"
  shows "\<exists>sibs'. addLeafLoop kc zs hgt index h filled cur sibs
      = Inr (node_of kc (leaf_at (ls @ [leaf])) hgt (length ls div 2 ^ hgt), sibs')
    \<and> frontier_ok kc (ls @ [leaf]) hgt sibs'"
  using assms(4-)
proof (induction "hgt - h" arbitrary: h filled cur sibs)
  case 0
  then show ?case by (simp add: addLeafLoop.simps frontier_ok_def)
next
  case (Suc k)
  let ?n = "length ls" and ?f = "leaf_at (ls @ [leaf])"
  from Suc have h: "h < hgt" "Suc h \<le> hgt" "k = hgt - Suc h" by auto
  have bit: "index AND push_bit h 1 > 0 \<longleftrightarrow> odd (?n div 2 ^ h)"
    using and_mask_bit_iff [of index h] index by (simp add: word_greater_zero_iff)
  have up: "?n div 2 ^ Suc h = ?n div 2 ^ h div 2" by (rule div_pow_div_2 [symmetric])
  show ?case
  proof (cases "odd (?n div 2 ^ h)")
    case True
    have sib: "sibs ! h = node_of kc ?f h (?n div 2 ^ h - 1)"
      using Suc.prems(5) [of h] front h True node_left_of_new_leaf [OF True]
      by (simp add: frontier_ok_def)
    have cur: "Hash kc [sibs ! h, cur] = node_of kc ?f (Suc h) (?n div 2 ^ Suc h)"
      using node_of_sibling [of kc ?f h "?n div 2 ^ h"] True Suc.prems(2) sib
      by (simp add: up sibling_index_def del: node_of.simps power_Suc)
    have filled: "filled \<longleftrightarrow> 2 ^ Suc h dvd Suc ?n"
      using True Suc.prems(3) by (simp add: pow_Suc_dvd_iff Suc_div_pow del: power_Suc)
    have low: "sibs ! j = node_of kc ?f j (Suc ?n div 2 ^ j - 1)"
      if "j < Suc h" "odd (Suc ?n div 2 ^ j)" for j
      using that Suc.prems(6) sib True by (cases "j = h") (auto simp: Suc_div_pow split: if_splits)
    show ?thesis
      using Suc.hyps(1) [OF h(3) h(2) cur filled Suc.prems(4) _ low] h True bit Suc.prems(4,5)
      by (subst addLeafLoop.simps) simp
  next
    case False
    let ?s = "if filled then sibs[h := cur] else sibs"
    have cur: "Hash kc [cur, zero_node kc h] = node_of kc ?f (Suc h) (?n div 2 ^ Suc h)"
      using node_of_sibling [of kc ?f h "?n div 2 ^ h"] False Suc.prems(2) node_right_of_new_leaf
      by (simp add: up sibling_index_def del: node_of.simps power_Suc)
    have filled: "False \<longleftrightarrow> 2 ^ Suc h dvd Suc ?n"
      using False by (simp add: pow_Suc_dvd_iff Suc_div_pow del: power_Suc)
    have low: "?s ! j = node_of kc ?f j (Suc ?n div 2 ^ j - 1)"
      if "j < Suc h" "odd (Suc ?n div 2 ^ j)" for j
      using that Suc.prems False h
      by (cases "j = h") (auto simp: Suc_div_pow nth_list_update split: if_splits)
    have len: "length ?s = hgt" using Suc.prems(4) by simp
    have high: "?s ! j = orig ! j" if "Suc h \<le> j" "j < hgt" for j
      using that Suc.prems(5) [of j] by simp
    show ?thesis
      using Suc.hyps(1) [OF h(3) h(2) cur filled len high low] h False bit Suc.prems(4) zs [OF h(1)]
      by (subst addLeafLoop.simps) (simp add: Let_def)
  qed
qed

subsection \<open>The tree invariant\<close>

text \<open>\<open>mt\<close> holds the leaves \<open>ls\<close>.\<close>

definition tree_ok :: "(bytes \<Rightarrow> bytes) \<Rightarrow> L1InfoTree \<Rightarrow> hash32 list \<Rightarrow> bool" where
  "tree_ok kc mt ls \<longleftrightarrow> zero_hashes_ok kc mt \<and> length ls \<le> 2 ^ unat (height mt)
     \<and> count mt = of_nat (length ls) \<and> currentRoot mt = merkle_root kc (unat (height mt)) ls
     \<and> frontier_ok kc ls (unat (height mt)) (siblings mt)"

lemma AddLeaf_tree_ok:
  assumes ok: "tree_ok kc mt ls"
    and room: "length ls < 2 ^ unat (height mt)" "length ls < 2 ^ 32"
  shows "\<exists>mt'. AddLeaf kc mt (of_nat (length ls)) leaf
      = Inr (mt', merkle_root kc (unat (height mt)) (ls @ [leaf]))
    \<and> tree_ok kc mt' (ls @ [leaf]) \<and> height mt' = height mt"
proof -
  let ?h = "unat (height mt)"
  from ok have z: "zero_hashes_ok kc mt" and f: "frontier_ok kc ls ?h (siblings mt)"
    and c: "count mt = of_nat (length ls)" by (auto simp: tree_ok_def)
  have idx: "unat (of_nat (length ls) :: uint32) = length ls"
    using room(2) by (simp add: unat_of_nat_less)
  obtain sibs where s: "addLeafLoop kc (zeroHashes mt) ?h (of_nat (length ls)) 0 True leaf (siblings mt)
      = Inr (node_of kc (leaf_at (ls @ [leaf])) ?h (length ls div 2 ^ ?h), sibs)"
    "frontier_ok kc (ls @ [leaf]) ?h sibs"
    using addLeafLoop_correct [of ?h "zeroHashes mt" kc ls "siblings mt" "of_nat (length ls)" 0 leaf leaf
        True "siblings mt"] zero_hashes_nth [OF z] f idx
    by (auto simp: leaf_at_def frontier_ok_def)
  have "length ls div 2 ^ ?h = 0" using room(1) by simp
  then show ?thesis
    using s c z room(1) by (auto simp: AddLeaf_def tree_ok_def merkle_root_def zero_hashes_ok_def add.commute)
qed

lemma zero_hashes_ok_new:
  "0 < hgt \<Longrightarrow> zero_hashes_ok kc \<lparr>height = hgt, zeroHashes = generateZeroHashes kc hgt,
     count = c, siblings = s, currentRoot = r\<rparr>"
  by (simp add: zero_hashes_ok_def generateZeroHashes_eq del: upt_Suc)

lemma frontier_ok_path_siblings: "frontier_ok kc ls d (path_siblings kc ls d (length ls))"
  by (simp add: frontier_ok_def path_siblings_def sibling_index_def)

lemma newTree_ok:
  assumes hgt: "0 < hgt" and len: "length ls \<le> 2 ^ unat hgt" "length ls < 2 ^ 32 - 1"
  shows "\<exists>mt. newTree kc hgt ls = Inr mt \<and> tree_ok kc mt ls \<and> height mt = hgt"
proof -
  let ?mt = "\<lparr>height = hgt, zeroHashes = generateZeroHashes kc hgt, count = of_nat (length ls),
    siblings = [], currentRoot = zero_hash\<rparr>"
  note z = zero_hashes_ok_new [OF hgt, of kc "of_nat (length ls)" "[]" zero_hash]
  have u: "unat (of_nat (length ls) :: uint32) = length ls"
    using len(2) by (simp add: unat_of_nat_less)
  have "\<exists>sibs. initSiblings kc ?mt ls = Inr (sibs, merkle_root kc (unat hgt) ls)
      \<and> frontier_ok kc ls (unat hgt) sibs"
  proof (cases "ls = []")
    case True
    then show ?thesis
      using BuildL1InfoRoot_eq [OF z, of ls] len
      by (simp add: initSiblings_def generateZeroHashes_eq frontier_ok_def del: upt_Suc)
  next
    case False
    then have "(of_nat (length ls) :: uint32) \<noteq> 0"
      using u by (metis length_0_conv unat_0)
    then show ?thesis
      using ComputeMerkleProof_eq [OF z, of ls "of_nat (length ls)"] len u frontier_ok_path_siblings
      by (simp add: initSiblings_def)
  qed
  then show ?thesis
    using zero_hashes_ok_new [OF hgt] len(1) by (auto simp: newTree_def tree_ok_def Let_def)
qed

section \<open>The interface of an incremental tree\<close>

text \<open>
  What a client of the tree relies on: a tree holds a list of leaves; it can be built from a list
  or extended by one leaf at the next index, and then reports the root that the specification
  gives for the leaves it holds.
\<close>

locale incremental_tree =
  fixes holds :: "'t \<Rightarrow> 'l list \<Rightarrow> bool"
    and build :: "'l list \<Rightarrow> 'e + 't"
    and add :: "'t \<Rightarrow> uint32 \<Rightarrow> 'l \<Rightarrow> 'e + 't \<times> 'r"
    and root :: "'t \<Rightarrow> 'r"
    and next_index :: "'t \<Rightarrow> uint32"
    and spec :: "'l list \<Rightarrow> 'r"
    and capacity :: nat
  assumes build_holds: "length ls < capacity \<Longrightarrow> \<exists>t. build ls = Inr t \<and> holds t ls"
    and add_holds: "holds t ls \<Longrightarrow> Suc (length ls) < capacity \<Longrightarrow>
      \<exists>t'. add t (of_nat (length ls)) l = Inr (t', spec (ls @ [l])) \<and> holds t' (ls @ [l])"
    and add_wrong_index: "i \<noteq> next_index t \<Longrightarrow> \<exists>e. add t i l = Inl e"
    and root_spec: "holds t ls \<Longrightarrow> root t = spec ls"
    and next_index_spec: "holds t ls \<Longrightarrow> next_index t = of_nat (length ls)"
begin

lemma add_at_next_index:
  assumes "holds t ls" "Suc (length ls) < capacity" "add t i l = Inr (t', r)"
  shows "i = of_nat (length ls) \<and> r = spec (ls @ [l]) \<and> holds t' (ls @ [l])"
  using add_holds [OF assms(1,2), of l] add_wrong_index [of i t l] next_index_spec [OF assms(1)] assms(3)
  by (cases "i = of_nat (length ls)") auto

lemma build_Inr_holds:
  assumes "build ls = Inr t" "length ls < capacity"
  shows "holds t ls"
  using build_holds [OF assms(2)] assms(1) by auto

text \<open>A tree that was extended and a tree that was rebuilt from all leaves report the same root.\<close>

lemma extended_root_eq_rebuilt:
  assumes "holds t (ls @ xs)" "length (ls @ xs) < capacity"
  shows "\<exists>t2. build (ls @ xs) = Inr t2 \<and> root t2 = root t \<and> next_index t2 = next_index t"
  using build_holds [OF assms(2)] root_spec next_index_spec assms(1) by metis

end

definition holds_leaves :: "(bytes \<Rightarrow> bytes) \<Rightarrow> uint8 \<Rightarrow> L1InfoTree \<Rightarrow> hash32 list \<Rightarrow> bool" where
  "holds_leaves kc hgt mt ls \<longleftrightarrow> tree_ok kc mt ls \<and> height mt = hgt"

definition tree_capacity :: "uint8 \<Rightarrow> nat" where
  "tree_capacity hgt = (if hgt = 0 then 0 else min (2 ^ unat hgt + 1) (2 ^ 32 - 1))"

lemma newTree_height_pos: "newTree kc hgt ls = Inr mt \<Longrightarrow> 0 < hgt \<and> height mt = hgt"
  by (auto simp: newTree_def Let_def initSiblings_def BuildL1InfoRoot_def ComputeMerkleProof_def
      buildRootLoop.simps [of _ _ 0] merkleProofLoop.simps [of _ _ 0] firstRoot_def word_greater_zero_iff
      split: sum.splits if_splits prod.splits)

lemma less_tree_capacity_iff:
  "n < tree_capacity hgt \<longleftrightarrow> 0 < hgt \<and> n \<le> 2 ^ unat hgt \<and> n < 2 ^ 32 - 1"
  by (auto simp: tree_capacity_def word_greater_zero_iff)

interpretation l1t: incremental_tree "holds_leaves kc hgt" "NewL1InfoTree kc hgt" "AddLeaf kc"
    currentRoot count "merkle_root kc (unat hgt)" "tree_capacity hgt" for kc hgt
proof (unfold_locales, goal_cases)
  case (1 ls)
  then show ?case
    using newTree_ok [of hgt ls kc] by (auto simp: NewL1InfoTree_def holds_leaves_def less_tree_capacity_iff)
next
  case (2 t ls l)
  then show ?case
    using AddLeaf_tree_ok [of kc t ls l] by (auto simp: holds_leaves_def less_tree_capacity_iff)
next
  case (3 i t l)
  then show ?case by (simp add: AddLeaf_def)
next
  case (4 t ls)
  then show ?case by (simp add: holds_leaves_def tree_ok_def)
next
  case (5 t ls)
  then show ?case by (simp add: holds_leaves_def tree_ok_def)
qed

lemma newTree_zeroHashes: "newTree kc hgt ls = Inr mt \<Longrightarrow> zeroHashes mt = generateZeroHashes kc hgt"
  by (auto simp: newTree_def Let_def split: sum.splits)

lemma NewL1InfoTree_zero_hashes_ok: "NewL1InfoTree kc hgt ls = Inr mt \<Longrightarrow> zero_hashes_ok kc mt"
  using newTree_height_pos [of kc hgt ls mt] newTree_zeroHashes [of kc hgt ls mt]
  by (simp add: NewL1InfoTree_def zero_hashes_ok_def generateZeroHashes_eq del: upt_Suc)

lemma NewL1InfoTree_height: "NewL1InfoTree kc hgt ls = Inr mt \<Longrightarrow> 0 < hgt \<and> height mt = hgt"
  unfolding NewL1InfoTree_def by (rule newTree_height_pos)

lemma addLeaves_holds:
  assumes "holds_leaves kc hgt mt ls" "length (ls @ xs) < tree_capacity hgt"
  shows "\<exists>mt'. addLeaves kc mt xs = Inr mt' \<and> holds_leaves kc hgt mt' (ls @ xs)"
  using assms
proof (induction xs arbitrary: mt ls)
  case (Cons x xs)
  have "count mt = of_nat (length ls)" by (rule l1t.next_index_spec [OF Cons.prems(1)])
  moreover obtain mt1 where "AddLeaf kc mt (of_nat (length ls)) x = Inr (mt1, merkle_root kc (unat hgt) (ls @ [x]))"
      "holds_leaves kc hgt mt1 (ls @ [x])"
    using l1t.add_holds [OF Cons.prems(1)] Cons.prems(2) by fastforce
  ultimately show ?case using Cons.IH [of mt1 "ls @ [x]"] Cons.prems(2) by simp
qed simp

section \<open>Properties\<close>

text \<open>
  C1: in a tree made by \<open>NewL1InfoTree\<close>, \<open>BuildL1InfoRoot\<close> returns the root of the complete binary
  Merkle tree of that height whose leaves are the given ones followed by zero hashes, and it
  fails exactly when the leaves do not fit the tree.
\<close>

theorem BuildL1InfoRoot_is_merkle_root:
  assumes "NewL1InfoTree kc hgt ls0 = Inr mt"
  shows "BuildL1InfoRoot kc mt ls =
    (if length ls \<le> 2 ^ unat hgt then Inr (merkle_root kc (unat hgt) ls) else Inl MoreThanOneRoot)"
  using BuildL1InfoRoot_eq [OF NewL1InfoTree_zero_hashes_ok [OF assms]] NewL1InfoTree_height [OF assms]
  by simp

theorem BuildL1InfoRoot_is_merkle_root_witness:
  "\<exists>mt. NewL1InfoTree (\<lambda>b. b) 1 [] = Inr mt
     \<and> BuildL1InfoRoot (\<lambda>b. b) mt [[1], [2], [3]] = Inl MoreThanOneRoot
     \<and> BuildL1InfoRoot (\<lambda>b. b) mt [[1], [2]] = Inr (copy_into 32 [1, 2])"
proof -
  obtain mt where mt: "NewL1InfoTree (\<lambda>b. b) 1 [] = Inr mt"
    using l1t.build_holds [of "[]" 1 "\<lambda>b. b"] by (auto simp: tree_capacity_def)
  then show ?thesis
    using BuildL1InfoRoot_is_merkle_root [OF mt, of "[[1], [2], [3]]"]
      BuildL1InfoRoot_is_merkle_root [OF mt, of "[[1], [2]]"]
    by (simp add: merkle_root_def leaf_at_def Hash_def)
qed

text \<open>
  C2: adding leaves one at a time to a tree gives the same root as rebuilding it: after any number
  of \<open>AddLeaf\<close> calls at the expected index the tree reports the root that \<open>BuildL1InfoRoot\<close> and a
  fresh \<open>NewL1InfoTree\<close> compute from all the leaves, and its count is their number.
\<close>

theorem AddLeaf_eq_rebuild:
  assumes new: "NewL1InfoTree kc hgt ls = Inr mt"
    and fits: "length (ls @ xs) \<le> 2 ^ unat hgt" "length (ls @ xs) < 2 ^ 32 - 1"
  shows "\<exists>mt' mt2. addLeaves kc mt xs = Inr mt' \<and> NewL1InfoTree kc hgt (ls @ xs) = Inr mt2
    \<and> BuildL1InfoRoot kc mt (ls @ xs) = Inr (currentRoot mt')
    \<and> currentRoot mt2 = currentRoot mt' \<and> count mt2 = count mt'
    \<and> unat (count mt') = length (ls @ xs)"
proof -
  have cap: "length (ls @ xs) < tree_capacity hgt"
    using fits NewL1InfoTree_height [OF new] by (simp add: less_tree_capacity_iff)
  have "holds_leaves kc hgt mt ls"
    using l1t.build_Inr_holds [OF new] cap by simp
  then obtain mt' where mt': "addLeaves kc mt xs = Inr mt'" "holds_leaves kc hgt mt' (ls @ xs)"
    using addLeaves_holds cap by blast
  obtain mt2 where mt2: "NewL1InfoTree kc hgt (ls @ xs) = Inr mt2"
      "currentRoot mt2 = currentRoot mt'" "count mt2 = count mt'"
    using l1t.extended_root_eq_rebuilt [OF mt'(2) cap] by blast
  have "BuildL1InfoRoot kc mt (ls @ xs) = Inr (currentRoot mt')"
    using BuildL1InfoRoot_eq [OF NewL1InfoTree_zero_hashes_ok [OF new], of "ls @ xs"]
      NewL1InfoTree_height [OF new] fits(1) l1t.root_spec [OF mt'(2)] by simp
  moreover have "unat (count mt') = length (ls @ xs)"
    using l1t.next_index_spec [OF mt'(2)] fits(2) by (simp add: unat_of_nat_less del: of_nat_add)
  ultimately show ?thesis using mt'(1) mt2 by blast
qed

theorem AddLeaf_eq_rebuild_witness:
  "\<exists>mt mt' mt2. NewL1InfoTree (\<lambda>b. b) 2 [[7]] = Inr mt \<and> addLeaves (\<lambda>b. b) mt [[8], [9]] = Inr mt'
     \<and> NewL1InfoTree (\<lambda>b. b) 2 [[7], [8], [9]] = Inr mt2 \<and> currentRoot mt2 = currentRoot mt'
     \<and> unat (count mt') = 3"
proof -
  obtain mt where mt: "NewL1InfoTree (\<lambda>b. b) 2 [[7]] = Inr mt"
    using l1t.build_holds [of "[[7]]" 2 "\<lambda>b. b"] by (auto simp: tree_capacity_def)
  then show ?thesis
    using AddLeaf_eq_rebuild [OF mt, of "[[8], [9]]"] by auto
qed

text \<open>
  C3: the siblings that \<open>ComputeMerkleProof\<close> returns for a leaf are a valid Merkle proof: hashing
  the leaf with them along its index gives the root that it returns, which is the root of
  \<open>BuildL1InfoRoot\<close>, and there is one sibling per level.
\<close>

theorem ComputeMerkleProof_verifies:
  assumes new: "NewL1InfoTree kc hgt ls0 = Inr mt"
    and i: "i < length ls" and fits: "length ls \<le> 2 ^ unat hgt" "length ls < 2 ^ 32 - 1"
  shows "\<exists>sibs r. ComputeMerkleProof kc mt (of_nat i) ls = Inr (sibs, r)
    \<and> length sibs = unat hgt \<and> verify_path kc i (ls ! i) sibs = r
    \<and> BuildL1InfoRoot kc mt ls = Inr r"
proof -
  note z = NewL1InfoTree_zero_hashes_ok [OF new] and h = NewL1InfoTree_height [OF new]
  have u: "unat (of_nat i :: uint32) = i"
    using i fits(2) by (simp add: unat_of_nat_less)
  have "verify_path kc i (ls ! i) (path_siblings kc ls (unat hgt) i) = merkle_root kc (unat hgt) ls"
    using verify_path_siblings [of i "unat hgt" kc ls] i fits(1) by (simp add: leaf_at_def)
  then show ?thesis
    using ComputeMerkleProof_eq [OF z, of ls "of_nat i"] BuildL1InfoRoot_eq [OF z, of ls] h fits u
    by (simp add: path_siblings_def)
qed

theorem ComputeMerkleProof_verifies_witness:
  "\<exists>mt sibs r. NewL1InfoTree (\<lambda>b. b) 2 [] = Inr mt
     \<and> ComputeMerkleProof (\<lambda>b. b) mt 1 [[7], [8], [9]] = Inr (sibs, r)
     \<and> length sibs = 2 \<and> verify_path (\<lambda>b. b) 1 [8] sibs = r"
proof -
  obtain mt where mt: "NewL1InfoTree (\<lambda>b. b) 2 [] = Inr mt"
    using l1t.build_holds [of "[]" 2 "\<lambda>b. b"] by (auto simp: tree_capacity_def)
  then show ?thesis
    using ComputeMerkleProof_verifies [OF mt, of 1 "[[7], [8], [9]]"] by auto
qed

end
