(* ===== verification/StateL1InfoTree.thy ===== *)
theory StateL1InfoTree
  imports L1InfoTree
begin

text \<open>
  The L1 info tree of the node's state (\<open>src/state/l1infotree.go\<close>, the cache handling of
  \<open>src/state/state.go\<close> and \<open>src/state/reset.go\<close>) over the exit root table of the state database
  (\<open>src/state/pgstatestorage/l1infotree.go\<close>).  The state keeps a lazily built tree as a cache of the
  table; the theory shows that the cache always agrees with the table, that every stored root is
  the Merkle root of the leaves up to it, and that a rolled back transaction leaves no stale cache.
\<close>

section \<open>Definitions\<close>

subsection \<open>Leaves and storage entries\<close>

text \<open>Go embeds one struct in the next; the records extend each other.  Times are Unix seconds.\<close>

record GlobalExitRoot =
  BlockNumber :: uint64
  Timestamp :: int
  MainnetExitRoot :: hash32
  RollupExitRoot :: hash32
  gerGlobalExitRoot :: hash32

record L1InfoTreeLeaf = GlobalExitRoot +
  PreviousBlockHash :: hash32

record L1InfoTreeExitRootStorageEntry = L1InfoTreeLeaf +
  L1InfoTreeRoot :: hash32
  L1InfoTreeIndex :: uint32

definition leafHash :: "(bytes list \<Rightarrow> bytes) \<Rightarrow> 'a L1InfoTreeLeaf_scheme \<Rightarrow> hash32" where
  "leafHash kc2 l = HashLeafData kc2 (gerGlobalExitRoot l) (PreviousBlockHash l) (of_int (Timestamp l))"

datatype state_error =
    ErrNotFound
  | ErrDB
  | ErrUniqueViolation
  | ErrCastDbTx
  | NilPointerPanic
  | ErrTree l1_error

subsection \<open>The exit root table\<close>

text \<open>
  A row of \<open>state.exit_root\<close>.  Rows without an index come from the forks before the tree; the
  column is \<open>UNIQUE\<close>.  The flags say which kind of query the database fails.
\<close>

record exit_root_row =
  row_entry :: L1InfoTreeExitRootStorageEntry
  l1_info_tree_index :: "uint32 option"

record exit_root_table =
  rows :: "exit_root_row list"
  insert_fails :: bool
  select_fails :: bool

definition AddL1InfoRootToExitRoot ::
  "exit_root_table \<Rightarrow> L1InfoTreeExitRootStorageEntry \<Rightarrow> state_error + exit_root_table" where
  "AddL1InfoRootToExitRoot db exitRoot =
     (if insert_fails db then Inl ErrDB
      else if \<exists>r \<in> set (rows db). l1_info_tree_index r = Some (L1InfoTreeIndex exitRoot)
      then Inl ErrUniqueViolation
      else Inr (db\<lparr>rows := rows db @
        [\<lparr>row_entry = exitRoot, l1_info_tree_index = Some (L1InfoTreeIndex exitRoot)\<rparr>]\<rparr>))"

definition indexed_rows :: "exit_root_table \<Rightarrow> exit_root_row list" where
  "indexed_rows db = filter (\<lambda>r. l1_info_tree_index r \<noteq> None) (rows db)"

definition GetAllL1InfoRootEntries ::
  "exit_root_table \<Rightarrow> state_error + L1InfoTreeExitRootStorageEntry list" where
  "GetAllL1InfoRootEntries db =
     (if select_fails db then Inl ErrDB
      else Inr (map row_entry (sort_key (\<lambda>r. the (l1_info_tree_index r)) (indexed_rows db))))"

definition GetLatestIndex :: "exit_root_table \<Rightarrow> state_error + uint32" where
  "GetLatestIndex db =
     (if select_fails db then Inl ErrDB
      else if indexed_rows db = [] then Inl ErrNotFound
      else Inr (Max (set (map (\<lambda>r. the (l1_info_tree_index r)) (indexed_rows db)))))"

subsection \<open>The state and its transactions\<close>

text \<open>
  \<open>db\<close> is what the queries of the open transaction see, \<open>committed\<close> what a rollback goes back to.
  \<open>dbTx\<close> is the transaction handed to an operation: none, a state transaction with its
  \<open>L1InfoTreeModified\<close> flag, or a database transaction that was not opened by the state.
\<close>

datatype db_tx = NoTx | StateTx bool | OtherTx

record l1_state =
  l1InfoTree :: "L1InfoTree option"
  db :: exit_root_table
  committed :: exit_root_table

definition SetL1InfoTreeModified :: "db_tx \<Rightarrow> db_tx" where
  "SetL1InfoTreeModified tx = (case tx of StateTx _ \<Rightarrow> StateTx True | _ \<Rightarrow> tx)"

definition buildL1InfoTreeCacheIfNeed ::
  "(bytes \<Rightarrow> bytes) \<Rightarrow> (bytes list \<Rightarrow> bytes) \<Rightarrow> l1_state \<Rightarrow> state_error + l1_state" where
  "buildL1InfoTreeCacheIfNeed kc kc2 s =
     (if l1InfoTree s \<noteq> None then Inr s
      else case GetAllL1InfoRootEntries (db s) of
        Inl e \<Rightarrow> Inl e
      | Inr allLeaves \<Rightarrow>
          (case ResetL1InfoTree kc (map (leafHash kc2) allLeaves) of
             Inl e \<Rightarrow> Inl (ErrTree e)
           | Inr mt \<Rightarrow> Inr (s\<lparr>l1InfoTree := Some mt\<rparr>)))"

text \<open>
  The result carries the state also on an error: the cache may have been built, or extended before
  the insert failed, and the transaction may have been marked.
\<close>

definition addLeafAt ::
  "(bytes \<Rightarrow> bytes) \<Rightarrow> (bytes list \<Rightarrow> bytes) \<Rightarrow> l1_state \<Rightarrow> L1InfoTreeLeaf \<Rightarrow> db_tx \<Rightarrow> uint32
     \<Rightarrow> l1_state \<times> db_tx \<times> (state_error + L1InfoTreeExitRootStorageEntry)" where
  "addLeafAt kc kc2 s leaf dbTx newIndex =
     (case buildL1InfoTreeCacheIfNeed kc kc2 s of
        Inl e \<Rightarrow> (s, dbTx, Inl e)
      | Inr s1 \<Rightarrow>
          (case l1InfoTree s1 of
             None \<Rightarrow> (s1, dbTx, Inl NilPointerPanic)
           | Some mt \<Rightarrow>
               (case AddLeaf kc mt newIndex (leafHash kc2 leaf) of
                  Inl e \<Rightarrow> (s1, dbTx, Inl (ErrTree e))
                | Inr (mt', root) \<Rightarrow>
                    (let s2 = s1\<lparr>l1InfoTree := Some mt'\<rparr>;
                         dbTx' = (if dbTx \<noteq> NoTx then SetL1InfoTreeModified dbTx else dbTx);
                         entry = L1InfoTreeLeaf.extend leaf
                           (L1InfoTreeExitRootStorageEntry.fields root newIndex)
                     in case AddL1InfoRootToExitRoot (db s2) entry of
                          Inl e \<Rightarrow> (s2, dbTx', Inl e)
                        | Inr db' \<Rightarrow> (s2\<lparr>db := db'\<rparr>, dbTx', Inr entry)))))"

definition AddL1InfoTreeLeaf ::
  "(bytes \<Rightarrow> bytes) \<Rightarrow> (bytes list \<Rightarrow> bytes) \<Rightarrow> l1_state \<Rightarrow> L1InfoTreeLeaf \<Rightarrow> db_tx
     \<Rightarrow> l1_state \<times> db_tx \<times> (state_error + L1InfoTreeExitRootStorageEntry)" where
  "AddL1InfoTreeLeaf kc kc2 s leaf dbTx =
     (if dbTx = OtherTx then (s, dbTx, Inl ErrCastDbTx)
      else case GetLatestIndex (db s) of
        Inl e \<Rightarrow> (if e \<noteq> ErrNotFound then (s, dbTx, Inl e) else addLeafAt kc kc2 s leaf dbTx 0)
      | Inr gerIndex \<Rightarrow> addLeafAt kc kc2 s leaf dbTx (gerIndex + 1))"

definition GetCurrentL1InfoRoot ::
  "(bytes \<Rightarrow> bytes) \<Rightarrow> (bytes list \<Rightarrow> bytes) \<Rightarrow> l1_state \<Rightarrow> l1_state \<times> (state_error + hash32)" where
  "GetCurrentL1InfoRoot kc kc2 s =
     (case buildL1InfoTreeCacheIfNeed kc kc2 s of
        Inl e \<Rightarrow> (s, Inl e)
      | Inr s1 \<Rightarrow>
          (case l1InfoTree s1 of
             None \<Rightarrow> (s1, Inl NilPointerPanic)
           | Some mt \<Rightarrow> (s1, Inr (fst (GetCurrentRootCountAndSiblings mt)))))"

definition stateResetL1InfoTree :: "l1_state \<Rightarrow> l1_state" where
  "stateResetL1InfoTree s = s\<lparr>l1InfoTree := None\<rparr>"

text \<open>Deleting the blocks above a number deletes their exit roots in cascade.\<close>

definition ResetToL1BlockNumber :: "exit_root_table \<Rightarrow> uint64 \<Rightarrow> state_error + exit_root_table" where
  "ResetToL1BlockNumber t blockNumber =
     (if insert_fails t then Inl ErrDB
      else Inr (t\<lparr>rows := filter (\<lambda>r. \<not> BlockNumber (row_entry r) > blockNumber) (rows t)\<rparr>))"

definition stateReset :: "l1_state \<Rightarrow> uint64 \<Rightarrow> l1_state \<times> (state_error + unit)" where
  "stateReset s blockNumber =
     (case ResetToL1BlockNumber (db s) blockNumber of
        Inl e \<Rightarrow> (s, Inl e)
      | Inr db' \<Rightarrow> (stateResetL1InfoTree (s\<lparr>db := db'\<rparr>), Inr ()))"

definition BeginStateTransaction :: "l1_state \<Rightarrow> l1_state \<times> db_tx" where
  "BeginStateTransaction s = (s\<lparr>committed := db s\<rparr>, StateTx False)"

definition Rollback :: "l1_state \<Rightarrow> db_tx \<Rightarrow> l1_state" where
  "Rollback s tx =
     (let s1 = (if tx = StateTx True then stateResetL1InfoTree s else s)
      in s1\<lparr>db := committed s1\<rparr>)"

section \<open>The interface of the entry store\<close>

text \<open>
  What the state relies on from the storage: the selected entries are the stored ones in index
  order, the latest index is the number of the last one, and an insert at the next index appends.
\<close>

locale entry_store =
  fixes entries :: "'db \<Rightarrow> 'a list"
    and valid :: "'db \<Rightarrow> bool"
    and select_all :: "'db \<Rightarrow> 'e + 'a list"
    and latest :: "'db \<Rightarrow> 'e + uint32"
    and insert :: "'db \<Rightarrow> 'a \<Rightarrow> 'e + 'db"
    and index_of :: "'a \<Rightarrow> uint32"
    and not_found :: 'e
    and limit :: nat
  assumes select_all: "valid s \<Longrightarrow> select_all s = Inr xs \<Longrightarrow> xs = entries s"
    and latest_found: "valid s \<Longrightarrow> latest s = Inr i \<Longrightarrow> i + 1 = of_nat (length (entries s))"
    and latest_none: "valid s \<Longrightarrow> latest s = Inl not_found \<Longrightarrow> entries s = []"
    and insert_next: "valid s \<Longrightarrow> index_of x = of_nat (length (entries s)) \<Longrightarrow>
      Suc (length (entries s)) < limit \<Longrightarrow> insert s x = Inr s' \<Longrightarrow>
      valid s' \<and> entries s' = entries s @ [x]"
begin

text \<open>The index a client computes for the next entry is the number of entries.\<close>

lemma next_index_is_length:
  assumes "valid s" "latest s = Inl not_found \<and> i = 0 \<or> latest s = Inr j \<and> i = j + 1"
  shows "i = of_nat (length (entries s))"
  using assms latest_found latest_none by auto

end

definition table_limit :: nat where
  "table_limit = 2 ^ 32 - 1"

definition table_entries :: "exit_root_table \<Rightarrow> L1InfoTreeExitRootStorageEntry list" where
  "table_entries t = map row_entry (indexed_rows t)"

definition table_valid :: "exit_root_table \<Rightarrow> bool" where
  "table_valid t \<longleftrightarrow> length (indexed_rows t) < table_limit
     \<and> map l1_info_tree_index (indexed_rows t) = map (\<lambda>i. Some (of_nat i)) [0..<length (indexed_rows t)]"

lemma length_table_entries [simp]: "length (table_entries t) = length (indexed_rows t)"
  by (simp add: table_entries_def)

lemma table_indices:
  assumes "table_valid t"
  shows "map (\<lambda>r. the (l1_info_tree_index r)) (indexed_rows t) = map of_nat [0..<length (indexed_rows t)]"
proof -
  have "map the (map l1_info_tree_index (indexed_rows t))
      = map the (map (\<lambda>i. Some (of_nat i)) [0..<length (indexed_rows t)])"
    using assms by (simp add: table_valid_def)
  then show ?thesis by (simp add: comp_def)
qed

lemma sorted_of_nat_words:
  assumes "n \<le> 2 ^ LENGTH('a)"
  shows "sorted (map (of_nat :: nat \<Rightarrow> 'a::len word) [0..<n])"
  using assms by (auto simp: sorted_iff_nth_mono word_le_nat_alt unat_of_nat_less)

lemma Max_of_nat_words:
  assumes "Suc m \<le> 2 ^ LENGTH('a)"
  shows "Max (set (map (of_nat :: nat \<Rightarrow> 'a::len word) [0..<Suc m])) = of_nat m"
  using assms by (intro Max_eqI) (auto simp: word_le_nat_alt unat_of_nat_less)

lemma table_rows_small: "table_valid t \<Longrightarrow> length (indexed_rows t) \<le> 2 ^ LENGTH(32)"
  by (simp add: table_valid_def table_limit_def)

interpretation pg: entry_store table_entries table_valid GetAllL1InfoRootEntries GetLatestIndex
    AddL1InfoRootToExitRoot L1InfoTreeIndex ErrNotFound table_limit
proof (unfold_locales, goal_cases)
  case (1 s xs)
  have "sorted (map (\<lambda>r. the (l1_info_tree_index r)) (indexed_rows s))"
    using sorted_of_nat_words [OF table_rows_small [OF 1(1)]] by (simp add: table_indices [OF 1(1)])
  with 1 show ?case
    by (simp add: GetAllL1InfoRootEntries_def table_entries_def sort_key_id_if_sorted split: if_splits)
next
  case (2 s i)
  then have "indexed_rows s \<noteq> []"
    and i: "i = Max (set (map of_nat [0..<length (indexed_rows s)]))"
    by (auto simp: GetLatestIndex_def table_indices [OF 2(1), symmetric] split: if_splits)
  then obtain m where m: "length (indexed_rows s) = Suc m" by (cases "indexed_rows s") auto
  then have "i = of_nat m"
    using i Max_of_nat_words [where 'a = 32, of m] table_rows_small [OF 2(1)] by simp
  with m show ?case by simp
next
  case (3 s)
  then show ?case by (auto simp: GetLatestIndex_def table_entries_def split: if_splits)
next
  case (4 s x s')
  then show ?case
    by (auto simp: AddL1InfoRootToExitRoot_def table_valid_def table_entries_def indexed_rows_def split: if_splits)
qed

section \<open>The cache agrees with the table\<close>

definition stored_hashes :: "(bytes list \<Rightarrow> bytes) \<Rightarrow> l1_state \<Rightarrow> hash32 list" where
  "stored_hashes kc2 s = map (leafHash kc2) (table_entries (db s))"

definition roots_ok ::
  "(bytes \<Rightarrow> bytes) \<Rightarrow> (bytes list \<Rightarrow> bytes) \<Rightarrow> L1InfoTreeExitRootStorageEntry list \<Rightarrow> bool" where
  "roots_ok kc kc2 es \<longleftrightarrow> (\<forall>i < length es. L1InfoTreeIndex (es ! i) = of_nat i
     \<and> L1InfoTreeRoot (es ! i) = merkle_root kc 32 (map (leafHash kc2) (take (Suc i) es)))"

definition cache_ok :: "(bytes \<Rightarrow> bytes) \<Rightarrow> (bytes list \<Rightarrow> bytes) \<Rightarrow> l1_state \<Rightarrow> bool" where
  "cache_ok kc kc2 s \<longleftrightarrow>
     (\<forall>mt. l1InfoTree s = Some mt \<longrightarrow> holds_leaves kc 32 mt (stored_hashes kc2 s))"

definition coherent :: "(bytes \<Rightarrow> bytes) \<Rightarrow> (bytes list \<Rightarrow> bytes) \<Rightarrow> l1_state \<Rightarrow> bool" where
  "coherent kc kc2 s \<longleftrightarrow>
     table_valid (db s) \<and> roots_ok kc kc2 (table_entries (db s)) \<and> cache_ok kc kc2 s"

lemma less_capacity_32: "n < tree_capacity 32 \<longleftrightarrow> n < table_limit"
  by (auto simp: less_tree_capacity_iff table_limit_def)

lemma buildCache_ok:
  assumes "buildL1InfoTreeCacheIfNeed kc kc2 s = Inr s1" "table_valid (db s)" "cache_ok kc kc2 s"
  shows "\<exists>mt. s1 = s\<lparr>l1InfoTree := Some mt\<rparr> \<and> holds_leaves kc 32 mt (stored_hashes kc2 s)"
proof (cases "l1InfoTree s")
  case (Some mt)
  then have "s1 = s" using assms(1) by (simp add: buildL1InfoTreeCacheIfNeed_def)
  with Some assms(3) show ?thesis
    by (metis cache_ok_def l1_state.surjective l1_state.update_convs(1))
next
  case None
  with assms(1) obtain es mt where es: "GetAllL1InfoRootEntries (db s) = Inr es"
      and mt: "ResetL1InfoTree kc (map (leafHash kc2) es) = Inr mt" and s1: "s1 = s\<lparr>l1InfoTree := Some mt\<rparr>"
    by (auto simp: buildL1InfoTreeCacheIfNeed_def split: sum.splits)
  have "map (leafHash kc2) es = stored_hashes kc2 s"
    using pg.select_all [OF assms(2) es] by (simp add: stored_hashes_def)
  moreover have "length (stored_hashes kc2 s) < tree_capacity 32"
    using assms(2) by (simp add: less_capacity_32 stored_hashes_def table_valid_def)
  ultimately have "holds_leaves kc 32 mt (stored_hashes kc2 s)"
    using l1t.build_Inr_holds [of kc 32] mt by (simp add: ResetL1InfoTree_def NewL1InfoTree_def)
  with s1 show ?thesis by blast
qed

lemma roots_ok_snoc:
  assumes "roots_ok kc kc2 es" "L1InfoTreeIndex e = of_nat (length es)"
    "L1InfoTreeRoot e = merkle_root kc 32 (map (leafHash kc2) (es @ [e]))"
  shows "roots_ok kc kc2 (es @ [e])"
  using assms by (auto simp: roots_ok_def nth_append less_Suc_eq)

lemma entry_fields:
  fixes leaf :: L1InfoTreeLeaf and r :: hash32 and i :: uint32
  defines "e \<equiv> L1InfoTreeLeaf.extend leaf (L1InfoTreeExitRootStorageEntry.fields r i)"
  shows "L1InfoTreeRoot e = r" "L1InfoTreeIndex e = i" "leafHash kc2 e = leafHash kc2 leaf"
    "L1InfoTreeLeaf.truncate e = leaf"
  by (simp_all add: e_def leafHash_def L1InfoTreeLeaf.defs L1InfoTreeExitRootStorageEntry.defs)

lemma addLeafAt_coherent:
  assumes coh: "coherent kc kc2 s" and room: "Suc (length (table_entries (db s))) < table_limit"
    and idx: "newIndex = of_nat (length (table_entries (db s)))"
    and run: "addLeafAt kc kc2 s leaf dbTx newIndex = (s', tx', Inr e)"
  shows "coherent kc kc2 s' \<and> table_entries (db s') = table_entries (db s) @ [e]
    \<and> L1InfoTreeLeaf.truncate e = leaf"
proof -
  from coh have tv: "table_valid (db s)" and ro: "roots_ok kc kc2 (table_entries (db s))"
    and co: "cache_ok kc kc2 s" by (auto simp: coherent_def)
  let ?hs = "stored_hashes kc2 s"
  obtain s1 where s1: "buildL1InfoTreeCacheIfNeed kc kc2 s = Inr s1"
    using run by (auto simp: addLeafAt_def split: sum.splits)
  obtain mt where mt: "s1 = s\<lparr>l1InfoTree := Some mt\<rparr>" "holds_leaves kc 32 mt ?hs"
    using buildCache_ok [OF s1 tv co] by blast
  obtain mt' r where add: "AddLeaf kc mt newIndex (leafHash kc2 leaf) = Inr (mt', r)"
    using run by (auto simp: addLeafAt_def s1 mt(1) split: sum.splits)
  have len: "length ?hs = length (table_entries (db s))" by (simp add: stored_hashes_def)
  have held: "r = merkle_root kc 32 (?hs @ [leafHash kc2 leaf])" "holds_leaves kc 32 mt' (?hs @ [leafHash kc2 leaf])"
    using l1t.add_at_next_index [OF mt(2) _ add] room by (auto simp: less_capacity_32 len)
  define e' where "e' = L1InfoTreeLeaf.extend leaf (L1InfoTreeExitRootStorageEntry.fields r newIndex)"
  note ef = entry_fields [where leaf = leaf and r = r and i = newIndex, folded e'_def]
  obtain db' where ins: "AddL1InfoRootToExitRoot (db s) e' = Inr db'" and e: "e = e'"
      and s': "s' = s\<lparr>l1InfoTree := Some mt', db := db'\<rparr>"
    using run by (auto simp: addLeafAt_def s1 mt(1) add e'_def Let_def split: sum.splits)
  have t: "table_valid db'" "table_entries db' = table_entries (db s) @ [e']"
    using pg.insert_next [OF tv _ _ ins] ef(2) idx room by auto
  have "roots_ok kc kc2 (table_entries db')"
    unfolding t(2) by (rule roots_ok_snoc [OF ro]) (simp_all add: ef idx held stored_hashes_def)
  moreover have "cache_ok kc kc2 s'"
    using held(2) by (simp add: cache_ok_def s' stored_hashes_def t(2) ef)
  ultimately show ?thesis
    using t e s' ef(4) by (simp add: coherent_def)
qed

lemma AddL1InfoTreeLeaf_index:
  assumes "AddL1InfoTreeLeaf kc kc2 s leaf dbTx = (s', tx', Inr e)" "table_valid (db s)"
  shows "addLeafAt kc kc2 s leaf dbTx (of_nat (length (table_entries (db s)))) = (s', tx', Inr e)"
proof (cases "GetLatestIndex (db s)")
  case (Inl err)
  with assms pg.next_index_is_length [OF assms(2), of 0] show ?thesis
    by (auto simp: AddL1InfoTreeLeaf_def split: if_splits)
next
  case (Inr i)
  with assms pg.next_index_is_length [OF assms(2), of "i + 1" i] show ?thesis
    by (auto simp: AddL1InfoTreeLeaf_def split: if_splits)
qed

text \<open>With a database that answers, the operations do succeed.\<close>

lemma select_all_up: "table_valid t \<Longrightarrow> \<not> select_fails t \<Longrightarrow> GetAllL1InfoRootEntries t = Inr (table_entries t)"
  using pg.select_all [of t] by (auto simp: GetAllL1InfoRootEntries_def)

lemma latest_up:
  "table_valid t \<Longrightarrow> \<not> select_fails t \<Longrightarrow>
   GetLatestIndex t = Inl ErrNotFound \<or> (\<exists>i. GetLatestIndex t = Inr i)"
  by (auto simp: GetLatestIndex_def)

lemma insert_up:
  assumes tv: "table_valid t" and up: "\<not> insert_fails t"
    and i: "L1InfoTreeIndex e = of_nat (length (indexed_rows t))"
  shows "\<exists>t'. AddL1InfoRootToExitRoot t e = Inr t'"
proof -
  let ?n = "length (indexed_rows t)"
  have *: "l1_info_tree_index ` set (indexed_rows t) = (\<lambda>j. Some (of_nat j)) ` {..<?n}"
    using arg_cong [OF conjunct2 [OF tv [unfolded table_valid_def]], of set]
    by (simp add: atLeast0LessThan)
  have "(of_nat ?n :: uint32) \<noteq> of_nat j" if "j < ?n" for j
    using that tv unat_of_nat_less [where 'a = 32, of j] unat_of_nat_less [where 'a = 32, of ?n]
    by (auto simp: table_valid_def table_limit_def)
  then have "Some (of_nat ?n) \<notin> l1_info_tree_index ` set (indexed_rows t)"
    unfolding * by (auto simp del: of_nat_eq_iff)
  then show ?thesis
    using up by (auto simp: AddL1InfoRootToExitRoot_def i indexed_rows_def image_iff)
qed

lemma buildCache_up:
  assumes "table_valid (db s)" "\<not> select_fails (db s)"
  shows "\<exists>s1. buildL1InfoTreeCacheIfNeed kc kc2 s = Inr s1"
proof -
  have "length (map (leafHash kc2) (table_entries (db s))) < tree_capacity 32"
    using assms(1) by (simp add: less_capacity_32 table_valid_def)
  from l1t.build_holds [OF this, of kc] show ?thesis
    by (auto simp: buildL1InfoTreeCacheIfNeed_def select_all_up [OF assms] ResetL1InfoTree_def NewL1InfoTree_def)
qed

lemma addLeafAt_succeeds:
  assumes coh: "coherent kc kc2 s" and room: "Suc (length (table_entries (db s))) < table_limit"
    and up: "\<not> select_fails (db s)" "\<not> insert_fails (db s)"
  shows "\<exists>s' tx' e. addLeafAt kc kc2 s leaf dbTx (of_nat (length (table_entries (db s)))) = (s', tx', Inr e)"
proof -
  from coh have tv: "table_valid (db s)" and co: "cache_ok kc kc2 s" by (auto simp: coherent_def)
  obtain s1 where s1: "buildL1InfoTreeCacheIfNeed kc kc2 s = Inr s1"
    using buildCache_up [OF tv up(1)] by blast
  obtain mt where mt: "s1 = s\<lparr>l1InfoTree := Some mt\<rparr>" "holds_leaves kc 32 mt (stored_hashes kc2 s)"
    using buildCache_ok [OF s1 tv co] by blast
  let ?i = "of_nat (length (table_entries (db s)))"
  obtain mt' r where add: "AddLeaf kc mt ?i (leafHash kc2 leaf) = Inr (mt', r)"
    using l1t.add_holds [OF mt(2)] room by (force simp: less_capacity_32 stored_hashes_def)
  obtain t' where "AddL1InfoRootToExitRoot (db s)
      (L1InfoTreeLeaf.extend leaf (L1InfoTreeExitRootStorageEntry.fields r ?i)) = Inr t'"
    using insert_up [OF tv up(2)] entry_fields(2) [of leaf r ?i] by auto
  then show ?thesis using s1 mt(1) add by (simp add: addLeafAt_def Let_def)
qed

lemma AddL1InfoTreeLeaf_succeeds:
  assumes coh: "coherent kc kc2 s" and room: "Suc (length (table_entries (db s))) < table_limit"
    and up: "\<not> select_fails (db s)" "\<not> insert_fails (db s)" and tx: "dbTx \<noteq> OtherTx"
  shows "\<exists>s' tx' e. AddL1InfoTreeLeaf kc kc2 s leaf dbTx = (s', tx', Inr e)"
proof -
  have tv: "table_valid (db s)" using coh by (simp add: coherent_def)
  note add = addLeafAt_succeeds [OF coh room up, of leaf dbTx]
  from latest_up [OF tv up(1)] show ?thesis
  proof
    assume l: "GetLatestIndex (db s) = Inl ErrNotFound"
    then show ?thesis using add tx pg.next_index_is_length [OF tv, of 0] by (simp add: AddL1InfoTreeLeaf_def)
  next
    assume "\<exists>i. GetLatestIndex (db s) = Inr i"
    then obtain i where l: "GetLatestIndex (db s) = Inr i" by blast
    then show ?thesis
      using add tx pg.next_index_is_length [OF tv, of "i + 1" i] by (simp add: AddL1InfoTreeLeaf_def)
  qed
qed

text \<open>
  What holds at any point of a transaction that has not marked the tree as modified: the cache
  agrees with the table and the table has not changed since the transaction began.
\<close>

definition unmarked_ok :: "(bytes \<Rightarrow> bytes) \<Rightarrow> (bytes list \<Rightarrow> bytes) \<Rightarrow> l1_state \<Rightarrow> db_tx \<Rightarrow> bool" where
  "unmarked_ok kc kc2 s tx \<longleftrightarrow> (tx \<noteq> StateTx True \<longrightarrow> rows (db s) = rows (committed s) \<and> cache_ok kc kc2 s)"

lemma table_cong: "rows t = rows t' \<Longrightarrow> table_entries t = table_entries t' \<and> (table_valid t \<longleftrightarrow> table_valid t')"
  by (simp add: table_entries_def table_valid_def indexed_rows_def)

text \<open>
  The operations of one transaction; \<open>SetFaults\<close> is the environment: the database may start or
  stop failing inserts and selects between any two of them.
\<close>

datatype l1_op = AddLeafOp L1InfoTreeLeaf | GetRootOp | SetFaults bool bool

fun run_op :: "(bytes \<Rightarrow> bytes) \<Rightarrow> (bytes list \<Rightarrow> bytes) \<Rightarrow> l1_op \<Rightarrow> l1_state \<times> db_tx \<Rightarrow> l1_state \<times> db_tx" where
  "run_op kc kc2 (AddLeafOp l) (s, tx) = (case AddL1InfoTreeLeaf kc kc2 s l tx of (s', tx', _) \<Rightarrow> (s', tx'))"
| "run_op kc kc2 GetRootOp (s, tx) = (fst (GetCurrentL1InfoRoot kc kc2 s), tx)"
| "run_op kc kc2 (SetFaults i j) (s, tx) = (s\<lparr>db := (db s)\<lparr>insert_fails := i, select_fails := j\<rparr>\<rparr>, tx)"

definition run_ops ::
  "(bytes \<Rightarrow> bytes) \<Rightarrow> (bytes list \<Rightarrow> bytes) \<Rightarrow> l1_op list \<Rightarrow> l1_state \<times> db_tx \<Rightarrow> l1_state \<times> db_tx" where
  "run_ops kc kc2 ops = fold (run_op kc kc2) ops"

definition tx_inv ::
  "(bytes \<Rightarrow> bytes) \<Rightarrow> (bytes list \<Rightarrow> bytes) \<Rightarrow> exit_root_table \<Rightarrow> l1_state \<times> db_tx \<Rightarrow> bool" where
  "tx_inv kc kc2 start st \<longleftrightarrow> (case st of (s, tx) \<Rightarrow>
     committed s = start \<and> (tx = StateTx True \<or> tx = StateTx False) \<and> unmarked_ok kc kc2 s tx)"

lemma cache_ok_cong:
  "l1InfoTree s = l1InfoTree s' \<Longrightarrow> rows (db s) = rows (db s') \<Longrightarrow> cache_ok kc kc2 s = cache_ok kc kc2 s'"
  using table_cong [of "db s" "db s'"] by (simp add: cache_ok_def stored_hashes_def)

lemma buildCache_unmarked:
  assumes b: "buildL1InfoTreeCacheIfNeed kc kc2 s = Inr s1" and tv: "table_valid (committed s)"
    and u: "rows (db s) = rows (committed s)" "cache_ok kc kc2 s"
  shows "db s1 = db s \<and> committed s1 = committed s \<and> cache_ok kc kc2 s1"
proof -
  have "table_valid (db s)" using table_cong [OF u(1)] tv by simp
  then obtain mt where "s1 = s\<lparr>l1InfoTree := Some mt\<rparr>" "holds_leaves kc 32 mt (stored_hashes kc2 s)"
    using buildCache_ok [OF b _ u(2)] by blast
  then show ?thesis by (simp add: cache_ok_def stored_hashes_def)
qed

lemma buildCache_frame:
  "buildL1InfoTreeCacheIfNeed kc kc2 s = Inr s1 \<Longrightarrow> db s1 = db s \<and> committed s1 = committed s"
  by (auto simp: buildL1InfoTreeCacheIfNeed_def split: if_splits sum.splits)

lemma addLeafAt_tx_inv:
  assumes inv: "tx_inv kc kc2 start (s, tx)" and tv: "table_valid start"
    and run: "addLeafAt kc kc2 s leaf tx i = (s', tx', res)"
  shows "tx_inv kc kc2 start (s', tx')"
proof (cases "buildL1InfoTreeCacheIfNeed kc kc2 s")
  case (Inl e)
  with run inv show ?thesis by (simp add: addLeafAt_def)
next
  case (Inr s1)
  note fr = buildCache_frame [OF Inr]
  have "tx \<noteq> StateTx True \<Longrightarrow> rows (db s1) = rows (committed s1) \<and> cache_ok kc kc2 s1"
    using buildCache_unmarked [OF Inr] inv tv by (auto simp: tx_inv_def unmarked_ok_def)
  then show ?thesis
    using run inv fr Inr
    by (auto simp: addLeafAt_def tx_inv_def unmarked_ok_def SetL1InfoTreeModified_def Let_def
        split: option.splits sum.splits prod.splits if_splits)
qed

lemma run_op_tx_inv:
  assumes inv: "tx_inv kc kc2 start st" and tv: "table_valid start"
  shows "tx_inv kc kc2 start (run_op kc kc2 op st)"
proof -
  obtain s tx where st: "st = (s, tx)" by (cases st)
  show ?thesis
  proof (cases op)
    case (AddLeafOp l)
    obtain s' tx' res where r: "AddL1InfoTreeLeaf kc kc2 s l tx = (s', tx', res)" by (metis prod_cases3)
    then have "tx_inv kc kc2 start (s', tx')"
      using inv addLeafAt_tx_inv [OF inv [unfolded st] tv]
      by (auto simp: AddL1InfoTreeLeaf_def st split: sum.splits if_splits)
    with AddLeafOp r st show ?thesis by simp
  next
    case GetRootOp
    show ?thesis
    proof (cases "buildL1InfoTreeCacheIfNeed kc kc2 s")
      case (Inl e)
      with GetRootOp inv show ?thesis by (simp add: st GetCurrentL1InfoRoot_def)
    next
      case (Inr s1)
      then have "fst (GetCurrentL1InfoRoot kc kc2 s) = s1"
        by (simp add: GetCurrentL1InfoRoot_def split: option.split)
      with GetRootOp inv tv buildCache_frame [OF Inr] buildCache_unmarked [OF Inr]
      show ?thesis by (auto simp: st tx_inv_def unmarked_ok_def)
    qed
  next
    case (SetFaults i j)
    then show ?thesis
      using inv cache_ok_cong [of "s\<lparr>db := (db s)\<lparr>insert_fails := i, select_fails := j\<rparr>\<rparr>" s kc kc2]
      by (auto simp: st tx_inv_def unmarked_ok_def)
  qed
qed

lemma run_ops_tx_inv:
  "tx_inv kc kc2 start st \<Longrightarrow> table_valid start \<Longrightarrow> tx_inv kc kc2 start (run_ops kc kc2 ops st)"
  unfolding run_ops_def by (induction ops arbitrary: st) (simp_all add: run_op_tx_inv del: split_paired_All)

text \<open>A fresh node and a leaf, for the concrete instances below.\<close>

definition empty_l1_state :: l1_state where
  "empty_l1_state = \<lparr>l1InfoTree = None, db = \<lparr>rows = [], insert_fails = False, select_fails = False\<rparr>,
     committed = \<lparr>rows = [], insert_fails = False, select_fails = False\<rparr>\<rparr>"

definition sample_leaf :: L1InfoTreeLeaf where
  "sample_leaf = \<lparr>BlockNumber = 5, Timestamp = 1700000000, MainnetExitRoot = zero_hash,
     RollupExitRoot = zero_hash, gerGlobalExitRoot = copy_into 32 [1], PreviousBlockHash = copy_into 32 [2]\<rparr>"

definition one_leaf_state :: "(bytes \<Rightarrow> bytes) \<Rightarrow> (bytes list \<Rightarrow> bytes) \<Rightarrow> l1_state" where
  "one_leaf_state kc kc2 =
     empty_l1_state\<lparr>db := \<lparr>rows = [\<lparr>row_entry = L1InfoTreeLeaf.extend sample_leaf
         (L1InfoTreeExitRootStorageEntry.fields (merkle_root kc 32 [leafHash kc2 sample_leaf]) 0),
         l1_info_tree_index = Some 0\<rparr>], insert_fails = False, select_fails = False\<rparr>\<rparr>"

lemma one_leaf_state_coherent: "coherent kc kc2 (one_leaf_state kc kc2)"
  by (simp add: coherent_def one_leaf_state_def empty_l1_state_def table_valid_def indexed_rows_def
      table_limit_def roots_ok_def table_entries_def cache_ok_def entry_fields)

lemma empty_l1_state_coherent: "coherent kc kc2 empty_l1_state"
  by (simp add: coherent_def empty_l1_state_def table_valid_def indexed_rows_def table_limit_def roots_ok_def
      table_entries_def cache_ok_def)

text \<open>A cached tree whose count is behind the table refuses every further leaf.\<close>

lemma stale_add_refused:
  assumes "l1InfoTree s = Some mt" "table_valid (db s)" "\<not> select_fails (db s)" "indexed_rows (db s) \<noteq> []"
    "count mt \<noteq> of_nat (length (indexed_rows (db s)))"
  shows "\<exists>e. AddL1InfoTreeLeaf kc kc2 s leaf NoTx = (s, NoTx, Inl e)"
proof -
  obtain i where i: "GetLatestIndex (db s) = Inr i" using assms(3,4) by (simp add: GetLatestIndex_def)
  then have "i + 1 \<noteq> count mt" using assms(5) pg.latest_found [OF assms(2) i] by simp
  then obtain e where "AddLeaf kc mt (i + 1) (leafHash kc2 leaf) = Inl e"
    using l1t.add_wrong_index [of "i + 1" mt kc "leafHash kc2 leaf"] by blast
  then show ?thesis
    using assms(1) i by (simp add: AddL1InfoTreeLeaf_def addLeafAt_def buildL1InfoTreeCacheIfNeed_def)
qed

section \<open>Properties\<close>

text \<open>
  C4: when the cached L1 info tree agrees with the exit root table and the database answers,
  \<open>AddL1InfoTreeLeaf\<close> succeeds, with or without a state transaction.  It appends one entry to the
  table, with the leaf's data, the number of earlier entries as its index and the Merkle root of all
  leaves including the new one as its root; and the cache agrees with the table again.
\<close>

theorem AddL1InfoTreeLeaf_coherent:
  assumes coh: "coherent kc kc2 s" and room: "Suc (length (table_entries (db s))) < table_limit"
    and up: "\<not> select_fails (db s)" "\<not> insert_fails (db s)" and tx: "dbTx \<noteq> OtherTx"
  shows "\<exists>s' tx' e. AddL1InfoTreeLeaf kc kc2 s leaf dbTx = (s', tx', Inr e)
    \<and> coherent kc kc2 s' \<and> table_entries (db s') = table_entries (db s) @ [e]
    \<and> L1InfoTreeLeaf.truncate e = leaf \<and> L1InfoTreeIndex e = of_nat (length (table_entries (db s)))
    \<and> L1InfoTreeRoot e = merkle_root kc 32 (map (leafHash kc2) (table_entries (db s) @ [e]))"
proof -
  have tv: "table_valid (db s)" using coh by (simp add: coherent_def)
  obtain s' tx' e where run: "AddL1InfoTreeLeaf kc kc2 s leaf dbTx = (s', tx', Inr e)"
    using AddL1InfoTreeLeaf_succeeds [OF coh room up tx] by blast
  then have *: "coherent kc kc2 s' \<and> table_entries (db s') = table_entries (db s) @ [e]
    \<and> L1InfoTreeLeaf.truncate e = leaf"
    by (intro addLeafAt_coherent [OF coh room refl AddL1InfoTreeLeaf_index [OF run tv]])
  then have "roots_ok kc kc2 (table_entries (db s) @ [e])" by (metis coherent_def)
  then show ?thesis using * run
    by (auto simp: roots_ok_def nth_append dest!: spec [of _ "length (indexed_rows (db s))"])
qed

theorem AddL1InfoTreeLeaf_coherent_witness:
  "coherent (\<lambda>b. b) concat empty_l1_state
   \<and> (\<exists>s' tx' e. AddL1InfoTreeLeaf (\<lambda>b. b) concat empty_l1_state sample_leaf (StateTx False) = (s', tx', Inr e)
      \<and> coherent (\<lambda>b. b) concat s' \<and> table_entries (db s') = [e] \<and> L1InfoTreeIndex e = 0)"
proof -
  have "table_entries (db empty_l1_state) = []" "\<not> select_fails (db empty_l1_state)"
    "\<not> insert_fails (db empty_l1_state)" "Suc 0 < table_limit"
    by (simp_all add: empty_l1_state_def table_entries_def indexed_rows_def table_limit_def)
  with AddL1InfoTreeLeaf_coherent [of "\<lambda>b. b" concat empty_l1_state "StateTx False" sample_leaf]
    empty_l1_state_coherent [of "\<lambda>b. b" concat]
  show ?thesis by fastforce
qed

text \<open>
  C5: rolling back a state transaction never leaves a stale tree: whatever leaves were added or
  roots read in the transaction, and whichever of its queries failed, after \<open>Rollback\<close> the table is
  the one from before the transaction and the cached tree, if there is one, agrees with it.
\<close>

theorem Rollback_coherent:
  assumes "coherent kc kc2 s" and "BeginStateTransaction s = st0"
    and "run_ops kc kc2 ops st0 = (s', tx')"
  shows "coherent kc kc2 (Rollback s' tx') \<and> db (Rollback s' tx') = db s"
proof -
  have "tx_inv kc kc2 (db s) st0"
    using assms(1,2) cache_ok_cong [of "s\<lparr>committed := db s\<rparr>" s kc kc2]
    by (auto simp: tx_inv_def unmarked_ok_def BeginStateTransaction_def coherent_def)
  then have "tx_inv kc kc2 (db s) (s', tx')"
    using run_ops_tx_inv [of kc kc2 "db s" st0 ops] assms by (simp add: coherent_def)
  then show ?thesis
    using assms(1) cache_ok_cong [of "s'\<lparr>db := committed s'\<rparr>" s' kc kc2]
    by (auto simp: tx_inv_def unmarked_ok_def Rollback_def stateResetL1InfoTree_def coherent_def cache_ok_def Let_def)
qed

theorem Rollback_coherent_witness:
  "case run_ops (\<lambda>b. b) concat [AddLeafOp sample_leaf, SetFaults True False, AddLeafOp sample_leaf]
      (BeginStateTransaction empty_l1_state) of
     (s', tx') \<Rightarrow> coherent (\<lambda>b. b) concat (Rollback s' tx') \<and> rows (db (Rollback s' tx')) = []"
proof -
  have *: "rows (db empty_l1_state) = []" by (simp add: empty_l1_state_def)
  show ?thesis
    using Rollback_coherent [of "\<lambda>b. b" concat empty_l1_state, OF empty_l1_state_coherent refl] *
    by (simp split: prod.split)
qed

text \<open>
  C6: a transaction that resets the state below the block of a stored leaf, reads the current root
  and is then rolled back leaves a stale tree: \<open>Reset\<close> does not mark the transaction, so
  \<open>Rollback\<close> keeps the tree that was rebuilt inside the transaction although the table has its
  rows back, and the next leaf is refused with an index mismatch.
\<close>

theorem Rollback_after_Reset_stale:
  assumes coh: "coherent kc kc2 s" and up: "\<not> select_fails (db s)" "\<not> insert_fails (db s)"
    and some: "indexed_rows (db s) \<noteq> []" and above: "\<forall>r \<in> set (rows (db s)). BlockNumber (row_entry r) > n"
    and bgn: "BeginStateTransaction s = (s0, tx)" and reset: "stateReset s0 n = (s1, Inr ())"
    and get: "GetCurrentL1InfoRoot kc kc2 s1 = (s2, r)"
  shows "db (Rollback s2 tx) = db s \<and> \<not> coherent kc kc2 (Rollback s2 tx)
    \<and> (\<exists>e. AddL1InfoTreeLeaf kc kc2 (Rollback s2 tx) leaf NoTx = (Rollback s2 tx, NoTx, Inl e))"
proof -
  have s0: "s0 = s\<lparr>committed := db s\<rparr>" and tx: "tx = StateTx False"
    using bgn by (auto simp: BeginStateTransaction_def)
  define t where "t = (db s)\<lparr>rows := []\<rparr>"
  have s1: "s1 = s0\<lparr>l1InfoTree := None, db := t\<rparr>"
    using reset above up by (auto simp: stateReset_def ResetToL1BlockNumber_def s0 stateResetL1InfoTree_def t_def
        filter_empty_conv split: if_splits)
  have tv: "table_valid (db s1)" "table_entries t = []" and co: "cache_ok kc kc2 s1"
    by (simp_all add: s1 t_def table_valid_def indexed_rows_def table_limit_def table_entries_def cache_ok_def)
  have "\<not> select_fails (db s1)" using up by (simp add: s1 t_def)
  then obtain s1' where b: "buildL1InfoTreeCacheIfNeed kc kc2 s1 = Inr s1'" using buildCache_up [OF tv(1)] by blast
  obtain mt where mt: "s1' = s1\<lparr>l1InfoTree := Some mt\<rparr>" "holds_leaves kc 32 mt []"
    using buildCache_ok [OF b tv(1) co] tv(2) by (auto simp: stored_hashes_def s1)
  define s3 where "s3 = Rollback s2 tx"
  have s3: "s3 = s\<lparr>l1InfoTree := Some mt, committed := db s\<rparr>"
    using get b mt(1) by (auto simp: GetCurrentL1InfoRoot_def s3_def Rollback_def tx s1 s0 Let_def)
  have cnt: "count mt = 0" using l1t.next_index_spec [OF mt(2)] by simp
  let ?k = "length (indexed_rows (db s))"
  have k: "(of_nat ?k :: uint32) \<noteq> 0"
    using coh some unat_of_nat_less [where 'a = 32, of ?k]
    by (auto simp: coherent_def table_valid_def table_limit_def)
  have "\<not> cache_ok kc kc2 s3"
    using l1t.next_index_spec [of kc 32 mt "stored_hashes kc2 s"] cnt k
    by (auto simp: cache_ok_def s3 stored_hashes_def)
  moreover have "\<exists>e. AddL1InfoTreeLeaf kc kc2 s3 leaf NoTx = (s3, NoTx, Inl e)"
    using stale_add_refused [of s3 mt kc kc2 leaf] cnt k s3 coh some up by (simp add: coherent_def)
  ultimately show ?thesis by (simp add: s3 coherent_def flip: s3_def)
qed

theorem Rollback_after_Reset_stale_witness:
  "\<exists>s0 tx s1 s2 r. BeginStateTransaction (one_leaf_state (\<lambda>b. b) concat) = (s0, tx)
     \<and> stateReset s0 3 = (s1, Inr ()) \<and> GetCurrentL1InfoRoot (\<lambda>b. b) concat s1 = (s2, r)
     \<and> \<not> coherent (\<lambda>b. b) concat (Rollback s2 tx)"
proof -
  let ?s = "one_leaf_state (\<lambda>b. b) concat"
  obtain s0 tx where b: "BeginStateTransaction ?s = (s0, tx)" by fastforce
  then obtain s1 where r: "stateReset s0 3 = (s1, Inr ())"
    by (auto simp: BeginStateTransaction_def stateReset_def ResetToL1BlockNumber_def one_leaf_state_def)
  obtain s2 r' where g: "GetCurrentL1InfoRoot (\<lambda>b. b) concat s1 = (s2, r')" by fastforce
  have "\<not> select_fails (db ?s)" "\<not> insert_fails (db ?s)" "indexed_rows (db ?s) \<noteq> []"
    "\<forall>r \<in> set (rows (db ?s)). BlockNumber (row_entry r) > 3"
    by (simp_all add: one_leaf_state_def indexed_rows_def sample_leaf_def L1InfoTreeLeaf.defs
        L1InfoTreeExitRootStorageEntry.defs)
  from Rollback_after_Reset_stale [OF one_leaf_state_coherent this b r g] b r g show ?thesis by blast
qed

end
