(* ===== verification/ZkCounters.thy ===== *)
theory ZkCounters
  imports Prelude
begin

text \<open>
  The resource accounting of a batch (\<open>src/state/types.go\<close>, \<open>src/state/config.go\<close> and the
  counter arithmetic of \<open>src/sequencer/batch.go\<close>): the zero-knowledge counters and bytes a
  transaction uses, the limits of a batch, and the operations that check, subtract and add them on
  machine words.  A locale states what such a bounded resource promises; both the counters and the
  batch resources are instances of it.
\<close>

section \<open>Definitions\<close>

subsection \<open>Counters\<close>

record ZKCounters =
  GasUsed :: uint64
  KeccakHashes :: uint32
  PoseidonHashes :: uint32
  PoseidonPaddings :: uint32
  MemAligns :: uint32
  Arithmetics :: uint32
  Binaries :: uint32
  Steps :: uint32
  Sha256Hashes_V2 :: uint32

definition no_counters :: ZKCounters where
  "no_counters = \<lparr>GasUsed = 0, KeccakHashes = 0, PoseidonHashes = 0, PoseidonPaddings = 0, MemAligns = 0,
     Arithmetics = 0, Binaries = 0, Steps = 0, Sha256Hashes_V2 = 0\<rparr>"

definition ZKCounters_SumUp :: "ZKCounters \<Rightarrow> ZKCounters \<Rightarrow> ZKCounters" where
  "ZKCounters_SumUp z other =
     \<lparr>GasUsed = GasUsed z + GasUsed other,
      KeccakHashes = KeccakHashes z + KeccakHashes other,
      PoseidonHashes = PoseidonHashes z + PoseidonHashes other,
      PoseidonPaddings = PoseidonPaddings z + PoseidonPaddings other,
      MemAligns = MemAligns z + MemAligns other,
      Arithmetics = Arithmetics z + Arithmetics other,
      Binaries = Binaries z + Binaries other,
      Steps = Steps z + Steps other,
      Sha256Hashes_V2 = Sha256Hashes_V2 z + Sha256Hashes_V2 other\<rparr>"

definition ZKCounters_Fits :: "ZKCounters \<Rightarrow> ZKCounters \<Rightarrow> bool \<times> string" where
  "ZKCounters_Fits z other =
     (if GasUsed other > GasUsed z then (False, ''CumulativeGas'')
      else if KeccakHashes other > KeccakHashes z then (False, ''KeccakHashes'')
      else if PoseidonHashes other > PoseidonHashes z then (False, ''PoseidonHashes'')
      else if PoseidonPaddings other > PoseidonPaddings z then (False, ''PoseidonPaddings'')
      else if MemAligns other > MemAligns z then (False, ''UsedMemAligns'')
      else if Arithmetics other > Arithmetics z then (False, ''UsedArithmetics'')
      else if Binaries other > Binaries z then (False, ''UsedBinaries'')
      else if Steps other > Steps z then (False, ''UsedSteps'')
      else if Sha256Hashes_V2 other > Sha256Hashes_V2 z then (False, ''UsedSha256Hashes_V2'')
      else (True, ''''))"

text \<open>\<open>Sub\<close> changes its receiver; the model returns it with the overflow flag and counter name.\<close>

definition ZKCounters_Sub :: "ZKCounters \<Rightarrow> ZKCounters \<Rightarrow> ZKCounters \<times> bool \<times> string" where
  "ZKCounters_Sub z other =
     (if GasUsed other > GasUsed z then (z, True, ''CumulativeGas'')
      else if KeccakHashes other > KeccakHashes z then (z, True, ''KeccakHashes'')
      else if PoseidonHashes other > PoseidonHashes z then (z, True, ''PoseidonHashes'')
      else if PoseidonPaddings other > PoseidonPaddings z then (z, True, ''PoseidonPaddings'')
      else if MemAligns other > MemAligns z then (z, True, ''UsedMemAligns'')
      else if Arithmetics other > Arithmetics z then (z, True, ''UsedArithmetics'')
      else if Binaries other > Binaries z then (z, True, ''UsedBinaries'')
      else if Steps other > Steps z then (z, True, ''UsedSteps'')
      else if Sha256Hashes_V2 other > Sha256Hashes_V2 z then (z, True, ''UsedSha256Hashes_V2'')
      else
        (\<lparr>GasUsed = GasUsed z - GasUsed other,
          KeccakHashes = KeccakHashes z - KeccakHashes other,
          PoseidonHashes = PoseidonHashes z - PoseidonHashes other,
          PoseidonPaddings = PoseidonPaddings z - PoseidonPaddings other,
          MemAligns = MemAligns z - MemAligns other,
          Arithmetics = Arithmetics z - Arithmetics other,
          Binaries = Binaries z - Binaries other,
          Steps = Steps z - Steps other,
          Sha256Hashes_V2 = Sha256Hashes_V2 z - Sha256Hashes_V2 other\<rparr>, False, ''''))"

subsection \<open>Batch resources\<close>

record BatchResources =
  resZKCounters :: ZKCounters
  Bytes :: uint64

definition BatchResources_Fits :: "BatchResources \<Rightarrow> BatchResources \<Rightarrow> bool \<times> string" where
  "BatchResources_Fits r other =
     (if Bytes other > Bytes r then (False, ''Bytes'')
      else ZKCounters_Fits (resZKCounters r) (resZKCounters other))"

definition BatchResources_Sub :: "BatchResources \<Rightarrow> BatchResources \<Rightarrow> BatchResources \<times> bool \<times> string" where
  "BatchResources_Sub r other =
     (if Bytes other > Bytes r then (r, True, ''Bytes'')
      else
        (let bytesBackup = Bytes r;
             r1 = r\<lparr>Bytes := Bytes r - Bytes other\<rparr>
         in case ZKCounters_Sub (resZKCounters r1) (resZKCounters other) of
              (z, exhausted, resourceName) \<Rightarrow>
                (let r2 = r1\<lparr>resZKCounters := z\<rparr>
                 in if exhausted then (r2\<lparr>Bytes := bytesBackup\<rparr>, exhausted, resourceName)
                    else (r2, False, ''''))))"

definition BatchResources_SumUp :: "BatchResources \<Rightarrow> BatchResources \<Rightarrow> BatchResources" where
  "BatchResources_SumUp r other =
     \<lparr>resZKCounters = ZKCounters_SumUp (resZKCounters r) (resZKCounters other),
      Bytes = Bytes r + Bytes other\<rparr>"

subsection \<open>Batch constraints\<close>

record BatchConstraintsCfg =
  MaxTxsPerBatch :: uint64
  MaxBatchBytesSize :: uint64
  MaxCumulativeGasUsed :: uint64
  MaxKeccakHashes :: uint32
  MaxPoseidonHashes :: uint32
  MaxPoseidonPaddings :: uint32
  MaxMemAligns :: uint32
  MaxArithmetics :: uint32
  MaxBinaries :: uint32
  MaxSteps :: uint32
  MaxSHA256Hashes :: uint32

definition IsWithinConstraints :: "BatchConstraintsCfg \<Rightarrow> ZKCounters \<Rightarrow> bool" where
  "IsWithinConstraints c counters \<longleftrightarrow>
     GasUsed counters \<le> MaxCumulativeGasUsed c \<and>
     KeccakHashes counters \<le> MaxKeccakHashes c \<and>
     PoseidonHashes counters \<le> MaxPoseidonHashes c \<and>
     PoseidonPaddings counters \<le> MaxPoseidonPaddings c \<and>
     MemAligns counters \<le> MaxMemAligns c \<and>
     Arithmetics counters \<le> MaxArithmetics c \<and>
     Binaries counters \<le> MaxBinaries c \<and>
     Steps counters \<le> MaxSteps c \<and>
     Sha256Hashes_V2 counters \<le> MaxSHA256Hashes c"

definition getUsedBatchResources :: "BatchConstraintsCfg \<Rightarrow> BatchResources \<Rightarrow> BatchResources" where
  "getUsedBatchResources constraints remaining =
     (let z = resZKCounters remaining
      in \<lparr>resZKCounters =
            \<lparr>GasUsed = MaxCumulativeGasUsed constraints - GasUsed z,
             KeccakHashes = MaxKeccakHashes constraints - KeccakHashes z,
             PoseidonHashes = MaxPoseidonHashes constraints - PoseidonHashes z,
             PoseidonPaddings = MaxPoseidonPaddings constraints - PoseidonPaddings z,
             MemAligns = MaxMemAligns constraints - MemAligns z,
             Arithmetics = MaxArithmetics constraints - Arithmetics z,
             Binaries = MaxBinaries constraints - Binaries z,
             Steps = MaxSteps constraints - Steps z,
             Sha256Hashes_V2 = MaxSHA256Hashes constraints - Sha256Hashes_V2 z\<rparr>,
          Bytes = MaxBatchBytesSize constraints - Bytes remaining\<rparr>)"

definition getMaxBatchResources :: "BatchConstraintsCfg \<Rightarrow> BatchResources" where
  "getMaxBatchResources constraints =
     \<lparr>resZKCounters =
        \<lparr>GasUsed = MaxCumulativeGasUsed constraints,
         KeccakHashes = MaxKeccakHashes constraints,
         PoseidonHashes = MaxPoseidonHashes constraints,
         PoseidonPaddings = MaxPoseidonPaddings constraints,
         MemAligns = MaxMemAligns constraints,
         Arithmetics = MaxArithmetics constraints,
         Binaries = MaxBinaries constraints,
         Steps = MaxSteps constraints,
         Sha256Hashes_V2 = MaxSHA256Hashes constraints\<rparr>,
      Bytes = MaxBatchBytesSize constraints\<rparr>"

subsection \<open>Needed and reserved counters\<close>

definition neededCounter :: "uint32 \<Rightarrow> uint32 \<Rightarrow> uint32 \<Rightarrow> uint32 \<times> uint32" where
  "neededCounter highCounter usedCounter reservedCounter =
     (if reservedCounter < usedCounter then (usedCounter + highCounter, highCounter)
      else
        (let diffReserved = reservedCounter - usedCounter
         in if diffReserved > highCounter then (usedCounter + diffReserved, diffReserved)
            else (usedCounter + highCounter, highCounter)))"

text \<open>
  The gas counter has code of its own; its first branch leaves \<open>newHigh.GasUsed\<close> at the zero value
  of the fresh struct.
\<close>

definition neededGas :: "uint64 \<Rightarrow> uint64 \<Rightarrow> uint64 \<Rightarrow> uint64 \<times> uint64" where
  "neededGas high used reserved =
     (if reserved < used then (used + high, 0)
      else
        (let diffReserved = reserved - used
         in if diffReserved > high then (used + diffReserved, diffReserved)
            else (used + high, high)))"

definition getNeededZKCounters :: "ZKCounters \<Rightarrow> ZKCounters \<Rightarrow> ZKCounters \<Rightarrow> ZKCounters \<times> ZKCounters" where
  "getNeededZKCounters high used reserved =
     (let (a, ha) = neededCounter (Arithmetics high) (Arithmetics used) (Arithmetics reserved);
          (b, hb) = neededCounter (Binaries high) (Binaries used) (Binaries reserved);
          (k, hk) = neededCounter (KeccakHashes high) (KeccakHashes used) (KeccakHashes reserved);
          (m, hm) = neededCounter (MemAligns high) (MemAligns used) (MemAligns reserved);
          (p, hp) = neededCounter (PoseidonHashes high) (PoseidonHashes used) (PoseidonHashes reserved);
          (q, hq) = neededCounter (PoseidonPaddings high) (PoseidonPaddings used) (PoseidonPaddings reserved);
          (h, hh) = neededCounter (Sha256Hashes_V2 high) (Sha256Hashes_V2 used) (Sha256Hashes_V2 reserved);
          (s, hs) = neededCounter (Steps high) (Steps used) (Steps reserved);
          (g, hg) = neededGas (GasUsed high) (GasUsed used) (GasUsed reserved)
      in (\<lparr>GasUsed = g, KeccakHashes = k, PoseidonHashes = p, PoseidonPaddings = q, MemAligns = m,
           Arithmetics = a, Binaries = b, Steps = s, Sha256Hashes_V2 = h\<rparr>,
          \<lparr>GasUsed = hg, KeccakHashes = hk, PoseidonHashes = hp, PoseidonPaddings = hq, MemAligns = hm,
           Arithmetics = ha, Binaries = hb, Steps = hs, Sha256Hashes_V2 = hh\<rparr>))"

section \<open>What a bounded resource promises\<close>

text \<open>
  A resource has a number of kinds, each with an amount bounded by a word size.  \<open>fits\<close> compares
  all kinds, \<open>sub\<close> subtracts exactly when that underflows no kind and otherwise changes nothing,
  \<open>sum\<close> adds when no kind overflows.
\<close>

locale bounded_resource =
  fixes amount :: "'k \<Rightarrow> 'r \<Rightarrow> nat"
    and bound :: "'k \<Rightarrow> nat"
    and fits :: "'r \<Rightarrow> 'r \<Rightarrow> bool \<times> string"
    and sub :: "'r \<Rightarrow> 'r \<Rightarrow> 'r \<times> bool \<times> string"
    and sum :: "'r \<Rightarrow> 'r \<Rightarrow> 'r"
  assumes amount_inj: "(\<And>k. amount k r = amount k r') \<Longrightarrow> r = r'"
    and amount_bound: "amount k r < bound k"
    and fits_iff: "fst (fits r x) \<longleftrightarrow> (\<forall>k. amount k x \<le> amount k r)"
    and sub_fits: "fst (fits r x) \<Longrightarrow> \<exists>r'. sub r x = (r', False, []) \<and> (\<forall>k. amount k r' = amount k r - amount k x)"
    and sub_overflow: "\<not> fst (fits r x) \<Longrightarrow> sub r x = (r, True, snd (fits r x))"
    and sum_amount: "amount k r + amount k x < bound k \<Longrightarrow> amount k (sum r x) = amount k r + amount k x"
begin

text \<open>Adding back what was subtracted restores the resource: neither side wraps around.\<close>

lemma sum_of_sub:
  assumes "sub r x = (r', False, n)"
  shows "sum r' x = r"
proof -
  have f: "fst (fits r x)" using assms sub_overflow by fastforce
  then have le: "amount k x \<le> amount k r" for k by (simp add: fits_iff)
  have eq: "amount k r' = amount k r - amount k x" for k using sub_fits [OF f] assms by auto
  show ?thesis
  proof (rule amount_inj)
    fix k
    have "amount k r' + amount k x = amount k r" using le [of k] eq [of k] by simp
    then show "amount k (sum r' x) = amount k r" using sum_amount [of k r' x] amount_bound [of k r] by simp
  qed
qed

lemma sub_flag_iff: "fst (snd (sub r x)) \<longleftrightarrow> \<not> fst (fits r x)"
  using sub_fits [of r x] sub_overflow [of r x] by auto

lemma fits_trans: "fst (fits r x) \<Longrightarrow> fst (fits x y) \<Longrightarrow> fst (fits r y)"
  by (auto simp: fits_iff intro: order_trans)

lemma fits_refl: "fst (fits r r)"
  by (simp add: fits_iff)

text \<open>Two resources that fit together can be subtracted one after the other, in either order.\<close>

lemma sub_sub:
  assumes "\<And>k. amount k x + amount k y \<le> amount k r" and "sub r x = (r1, f, n)"
  shows "\<exists>r2. sub r1 y = (r2, False, []) \<and> (\<forall>k. amount k r2 = amount k r - amount k x - amount k y)"
proof -
  have "fst (fits r x)" unfolding fits_iff using assms(1) add_leD1 by blast
  then have r1: "amount k r1 = amount k r - amount k x" for k using sub_fits [of r x] assms(2) by auto
  have "fst (fits r1 y)"
    unfolding fits_iff r1
  proof
    show "amount k y \<le> amount k r - amount k x" for k using assms(1) [of k] by simp
  qed
  from sub_fits [OF this] r1 show ?thesis by simp
qed

end

text \<open>The kinds of the counters and of the batch resources, and their amounts.\<close>

datatype counter = Gas | Keccak | Poseidon | Paddings | Aligns | Arith | Bins | StepsC | Sha

fun counter_amount :: "counter \<Rightarrow> ZKCounters \<Rightarrow> nat" where
  "counter_amount Gas z = unat (GasUsed z)"
| "counter_amount Keccak z = unat (KeccakHashes z)"
| "counter_amount Poseidon z = unat (PoseidonHashes z)"
| "counter_amount Paddings z = unat (PoseidonPaddings z)"
| "counter_amount Aligns z = unat (MemAligns z)"
| "counter_amount Arith z = unat (Arithmetics z)"
| "counter_amount Bins z = unat (Binaries z)"
| "counter_amount StepsC z = unat (Steps z)"
| "counter_amount Sha z = unat (Sha256Hashes_V2 z)"

fun counter_bound :: "counter \<Rightarrow> nat" where
  "counter_bound Gas = 2 ^ 64"
| "counter_bound _ = 2 ^ 32"

datatype batch_resource = Counter counter | BytesR

fun resource_amount :: "batch_resource \<Rightarrow> BatchResources \<Rightarrow> nat" where
  "resource_amount (Counter c) r = counter_amount c (resZKCounters r)"
| "resource_amount BytesR r = unat (Bytes r)"

fun resource_bound :: "batch_resource \<Rightarrow> nat" where
  "resource_bound (Counter c) = counter_bound c"
| "resource_bound BytesR = 2 ^ 64"

lemma all_counters:
  "(\<forall>c. P c) \<longleftrightarrow> P Gas \<and> P Keccak \<and> P Poseidon \<and> P Paddings \<and> P Aligns \<and> P Arith \<and> P Bins \<and> P StepsC \<and> P Sha"
  by (metis counter.exhaust)

lemma all_resources: "(\<forall>k. P k) \<longleftrightarrow> (\<forall>c. P (Counter c)) \<and> P BytesR"
  by (metis batch_resource.exhaust)

lemma counter_amount_inj:
  assumes "\<And>k. counter_amount k r = counter_amount k r'"
  shows "r = r'"
proof -
  have "\<forall>k. counter_amount k r = counter_amount k r'" using assms by blast
  then show ?thesis by (cases r; cases r') (simp add: all_counters word_unat_eq_iff)
qed

lemma ZKCounters_Fits_words:
  "fst (ZKCounters_Fits r x) \<longleftrightarrow> GasUsed x \<le> GasUsed r \<and> KeccakHashes x \<le> KeccakHashes r
     \<and> PoseidonHashes x \<le> PoseidonHashes r \<and> PoseidonPaddings x \<le> PoseidonPaddings r
     \<and> MemAligns x \<le> MemAligns r \<and> Arithmetics x \<le> Arithmetics r \<and> Binaries x \<le> Binaries r
     \<and> Steps x \<le> Steps r \<and> Sha256Hashes_V2 x \<le> Sha256Hashes_V2 r"
  by (auto simp: ZKCounters_Fits_def not_less not_le)

lemma ZKCounters_Fits_iff:
  "fst (ZKCounters_Fits r x) \<longleftrightarrow> (\<forall>k. counter_amount k x \<le> counter_amount k r)"
  unfolding all_counters counter_amount.simps word_le_nat_alt [symmetric] by (rule ZKCounters_Fits_words)

lemma ZKCounters_Sub_fits:
  assumes "fst (ZKCounters_Fits r x)"
  shows "\<exists>r'. ZKCounters_Sub r x = (r', False, []) \<and> (\<forall>k. counter_amount k r' = counter_amount k r - counter_amount k x)"
  using assms unfolding ZKCounters_Fits_words
  by (simp add: ZKCounters_Sub_def all_counters unat_sub leD)

lemma ZKCounters_Sub_overflow:
  "\<not> fst (ZKCounters_Fits r x) \<Longrightarrow> ZKCounters_Sub r x = (r, True, snd (ZKCounters_Fits r x))"
  by (simp add: ZKCounters_Sub_def ZKCounters_Fits_def split: if_splits)

lemma unat_add_small: "unat a + unat b < 2 ^ LENGTH('a) \<Longrightarrow> unat (a + b) = unat a + unat (b :: 'a::len word)"
  by (simp add: unat_word_ariths)

lemma unat_bounds: "unat (w :: uint64) < 18446744073709551616" "unat (v :: uint32) < 4294967296"
  using unsigned_less [of w] unsigned_less [of v] by simp_all

interpretation zk: bounded_resource counter_amount counter_bound ZKCounters_Fits ZKCounters_Sub ZKCounters_SumUp
proof (unfold_locales, goal_cases)
  case (2 k r)
  then show ?case by (cases k) (simp_all add: unat_bounds)
next
  case (6 k r x)
  then show ?case by (cases k) (simp_all add: ZKCounters_SumUp_def unat_add_small)
qed (fact counter_amount_inj ZKCounters_Fits_iff ZKCounters_Sub_fits ZKCounters_Sub_overflow)+

interpretation br: bounded_resource resource_amount resource_bound BatchResources_Fits BatchResources_Sub BatchResources_SumUp
proof (unfold_locales, goal_cases)
  case (1 r r')
  have "resZKCounters r = resZKCounters r'" using 1 [of "Counter k" for k] by (intro zk.amount_inj) simp
  moreover have "Bytes r = Bytes r'" using 1 [of BytesR] by (simp add: word_unat_eq_iff)
  ultimately show ?case by simp
next
  case (2 k r)
  then show ?case using zk.amount_bound by (cases k) (simp_all add: unat_bounds)
next
  case (3 r x)
  then show ?case
    by (simp add: BatchResources_Fits_def all_resources zk.fits_iff word_less_nat_alt not_le)
next
  case (4 r x)
  then have b: "Bytes x \<le> Bytes r" and z: "fst (ZKCounters_Fits (resZKCounters r) (resZKCounters x))"
    by (auto simp: BatchResources_Fits_def not_less split: if_splits)
  then show ?case
    using zk.sub_fits [OF z] by (auto simp: BatchResources_Sub_def not_less all_resources unat_sub)
next
  case (5 r x)
  then show ?case
    using zk.sub_overflow [of "resZKCounters r" "resZKCounters x"]
    by (auto simp: BatchResources_Sub_def BatchResources_Fits_def Let_def split: if_splits)
next
  case (6 k r x)
  then show ?case by (cases k) (simp_all add: BatchResources_SumUp_def zk.sum_amount unat_add_small)
qed

end
