(* ===== verification/SequencerBatch.thy ===== *)
theory SequencerBatch
  imports ZkCounters
begin

text \<open>
  The work-in-progress batch of the sequencer (\<open>src/sequencer/batch.go\<close>) and the resource
  accounting that the finalizer does on it: when a transaction is added
  (\<open>src/sequencer/finalizer.go\<close>), when an L2 block is opened and when it is processed
  (\<open>src/sequencer/l2block.go\<close>); and the conditions under which the batch is closed.
\<close>

section \<open>Definitions\<close>

subsection \<open>The batch\<close>

datatype ClosingReason =
    EmptyClosingReason
  | MaxTxsClosingReason
  | ResourceExhaustedClosingReason
  | ResourceMarginExhaustedClosingReason
  | ForcedBatchClosingReason
  | ForcedBatchDeadlineClosingReason
  | MaxDeltaTimestampClosingReason
  | NoTxFitsClosingReason
  | L2BlockReorgClonsingReason
  | SyncL1EventInitialBatchClosingReason
  | SyncL1EventSequencedBatchClosingReason
  | SyncL1EventSequencedForcedBatchClosingReason
  | SyncL1EventUpdateEtrogSequenceClosingReason
  | SyncL2TrustedBatchClosingReason
  | SyncGenesisBatchClosingReason

text \<open>Times are nanoseconds since the epoch.\<close>

record Batch =
  batchNumber :: uint64
  coinbase :: bytes
  batchTimestamp :: int
  initialStateRoot :: hash32
  imStateRoot :: hash32
  finalStateRoot :: hash32
  countOfTxs :: int
  countOfL2Blocks :: int
  imRemainingResources :: BatchResources
  imHighReservedZKCounters :: ZKCounters
  finalRemainingResources :: BatchResources
  finalHighReservedZKCounters :: ZKCounters
  closingReason :: ClosingReason
  finalLocalExitRoot :: hash32

definition Batch_isEmpty :: "Batch \<Rightarrow> bool" where
  "Batch_isEmpty b \<longleftrightarrow> countOfL2Blocks b = 0"

subsection \<open>Fitting resources into the batch\<close>

text \<open>
  The common shape of the three places: the needed counters must fit the remaining resources, then
  the used ones are subtracted and the reserve is raised.  \<open>FitOverflow True n\<close> is the sanity
  check on the subtraction, after which the reserve has still been updated.
\<close>

datatype fit_outcome = FitOk | FitOverflow bool string

definition takeResources ::
  "BatchResources \<Rightarrow> ZKCounters \<Rightarrow> ZKCounters \<Rightarrow> ZKCounters \<Rightarrow> uint64
     \<Rightarrow> BatchResources \<times> ZKCounters \<times> fit_outcome" where
  "takeResources remaining high used reserved nbytes =
     (let (neededZKCounters, newHighZKCounters) = getNeededZKCounters high used reserved
      in case BatchResources_Fits remaining \<lparr>resZKCounters = neededZKCounters, Bytes = nbytes\<rparr> of
           (fits, overflowResource) \<Rightarrow>
             if fits then
               (case BatchResources_Sub remaining \<lparr>resZKCounters = used, Bytes = nbytes\<rparr> of
                  (remaining', subOverflow, name) \<Rightarrow>
                    (remaining', newHighZKCounters, if subOverflow then FitOverflow True name else FitOk))
             else (remaining, high, FitOverflow False overflowResource))"

text \<open>
  A transaction, after its execution.  A transaction that does not fit this batch and would not
  fit an empty one either is dropped as invalid (\<open>NodeOOC\<close>).
\<close>

datatype tx_outcome = TxAdded ZKCounters | NodeOOC | TxDoesNotFit

definition addTxResources ::
  "BatchConstraintsCfg \<Rightarrow> Batch \<Rightarrow> ZKCounters \<Rightarrow> ZKCounters \<Rightarrow> uint64 \<Rightarrow> Batch \<times> tx_outcome" where
  "addTxResources constraints b used reserved nbytes =
     (case takeResources (imRemainingResources b) (imHighReservedZKCounters b) used reserved nbytes of
        (remaining, high, out) \<Rightarrow>
          (let b' = b\<lparr>imRemainingResources := remaining, imHighReservedZKCounters := high\<rparr>
           in case out of
                FitOk \<Rightarrow> (b', TxAdded (fst (getNeededZKCounters (imHighReservedZKCounters b) used reserved)))
              | FitOverflow True _ \<Rightarrow> (b', TxDoesNotFit)
              | FitOverflow False _ \<Rightarrow>
                  (b', if \<not> IsWithinConstraints constraints reserved then NodeOOC else TxDoesNotFit)))"

text \<open>
  A new L2 block reserves twice its Poseidon hashes plus two, for the L1 info root that is written
  when the block is processed.  When it does not fit, the batch is closed and a new one opened.
\<close>

definition onNewL2Block :: "ZKCounters \<Rightarrow> ZKCounters" where
  "onNewL2Block z = z\<lparr>PoseidonHashes := (PoseidonHashes z * 2) + 2\<rparr>"

definition openL2BlockResources ::
  "Batch \<Rightarrow> ZKCounters \<Rightarrow> ZKCounters \<Rightarrow> uint64 \<Rightarrow> Batch \<times> bool" where
  "openL2BlockResources b used reserved nbytes =
     (case takeResources (imRemainingResources b) (imHighReservedZKCounters b)
             (onNewL2Block used) (onNewL2Block reserved) nbytes of
        (remaining, high, out) \<Rightarrow>
          (b\<lparr>imRemainingResources := remaining, imHighReservedZKCounters := high\<rparr>, out = FitOk))"

text \<open>
  Processing an L2 block accounts on the final resources of its batch.  On the sanity check the
  code returns before the reserve is updated.
\<close>

definition processL2BlockResources ::
  "Batch \<Rightarrow> ZKCounters \<Rightarrow> ZKCounters \<Rightarrow> uint64 \<Rightarrow> Batch \<times> bool" where
  "processL2BlockResources b used reserved nbytes =
     (case takeResources (finalRemainingResources b) (finalHighReservedZKCounters b) used reserved nbytes of
        (remaining, high, out) \<Rightarrow>
          (case out of
             FitOk \<Rightarrow> (b\<lparr>finalRemainingResources := remaining, finalHighReservedZKCounters := high\<rparr>, True)
           | FitOverflow _ _ \<Rightarrow> (b\<lparr>finalRemainingResources := remaining\<rparr>, False)))"

subsection \<open>When a batch is closed\<close>

definition maxTxsPerBatchReached :: "BatchConstraintsCfg \<Rightarrow> Batch \<Rightarrow> bool" where
  "maxTxsPerBatchReached constraints b \<longleftrightarrow>
     MaxTxsPerBatch constraints \<noteq> 0 \<and> countOfTxs b \<ge> sint (MaxTxsPerBatch constraints)"

text \<open>The margin is a percentage; both products are taken at the width of their operands.\<close>

definition getConstraintThresholdUint64 :: "uint32 \<Rightarrow> uint64 \<Rightarrow> uint64" where
  "getConstraintThresholdUint64 marginPct input = input * ucast marginPct div 100"

definition getConstraintThresholdUint32 :: "uint32 \<Rightarrow> uint32 \<Rightarrow> uint32" where
  "getConstraintThresholdUint32 marginPct input = input * marginPct div 100"

definition isBatchResourcesMarginExhausted ::
  "uint32 \<Rightarrow> BatchConstraintsCfg \<Rightarrow> BatchResources \<Rightarrow> bool \<times> string" where
  "isBatchResourcesMarginExhausted pct c resources =
     (let z = resZKCounters resources
      in if Bytes resources \<le> getConstraintThresholdUint64 pct (MaxBatchBytesSize c) then (True, ''Bytes'')
         else if Steps z \<le> getConstraintThresholdUint32 pct (MaxSteps c) then (True, ''Steps'')
         else if PoseidonPaddings z \<le> getConstraintThresholdUint32 pct (MaxPoseidonPaddings c)
           then (True, ''PoseidonPaddings'')
         else if PoseidonHashes z \<le> getConstraintThresholdUint32 pct (MaxPoseidonHashes c)
           then (True, ''PoseidonHashes'')
         else if Binaries z \<le> getConstraintThresholdUint32 pct (MaxBinaries c) then (True, ''Binaries'')
         else if KeccakHashes z \<le> getConstraintThresholdUint32 pct (MaxKeccakHashes c)
           then (True, ''KeccakHashes'')
         else if Arithmetics z \<le> getConstraintThresholdUint32 pct (MaxArithmetics c)
           then (True, ''Arithmetics'')
         else if MemAligns z \<le> getConstraintThresholdUint32 pct (MaxMemAligns c) then (True, ''MemAligns'')
         else if GasUsed z \<le> getConstraintThresholdUint64 pct (MaxCumulativeGasUsed c)
           then (True, ''CumulativeGas'')
         else if Sha256Hashes_V2 z \<le> getConstraintThresholdUint32 pct (MaxSHA256Hashes c)
           then (True, ''SHA256Hashes'')
         else (False, ''''))"

text \<open>\<open>nextForcedBatchDeadline\<close> and the current time are Unix seconds and nanoseconds.\<close>

definition checkIfFinalizeBatch ::
  "BatchConstraintsCfg \<Rightarrow> uint32 \<Rightarrow> int \<Rightarrow> int \<Rightarrow> int \<Rightarrow> Batch \<Rightarrow> bool \<times> ClosingReason" where
  "checkIfFinalizeBatch constraints pct nextForcedBatchDeadline maxDelta now b =
     (if maxTxsPerBatchReached constraints b then (True, MaxTxsClosingReason)
      else if fst (isBatchResourcesMarginExhausted pct constraints (imRemainingResources b))
        then (True, ResourceMarginExhaustedClosingReason)
      else if nextForcedBatchDeadline \<noteq> 0 \<and> now div 1000000000 \<ge> nextForcedBatchDeadline
        then (True, ForcedBatchDeadlineClosingReason)
      else if \<not> Batch_isEmpty b \<and> batchTimestamp b + maxDelta < now then (True, MaxDeltaTimestampClosingReason)
      else (False, EmptyClosingReason))"

section \<open>The needed counters\<close>

text \<open>The reserve a transaction asks for, as a number: what it reserved and did not use.\<close>

definition extra_reserve :: "counter \<Rightarrow> ZKCounters \<Rightarrow> ZKCounters \<Rightarrow> nat" where
  "extra_reserve k used reserved = counter_amount k reserved - counter_amount k used"

definition no_wrap :: "ZKCounters \<Rightarrow> ZKCounters \<Rightarrow> bool" where
  "no_wrap high used \<longleftrightarrow> (\<forall>k. counter_amount k used + counter_amount k high < counter_bound k)"

lemma neededCounter_spec:
  assumes "unat used + unat high < 2 ^ 32"
  shows "unat (fst (neededCounter high used reserved)) = unat used + max (unat high) (unat reserved - unat used)"
    and "unat (snd (neededCounter high used reserved)) = max (unat high) (unat reserved - unat used)"
  using assms unat_bounds(2) [of reserved]
  by (auto simp: neededCounter_def Let_def word_less_nat_alt not_less unat_sub word_le_nat_alt unat_add_small max_def)

lemma neededGas_spec:
  assumes "unat used + unat high < 2 ^ 64"
  shows "unat (fst (neededGas high used reserved)) = unat used + max (unat high) (unat reserved - unat used)"
    and "unat (snd (neededGas high used reserved)) =
      (if reserved < used then 0 else max (unat high) (unat reserved - unat used))"
  using assms unat_bounds(1) [of reserved]
  by (auto simp: neededGas_def Let_def word_less_nat_alt not_less unat_sub word_le_nat_alt unat_add_small max_def)

lemma getNeededZKCounters_spec:
  assumes "no_wrap high used" and "getNeededZKCounters high used reserved = (needed, newHigh)"
  shows "counter_amount k needed = counter_amount k used + max (counter_amount k high) (extra_reserve k used reserved)"
    and "counter_amount k newHigh =
      (if k = Gas \<and> GasUsed reserved < GasUsed used then 0
       else max (counter_amount k high) (extra_reserve k used reserved))"
proof -
  have w: "counter_amount k used + counter_amount k high < counter_bound k" for k
    using assms(1) by (simp add: no_wrap_def)
  note defs = assms(2) [unfolded getNeededZKCounters_def Let_def case_prod_beta, symmetric]
  show "counter_amount k needed = counter_amount k used + max (counter_amount k high) (extra_reserve k used reserved)"
    using w [of k] defs by (cases k) (simp_all add: neededCounter_spec neededGas_spec extra_reserve_def)
  show "counter_amount k newHigh =
      (if k = Gas \<and> GasUsed reserved < GasUsed used then 0
       else max (counter_amount k high) (extra_reserve k used reserved))"
    using w [of k] defs by (cases k) (simp_all add: neededCounter_spec neededGas_spec extra_reserve_def)
qed

section \<open>Accounting\<close>

text \<open>What the execution of one transaction reports, and the transactions a batch takes of a list.\<close>

record tx_exec =
  exec_used :: ZKCounters
  exec_reserved :: ZKCounters
  exec_bytes :: uint64

definition exec_resources :: "tx_exec \<Rightarrow> BatchResources" where
  "exec_resources t = \<lparr>resZKCounters = exec_used t, Bytes = exec_bytes t\<rparr>"

fun addTxs :: "BatchConstraintsCfg \<Rightarrow> Batch \<Rightarrow> tx_exec list \<Rightarrow> Batch \<times> tx_exec list" where
  "addTxs c b [] = (b, [])"
| "addTxs c b (t # ts) =
     (case addTxResources c b (exec_used t) (exec_reserved t) (exec_bytes t) of
        (b1, TxAdded _) \<Rightarrow> (case addTxs c b1 ts of (b2, added) \<Rightarrow> (b2, t # added))
      | (b1, _) \<Rightarrow> addTxs c b1 ts)"

text \<open>The reserve is always covered by what is left in the batch.\<close>

definition reserve_covered :: "BatchResources \<Rightarrow> ZKCounters \<Rightarrow> bool" where
  "reserve_covered remaining high \<longleftrightarrow> (\<forall>k. counter_amount k high \<le> counter_amount k (resZKCounters remaining))"

lemma takeResources_cases:
  assumes nw: "no_wrap high used" and cov: "reserve_covered remaining high"
    and take: "takeResources remaining high used reserved nbytes = (remaining', high', out)"
  obtains (ok) "out = FitOk" "reserve_covered remaining' high'"
      "high' = snd (getNeededZKCounters high used reserved)"
      "\<And>k. resource_amount k remaining'
        + resource_amount k \<lparr>resZKCounters = used, Bytes = nbytes\<rparr> = resource_amount k remaining"
    | (full) n where "out = FitOverflow False n" "remaining' = remaining" "high' = high"
proof -
  obtain needed newHigh where nn: "getNeededZKCounters high used reserved = (needed, newHigh)" by fastforce
  note spec = getNeededZKCounters_spec [OF nw nn]
  let ?n = "\<lparr>resZKCounters = needed, Bytes = nbytes\<rparr>" and ?u = "\<lparr>resZKCounters = used, Bytes = nbytes\<rparr>"
  obtain fits name where f: "BatchResources_Fits remaining ?n = (fits, name)" by fastforce
  show thesis
  proof (cases fits)
    case True
    then have le: "resource_amount k ?n \<le> resource_amount k remaining" for k
      using br.fits_iff [of remaining ?n] f by simp
    have un: "resource_amount k ?u \<le> resource_amount k ?n" for k
      by (cases k) (simp_all add: spec(1))
    then have "fst (BatchResources_Fits remaining ?u)"
      unfolding br.fits_iff using le order_trans by blast
    then obtain r where r: "BatchResources_Sub remaining ?u = (r, False, [])"
        and ra: "\<And>k. resource_amount k r = resource_amount k remaining - resource_amount k ?u"
      using br.sub_fits by blast
    have out: "remaining' = r" "high' = newHigh" "out = FitOk"
      using take f True r nn by (auto simp: takeResources_def)
    have "counter_amount k newHigh \<le> counter_amount k (resZKCounters r)" for k
      using le [of "Counter k"] ra [of "Counter k"] by (auto simp: spec max_def split: if_splits)
    then show thesis
      using out ra le un order_trans [OF un le] nn by (intro ok) (simp_all add: reserve_covered_def)
  next
    case False
    then show thesis using take f nn by (auto intro!: full simp: takeResources_def)
  qed
qed

lemma reserve_mono:
  assumes "no_wrap high used" "GasUsed used \<le> GasUsed reserved" "h = snd (getNeededZKCounters high used reserved)"
  shows "counter_amount k high \<le> counter_amount k h \<and> extra_reserve k used reserved \<le> counter_amount k h"
  using getNeededZKCounters_spec(2) [OF assms(1), of reserved "fst (getNeededZKCounters high used reserved)" h k] assms
  by (auto simp: not_less)

text \<open>One attempt to add a transaction, in terms of amounts.\<close>

lemma addTxResources_cases:
  assumes nw: "no_wrap (imHighReservedZKCounters b) (exec_used t)"
    and cov: "reserve_covered (imRemainingResources b) (imHighReservedZKCounters b)"
    and add: "addTxResources c b (exec_used t) (exec_reserved t) (exec_bytes t) = (b', out)"
  obtains (ok) n where "out = TxAdded n" "reserve_covered (imRemainingResources b') (imHighReservedZKCounters b')"
      "imHighReservedZKCounters b' = snd (getNeededZKCounters (imHighReservedZKCounters b) (exec_used t) (exec_reserved t))"
      "\<And>k. resource_amount k (imRemainingResources b') + resource_amount k (exec_resources t)
        = resource_amount k (imRemainingResources b)"
    | (full) "out = NodeOOC \<or> out = TxDoesNotFit" "b' = b"
proof -
  obtain r h o' where take: "takeResources (imRemainingResources b) (imHighReservedZKCounters b)
      (exec_used t) (exec_reserved t) (exec_bytes t) = (r, h, o')" by (metis prod_cases3)
  from nw cov take show thesis
  proof (cases rule: takeResources_cases)
    case ok
    with take add that(1) show thesis by (auto simp: addTxResources_def exec_resources_def)
  next
    case (full n)
    with take add that(2) show thesis by (auto simp: addTxResources_def split: if_splits)
  qed
qed

definition limits_small :: "BatchConstraintsCfg \<Rightarrow> tx_exec list \<Rightarrow> bool" where
  "limits_small c ts \<longleftrightarrow> (\<forall>t \<in> set ts. \<forall>k.
     counter_amount k (exec_used t) + counter_amount k (resZKCounters (getMaxBatchResources c)) < counter_bound k)"

definition below_max :: "BatchConstraintsCfg \<Rightarrow> Batch \<Rightarrow> bool" where
  "below_max c b \<longleftrightarrow> reserve_covered (imRemainingResources b) (imHighReservedZKCounters b)
     \<and> (\<forall>k. resource_amount k (imRemainingResources b) \<le> resource_amount k (getMaxBatchResources c))"

lemma below_max_no_wrap:
  assumes "below_max c b" "limits_small c (t # ts)"
  shows "no_wrap (imHighReservedZKCounters b) (exec_used t)"
  unfolding no_wrap_def
proof
  fix k
  have "counter_amount k (imHighReservedZKCounters b) \<le> counter_amount k (resZKCounters (getMaxBatchResources c))"
    using assms(1) unfolding below_max_def reserve_covered_def
    by (metis order_trans resource_amount.simps(1))
  moreover have "counter_amount k (exec_used t) + counter_amount k (resZKCounters (getMaxBatchResources c)) < counter_bound k"
    using assms(2) by (simp add: limits_small_def)
  ultimately show "counter_amount k (exec_used t) + counter_amount k (imHighReservedZKCounters b) < counter_bound k"
    by linarith
qed

lemma addTxs_invariant:
  assumes "below_max c b" "limits_small c ts" "addTxs c b ts = (b', added)"
  shows "below_max c b' \<and> (\<forall>k. resource_amount k (imRemainingResources b')
      + (\<Sum>t\<leftarrow>added. resource_amount k (exec_resources t)) = resource_amount k (imRemainingResources b))"
  using assms
proof (induction ts arbitrary: b added)
  case (Cons t ts)
  have cov: "reserve_covered (imRemainingResources b) (imHighReservedZKCounters b)"
    using Cons.prems(1) by (simp add: below_max_def)
  obtain b1 out where add: "addTxResources c b (exec_used t) (exec_reserved t) (exec_bytes t) = (b1, out)" by fastforce
  have small: "limits_small c ts" using Cons.prems(2) by (simp add: limits_small_def)
  from below_max_no_wrap [OF Cons.prems(1,2)] cov add show ?case
  proof (cases rule: addTxResources_cases)
    case (ok n)
    then have "resource_amount k (imRemainingResources b1) \<le> resource_amount k (imRemainingResources b)" for k
      by (metis le_add1)
    then have "below_max c b1"
      using Cons.prems(1) ok(2) unfolding below_max_def by (blast intro: order_trans)
    moreover obtain added' where "addTxs c b1 ts = (b', added')" "added = t # added'"
      using Cons.prems(3) add ok(1) by (auto split: prod.splits)
    ultimately have "below_max c b'" and sum: "\<forall>k. resource_amount k (imRemainingResources b')
        + (\<Sum>t\<leftarrow>added'. resource_amount k (exec_resources t)) = resource_amount k (imRemainingResources b1)"
      and "added = t # added'"
      using Cons.IH [of b1 added'] small by auto
    moreover have "resource_amount k (imRemainingResources b')
        + (resource_amount k (exec_resources t) + (\<Sum>t\<leftarrow>added'. resource_amount k (exec_resources t)))
      = resource_amount k (imRemainingResources b)" for k
      using spec [OF sum, of k] ok(4) [of k] by linarith
    ultimately show ?thesis by simp
  next
    case full
    then have "addTxs c b ts = (b', added)" using Cons.prems(3) add by auto
    then show ?thesis using Cons.IH small Cons.prems(1) by blast
  qed
qed simp

text \<open>Every reserve that was asked for stays covered, when no transaction used more gas than reserved.\<close>

lemma addTxs_reserves:
  assumes "below_max c b" "limits_small c ts" "addTxs c b ts = (b', added)"
    and "\<forall>t \<in> set ts. GasUsed (exec_used t) \<le> GasUsed (exec_reserved t)"
  shows "counter_amount k (imHighReservedZKCounters b) \<le> counter_amount k (imHighReservedZKCounters b')
    \<and> (\<forall>t \<in> set added. extra_reserve k (exec_used t) (exec_reserved t) \<le> counter_amount k (imHighReservedZKCounters b'))"
  using assms
proof (induction ts arbitrary: b added)
  case (Cons t ts)
  have cov: "reserve_covered (imRemainingResources b) (imHighReservedZKCounters b)"
    using Cons.prems(1) by (simp add: below_max_def)
  obtain b1 out where add: "addTxResources c b (exec_used t) (exec_reserved t) (exec_bytes t) = (b1, out)" by fastforce
  note nw = below_max_no_wrap [OF Cons.prems(1,2)]
  have small: "limits_small c ts" "limits_small c [t]" using Cons.prems(2) by (simp_all add: limits_small_def)
  from nw cov add show ?case
  proof (cases rule: addTxResources_cases)
    case (ok n)
    obtain added' where run: "addTxs c b1 ts = (b', added')" and a: "added = t # added'"
      using Cons.prems(3) add ok(1) by (auto split: prod.splits)
    have one: "addTxs c b [t] = (b1, [t])" using add ok(1) by simp
    have "below_max c b1" using addTxs_invariant [OF Cons.prems(1) small(2) one] by simp
    note ih = Cons.IH [OF this small(1) run]
    have "counter_amount k (imHighReservedZKCounters b) \<le> counter_amount k (imHighReservedZKCounters b1)
        \<and> extra_reserve k (exec_used t) (exec_reserved t) \<le> counter_amount k (imHighReservedZKCounters b1)"
      by (rule reserve_mono [OF nw _ ok(3)]) (use Cons.prems(4) in simp)
    with ih Cons.prems(4) show ?thesis unfolding a by (auto intro: order_trans)
  next
    case full
    then have "addTxs c b ts = (b', added)" using Cons.prems(3) add by auto
    then show ?thesis using Cons.IH small Cons.prems by simp
  qed
qed simp

section \<open>The closing margin\<close>

lemma unat_ucast_32_64: "unat (ucast (w :: uint32) :: uint64) = unat w"
  using unat_bounds(2) [of w] by (simp add: unsigned_ucast_eq take_bit_nat_eq_self)

lemma threshold64: "unat a * unat pct < 2 ^ 64 \<Longrightarrow> unat (getConstraintThresholdUint64 pct a) = unat a * unat pct div 100"
  by (simp add: getConstraintThresholdUint64_def unat_div unat_word_ariths unat_ucast_32_64)

lemma threshold32: "unat a * unat pct < 2 ^ 32 \<Longrightarrow> unat (getConstraintThresholdUint32 pct a) = unat a * unat pct div 100"
  by (simp add: getConstraintThresholdUint32_def unat_div unat_word_ariths)

section \<open>Properties\<close>

definition fresh_batch :: "BatchConstraintsCfg \<Rightarrow> Batch \<Rightarrow> bool" where
  "fresh_batch c b \<longleftrightarrow> imRemainingResources b = getMaxBatchResources c \<and> imHighReservedZKCounters b = no_counters"

lemma no_counters_amount [simp]: "counter_amount k no_counters = 0"
  by (cases k) (simp_all add: no_counters_def)

lemma fresh_below_max: "fresh_batch c b \<Longrightarrow> below_max c b"
  by (simp add: fresh_batch_def below_max_def reserve_covered_def)

lemma getUsedBatchResources_amount:
  assumes "\<And>k. resource_amount k r \<le> resource_amount k (getMaxBatchResources c)"
  shows "resource_amount k (getUsedBatchResources c r)
    = resource_amount k (getMaxBatchResources c) - resource_amount k r"
proof (cases k)
  case (Counter kk)
  with assms [of k] show ?thesis
    by (cases kk) (simp_all add: getUsedBatchResources_def getMaxBatchResources_def Let_def word_le_nat_alt unat_sub)
next
  case BytesR
  with assms [of k] show ?thesis
    by (simp add: getUsedBatchResources_def getMaxBatchResources_def Let_def word_le_nat_alt unat_sub)
qed

text \<open>A batch configuration and two transactions, for the concrete instances below.\<close>

definition sample_constraints :: BatchConstraintsCfg where
  "sample_constraints = \<lparr>MaxTxsPerBatch = 300, MaxBatchBytesSize = 120000, MaxCumulativeGasUsed = 30000000,
     MaxKeccakHashes = 2145, MaxPoseidonHashes = 252357, MaxPoseidonPaddings = 135191, MaxMemAligns = 236585,
     MaxArithmetics = 236585, MaxBinaries = 473170, MaxSteps = 7570538, MaxSHA256Hashes = 1596\<rparr>"

definition sample_tx :: tx_exec where
  "sample_tx = \<lparr>exec_used = no_counters\<lparr>GasUsed := 21000, Steps := 5000\<rparr>,
     exec_reserved = no_counters\<lparr>GasUsed := 21000, Steps := 7000\<rparr>, exec_bytes = 120\<rparr>"

definition sample_big_tx :: tx_exec where
  "sample_big_tx = sample_tx\<lparr>exec_bytes := 130000\<rparr>"

definition sample_batch :: Batch where
  "sample_batch = \<lparr>batchNumber = 1, coinbase = [], batchTimestamp = 0, initialStateRoot = zero_hash,
     imStateRoot = zero_hash, finalStateRoot = zero_hash, countOfTxs = 0, countOfL2Blocks = 0,
     imRemainingResources = getMaxBatchResources sample_constraints, imHighReservedZKCounters = no_counters,
     finalRemainingResources = getMaxBatchResources sample_constraints, finalHighReservedZKCounters = no_counters,
     closingReason = EmptyClosingReason, finalLocalExitRoot = zero_hash\<rparr>"

lemma sample_batch_fresh: "fresh_batch sample_constraints sample_batch"
  by (simp add: fresh_batch_def sample_batch_def)

lemma sample_limits_small: "limits_small sample_constraints [sample_tx, sample_big_tx]"
  by (simp add: limits_small_def all_counters sample_constraints_def getMaxBatchResources_def sample_tx_def
      sample_big_tx_def no_counters_def)





text \<open>
  The sanity check on the subtraction is unreachable: when the reserve is covered and the use
  plus the reserve does not wrap around, resources whose needed amounts fit are always subtracted.
\<close>

lemma takeResources_no_sub_overflow:
  assumes "no_wrap high used" and "reserve_covered remaining high"
  shows "snd (snd (takeResources remaining high used reserved nbytes)) \<noteq> FitOverflow True n"
proof -
  obtain r h out where t: "takeResources remaining high used reserved nbytes = (r, h, out)" by (metis prod_cases3)
  from assms t have "out \<noteq> FitOverflow True n" by (cases rule: takeResources_cases) auto
  with t show ?thesis by simp
qed

text \<open>
  A transaction that reports more used than reserved gas wipes out the gas reserve of the
  batch, while every other counter keeps its reserve in the same situation.
\<close>

lemma gas_reserve_lost:
  assumes "GasUsed reserved < GasUsed used"
  shows "GasUsed (snd (getNeededZKCounters high used reserved)) = 0
    \<and> (Steps reserved < Steps used \<longrightarrow> Steps (snd (getNeededZKCounters high used reserved)) = Steps high)"
  using assms by (simp add: getNeededZKCounters_def Let_def case_prod_beta neededGas_def neededCounter_def)

text \<open>
  The margin check closes a batch exactly when some counter or the bytes left are at most the
  configured percentage of its limit, provided the percentage of the limits does not overflow.
\<close>

lemma isBatchResourcesMarginExhausted_iff:
  assumes "\<forall>k. resource_amount k (getMaxBatchResources c) * unat pct < resource_bound k"
  shows "fst (isBatchResourcesMarginExhausted pct c r) \<longleftrightarrow>
    (\<exists>k. resource_amount k r \<le> resource_amount k (getMaxBatchResources c) * unat pct div 100)"
proof -
  have "(\<not> (\<forall>k. \<not> resource_amount k r \<le> resource_amount k (getMaxBatchResources c) * unat pct div 100)) \<longleftrightarrow>
    fst (isBatchResourcesMarginExhausted pct c r)"
    using assms unfolding all_resources all_counters
    by (auto simp: isBatchResourcesMarginExhausted_def getMaxBatchResources_def Let_def word_le_nat_alt
        threshold32 threshold64)
  then show ?thesis by blast
qed

end
