(* ===== verification/ExecutorErrors.thy ===== *)
theory ExecutorErrors
  imports Prelude
begin

text \<open>
  The errors of the executor (\<open>src/state/runtime/executor/errors.go\<close>): the ROM and executor error
  codes of the protocol, the functions that turn a code into a Go error and back, and the
  predicates by which the node classifies codes.  The theory shows that the two directions are
  inverse to each other and that the classifying ranges contain exactly the intended codes.
\<close>

section \<open>Definitions\<close>

subsection \<open>Codes and errors\<close>

text \<open>
  The enumerations of the protocol are 32-bit integers.  A Go error value is compared by identity:
  it stands for the variable that holds it, and \<open>None\<close> for \<open>nil\<close>.
\<close>

type_synonym go_error = "string option"

abbreviation (input) ROM_ERROR_UNSPECIFIED :: int where "ROM_ERROR_UNSPECIFIED \<equiv> 0"
abbreviation (input) ROM_ERROR_NO_ERROR :: int where "ROM_ERROR_NO_ERROR \<equiv> 1"
abbreviation (input) ROM_ERROR_OUT_OF_GAS :: int where "ROM_ERROR_OUT_OF_GAS \<equiv> 2"
abbreviation (input) ROM_ERROR_STACK_OVERFLOW :: int where "ROM_ERROR_STACK_OVERFLOW \<equiv> 3"
abbreviation (input) ROM_ERROR_STACK_UNDERFLOW :: int where "ROM_ERROR_STACK_UNDERFLOW \<equiv> 4"
abbreviation (input) ROM_ERROR_MAX_CODE_SIZE_EXCEEDED :: int where "ROM_ERROR_MAX_CODE_SIZE_EXCEEDED \<equiv> 5"
abbreviation (input) ROM_ERROR_CONTRACT_ADDRESS_COLLISION :: int where "ROM_ERROR_CONTRACT_ADDRESS_COLLISION \<equiv> 6"
abbreviation (input) ROM_ERROR_EXECUTION_REVERTED :: int where "ROM_ERROR_EXECUTION_REVERTED \<equiv> 7"
abbreviation (input) ROM_ERROR_OUT_OF_COUNTERS_STEP :: int where "ROM_ERROR_OUT_OF_COUNTERS_STEP \<equiv> 8"
abbreviation (input) ROM_ERROR_OUT_OF_COUNTERS_KECCAK :: int where "ROM_ERROR_OUT_OF_COUNTERS_KECCAK \<equiv> 9"
abbreviation (input) ROM_ERROR_OUT_OF_COUNTERS_BINARY :: int where "ROM_ERROR_OUT_OF_COUNTERS_BINARY \<equiv> 10"
abbreviation (input) ROM_ERROR_OUT_OF_COUNTERS_MEM :: int where "ROM_ERROR_OUT_OF_COUNTERS_MEM \<equiv> 11"
abbreviation (input) ROM_ERROR_OUT_OF_COUNTERS_ARITH :: int where "ROM_ERROR_OUT_OF_COUNTERS_ARITH \<equiv> 12"
abbreviation (input) ROM_ERROR_OUT_OF_COUNTERS_PADDING :: int where "ROM_ERROR_OUT_OF_COUNTERS_PADDING \<equiv> 13"
abbreviation (input) ROM_ERROR_OUT_OF_COUNTERS_POSEIDON :: int where "ROM_ERROR_OUT_OF_COUNTERS_POSEIDON \<equiv> 14"
abbreviation (input) ROM_ERROR_OUT_OF_COUNTERS_SHA :: int where "ROM_ERROR_OUT_OF_COUNTERS_SHA \<equiv> 15"
abbreviation (input) ROM_ERROR_INVALID_JUMP :: int where "ROM_ERROR_INVALID_JUMP \<equiv> 16"
abbreviation (input) ROM_ERROR_INVALID_OPCODE :: int where "ROM_ERROR_INVALID_OPCODE \<equiv> 17"
abbreviation (input) ROM_ERROR_INVALID_STATIC :: int where "ROM_ERROR_INVALID_STATIC \<equiv> 18"
abbreviation (input) ROM_ERROR_INVALID_BYTECODE_STARTS_EF :: int where "ROM_ERROR_INVALID_BYTECODE_STARTS_EF \<equiv> 19"
abbreviation (input) ROM_ERROR_INTRINSIC_INVALID_SIGNATURE :: int where "ROM_ERROR_INTRINSIC_INVALID_SIGNATURE \<equiv> 20"
abbreviation (input) ROM_ERROR_INTRINSIC_INVALID_CHAIN_ID :: int where "ROM_ERROR_INTRINSIC_INVALID_CHAIN_ID \<equiv> 21"
abbreviation (input) ROM_ERROR_INTRINSIC_INVALID_NONCE :: int where "ROM_ERROR_INTRINSIC_INVALID_NONCE \<equiv> 22"
abbreviation (input) ROM_ERROR_INTRINSIC_INVALID_GAS_LIMIT :: int where "ROM_ERROR_INTRINSIC_INVALID_GAS_LIMIT \<equiv> 23"
abbreviation (input) ROM_ERROR_INTRINSIC_INVALID_BALANCE :: int where "ROM_ERROR_INTRINSIC_INVALID_BALANCE \<equiv> 24"
abbreviation (input) ROM_ERROR_INTRINSIC_INVALID_BATCH_GAS_LIMIT :: int where "ROM_ERROR_INTRINSIC_INVALID_BATCH_GAS_LIMIT \<equiv> 25"
abbreviation (input) ROM_ERROR_INTRINSIC_INVALID_SENDER_CODE :: int where "ROM_ERROR_INTRINSIC_INVALID_SENDER_CODE \<equiv> 26"
abbreviation (input) ROM_ERROR_INTRINSIC_TX_GAS_OVERFLOW :: int where "ROM_ERROR_INTRINSIC_TX_GAS_OVERFLOW \<equiv> 27"
abbreviation (input) ROM_ERROR_BATCH_DATA_TOO_BIG :: int where "ROM_ERROR_BATCH_DATA_TOO_BIG \<equiv> 28"
abbreviation (input) ROM_ERROR_UNSUPPORTED_FORK_ID :: int where "ROM_ERROR_UNSUPPORTED_FORK_ID \<equiv> 29"
abbreviation (input) ROM_ERROR_INVALID_RLP :: int where "ROM_ERROR_INVALID_RLP \<equiv> 30"
abbreviation (input) ROM_ERROR_INVALID_DECODE_CHANGE_L2_BLOCK :: int where "ROM_ERROR_INVALID_DECODE_CHANGE_L2_BLOCK \<equiv> 31"
abbreviation (input) ROM_ERROR_INVALID_NOT_FIRST_TX_CHANGE_L2_BLOCK :: int where "ROM_ERROR_INVALID_NOT_FIRST_TX_CHANGE_L2_BLOCK \<equiv> 32"
abbreviation (input) ROM_ERROR_INVALID_TX_CHANGE_L2_BLOCK_LIMIT_TIMESTAMP :: int where "ROM_ERROR_INVALID_TX_CHANGE_L2_BLOCK_LIMIT_TIMESTAMP \<equiv> 33"
abbreviation (input) ROM_ERROR_INVALID_TX_CHANGE_L2_BLOCK_MIN_TIMESTAMP :: int where "ROM_ERROR_INVALID_TX_CHANGE_L2_BLOCK_MIN_TIMESTAMP \<equiv> 34"

abbreviation (input) EXECUTOR_ERROR_UNSPECIFIED :: int where "EXECUTOR_ERROR_UNSPECIFIED \<equiv> 0"
abbreviation (input) EXECUTOR_ERROR_NO_ERROR :: int where "EXECUTOR_ERROR_NO_ERROR \<equiv> 1"
abbreviation (input) EXECUTOR_ERROR_DB_ERROR :: int where "EXECUTOR_ERROR_DB_ERROR \<equiv> 2"
abbreviation (input) EXECUTOR_ERROR_SM_MAIN_COUNTERS_OVERFLOW_STEPS :: int where "EXECUTOR_ERROR_SM_MAIN_COUNTERS_OVERFLOW_STEPS \<equiv> 3"
abbreviation (input) EXECUTOR_ERROR_SM_MAIN_COUNTERS_OVERFLOW_KECCAK :: int where "EXECUTOR_ERROR_SM_MAIN_COUNTERS_OVERFLOW_KECCAK \<equiv> 4"
abbreviation (input) EXECUTOR_ERROR_SM_MAIN_COUNTERS_OVERFLOW_BINARY :: int where "EXECUTOR_ERROR_SM_MAIN_COUNTERS_OVERFLOW_BINARY \<equiv> 5"
abbreviation (input) EXECUTOR_ERROR_SM_MAIN_COUNTERS_OVERFLOW_MEM :: int where "EXECUTOR_ERROR_SM_MAIN_COUNTERS_OVERFLOW_MEM \<equiv> 6"
abbreviation (input) EXECUTOR_ERROR_SM_MAIN_COUNTERS_OVERFLOW_ARITH :: int where "EXECUTOR_ERROR_SM_MAIN_COUNTERS_OVERFLOW_ARITH \<equiv> 7"
abbreviation (input) EXECUTOR_ERROR_SM_MAIN_COUNTERS_OVERFLOW_PADDING :: int where "EXECUTOR_ERROR_SM_MAIN_COUNTERS_OVERFLOW_PADDING \<equiv> 8"
abbreviation (input) EXECUTOR_ERROR_SM_MAIN_COUNTERS_OVERFLOW_POSEIDON :: int where "EXECUTOR_ERROR_SM_MAIN_COUNTERS_OVERFLOW_POSEIDON \<equiv> 9"
abbreviation (input) EXECUTOR_ERROR_UNSUPPORTED_FORK_ID :: int where "EXECUTOR_ERROR_UNSUPPORTED_FORK_ID \<equiv> 10"
abbreviation (input) EXECUTOR_ERROR_BALANCE_MISMATCH :: int where "EXECUTOR_ERROR_BALANCE_MISMATCH \<equiv> 11"
abbreviation (input) EXECUTOR_ERROR_FEA2SCALAR :: int where "EXECUTOR_ERROR_FEA2SCALAR \<equiv> 12"
abbreviation (input) EXECUTOR_ERROR_TOS32 :: int where "EXECUTOR_ERROR_TOS32 \<equiv> 13"
abbreviation (input) EXECUTOR_ERROR_SM_MAIN_INVALID_UNSIGNED_TX :: int where "EXECUTOR_ERROR_SM_MAIN_INVALID_UNSIGNED_TX \<equiv> 14"
abbreviation (input) EXECUTOR_ERROR_SM_MAIN_INVALID_NO_COUNTERS :: int where "EXECUTOR_ERROR_SM_MAIN_INVALID_NO_COUNTERS \<equiv> 15"
abbreviation (input) EXECUTOR_ERROR_SM_MAIN_ARITH_ECRECOVER_DIVIDE_BY_ZERO :: int where "EXECUTOR_ERROR_SM_MAIN_ARITH_ECRECOVER_DIVIDE_BY_ZERO \<equiv> 16"
abbreviation (input) EXECUTOR_ERROR_SM_MAIN_ADDRESS_OUT_OF_RANGE :: int where "EXECUTOR_ERROR_SM_MAIN_ADDRESS_OUT_OF_RANGE \<equiv> 17"
abbreviation (input) EXECUTOR_ERROR_SM_MAIN_ADDRESS_NEGATIVE :: int where "EXECUTOR_ERROR_SM_MAIN_ADDRESS_NEGATIVE \<equiv> 18"
abbreviation (input) EXECUTOR_ERROR_SM_MAIN_STORAGE_INVALID_KEY :: int where "EXECUTOR_ERROR_SM_MAIN_STORAGE_INVALID_KEY \<equiv> 19"
abbreviation (input) EXECUTOR_ERROR_SM_MAIN_HASHK :: int where "EXECUTOR_ERROR_SM_MAIN_HASHK \<equiv> 20"
abbreviation (input) EXECUTOR_ERROR_SM_MAIN_HASHK_SIZE_OUT_OF_RANGE :: int where "EXECUTOR_ERROR_SM_MAIN_HASHK_SIZE_OUT_OF_RANGE \<equiv> 21"
abbreviation (input) EXECUTOR_ERROR_SM_MAIN_HASHK_POSITION_NEGATIVE :: int where "EXECUTOR_ERROR_SM_MAIN_HASHK_POSITION_NEGATIVE \<equiv> 22"
abbreviation (input) EXECUTOR_ERROR_SM_MAIN_HASHK_POSITION_PLUS_SIZE_OUT_OF_RANGE :: int where "EXECUTOR_ERROR_SM_MAIN_HASHK_POSITION_PLUS_SIZE_OUT_OF_RANGE \<equiv> 23"
abbreviation (input) EXECUTOR_ERROR_SM_MAIN_HASHKDIGEST_ADDRESS_NOT_FOUND :: int where "EXECUTOR_ERROR_SM_MAIN_HASHKDIGEST_ADDRESS_NOT_FOUND \<equiv> 24"
abbreviation (input) EXECUTOR_ERROR_SM_MAIN_HASHKDIGEST_NOT_COMPLETED :: int where "EXECUTOR_ERROR_SM_MAIN_HASHKDIGEST_NOT_COMPLETED \<equiv> 25"
abbreviation (input) EXECUTOR_ERROR_SM_MAIN_HASHP :: int where "EXECUTOR_ERROR_SM_MAIN_HASHP \<equiv> 26"
abbreviation (input) EXECUTOR_ERROR_SM_MAIN_HASHP_SIZE_OUT_OF_RANGE :: int where "EXECUTOR_ERROR_SM_MAIN_HASHP_SIZE_OUT_OF_RANGE \<equiv> 27"
abbreviation (input) EXECUTOR_ERROR_SM_MAIN_HASHP_POSITION_NEGATIVE :: int where "EXECUTOR_ERROR_SM_MAIN_HASHP_POSITION_NEGATIVE \<equiv> 28"
abbreviation (input) EXECUTOR_ERROR_SM_MAIN_HASHP_POSITION_PLUS_SIZE_OUT_OF_RANGE :: int where "EXECUTOR_ERROR_SM_MAIN_HASHP_POSITION_PLUS_SIZE_OUT_OF_RANGE \<equiv> 29"
abbreviation (input) EXECUTOR_ERROR_SM_MAIN_HASHPDIGEST_ADDRESS_NOT_FOUND :: int where "EXECUTOR_ERROR_SM_MAIN_HASHPDIGEST_ADDRESS_NOT_FOUND \<equiv> 30"
abbreviation (input) EXECUTOR_ERROR_SM_MAIN_HASHPDIGEST_NOT_COMPLETED :: int where "EXECUTOR_ERROR_SM_MAIN_HASHPDIGEST_NOT_COMPLETED \<equiv> 31"
abbreviation (input) EXECUTOR_ERROR_SM_MAIN_MEMALIGN_OFFSET_OUT_OF_RANGE :: int where "EXECUTOR_ERROR_SM_MAIN_MEMALIGN_OFFSET_OUT_OF_RANGE \<equiv> 32"
abbreviation (input) EXECUTOR_ERROR_SM_MAIN_MULTIPLE_FREEIN :: int where "EXECUTOR_ERROR_SM_MAIN_MULTIPLE_FREEIN \<equiv> 33"
abbreviation (input) EXECUTOR_ERROR_SM_MAIN_ASSERT :: int where "EXECUTOR_ERROR_SM_MAIN_ASSERT \<equiv> 34"
abbreviation (input) EXECUTOR_ERROR_SM_MAIN_MEMORY :: int where "EXECUTOR_ERROR_SM_MAIN_MEMORY \<equiv> 35"
abbreviation (input) EXECUTOR_ERROR_SM_MAIN_STORAGE_READ_MISMATCH :: int where "EXECUTOR_ERROR_SM_MAIN_STORAGE_READ_MISMATCH \<equiv> 36"
abbreviation (input) EXECUTOR_ERROR_SM_MAIN_STORAGE_WRITE_MISMATCH :: int where "EXECUTOR_ERROR_SM_MAIN_STORAGE_WRITE_MISMATCH \<equiv> 37"
abbreviation (input) EXECUTOR_ERROR_SM_MAIN_HASHK_VALUE_MISMATCH :: int where "EXECUTOR_ERROR_SM_MAIN_HASHK_VALUE_MISMATCH \<equiv> 38"
abbreviation (input) EXECUTOR_ERROR_SM_MAIN_HASHK_PADDING_MISMATCH :: int where "EXECUTOR_ERROR_SM_MAIN_HASHK_PADDING_MISMATCH \<equiv> 39"
abbreviation (input) EXECUTOR_ERROR_SM_MAIN_HASHK_SIZE_MISMATCH :: int where "EXECUTOR_ERROR_SM_MAIN_HASHK_SIZE_MISMATCH \<equiv> 40"
abbreviation (input) EXECUTOR_ERROR_SM_MAIN_HASHKLEN_LENGTH_MISMATCH :: int where "EXECUTOR_ERROR_SM_MAIN_HASHKLEN_LENGTH_MISMATCH \<equiv> 41"
abbreviation (input) EXECUTOR_ERROR_SM_MAIN_HASHKLEN_CALLED_TWICE :: int where "EXECUTOR_ERROR_SM_MAIN_HASHKLEN_CALLED_TWICE \<equiv> 42"
abbreviation (input) EXECUTOR_ERROR_SM_MAIN_HASHKDIGEST_NOT_FOUND :: int where "EXECUTOR_ERROR_SM_MAIN_HASHKDIGEST_NOT_FOUND \<equiv> 43"
abbreviation (input) EXECUTOR_ERROR_SM_MAIN_HASHKDIGEST_DIGEST_MISMATCH :: int where "EXECUTOR_ERROR_SM_MAIN_HASHKDIGEST_DIGEST_MISMATCH \<equiv> 44"
abbreviation (input) EXECUTOR_ERROR_SM_MAIN_HASHKDIGEST_CALLED_TWICE :: int where "EXECUTOR_ERROR_SM_MAIN_HASHKDIGEST_CALLED_TWICE \<equiv> 45"
abbreviation (input) EXECUTOR_ERROR_SM_MAIN_HASHP_VALUE_MISMATCH :: int where "EXECUTOR_ERROR_SM_MAIN_HASHP_VALUE_MISMATCH \<equiv> 46"
abbreviation (input) EXECUTOR_ERROR_SM_MAIN_HASHP_PADDING_MISMATCH :: int where "EXECUTOR_ERROR_SM_MAIN_HASHP_PADDING_MISMATCH \<equiv> 47"
abbreviation (input) EXECUTOR_ERROR_SM_MAIN_HASHP_SIZE_MISMATCH :: int where "EXECUTOR_ERROR_SM_MAIN_HASHP_SIZE_MISMATCH \<equiv> 48"
abbreviation (input) EXECUTOR_ERROR_SM_MAIN_HASHPLEN_LENGTH_MISMATCH :: int where "EXECUTOR_ERROR_SM_MAIN_HASHPLEN_LENGTH_MISMATCH \<equiv> 49"
abbreviation (input) EXECUTOR_ERROR_SM_MAIN_HASHPLEN_CALLED_TWICE :: int where "EXECUTOR_ERROR_SM_MAIN_HASHPLEN_CALLED_TWICE \<equiv> 50"
abbreviation (input) EXECUTOR_ERROR_SM_MAIN_HASHPDIGEST_DIGEST_MISMATCH :: int where "EXECUTOR_ERROR_SM_MAIN_HASHPDIGEST_DIGEST_MISMATCH \<equiv> 51"
abbreviation (input) EXECUTOR_ERROR_SM_MAIN_HASHPDIGEST_CALLED_TWICE :: int where "EXECUTOR_ERROR_SM_MAIN_HASHPDIGEST_CALLED_TWICE \<equiv> 52"
abbreviation (input) EXECUTOR_ERROR_SM_MAIN_ARITH_MISMATCH :: int where "EXECUTOR_ERROR_SM_MAIN_ARITH_MISMATCH \<equiv> 53"
abbreviation (input) EXECUTOR_ERROR_SM_MAIN_ARITH_ECRECOVER_MISMATCH :: int where "EXECUTOR_ERROR_SM_MAIN_ARITH_ECRECOVER_MISMATCH \<equiv> 54"
abbreviation (input) EXECUTOR_ERROR_SM_MAIN_BINARY_ADD_MISMATCH :: int where "EXECUTOR_ERROR_SM_MAIN_BINARY_ADD_MISMATCH \<equiv> 55"
abbreviation (input) EXECUTOR_ERROR_SM_MAIN_BINARY_SUB_MISMATCH :: int where "EXECUTOR_ERROR_SM_MAIN_BINARY_SUB_MISMATCH \<equiv> 56"
abbreviation (input) EXECUTOR_ERROR_SM_MAIN_BINARY_LT_MISMATCH :: int where "EXECUTOR_ERROR_SM_MAIN_BINARY_LT_MISMATCH \<equiv> 57"
abbreviation (input) EXECUTOR_ERROR_SM_MAIN_BINARY_SLT_MISMATCH :: int where "EXECUTOR_ERROR_SM_MAIN_BINARY_SLT_MISMATCH \<equiv> 58"
abbreviation (input) EXECUTOR_ERROR_SM_MAIN_BINARY_EQ_MISMATCH :: int where "EXECUTOR_ERROR_SM_MAIN_BINARY_EQ_MISMATCH \<equiv> 59"
abbreviation (input) EXECUTOR_ERROR_SM_MAIN_BINARY_AND_MISMATCH :: int where "EXECUTOR_ERROR_SM_MAIN_BINARY_AND_MISMATCH \<equiv> 60"
abbreviation (input) EXECUTOR_ERROR_SM_MAIN_BINARY_OR_MISMATCH :: int where "EXECUTOR_ERROR_SM_MAIN_BINARY_OR_MISMATCH \<equiv> 61"
abbreviation (input) EXECUTOR_ERROR_SM_MAIN_BINARY_XOR_MISMATCH :: int where "EXECUTOR_ERROR_SM_MAIN_BINARY_XOR_MISMATCH \<equiv> 62"
abbreviation (input) EXECUTOR_ERROR_SM_MAIN_MEMALIGN_WRITE_MISMATCH :: int where "EXECUTOR_ERROR_SM_MAIN_MEMALIGN_WRITE_MISMATCH \<equiv> 63"
abbreviation (input) EXECUTOR_ERROR_SM_MAIN_MEMALIGN_WRITE8_MISMATCH :: int where "EXECUTOR_ERROR_SM_MAIN_MEMALIGN_WRITE8_MISMATCH \<equiv> 64"
abbreviation (input) EXECUTOR_ERROR_SM_MAIN_MEMALIGN_READ_MISMATCH :: int where "EXECUTOR_ERROR_SM_MAIN_MEMALIGN_READ_MISMATCH \<equiv> 65"
abbreviation (input) EXECUTOR_ERROR_SM_MAIN_JMPN_OUT_OF_RANGE :: int where "EXECUTOR_ERROR_SM_MAIN_JMPN_OUT_OF_RANGE \<equiv> 66"
abbreviation (input) EXECUTOR_ERROR_SM_MAIN_HASHK_READ_OUT_OF_RANGE :: int where "EXECUTOR_ERROR_SM_MAIN_HASHK_READ_OUT_OF_RANGE \<equiv> 67"
abbreviation (input) EXECUTOR_ERROR_SM_MAIN_HASHP_READ_OUT_OF_RANGE :: int where "EXECUTOR_ERROR_SM_MAIN_HASHP_READ_OUT_OF_RANGE \<equiv> 68"
abbreviation (input) EXECUTOR_ERROR_INVALID_OLD_STATE_ROOT :: int where "EXECUTOR_ERROR_INVALID_OLD_STATE_ROOT \<equiv> 69"
abbreviation (input) EXECUTOR_ERROR_INVALID_OLD_ACC_INPUT_HASH :: int where "EXECUTOR_ERROR_INVALID_OLD_ACC_INPUT_HASH \<equiv> 70"
abbreviation (input) EXECUTOR_ERROR_INVALID_CHAIN_ID :: int where "EXECUTOR_ERROR_INVALID_CHAIN_ID \<equiv> 71"
abbreviation (input) EXECUTOR_ERROR_INVALID_BATCH_L2_DATA :: int where "EXECUTOR_ERROR_INVALID_BATCH_L2_DATA \<equiv> 72"
abbreviation (input) EXECUTOR_ERROR_INVALID_GLOBAL_EXIT_ROOT :: int where "EXECUTOR_ERROR_INVALID_GLOBAL_EXIT_ROOT \<equiv> 73"
abbreviation (input) EXECUTOR_ERROR_INVALID_COINBASE :: int where "EXECUTOR_ERROR_INVALID_COINBASE \<equiv> 74"
abbreviation (input) EXECUTOR_ERROR_INVALID_FROM :: int where "EXECUTOR_ERROR_INVALID_FROM \<equiv> 75"
abbreviation (input) EXECUTOR_ERROR_INVALID_DB_KEY :: int where "EXECUTOR_ERROR_INVALID_DB_KEY \<equiv> 76"
abbreviation (input) EXECUTOR_ERROR_INVALID_DB_VALUE :: int where "EXECUTOR_ERROR_INVALID_DB_VALUE \<equiv> 77"
abbreviation (input) EXECUTOR_ERROR_INVALID_CONTRACTS_BYTECODE_KEY :: int where "EXECUTOR_ERROR_INVALID_CONTRACTS_BYTECODE_KEY \<equiv> 78"
abbreviation (input) EXECUTOR_ERROR_INVALID_CONTRACTS_BYTECODE_VALUE :: int where "EXECUTOR_ERROR_INVALID_CONTRACTS_BYTECODE_VALUE \<equiv> 79"
abbreviation (input) EXECUTOR_ERROR_INVALID_GET_KEY :: int where "EXECUTOR_ERROR_INVALID_GET_KEY \<equiv> 80"
abbreviation (input) EXECUTOR_ERROR_SM_MAIN_COUNTERS_OVERFLOW_SHA256 :: int where "EXECUTOR_ERROR_SM_MAIN_COUNTERS_OVERFLOW_SHA256 \<equiv> 81"
abbreviation (input) EXECUTOR_ERROR_SM_MAIN_HASHS :: int where "EXECUTOR_ERROR_SM_MAIN_HASHS \<equiv> 82"
abbreviation (input) EXECUTOR_ERROR_SM_MAIN_HASHS_SIZE_OUT_OF_RANGE :: int where "EXECUTOR_ERROR_SM_MAIN_HASHS_SIZE_OUT_OF_RANGE \<equiv> 83"
abbreviation (input) EXECUTOR_ERROR_SM_MAIN_HASHS_POSITION_NEGATIVE :: int where "EXECUTOR_ERROR_SM_MAIN_HASHS_POSITION_NEGATIVE \<equiv> 84"
abbreviation (input) EXECUTOR_ERROR_SM_MAIN_HASHS_POSITION_PLUS_SIZE_OUT_OF_RANGE :: int where "EXECUTOR_ERROR_SM_MAIN_HASHS_POSITION_PLUS_SIZE_OUT_OF_RANGE \<equiv> 85"
abbreviation (input) EXECUTOR_ERROR_SM_MAIN_HASHSDIGEST_ADDRESS_NOT_FOUND :: int where "EXECUTOR_ERROR_SM_MAIN_HASHSDIGEST_ADDRESS_NOT_FOUND \<equiv> 86"
abbreviation (input) EXECUTOR_ERROR_SM_MAIN_HASHSDIGEST_NOT_COMPLETED :: int where "EXECUTOR_ERROR_SM_MAIN_HASHSDIGEST_NOT_COMPLETED \<equiv> 87"
abbreviation (input) EXECUTOR_ERROR_SM_MAIN_HASHS_VALUE_MISMATCH :: int where "EXECUTOR_ERROR_SM_MAIN_HASHS_VALUE_MISMATCH \<equiv> 88"
abbreviation (input) EXECUTOR_ERROR_SM_MAIN_HASHS_PADDING_MISMATCH :: int where "EXECUTOR_ERROR_SM_MAIN_HASHS_PADDING_MISMATCH \<equiv> 89"
abbreviation (input) EXECUTOR_ERROR_SM_MAIN_HASHS_SIZE_MISMATCH :: int where "EXECUTOR_ERROR_SM_MAIN_HASHS_SIZE_MISMATCH \<equiv> 90"
abbreviation (input) EXECUTOR_ERROR_SM_MAIN_HASHSLEN_LENGTH_MISMATCH :: int where "EXECUTOR_ERROR_SM_MAIN_HASHSLEN_LENGTH_MISMATCH \<equiv> 91"
abbreviation (input) EXECUTOR_ERROR_SM_MAIN_HASHSLEN_CALLED_TWICE :: int where "EXECUTOR_ERROR_SM_MAIN_HASHSLEN_CALLED_TWICE \<equiv> 92"
abbreviation (input) EXECUTOR_ERROR_SM_MAIN_HASHSDIGEST_NOT_FOUND :: int where "EXECUTOR_ERROR_SM_MAIN_HASHSDIGEST_NOT_FOUND \<equiv> 93"
abbreviation (input) EXECUTOR_ERROR_SM_MAIN_HASHSDIGEST_DIGEST_MISMATCH :: int where "EXECUTOR_ERROR_SM_MAIN_HASHSDIGEST_DIGEST_MISMATCH \<equiv> 94"
abbreviation (input) EXECUTOR_ERROR_SM_MAIN_HASHSDIGEST_CALLED_TWICE :: int where "EXECUTOR_ERROR_SM_MAIN_HASHSDIGEST_CALLED_TWICE \<equiv> 95"
abbreviation (input) EXECUTOR_ERROR_SM_MAIN_HASHS_READ_OUT_OF_RANGE :: int where "EXECUTOR_ERROR_SM_MAIN_HASHS_READ_OUT_OF_RANGE \<equiv> 96"
abbreviation (input) EXECUTOR_ERROR_INVALID_L1_INFO_ROOT :: int where "EXECUTOR_ERROR_INVALID_L1_INFO_ROOT \<equiv> 97"
abbreviation (input) EXECUTOR_ERROR_INVALID_FORCED_BLOCKHASH_L1 :: int where "EXECUTOR_ERROR_INVALID_FORCED_BLOCKHASH_L1 \<equiv> 98"
abbreviation (input) EXECUTOR_ERROR_INVALID_L1_DATA_V2_GLOBAL_EXIT_ROOT :: int where "EXECUTOR_ERROR_INVALID_L1_DATA_V2_GLOBAL_EXIT_ROOT \<equiv> 99"
abbreviation (input) EXECUTOR_ERROR_INVALID_L1_DATA_V2_BLOCK_HASH_L1 :: int where "EXECUTOR_ERROR_INVALID_L1_DATA_V2_BLOCK_HASH_L1 \<equiv> 100"
abbreviation (input) EXECUTOR_ERROR_INVALID_L1_SMT_PROOF :: int where "EXECUTOR_ERROR_INVALID_L1_SMT_PROOF \<equiv> 101"
abbreviation (input) EXECUTOR_ERROR_INVALID_BALANCE :: int where "EXECUTOR_ERROR_INVALID_BALANCE \<equiv> 102"
abbreviation (input) EXECUTOR_ERROR_SM_MAIN_BINARY_LT4_MISMATCH :: int where "EXECUTOR_ERROR_SM_MAIN_BINARY_LT4_MISMATCH \<equiv> 103"
abbreviation (input) EXECUTOR_ERROR_INVALID_NEW_STATE_ROOT :: int where "EXECUTOR_ERROR_INVALID_NEW_STATE_ROOT \<equiv> 104"
abbreviation (input) EXECUTOR_ERROR_INVALID_NEW_ACC_INPUT_HASH :: int where "EXECUTOR_ERROR_INVALID_NEW_ACC_INPUT_HASH \<equiv> 105"
abbreviation (input) EXECUTOR_ERROR_INVALID_NEW_LOCAL_EXIT_ROOT :: int where "EXECUTOR_ERROR_INVALID_NEW_LOCAL_EXIT_ROOT \<equiv> 106"
abbreviation (input) EXECUTOR_ERROR_DB_KEY_NOT_FOUND :: int where "EXECUTOR_ERROR_DB_KEY_NOT_FOUND \<equiv> 107"
abbreviation (input) EXECUTOR_ERROR_SMT_INVALID_DATA_SIZE :: int where "EXECUTOR_ERROR_SMT_INVALID_DATA_SIZE \<equiv> 108"
abbreviation (input) EXECUTOR_ERROR_HASHDB_GRPC_ERROR :: int where "EXECUTOR_ERROR_HASHDB_GRPC_ERROR \<equiv> 109"
abbreviation (input) EXECUTOR_ERROR_STATE_MANAGER :: int where "EXECUTOR_ERROR_STATE_MANAGER \<equiv> 110"
abbreviation (input) EXECUTOR_ERROR_INVALID_L1_INFO_TREE_INDEX :: int where "EXECUTOR_ERROR_INVALID_L1_INFO_TREE_INDEX \<equiv> 111"
abbreviation (input) EXECUTOR_ERROR_INVALID_L1_INFO_TREE_SMT_PROOF_VALUE :: int where "EXECUTOR_ERROR_INVALID_L1_INFO_TREE_SMT_PROOF_VALUE \<equiv> 112"
abbreviation (input) EXECUTOR_ERROR_INVALID_WITNESS :: int where "EXECUTOR_ERROR_INVALID_WITNESS \<equiv> 113"
abbreviation (input) EXECUTOR_ERROR_INVALID_CBOR :: int where "EXECUTOR_ERROR_INVALID_CBOR \<equiv> 114"
abbreviation (input) EXECUTOR_ERROR_INVALID_DATA_STREAM :: int where "EXECUTOR_ERROR_INVALID_DATA_STREAM \<equiv> 115"
abbreviation (input) EXECUTOR_ERROR_INVALID_UPDATE_MERKLE_TREE :: int where "EXECUTOR_ERROR_INVALID_UPDATE_MERKLE_TREE \<equiv> 116"
abbreviation (input) EXECUTOR_ERROR_SM_MAIN_INVALID_TX_STATUS_ERROR :: int where "EXECUTOR_ERROR_SM_MAIN_INVALID_TX_STATUS_ERROR \<equiv> 117"

text \<open>The code of an unknown error is the largest 32-bit integer.\<close>

abbreviation (input) MaxInt32 :: int where "MaxInt32 \<equiv> 2147483647"

definition ErrCodeROMUnknown :: int where
  "ErrCodeROMUnknown = MaxInt32"

definition ErrCodeExecutorUnknown :: int where
  "ErrCodeExecutorUnknown = MaxInt32"

subsection \<open>ROM errors\<close>

text \<open>A switch takes the first case that matches; its cases are a table that is searched in order.\<close>

definition romErrCases :: "(int \<times> go_error) list" where
  "romErrCases =
   [(ROM_ERROR_UNSPECIFIED, Some ''ErrROMUnspecified''), (ROM_ERROR_NO_ERROR, None),
    (ROM_ERROR_OUT_OF_GAS, Some ''ErrOutOfGas''),
    (ROM_ERROR_STACK_OVERFLOW, Some ''ErrStackOverflow''),
    (ROM_ERROR_STACK_UNDERFLOW, Some ''ErrStackUnderflow''),
    (ROM_ERROR_MAX_CODE_SIZE_EXCEEDED, Some ''ErrMaxCodeSizeExceeded''),
    (ROM_ERROR_CONTRACT_ADDRESS_COLLISION, Some ''ErrContractAddressCollision''),
    (ROM_ERROR_EXECUTION_REVERTED, Some ''ErrExecutionReverted''),
    (ROM_ERROR_OUT_OF_COUNTERS_STEP, Some ''ErrOutOfCountersStep''),
    (ROM_ERROR_OUT_OF_COUNTERS_KECCAK, Some ''ErrOutOfCountersKeccak''),
    (ROM_ERROR_OUT_OF_COUNTERS_BINARY, Some ''ErrOutOfCountersBinary''),
    (ROM_ERROR_OUT_OF_COUNTERS_MEM, Some ''ErrOutOfCountersMemory''),
    (ROM_ERROR_OUT_OF_COUNTERS_ARITH, Some ''ErrOutOfCountersArith''),
    (ROM_ERROR_OUT_OF_COUNTERS_PADDING, Some ''ErrOutOfCountersPadding''),
    (ROM_ERROR_OUT_OF_COUNTERS_POSEIDON, Some ''ErrOutOfCountersPoseidon''),
    (ROM_ERROR_OUT_OF_COUNTERS_SHA, Some ''ErrOutOfCountersSha''),
    (ROM_ERROR_INVALID_JUMP, Some ''ErrInvalidJump''),
    (ROM_ERROR_INVALID_OPCODE, Some ''ErrInvalidOpCode''),
    (ROM_ERROR_INVALID_STATIC, Some ''ErrInvalidStatic''),
    (ROM_ERROR_INVALID_BYTECODE_STARTS_EF, Some ''ErrInvalidByteCodeStartsEF''),
    (ROM_ERROR_INTRINSIC_INVALID_SIGNATURE, Some ''ErrIntrinsicInvalidSignature''),
    (ROM_ERROR_INTRINSIC_INVALID_CHAIN_ID, Some ''ErrIntrinsicInvalidChainID''),
    (ROM_ERROR_INTRINSIC_INVALID_NONCE, Some ''ErrIntrinsicInvalidNonce''),
    (ROM_ERROR_INTRINSIC_INVALID_GAS_LIMIT, Some ''ErrIntrinsicInvalidGasLimit''),
    (ROM_ERROR_INTRINSIC_INVALID_BALANCE, Some ''ErrIntrinsicInvalidBalance''),
    (ROM_ERROR_INTRINSIC_INVALID_BATCH_GAS_LIMIT, Some ''ErrIntrinsicInvalidBatchGasLimit''),
    (ROM_ERROR_INTRINSIC_INVALID_SENDER_CODE, Some ''ErrIntrinsicInvalidSenderCode''),
    (ROM_ERROR_INTRINSIC_TX_GAS_OVERFLOW, Some ''ErrIntrinsicInvalidTxGasOverflow''),
    (ROM_ERROR_BATCH_DATA_TOO_BIG, Some ''ErrBatchDataTooBig''),
    (ROM_ERROR_UNSUPPORTED_FORK_ID, Some ''ErrUnsupportedForkId''),
    (ROM_ERROR_INVALID_RLP, Some ''ErrInvalidRLP''),
    (ROM_ERROR_INVALID_DECODE_CHANGE_L2_BLOCK, Some ''ErrInvalidDecodeChangeL2Block''),
    (ROM_ERROR_INVALID_NOT_FIRST_TX_CHANGE_L2_BLOCK, Some ''ErrInvalidNotFirstTxChangeL2Block''),
    (ROM_ERROR_INVALID_TX_CHANGE_L2_BLOCK_LIMIT_TIMESTAMP, Some ''ErrInvalidTxChangeL2BlockLimitTimestamp''),
    (ROM_ERROR_INVALID_TX_CHANGE_L2_BLOCK_MIN_TIMESTAMP, Some ''ErrInvalidTxChangeL2BlockMinTimestamp'')]"

definition RomErr :: "int \<Rightarrow> go_error" where
  "RomErr errorCode = (case map_of romErrCases errorCode of Some e \<Rightarrow> e | None \<Rightarrow> Some ''ErrROMUnknown'')"

definition romErrorCodeCases :: "(go_error \<times> int) list" where
  "romErrorCodeCases =
   [(None, ROM_ERROR_NO_ERROR), (Some ''ErrOutOfGas'', ROM_ERROR_OUT_OF_GAS),
    (Some ''ErrStackOverflow'', ROM_ERROR_STACK_OVERFLOW),
    (Some ''ErrStackUnderflow'', ROM_ERROR_STACK_UNDERFLOW),
    (Some ''ErrMaxCodeSizeExceeded'', ROM_ERROR_MAX_CODE_SIZE_EXCEEDED),
    (Some ''ErrContractAddressCollision'', ROM_ERROR_CONTRACT_ADDRESS_COLLISION),
    (Some ''ErrExecutionReverted'', ROM_ERROR_EXECUTION_REVERTED),
    (Some ''ErrOutOfCountersStep'', ROM_ERROR_OUT_OF_COUNTERS_STEP),
    (Some ''ErrOutOfCountersKeccak'', ROM_ERROR_OUT_OF_COUNTERS_KECCAK),
    (Some ''ErrOutOfCountersBinary'', ROM_ERROR_OUT_OF_COUNTERS_BINARY),
    (Some ''ErrOutOfCountersMemory'', ROM_ERROR_OUT_OF_COUNTERS_MEM),
    (Some ''ErrOutOfCountersArith'', ROM_ERROR_OUT_OF_COUNTERS_ARITH),
    (Some ''ErrOutOfCountersPadding'', ROM_ERROR_OUT_OF_COUNTERS_PADDING),
    (Some ''ErrOutOfCountersPoseidon'', ROM_ERROR_OUT_OF_COUNTERS_POSEIDON),
    (Some ''ErrOutOfCountersSha'', ROM_ERROR_OUT_OF_COUNTERS_SHA),
    (Some ''ErrInvalidJump'', ROM_ERROR_INVALID_JUMP),
    (Some ''ErrInvalidOpCode'', ROM_ERROR_INVALID_OPCODE),
    (Some ''ErrInvalidStatic'', ROM_ERROR_INVALID_STATIC),
    (Some ''ErrInvalidByteCodeStartsEF'', ROM_ERROR_INVALID_BYTECODE_STARTS_EF),
    (Some ''ErrIntrinsicInvalidSignature'', ROM_ERROR_INTRINSIC_INVALID_SIGNATURE),
    (Some ''ErrIntrinsicInvalidChainID'', ROM_ERROR_INTRINSIC_INVALID_CHAIN_ID),
    (Some ''ErrIntrinsicInvalidNonce'', ROM_ERROR_INTRINSIC_INVALID_NONCE),
    (Some ''ErrIntrinsicInvalidGasLimit'', ROM_ERROR_INTRINSIC_INVALID_GAS_LIMIT),
    (Some ''ErrIntrinsicInvalidBalance'', ROM_ERROR_INTRINSIC_INVALID_BALANCE),
    (Some ''ErrIntrinsicInvalidBatchGasLimit'', ROM_ERROR_INTRINSIC_INVALID_BATCH_GAS_LIMIT),
    (Some ''ErrIntrinsicInvalidSenderCode'', ROM_ERROR_INTRINSIC_INVALID_SENDER_CODE),
    (Some ''ErrIntrinsicInvalidTxGasOverflow'', ROM_ERROR_INTRINSIC_TX_GAS_OVERFLOW),
    (Some ''ErrBatchDataTooBig'', ROM_ERROR_BATCH_DATA_TOO_BIG),
    (Some ''ErrUnsupportedForkId'', ROM_ERROR_UNSUPPORTED_FORK_ID),
    (Some ''ErrInvalidRLP'', ROM_ERROR_INVALID_RLP),
    (Some ''ErrInvalidDecodeChangeL2Block'', ROM_ERROR_INVALID_DECODE_CHANGE_L2_BLOCK),
    (Some ''ErrInvalidNotFirstTxChangeL2Block'', ROM_ERROR_INVALID_NOT_FIRST_TX_CHANGE_L2_BLOCK),
    (Some ''ErrInvalidTxChangeL2BlockLimitTimestamp'', ROM_ERROR_INVALID_TX_CHANGE_L2_BLOCK_LIMIT_TIMESTAMP),
    (Some ''ErrInvalidTxChangeL2BlockMinTimestamp'', ROM_ERROR_INVALID_TX_CHANGE_L2_BLOCK_MIN_TIMESTAMP)]"

definition RomErrorCode :: "go_error \<Rightarrow> int" where
  "RomErrorCode err = (case map_of romErrorCodeCases err of Some c \<Rightarrow> c | None \<Rightarrow> ErrCodeROMUnknown)"

subsection \<open>Classification\<close>

definition IsROMOutOfCountersError :: "int \<Rightarrow> bool" where
  "IsROMOutOfCountersError e \<longleftrightarrow> e \<ge> ROM_ERROR_OUT_OF_COUNTERS_STEP \<and> e \<le> ROM_ERROR_OUT_OF_COUNTERS_SHA"

definition IsROMOutOfGasError :: "int \<Rightarrow> bool" where
  "IsROMOutOfGasError e \<longleftrightarrow> e = ROM_ERROR_OUT_OF_GAS"

definition IsExecutorCountersOverflowError :: "int \<Rightarrow> bool" where
  "IsExecutorCountersOverflowError e \<longleftrightarrow>
     e \<ge> EXECUTOR_ERROR_SM_MAIN_COUNTERS_OVERFLOW_STEPS \<and> e \<le> EXECUTOR_ERROR_SM_MAIN_COUNTERS_OVERFLOW_POSEIDON
     \<or> e = EXECUTOR_ERROR_SM_MAIN_COUNTERS_OVERFLOW_SHA256"

definition IsExecutorUnspecifiedError :: "int \<Rightarrow> bool" where
  "IsExecutorUnspecifiedError e \<longleftrightarrow> e = EXECUTOR_ERROR_UNSPECIFIED"

definition IsIntrinsicError :: "int \<Rightarrow> bool" where
  "IsIntrinsicError e \<longleftrightarrow> e \<ge> ROM_ERROR_INTRINSIC_INVALID_SIGNATURE \<and> e \<le> ROM_ERROR_INTRINSIC_TX_GAS_OVERFLOW"

definition IsInvalidNonceError :: "int \<Rightarrow> bool" where
  "IsInvalidNonceError e \<longleftrightarrow> e = ROM_ERROR_INTRINSIC_INVALID_NONCE"

definition IsInvalidBalanceError :: "int \<Rightarrow> bool" where
  "IsInvalidBalanceError e \<longleftrightarrow> e = ROM_ERROR_INTRINSIC_INVALID_BALANCE"

definition IsInvalidL2Block :: "int \<Rightarrow> bool" where
  "IsInvalidL2Block e \<longleftrightarrow> e \<ge> ROM_ERROR_INVALID_DECODE_CHANGE_L2_BLOCK
     \<and> e \<le> ROM_ERROR_INVALID_TX_CHANGE_L2_BLOCK_MIN_TIMESTAMP"

definition IsStateRootChanged :: "int \<Rightarrow> bool" where
  "IsStateRootChanged e \<longleftrightarrow> \<not> IsIntrinsicError e \<and> \<not> IsROMOutOfCountersError e \<and> e \<noteq> ROM_ERROR_INVALID_RLP"

subsection \<open>Executor errors\<close>

definition executorErrCasesA :: "(int \<times> go_error) list" where
  "executorErrCasesA =
   [(EXECUTOR_ERROR_UNSPECIFIED, Some ''ErrExecutorUnspecified''), (EXECUTOR_ERROR_NO_ERROR, None),
    (EXECUTOR_ERROR_DB_ERROR, Some ''ErrExecutorDBError''),
    (EXECUTOR_ERROR_SM_MAIN_COUNTERS_OVERFLOW_STEPS, Some ''ErrExecutorSMMainCountersOverflowSteps''),
    (EXECUTOR_ERROR_SM_MAIN_COUNTERS_OVERFLOW_KECCAK, Some ''ErrExecutorSMMainCountersOverflowKeccak''),
    (EXECUTOR_ERROR_SM_MAIN_COUNTERS_OVERFLOW_BINARY, Some ''ErrExecutorSMMainCountersOverflowBinary''),
    (EXECUTOR_ERROR_SM_MAIN_COUNTERS_OVERFLOW_MEM, Some ''ErrExecutorSMMainCountersOverflowMem''),
    (EXECUTOR_ERROR_SM_MAIN_COUNTERS_OVERFLOW_ARITH, Some ''ErrExecutorSMMainCountersOverflowArith''),
    (EXECUTOR_ERROR_SM_MAIN_COUNTERS_OVERFLOW_PADDING, Some ''ErrExecutorSMMainCountersOverflowPadding''),
    (EXECUTOR_ERROR_SM_MAIN_COUNTERS_OVERFLOW_POSEIDON, Some ''ErrExecutorSMMainCountersOverflowPoseidon''),
    (EXECUTOR_ERROR_UNSUPPORTED_FORK_ID, Some ''ErrExecutorUnsupportedForkId''),
    (EXECUTOR_ERROR_BALANCE_MISMATCH, Some ''ErrExecutorBalanceMismatch''),
    (EXECUTOR_ERROR_FEA2SCALAR, Some ''ErrExecutorFEA2Scalar''),
    (EXECUTOR_ERROR_TOS32, Some ''ErrExecutorTOS32''),
    (EXECUTOR_ERROR_SM_MAIN_INVALID_UNSIGNED_TX, Some ''ErrExecutorSMMainInvalidUnsignedTx''),
    (EXECUTOR_ERROR_SM_MAIN_INVALID_NO_COUNTERS, Some ''ErrExecutorSMMainInvalidNoCounters''),
    (EXECUTOR_ERROR_SM_MAIN_ARITH_ECRECOVER_DIVIDE_BY_ZERO, Some ''ErrExecutorSMMainArithECRecoverDivideByZero''),
    (EXECUTOR_ERROR_SM_MAIN_ADDRESS_OUT_OF_RANGE, Some ''ErrExecutorSMMainAddressOutOfRange''),
    (EXECUTOR_ERROR_SM_MAIN_ADDRESS_NEGATIVE, Some ''ErrExecutorSMMainAddressNegative''),
    (EXECUTOR_ERROR_SM_MAIN_STORAGE_INVALID_KEY, Some ''ErrExecutorSMMainStorageInvalidKey''),
    (EXECUTOR_ERROR_SM_MAIN_HASHK, Some ''ErrExecutorSMMainHashK''),
    (EXECUTOR_ERROR_SM_MAIN_HASHK_SIZE_OUT_OF_RANGE, Some ''ErrExecutorSMMainHashKSizeOutOfRange''),
    (EXECUTOR_ERROR_SM_MAIN_HASHK_POSITION_NEGATIVE, Some ''ErrExecutorSMMainHashKPositionNegative''),
    (EXECUTOR_ERROR_SM_MAIN_HASHK_POSITION_PLUS_SIZE_OUT_OF_RANGE, Some ''ErrExecutorSMMainHashKPositionPlusSizeOutOfRange''),
    (EXECUTOR_ERROR_SM_MAIN_HASHKDIGEST_ADDRESS_NOT_FOUND, Some ''ErrExecutorSMMainHashKDigestAddressNotFound''),
    (EXECUTOR_ERROR_SM_MAIN_HASHKDIGEST_NOT_COMPLETED, Some ''ErrExecutorSMMainHashKDigestNotCompleted''),
    (EXECUTOR_ERROR_SM_MAIN_HASHP, Some ''ErrExecutorSMMainHashP''),
    (EXECUTOR_ERROR_SM_MAIN_HASHP_SIZE_OUT_OF_RANGE, Some ''ErrExecutorSMMainHashPSizeOutOfRange''),
    (EXECUTOR_ERROR_SM_MAIN_HASHP_POSITION_NEGATIVE, Some ''ErrExecutorSMMainHashPPositionNegative''),
    (EXECUTOR_ERROR_SM_MAIN_HASHP_POSITION_PLUS_SIZE_OUT_OF_RANGE, Some ''ErrExecutorSMMainHashPPositionPlusSizeOutOfRange''),
    (EXECUTOR_ERROR_SM_MAIN_HASHPDIGEST_ADDRESS_NOT_FOUND, Some ''ErrExecutorSMMainHashPDigestAddressNotFound''),
    (EXECUTOR_ERROR_SM_MAIN_HASHPDIGEST_NOT_COMPLETED, Some ''ErrExecutorSMMainHashPDigestNotCompleted''),
    (EXECUTOR_ERROR_SM_MAIN_MEMALIGN_OFFSET_OUT_OF_RANGE, Some ''ErrExecutorSMMainMemAlignOffsetOutOfRange''),
    (EXECUTOR_ERROR_SM_MAIN_MULTIPLE_FREEIN, Some ''ErrExecutorSMMainMultipleFreeIn''),
    (EXECUTOR_ERROR_SM_MAIN_ASSERT, Some ''ErrExecutorSMMainAssert''),
    (EXECUTOR_ERROR_SM_MAIN_MEMORY, Some ''ErrExecutorSMMainMemory''),
    (EXECUTOR_ERROR_SM_MAIN_STORAGE_READ_MISMATCH, Some ''ErrExecutorSMMainStorageReadMismatch''),
    (EXECUTOR_ERROR_SM_MAIN_STORAGE_WRITE_MISMATCH, Some ''ErrExecutorSMMainStorageWriteMismatch''),
    (EXECUTOR_ERROR_SM_MAIN_HASHK_VALUE_MISMATCH, Some ''ErrExecutorSMMainHashKValueMismatch''),
    (EXECUTOR_ERROR_SM_MAIN_HASHK_PADDING_MISMATCH, Some ''ErrExecutorSMMainHashKPaddingMismatch''),
    (EXECUTOR_ERROR_SM_MAIN_HASHK_SIZE_MISMATCH, Some ''ErrExecutorSMMainHashKSizeMismatch''),
    (EXECUTOR_ERROR_SM_MAIN_HASHKLEN_LENGTH_MISMATCH, Some ''ErrExecutorSMMainHashKLenLengthMismatch''),
    (EXECUTOR_ERROR_SM_MAIN_HASHKLEN_CALLED_TWICE, Some ''ErrExecutorSMMainHashKLenCalledTwice''),
    (EXECUTOR_ERROR_SM_MAIN_HASHKDIGEST_NOT_FOUND, Some ''ErrExecutorSMMainHashKDigestNotFound''),
    (EXECUTOR_ERROR_SM_MAIN_HASHKDIGEST_DIGEST_MISMATCH, Some ''ErrExecutorSMMainHashKDigestDigestMismatch''),
    (EXECUTOR_ERROR_SM_MAIN_HASHKDIGEST_CALLED_TWICE, Some ''ErrExecutorSMMainHashKDigestCalledTwice''),
    (EXECUTOR_ERROR_SM_MAIN_HASHP_VALUE_MISMATCH, Some ''ErrExecutorSMMainHashPValueMismatch''),
    (EXECUTOR_ERROR_SM_MAIN_HASHP_PADDING_MISMATCH, Some ''ErrExecutorSMMainHashPPaddingMismatch''),
    (EXECUTOR_ERROR_SM_MAIN_HASHP_SIZE_MISMATCH, Some ''ErrExecutorSMMainHashPSizeMismatch''),
    (EXECUTOR_ERROR_SM_MAIN_HASHPLEN_LENGTH_MISMATCH, Some ''ErrExecutorSMMainHashPLenLengthMismatch''),
    (EXECUTOR_ERROR_SM_MAIN_HASHPLEN_CALLED_TWICE, Some ''ErrExecutorSMMainHashPLenCalledTwice''),
    (EXECUTOR_ERROR_SM_MAIN_HASHPDIGEST_DIGEST_MISMATCH, Some ''ErrExecutorSMMainHashPDigestDigestMismatch''),
    (EXECUTOR_ERROR_SM_MAIN_HASHPDIGEST_CALLED_TWICE, Some ''ErrExecutorSMMainHashPDigestCalledTwice''),
    (EXECUTOR_ERROR_SM_MAIN_ARITH_MISMATCH, Some ''ErrExecutorSMMainArithMismatch''),
    (EXECUTOR_ERROR_SM_MAIN_ARITH_ECRECOVER_MISMATCH, Some ''ErrExecutorSMMainArithECRecoverMismatch''),
    (EXECUTOR_ERROR_SM_MAIN_BINARY_ADD_MISMATCH, Some ''ErrExecutorSMMainBinaryAddMismatch''),
    (EXECUTOR_ERROR_SM_MAIN_BINARY_SUB_MISMATCH, Some ''ErrExecutorSMMainBinarySubMismatch''),
    (EXECUTOR_ERROR_SM_MAIN_BINARY_LT_MISMATCH, Some ''ErrExecutorSMMainBinaryLtMismatch''),
    (EXECUTOR_ERROR_SM_MAIN_BINARY_SLT_MISMATCH, Some ''ErrExecutorSMMainBinarySLtMismatch''),
    (EXECUTOR_ERROR_SM_MAIN_BINARY_EQ_MISMATCH, Some ''ErrExecutorSMMainBinaryEqMismatch'')]"

definition executorErrCasesB :: "(int \<times> go_error) list" where
  "executorErrCasesB =
   [(EXECUTOR_ERROR_SM_MAIN_BINARY_AND_MISMATCH, Some ''ErrExecutorSMMainBinaryAndMismatch''),
    (EXECUTOR_ERROR_SM_MAIN_BINARY_OR_MISMATCH, Some ''ErrExecutorSMMainBinaryOrMismatch''),
    (EXECUTOR_ERROR_SM_MAIN_BINARY_XOR_MISMATCH, Some ''ErrExecutorSMMainBinaryXorMismatch''),
    (EXECUTOR_ERROR_SM_MAIN_MEMALIGN_WRITE_MISMATCH, Some ''ErrExecutorSMMainMemAlignWriteMismatch''),
    (EXECUTOR_ERROR_SM_MAIN_MEMALIGN_WRITE8_MISMATCH, Some ''ErrExecutorSMMainMemAlignWrite8Mismatch''),
    (EXECUTOR_ERROR_SM_MAIN_MEMALIGN_READ_MISMATCH, Some ''ErrExecutorSMMainMemAlignReadMismatch''),
    (EXECUTOR_ERROR_SM_MAIN_JMPN_OUT_OF_RANGE, Some ''ErrExecutorSMMainJmpnOutOfRange''),
    (EXECUTOR_ERROR_SM_MAIN_HASHK_READ_OUT_OF_RANGE, Some ''ErrExecutorSMMainHashKReadOutOfRange''),
    (EXECUTOR_ERROR_SM_MAIN_HASHP_READ_OUT_OF_RANGE, Some ''ErrExecutorSMMainHashPReadOutOfRange''),
    (EXECUTOR_ERROR_INVALID_OLD_STATE_ROOT, Some ''ErrExecutorErrorInvalidOldStateRoot''),
    (EXECUTOR_ERROR_INVALID_OLD_ACC_INPUT_HASH, Some ''ErrExecutorErrorInvalidOldAccInputHash''),
    (EXECUTOR_ERROR_INVALID_CHAIN_ID, Some ''ErrExecutorErrorInvalidChainId''),
    (EXECUTOR_ERROR_INVALID_BATCH_L2_DATA, Some ''ErrExecutorErrorInvalidBatchL2Data''),
    (EXECUTOR_ERROR_INVALID_GLOBAL_EXIT_ROOT, Some ''ErrExecutorErrorInvalidGlobalExitRoot''),
    (EXECUTOR_ERROR_INVALID_COINBASE, Some ''ErrExecutorErrorInvalidCoinbase''),
    (EXECUTOR_ERROR_INVALID_FROM, Some ''ErrExecutorErrorInvalidFrom''),
    (EXECUTOR_ERROR_INVALID_DB_KEY, Some ''ErrExecutorErrorInvalidDbKey''),
    (EXECUTOR_ERROR_INVALID_DB_VALUE, Some ''ErrExecutorErrorInvalidDbValue''),
    (EXECUTOR_ERROR_INVALID_CONTRACTS_BYTECODE_KEY, Some ''ErrExecutorErrorInvalidContractsBytecodeKey''),
    (EXECUTOR_ERROR_INVALID_CONTRACTS_BYTECODE_VALUE, Some ''ErrExecutorErrorInvalidContractsBytecodeValue''),
    (EXECUTOR_ERROR_INVALID_GET_KEY, Some ''ErrExecutorErrorInvalidGetKey''),
    (EXECUTOR_ERROR_SM_MAIN_COUNTERS_OVERFLOW_SHA256, Some ''ErrExecutorSMMainCountersOverflowSha256''),
    (EXECUTOR_ERROR_SM_MAIN_HASHS, Some ''ErrExecutorSMMainHashS''),
    (EXECUTOR_ERROR_SM_MAIN_HASHS_SIZE_OUT_OF_RANGE, Some ''ErrExecutorSMMainHashSSizeOutOfRange''),
    (EXECUTOR_ERROR_SM_MAIN_HASHS_POSITION_NEGATIVE, Some ''ErrExecutorSMMainHashSPositionNegative''),
    (EXECUTOR_ERROR_SM_MAIN_HASHS_POSITION_PLUS_SIZE_OUT_OF_RANGE, Some ''ErrExecutorSMMainHashSPositionPlusSizeOutOfRange''),
    (EXECUTOR_ERROR_SM_MAIN_HASHSDIGEST_ADDRESS_NOT_FOUND, Some ''ErrExecutorSMMainHashSDigestAddressNotFound''),
    (EXECUTOR_ERROR_SM_MAIN_HASHSDIGEST_NOT_COMPLETED, Some ''ErrExecutorSMMainHashSDigestNotCompleted''),
    (EXECUTOR_ERROR_SM_MAIN_HASHS_VALUE_MISMATCH, Some ''ErrExecutorSMMainHashSValueMismatch''),
    (EXECUTOR_ERROR_SM_MAIN_HASHS_PADDING_MISMATCH, Some ''ErrExecutorSMMainHashSPaddingMismatch''),
    (EXECUTOR_ERROR_SM_MAIN_HASHS_SIZE_MISMATCH, Some ''ErrExecutorSMMainHashSSizeMismatch''),
    (EXECUTOR_ERROR_SM_MAIN_HASHSLEN_LENGTH_MISMATCH, Some ''ErrExecutorSMMainHashSLenLengthMismatch''),
    (EXECUTOR_ERROR_SM_MAIN_HASHSLEN_CALLED_TWICE, Some ''ErrExecutorSMMainHashSLenCalledTwice''),
    (EXECUTOR_ERROR_SM_MAIN_HASHSDIGEST_NOT_FOUND, Some ''ErrExecutorSMMainHashSDigestNotFound''),
    (EXECUTOR_ERROR_SM_MAIN_HASHSDIGEST_DIGEST_MISMATCH, Some ''ErrExecutorSMMainHashSDigestDigestMismatch''),
    (EXECUTOR_ERROR_SM_MAIN_HASHSDIGEST_CALLED_TWICE, Some ''ErrExecutorSMMainHashSDigestCalledTwice''),
    (EXECUTOR_ERROR_SM_MAIN_HASHS_READ_OUT_OF_RANGE, Some ''ErrExecutorSMMainHashSReadOutOfRange''),
    (EXECUTOR_ERROR_INVALID_L1_INFO_ROOT, Some ''ErrExecutorErrorInvalidL1InfoRoot''),
    (EXECUTOR_ERROR_INVALID_FORCED_BLOCKHASH_L1, Some ''ErrExecutorErrorInvalidForcedBlockhashL1''),
    (EXECUTOR_ERROR_INVALID_L1_DATA_V2_GLOBAL_EXIT_ROOT, Some ''ErrExecutorErrorInvalidL1DataV2GlobalExitRoot''),
    (EXECUTOR_ERROR_INVALID_L1_DATA_V2_BLOCK_HASH_L1, Some ''ErrExecutorErrorInvalidL1DataV2BlockHashL1''),
    (EXECUTOR_ERROR_INVALID_L1_SMT_PROOF, Some ''ErrExecutorErrorInvalidL1SmtProof''),
    (EXECUTOR_ERROR_INVALID_BALANCE, Some ''ErrExecutorErrorInvalidBalance''),
    (EXECUTOR_ERROR_SM_MAIN_BINARY_LT4_MISMATCH, Some ''ErrExecutorErrorSMMainBinaryLt4Mismatch''),
    (EXECUTOR_ERROR_INVALID_NEW_STATE_ROOT, Some ''ErrExecutorErrorInvalidNewStateRoot''),
    (EXECUTOR_ERROR_INVALID_NEW_ACC_INPUT_HASH, Some ''ErrExecutorErrorInvalidNewAccInputHash''),
    (EXECUTOR_ERROR_INVALID_NEW_LOCAL_EXIT_ROOT, Some ''ErrExecutorErrorInvalidNewLocalExitRoot''),
    (EXECUTOR_ERROR_DB_KEY_NOT_FOUND, Some ''ErrExecutorErrorDBKeyNotFound''),
    (EXECUTOR_ERROR_SMT_INVALID_DATA_SIZE, Some ''ErrExecutorErrorSMTInvalidDataSize''),
    (EXECUTOR_ERROR_HASHDB_GRPC_ERROR, Some ''ErrExecutorErrorHashDBGRPCError''),
    (EXECUTOR_ERROR_STATE_MANAGER, Some ''ErrExecutorErrorStateManager''),
    (EXECUTOR_ERROR_INVALID_L1_INFO_TREE_INDEX, Some ''ErrExecutorErrorInvalidL1InfoTreeIndex''),
    (EXECUTOR_ERROR_INVALID_L1_INFO_TREE_SMT_PROOF_VALUE, Some ''ErrExecutorErrorInvalidL1InfoTreeSmtProofValue''),
    (EXECUTOR_ERROR_INVALID_WITNESS, Some ''ErrExecutorErrorInvalidWitness''),
    (EXECUTOR_ERROR_INVALID_CBOR, Some ''ErrExecutorErrorInvalidCBOR''),
    (EXECUTOR_ERROR_INVALID_DATA_STREAM, Some ''ErrExecutorErrorInvalidDataStream''),
    (EXECUTOR_ERROR_INVALID_UPDATE_MERKLE_TREE, Some ''ErrExecutorErrorInvalidUpdateMerkleTree''),
    (EXECUTOR_ERROR_SM_MAIN_INVALID_TX_STATUS_ERROR, Some ''ErrExecutorErrorSMMainInvalidTxStatusError'')]"

definition ExecutorErr :: "int \<Rightarrow> go_error" where
  "ExecutorErr errorCode =
     (case map_of (executorErrCasesA @ executorErrCasesB) errorCode of
        Some e \<Rightarrow> e
      | None \<Rightarrow> Some ''ErrExecutorUnknown'')"

definition executorErrorCodeCasesA :: "(go_error \<times> int) list" where
  "executorErrorCodeCasesA =
   [(None, EXECUTOR_ERROR_NO_ERROR), (Some ''ErrExecutorDBError'', EXECUTOR_ERROR_DB_ERROR),
    (Some ''ErrExecutorSMMainCountersOverflowSteps'', EXECUTOR_ERROR_SM_MAIN_COUNTERS_OVERFLOW_STEPS),
    (Some ''ErrExecutorSMMainCountersOverflowKeccak'', EXECUTOR_ERROR_SM_MAIN_COUNTERS_OVERFLOW_KECCAK),
    (Some ''ErrExecutorSMMainCountersOverflowBinary'', EXECUTOR_ERROR_SM_MAIN_COUNTERS_OVERFLOW_BINARY),
    (Some ''ErrExecutorSMMainCountersOverflowMem'', EXECUTOR_ERROR_SM_MAIN_COUNTERS_OVERFLOW_MEM),
    (Some ''ErrExecutorSMMainCountersOverflowArith'', EXECUTOR_ERROR_SM_MAIN_COUNTERS_OVERFLOW_ARITH),
    (Some ''ErrExecutorSMMainCountersOverflowPadding'', EXECUTOR_ERROR_SM_MAIN_COUNTERS_OVERFLOW_PADDING),
    (Some ''ErrExecutorSMMainCountersOverflowPoseidon'', EXECUTOR_ERROR_SM_MAIN_COUNTERS_OVERFLOW_POSEIDON),
    (Some ''ErrExecutorUnsupportedForkId'', EXECUTOR_ERROR_UNSUPPORTED_FORK_ID),
    (Some ''ErrExecutorBalanceMismatch'', EXECUTOR_ERROR_BALANCE_MISMATCH),
    (Some ''ErrExecutorFEA2Scalar'', EXECUTOR_ERROR_FEA2SCALAR),
    (Some ''ErrExecutorTOS32'', EXECUTOR_ERROR_TOS32),
    (Some ''ErrExecutorSMMainInvalidUnsignedTx'', EXECUTOR_ERROR_SM_MAIN_INVALID_UNSIGNED_TX),
    (Some ''ErrExecutorSMMainInvalidNoCounters'', EXECUTOR_ERROR_SM_MAIN_INVALID_NO_COUNTERS),
    (Some ''ErrExecutorSMMainArithECRecoverDivideByZero'', EXECUTOR_ERROR_SM_MAIN_ARITH_ECRECOVER_DIVIDE_BY_ZERO),
    (Some ''ErrExecutorSMMainAddressOutOfRange'', EXECUTOR_ERROR_SM_MAIN_ADDRESS_OUT_OF_RANGE),
    (Some ''ErrExecutorSMMainAddressNegative'', EXECUTOR_ERROR_SM_MAIN_ADDRESS_NEGATIVE),
    (Some ''ErrExecutorSMMainStorageInvalidKey'', EXECUTOR_ERROR_SM_MAIN_STORAGE_INVALID_KEY),
    (Some ''ErrExecutorSMMainHashK'', EXECUTOR_ERROR_SM_MAIN_HASHK),
    (Some ''ErrExecutorSMMainHashKSizeOutOfRange'', EXECUTOR_ERROR_SM_MAIN_HASHK_SIZE_OUT_OF_RANGE),
    (Some ''ErrExecutorSMMainHashKPositionNegative'', EXECUTOR_ERROR_SM_MAIN_HASHK_POSITION_NEGATIVE),
    (Some ''ErrExecutorSMMainHashKPositionPlusSizeOutOfRange'', EXECUTOR_ERROR_SM_MAIN_HASHK_POSITION_PLUS_SIZE_OUT_OF_RANGE),
    (Some ''ErrExecutorSMMainHashKDigestAddressNotFound'', EXECUTOR_ERROR_SM_MAIN_HASHKDIGEST_ADDRESS_NOT_FOUND),
    (Some ''ErrExecutorSMMainHashKDigestNotCompleted'', EXECUTOR_ERROR_SM_MAIN_HASHKDIGEST_NOT_COMPLETED),
    (Some ''ErrExecutorSMMainHashP'', EXECUTOR_ERROR_SM_MAIN_HASHP),
    (Some ''ErrExecutorSMMainHashPSizeOutOfRange'', EXECUTOR_ERROR_SM_MAIN_HASHP_SIZE_OUT_OF_RANGE),
    (Some ''ErrExecutorSMMainHashPPositionNegative'', EXECUTOR_ERROR_SM_MAIN_HASHP_POSITION_NEGATIVE),
    (Some ''ErrExecutorSMMainHashPPositionPlusSizeOutOfRange'', EXECUTOR_ERROR_SM_MAIN_HASHP_POSITION_PLUS_SIZE_OUT_OF_RANGE),
    (Some ''ErrExecutorSMMainHashPDigestAddressNotFound'', EXECUTOR_ERROR_SM_MAIN_HASHPDIGEST_ADDRESS_NOT_FOUND),
    (Some ''ErrExecutorSMMainHashPDigestNotCompleted'', EXECUTOR_ERROR_SM_MAIN_HASHPDIGEST_NOT_COMPLETED),
    (Some ''ErrExecutorSMMainMemAlignOffsetOutOfRange'', EXECUTOR_ERROR_SM_MAIN_MEMALIGN_OFFSET_OUT_OF_RANGE),
    (Some ''ErrExecutorSMMainMultipleFreeIn'', EXECUTOR_ERROR_SM_MAIN_MULTIPLE_FREEIN),
    (Some ''ErrExecutorSMMainAssert'', EXECUTOR_ERROR_SM_MAIN_ASSERT),
    (Some ''ErrExecutorSMMainMemory'', EXECUTOR_ERROR_SM_MAIN_MEMORY),
    (Some ''ErrExecutorSMMainStorageReadMismatch'', EXECUTOR_ERROR_SM_MAIN_STORAGE_READ_MISMATCH),
    (Some ''ErrExecutorSMMainStorageWriteMismatch'', EXECUTOR_ERROR_SM_MAIN_STORAGE_WRITE_MISMATCH),
    (Some ''ErrExecutorSMMainHashKValueMismatch'', EXECUTOR_ERROR_SM_MAIN_HASHK_VALUE_MISMATCH),
    (Some ''ErrExecutorSMMainHashKPaddingMismatch'', EXECUTOR_ERROR_SM_MAIN_HASHK_PADDING_MISMATCH),
    (Some ''ErrExecutorSMMainHashKSizeMismatch'', EXECUTOR_ERROR_SM_MAIN_HASHK_SIZE_MISMATCH),
    (Some ''ErrExecutorSMMainHashKLenLengthMismatch'', EXECUTOR_ERROR_SM_MAIN_HASHKLEN_LENGTH_MISMATCH),
    (Some ''ErrExecutorSMMainHashKLenCalledTwice'', EXECUTOR_ERROR_SM_MAIN_HASHKLEN_CALLED_TWICE),
    (Some ''ErrExecutorSMMainHashKDigestNotFound'', EXECUTOR_ERROR_SM_MAIN_HASHKDIGEST_NOT_FOUND),
    (Some ''ErrExecutorSMMainHashKDigestDigestMismatch'', EXECUTOR_ERROR_SM_MAIN_HASHKDIGEST_DIGEST_MISMATCH),
    (Some ''ErrExecutorSMMainHashKDigestCalledTwice'', EXECUTOR_ERROR_SM_MAIN_HASHKDIGEST_CALLED_TWICE),
    (Some ''ErrExecutorSMMainHashPValueMismatch'', EXECUTOR_ERROR_SM_MAIN_HASHP_VALUE_MISMATCH),
    (Some ''ErrExecutorSMMainHashPPaddingMismatch'', EXECUTOR_ERROR_SM_MAIN_HASHP_PADDING_MISMATCH),
    (Some ''ErrExecutorSMMainHashPSizeMismatch'', EXECUTOR_ERROR_SM_MAIN_HASHP_SIZE_MISMATCH),
    (Some ''ErrExecutorSMMainHashPLenLengthMismatch'', EXECUTOR_ERROR_SM_MAIN_HASHPLEN_LENGTH_MISMATCH),
    (Some ''ErrExecutorSMMainHashPLenCalledTwice'', EXECUTOR_ERROR_SM_MAIN_HASHPLEN_CALLED_TWICE),
    (Some ''ErrExecutorSMMainHashPDigestDigestMismatch'', EXECUTOR_ERROR_SM_MAIN_HASHPDIGEST_DIGEST_MISMATCH),
    (Some ''ErrExecutorSMMainHashPDigestCalledTwice'', EXECUTOR_ERROR_SM_MAIN_HASHPDIGEST_CALLED_TWICE),
    (Some ''ErrExecutorSMMainArithMismatch'', EXECUTOR_ERROR_SM_MAIN_ARITH_MISMATCH),
    (Some ''ErrExecutorSMMainArithECRecoverMismatch'', EXECUTOR_ERROR_SM_MAIN_ARITH_ECRECOVER_MISMATCH),
    (Some ''ErrExecutorSMMainBinaryAddMismatch'', EXECUTOR_ERROR_SM_MAIN_BINARY_ADD_MISMATCH),
    (Some ''ErrExecutorSMMainBinarySubMismatch'', EXECUTOR_ERROR_SM_MAIN_BINARY_SUB_MISMATCH),
    (Some ''ErrExecutorSMMainBinaryLtMismatch'', EXECUTOR_ERROR_SM_MAIN_BINARY_LT_MISMATCH),
    (Some ''ErrExecutorSMMainBinarySLtMismatch'', EXECUTOR_ERROR_SM_MAIN_BINARY_SLT_MISMATCH),
    (Some ''ErrExecutorSMMainBinaryEqMismatch'', EXECUTOR_ERROR_SM_MAIN_BINARY_EQ_MISMATCH),
    (Some ''ErrExecutorSMMainBinaryAndMismatch'', EXECUTOR_ERROR_SM_MAIN_BINARY_AND_MISMATCH)]"

definition executorErrorCodeCasesB :: "(go_error \<times> int) list" where
  "executorErrorCodeCasesB =
   [(Some ''ErrExecutorSMMainBinaryOrMismatch'', EXECUTOR_ERROR_SM_MAIN_BINARY_OR_MISMATCH),
    (Some ''ErrExecutorSMMainBinaryXorMismatch'', EXECUTOR_ERROR_SM_MAIN_BINARY_XOR_MISMATCH),
    (Some ''ErrExecutorSMMainMemAlignWriteMismatch'', EXECUTOR_ERROR_SM_MAIN_MEMALIGN_WRITE_MISMATCH),
    (Some ''ErrExecutorSMMainMemAlignWrite8Mismatch'', EXECUTOR_ERROR_SM_MAIN_MEMALIGN_WRITE8_MISMATCH),
    (Some ''ErrExecutorSMMainMemAlignReadMismatch'', EXECUTOR_ERROR_SM_MAIN_MEMALIGN_READ_MISMATCH),
    (Some ''ErrExecutorSMMainJmpnOutOfRange'', EXECUTOR_ERROR_SM_MAIN_JMPN_OUT_OF_RANGE),
    (Some ''ErrExecutorSMMainHashKReadOutOfRange'', EXECUTOR_ERROR_SM_MAIN_HASHK_READ_OUT_OF_RANGE),
    (Some ''ErrExecutorSMMainHashPReadOutOfRange'', EXECUTOR_ERROR_SM_MAIN_HASHP_READ_OUT_OF_RANGE),
    (Some ''ErrExecutorErrorInvalidOldStateRoot'', EXECUTOR_ERROR_INVALID_OLD_STATE_ROOT),
    (Some ''ErrExecutorErrorInvalidOldAccInputHash'', EXECUTOR_ERROR_INVALID_OLD_ACC_INPUT_HASH),
    (Some ''ErrExecutorErrorInvalidChainId'', EXECUTOR_ERROR_INVALID_CHAIN_ID),
    (Some ''ErrExecutorErrorInvalidBatchL2Data'', EXECUTOR_ERROR_INVALID_BATCH_L2_DATA),
    (Some ''ErrExecutorErrorInvalidGlobalExitRoot'', EXECUTOR_ERROR_INVALID_GLOBAL_EXIT_ROOT),
    (Some ''ErrExecutorErrorInvalidCoinbase'', EXECUTOR_ERROR_INVALID_COINBASE),
    (Some ''ErrExecutorErrorInvalidFrom'', EXECUTOR_ERROR_INVALID_FROM),
    (Some ''ErrExecutorErrorInvalidDbKey'', EXECUTOR_ERROR_INVALID_DB_KEY),
    (Some ''ErrExecutorErrorInvalidDbValue'', EXECUTOR_ERROR_INVALID_DB_VALUE),
    (Some ''ErrExecutorErrorInvalidContractsBytecodeKey'', EXECUTOR_ERROR_INVALID_CONTRACTS_BYTECODE_KEY),
    (Some ''ErrExecutorErrorInvalidContractsBytecodeValue'', EXECUTOR_ERROR_INVALID_CONTRACTS_BYTECODE_VALUE),
    (Some ''ErrExecutorErrorInvalidGetKey'', EXECUTOR_ERROR_INVALID_GET_KEY),
    (Some ''ErrExecutorSMMainCountersOverflowSha256'', EXECUTOR_ERROR_SM_MAIN_COUNTERS_OVERFLOW_SHA256),
    (Some ''ErrExecutorSMMainHashS'', EXECUTOR_ERROR_SM_MAIN_HASHS),
    (Some ''ErrExecutorSMMainHashSSizeOutOfRange'', EXECUTOR_ERROR_SM_MAIN_HASHS_SIZE_OUT_OF_RANGE),
    (Some ''ErrExecutorSMMainHashSPositionNegative'', EXECUTOR_ERROR_SM_MAIN_HASHS_POSITION_NEGATIVE),
    (Some ''ErrExecutorSMMainHashSPositionPlusSizeOutOfRange'', EXECUTOR_ERROR_SM_MAIN_HASHS_POSITION_PLUS_SIZE_OUT_OF_RANGE),
    (Some ''ErrExecutorSMMainHashSDigestAddressNotFound'', EXECUTOR_ERROR_SM_MAIN_HASHSDIGEST_ADDRESS_NOT_FOUND),
    (Some ''ErrExecutorSMMainHashSDigestNotCompleted'', EXECUTOR_ERROR_SM_MAIN_HASHSDIGEST_NOT_COMPLETED),
    (Some ''ErrExecutorSMMainHashSValueMismatch'', EXECUTOR_ERROR_SM_MAIN_HASHS_VALUE_MISMATCH),
    (Some ''ErrExecutorSMMainHashSPaddingMismatch'', EXECUTOR_ERROR_SM_MAIN_HASHS_PADDING_MISMATCH),
    (Some ''ErrExecutorSMMainHashSSizeMismatch'', EXECUTOR_ERROR_SM_MAIN_HASHS_SIZE_MISMATCH),
    (Some ''ErrExecutorSMMainHashSLenLengthMismatch'', EXECUTOR_ERROR_SM_MAIN_HASHSLEN_LENGTH_MISMATCH),
    (Some ''ErrExecutorSMMainHashSLenCalledTwice'', EXECUTOR_ERROR_SM_MAIN_HASHSLEN_CALLED_TWICE),
    (Some ''ErrExecutorSMMainHashSDigestNotFound'', EXECUTOR_ERROR_SM_MAIN_HASHSDIGEST_NOT_FOUND),
    (Some ''ErrExecutorSMMainHashSDigestDigestMismatch'', EXECUTOR_ERROR_SM_MAIN_HASHSDIGEST_DIGEST_MISMATCH),
    (Some ''ErrExecutorSMMainHashSDigestCalledTwice'', EXECUTOR_ERROR_SM_MAIN_HASHSDIGEST_CALLED_TWICE),
    (Some ''ErrExecutorSMMainHashSReadOutOfRange'', EXECUTOR_ERROR_SM_MAIN_HASHS_READ_OUT_OF_RANGE),
    (Some ''ErrExecutorErrorInvalidL1InfoRoot'', EXECUTOR_ERROR_INVALID_L1_INFO_ROOT),
    (Some ''ErrExecutorErrorInvalidForcedBlockhashL1'', EXECUTOR_ERROR_INVALID_FORCED_BLOCKHASH_L1),
    (Some ''ErrExecutorErrorInvalidL1DataV2GlobalExitRoot'', EXECUTOR_ERROR_INVALID_L1_DATA_V2_GLOBAL_EXIT_ROOT),
    (Some ''ErrExecutorErrorInvalidL1DataV2BlockHashL1'', EXECUTOR_ERROR_INVALID_L1_DATA_V2_BLOCK_HASH_L1),
    (Some ''ErrExecutorErrorInvalidL1SmtProof'', EXECUTOR_ERROR_INVALID_L1_SMT_PROOF),
    (Some ''ErrExecutorErrorInvalidBalance'', EXECUTOR_ERROR_INVALID_BALANCE),
    (Some ''ErrExecutorErrorSMMainBinaryLt4Mismatch'', EXECUTOR_ERROR_SM_MAIN_BINARY_LT4_MISMATCH),
    (Some ''ErrExecutorErrorInvalidNewStateRoot'', EXECUTOR_ERROR_INVALID_NEW_STATE_ROOT),
    (Some ''ErrExecutorErrorInvalidNewAccInputHash'', EXECUTOR_ERROR_INVALID_NEW_ACC_INPUT_HASH),
    (Some ''ErrExecutorErrorInvalidNewLocalExitRoot'', EXECUTOR_ERROR_INVALID_NEW_LOCAL_EXIT_ROOT),
    (Some ''ErrExecutorErrorDBKeyNotFound'', EXECUTOR_ERROR_DB_KEY_NOT_FOUND),
    (Some ''ErrExecutorErrorSMTInvalidDataSize'', EXECUTOR_ERROR_SMT_INVALID_DATA_SIZE),
    (Some ''ErrExecutorErrorHashDBGRPCError'', EXECUTOR_ERROR_HASHDB_GRPC_ERROR),
    (Some ''ErrExecutorErrorStateManager'', EXECUTOR_ERROR_STATE_MANAGER),
    (Some ''ErrExecutorErrorInvalidL1InfoTreeIndex'', EXECUTOR_ERROR_INVALID_L1_INFO_TREE_INDEX),
    (Some ''ErrExecutorErrorInvalidL1InfoTreeSmtProofValue'', EXECUTOR_ERROR_INVALID_L1_INFO_TREE_SMT_PROOF_VALUE),
    (Some ''ErrExecutorErrorInvalidWitness'', EXECUTOR_ERROR_INVALID_WITNESS),
    (Some ''ErrExecutorErrorInvalidCBOR'', EXECUTOR_ERROR_INVALID_CBOR),
    (Some ''ErrExecutorErrorInvalidDataStream'', EXECUTOR_ERROR_INVALID_DATA_STREAM),
    (Some ''ErrExecutorErrorInvalidUpdateMerkleTree'', EXECUTOR_ERROR_INVALID_UPDATE_MERKLE_TREE),
    (Some ''ErrExecutorErrorSMMainInvalidTxStatusError'', EXECUTOR_ERROR_SM_MAIN_INVALID_TX_STATUS_ERROR)]"

definition ExecutorErrorCode :: "go_error \<Rightarrow> int" where
  "ExecutorErrorCode err =
     (case map_of (executorErrorCodeCasesA @ executorErrorCodeCasesB) err of
        Some c \<Rightarrow> c
      | None \<Rightarrow> ErrCodeExecutorUnknown)"

section \<open>Switches as tables\<close>

text \<open>
  Two switches are inverse to each other when one has the rows of the other, turned around, apart
  from some rows \<open>ex\<close>, and both the codes and the errors are distinct.  Distinctness of many long
  names is read off a hash of them.
\<close>

definition name_hash :: "go_error \<Rightarrow> int" where
  "name_hash e = (case e of None \<Rightarrow> 0 | Some s \<Rightarrow> 1 + fold (\<lambda>c a. (a * 31 + of_char c) mod 65521) s 0)"

lemma distinct_by_hash: "distinct (map name_hash xs) \<Longrightarrow> distinct xs"
  by (simp add: distinct_map)

text \<open>
  A switch over codes and the switch over errors that goes back.  \<open>skip\<close> is the code whose error
  the second switch does not know.
\<close>

locale inverse_switches =
  fixes rows :: "('c \<times> 'e) list" and inv_rows :: "('e \<times> 'c) list" and skip :: 'c
    and dflt_e :: 'e and dflt_c :: 'c and err_of :: "'c \<Rightarrow> 'e" and code_of :: "'e \<Rightarrow> 'c"
  assumes back_rows: "\<exists>e. rows = (skip, e) # map (\<lambda>(e, c). (c, e)) inv_rows"
    and codes_distinct: "distinct (map fst rows)"
    and errors_distinct: "distinct (dflt_e # map snd rows)"
    and err_of: "err_of c = (case map_of rows c of Some e \<Rightarrow> e | None \<Rightarrow> dflt_e)"
    and code_of: "code_of e = (case map_of inv_rows e of Some c \<Rightarrow> c | None \<Rightarrow> dflt_c)"
begin

lemma back_keys_distinct: "distinct (map fst inv_rows)"
  using back_rows errors_distinct by (auto simp: comp_def case_prod_beta)

lemma code_of_err_of:
  assumes "(c, e) \<in> set rows" "c \<noteq> skip"
  shows "err_of c = e \<and> code_of e = c"
proof -
  have "(e, c) \<in> set inv_rows" using assms back_rows by auto
  then have "map_of inv_rows e = Some c" using back_keys_distinct by simp
  moreover have "map_of rows c = Some e" using assms codes_distinct by simp
  ultimately show ?thesis by (simp add: err_of code_of)
qed

lemma unknown_code: "c \<notin> set (map fst rows) \<Longrightarrow> err_of c = dflt_e \<and> code_of dflt_e = dflt_c"
proof -
  assume "c \<notin> set (map fst rows)"
  then have "map_of rows c = None" by (simp add: map_of_eq_None_iff)
  moreover obtain e where "rows = (skip, e) # map (\<lambda>(e, c). (c, e)) inv_rows" using back_rows by blast
  then have "set (map snd rows) = insert e (fst ` set inv_rows)" by (simp add: image_image case_prod_beta)
  then have "dflt_e \<notin> fst ` set inv_rows" using errors_distinct by simp
  then have "map_of inv_rows dflt_e = None" by (simp add: map_of_eq_None_iff)
  ultimately show ?thesis by (simp add: err_of code_of)
qed

lemma code_unique:
  assumes "(k, e) \<in> set rows" "err_of c = e"
  shows "c = k"
proof -
  have "map_of rows c \<noteq> None"
    using assms errors_distinct by (force simp: err_of split: option.splits)
  then have "(c, e) \<in> set rows" using assms(2) map_of_SomeD by (fastforce simp: err_of)
  with assms(1) errors_distinct show ?thesis
    by (metis distinct.simps(2) distinct_map inj_onD prod.inject snd_conv)
qed

end

lemma romErr_rows: "\<exists>e. romErrCases = (ROM_ERROR_UNSPECIFIED, e) # map (\<lambda>(e, c). (c, e)) romErrorCodeCases"
  by (simp add: romErrCases_def romErrorCodeCases_def)

lemma executorErr_rows:
  "\<exists>e. executorErrCasesA @ executorErrCasesB =
     (EXECUTOR_ERROR_UNSPECIFIED, e) # map (\<lambda>(e, c). (c, e)) (executorErrorCodeCasesA @ executorErrorCodeCasesB)"
  by (simp add: executorErrCasesA_def executorErrCasesB_def executorErrorCodeCasesA_def executorErrorCodeCasesB_def)

lemma romErr_distinct: "distinct (map fst romErrCases)" "distinct (Some ''ErrROMUnknown'' # map snd romErrCases)"
proof -
  show "distinct (map fst romErrCases)" by (simp add: romErrCases_def)
  show "distinct (Some ''ErrROMUnknown'' # map snd romErrCases)"
    by (rule distinct_by_hash) code_simp
qed

lemma executorErr_distinct:
  "distinct (map fst (executorErrCasesA @ executorErrCasesB))"
  "distinct (Some ''ErrExecutorUnknown'' # map snd (executorErrCasesA @ executorErrCasesB))"
proof -
  show "distinct (map fst (executorErrCasesA @ executorErrCasesB))"
    by (simp add: executorErrCasesA_def executorErrCasesB_def)
  show "distinct (Some ''ErrExecutorUnknown'' # map snd (executorErrCasesA @ executorErrCasesB))"
    by (rule distinct_by_hash) code_simp
qed

interpretation rom: inverse_switches romErrCases romErrorCodeCases ROM_ERROR_UNSPECIFIED
    "Some ''ErrROMUnknown''" ErrCodeROMUnknown RomErr RomErrorCode
  by unfold_locales
    (fact romErr_rows romErr_distinct RomErr_def RomErrorCode_def)+

interpretation exec: inverse_switches "executorErrCasesA @ executorErrCasesB"
    "executorErrorCodeCasesA @ executorErrorCodeCasesB" EXECUTOR_ERROR_UNSPECIFIED
    "Some ''ErrExecutorUnknown''" ErrCodeExecutorUnknown ExecutorErr ExecutorErrorCode
  by unfold_locales
    (fact executorErr_rows executorErr_distinct ExecutorErr_def ExecutorErrorCode_def)+

text \<open>A range of codes as the errors of its rows.\<close>

lemma rom_range:
  assumes "\<And>c. lo \<le> c \<Longrightarrow> c \<le> hi \<Longrightarrow> RomErr c \<in> E" "\<And>e. e \<in> E \<Longrightarrow> \<exists>k. (k, e) \<in> set romErrCases \<and> lo \<le> k \<and> k \<le> hi"
  shows "lo \<le> c \<and> c \<le> hi \<longleftrightarrow> RomErr c \<in> E"
  using assms rom.code_unique by blast

section \<open>Properties\<close>

text \<open>
  ROM error codes survive the conversion to a Go error and back: every code of the protocol
  but \<open>ROM_ERROR_UNSPECIFIED\<close> is recovered, and a code outside the protocol becomes the unknown
  error and then the unknown code.
\<close>

lemma RomErrorCode_RomErr:
  "(c \<in> set (map fst romErrCases) \<and> c \<noteq> ROM_ERROR_UNSPECIFIED \<longrightarrow> RomErrorCode (RomErr c) = c)
   \<and> (c \<notin> set (map fst romErrCases) \<longrightarrow> RomErr c = Some ''ErrROMUnknown'' \<and> RomErrorCode (RomErr c) = ErrCodeROMUnknown)"
  using rom.code_of_err_of [of c] rom.unknown_code [of c] by auto

text \<open>
  Executor error codes survive the conversion to a Go error and back: every code of the
  protocol but \<open>EXECUTOR_ERROR_UNSPECIFIED\<close> is recovered, and a code outside the protocol becomes
  the unknown error and then the unknown code.
\<close>

lemma ExecutorErrorCode_ExecutorErr:
  "(c \<in> set (map fst (executorErrCasesA @ executorErrCasesB)) \<and> c \<noteq> EXECUTOR_ERROR_UNSPECIFIED
      \<longrightarrow> ExecutorErrorCode (ExecutorErr c) = c)
   \<and> (c \<notin> set (map fst (executorErrCasesA @ executorErrCasesB))
      \<longrightarrow> ExecutorErr c = Some ''ErrExecutorUnknown'' \<and> ExecutorErrorCode (ExecutorErr c) = ErrCodeExecutorUnknown)"
proof (intro conjI impI)
  assume "c \<in> set (map fst (executorErrCasesA @ executorErrCasesB)) \<and> c \<noteq> EXECUTOR_ERROR_UNSPECIFIED"
  then obtain p where "p \<in> set (executorErrCasesA @ executorErrCasesB)" "c = fst p" and u: "c \<noteq> EXECUTOR_ERROR_UNSPECIFIED"
    unfolding list.set_map by blast
  then have "(c, snd p) \<in> set (executorErrCasesA @ executorErrCasesB)" by (simp only: prod.collapse)
  from exec.code_of_err_of [OF this u] show "ExecutorErrorCode (ExecutorErr c) = c" by simp
next
  assume "c \<notin> set (map fst (executorErrCasesA @ executorErrCasesB))"
  from exec.unknown_code [OF this] show "ExecutorErr c = Some ''ErrExecutorUnknown''"
    "ExecutorErrorCode (ExecutorErr c) = ErrCodeExecutorUnknown" by simp_all
qed

text \<open>
  The ranges by which codes are classified contain exactly the intended errors: the out of
  counters range is the eight out of counters errors, the intrinsic range the eight intrinsic ones;
  and a transaction leaves the state root alone exactly for these errors and an invalid RLP.
\<close>

lemma rom_error_classes:
  "(IsROMOutOfCountersError c \<longleftrightarrow> RomErr c \<in> Some ` {''ErrOutOfCountersStep'', ''ErrOutOfCountersKeccak'',
      ''ErrOutOfCountersBinary'', ''ErrOutOfCountersMemory'', ''ErrOutOfCountersArith'', ''ErrOutOfCountersPadding'',
      ''ErrOutOfCountersPoseidon'', ''ErrOutOfCountersSha''})
   \<and> (IsIntrinsicError c \<longleftrightarrow> RomErr c \<in> Some ` {''ErrIntrinsicInvalidSignature'', ''ErrIntrinsicInvalidChainID'',
      ''ErrIntrinsicInvalidNonce'', ''ErrIntrinsicInvalidGasLimit'', ''ErrIntrinsicInvalidBalance'',
      ''ErrIntrinsicInvalidBatchGasLimit'', ''ErrIntrinsicInvalidSenderCode'', ''ErrIntrinsicInvalidTxGasOverflow''})
   \<and> (\<not> IsStateRootChanged c \<longleftrightarrow> IsROMOutOfCountersError c \<or> IsIntrinsicError c \<or> RomErr c = Some ''ErrInvalidRLP'')"
proof (intro conjI)
  have ooc: "c \<in> {8..15} \<Longrightarrow> c \<in> {8, 9, 10, 11, 12, 13, 14, 15}" for c :: int by auto
  show "IsROMOutOfCountersError c \<longleftrightarrow> RomErr c \<in> Some ` {''ErrOutOfCountersStep'', ''ErrOutOfCountersKeccak'',
      ''ErrOutOfCountersBinary'', ''ErrOutOfCountersMemory'', ''ErrOutOfCountersArith'', ''ErrOutOfCountersPadding'',
      ''ErrOutOfCountersPoseidon'', ''ErrOutOfCountersSha''}"
    unfolding IsROMOutOfCountersError_def
  proof (rule rom_range)
    fix c :: int assume "8 \<le> c" "c \<le> 15"
    then show "RomErr c \<in> Some ` {''ErrOutOfCountersStep'', ''ErrOutOfCountersKeccak'',
      ''ErrOutOfCountersBinary'', ''ErrOutOfCountersMemory'', ''ErrOutOfCountersArith'', ''ErrOutOfCountersPadding'',
      ''ErrOutOfCountersPoseidon'', ''ErrOutOfCountersSha''}"
      using ooc [of c] by (auto simp: RomErr_def romErrCases_def)
  qed (force simp: romErrCases_def)
next
  have intr: "c \<in> {20..27} \<Longrightarrow> c \<in> {20, 21, 22, 23, 24, 25, 26, 27}" for c :: int by auto
  show "IsIntrinsicError c \<longleftrightarrow> RomErr c \<in> Some ` {''ErrIntrinsicInvalidSignature'', ''ErrIntrinsicInvalidChainID'',
      ''ErrIntrinsicInvalidNonce'', ''ErrIntrinsicInvalidGasLimit'', ''ErrIntrinsicInvalidBalance'',
      ''ErrIntrinsicInvalidBatchGasLimit'', ''ErrIntrinsicInvalidSenderCode'', ''ErrIntrinsicInvalidTxGasOverflow''}"
    unfolding IsIntrinsicError_def
  proof (rule rom_range)
    fix c :: int assume "20 \<le> c" "c \<le> 27"
    then show "RomErr c \<in> Some ` {''ErrIntrinsicInvalidSignature'', ''ErrIntrinsicInvalidChainID'',
      ''ErrIntrinsicInvalidNonce'', ''ErrIntrinsicInvalidGasLimit'', ''ErrIntrinsicInvalidBalance'',
      ''ErrIntrinsicInvalidBatchGasLimit'', ''ErrIntrinsicInvalidSenderCode'', ''ErrIntrinsicInvalidTxGasOverflow''}"
      using intr [of c] by (auto simp: RomErr_def romErrCases_def)
  qed (force simp: romErrCases_def)
next
  have "(ROM_ERROR_INVALID_RLP, Some ''ErrInvalidRLP'') \<in> set romErrCases" by (simp add: romErrCases_def)
  moreover have "RomErr ROM_ERROR_INVALID_RLP = Some ''ErrInvalidRLP''" by (simp add: RomErr_def romErrCases_def)
  ultimately have "RomErr c = Some ''ErrInvalidRLP'' \<longleftrightarrow> c = ROM_ERROR_INVALID_RLP"
    using rom.code_unique by blast
  then show "\<not> IsStateRootChanged c \<longleftrightarrow> IsROMOutOfCountersError c \<or> IsIntrinsicError c \<or> RomErr c = Some ''ErrInvalidRLP''"
    by (auto simp: IsStateRootChanged_def)
qed

end
