(* ===== verification/TxSortedList.thy ===== *)
theory TxSortedList
  imports ZkCounters
begin

text \<open>
  The transactions the sequencer keeps (\<open>src/sequencer/txtracker.go\<close>) and the list of those that
  are ready, ordered by gas price (\<open>src/sequencer/txsorted_list.go\<close>).  The list is a map by hash
  and a slice kept in order by binary search; the theory shows that both always hold the same
  transactions, that the slice is ordered by descending gas price with ties in order of arrival, and
  that insertion and deletion find the right place.
\<close>

section \<open>Definitions\<close>

subsection \<open>Transaction trackers\<close>

record EffectiveGasPriceLog =
  Enabled :: bool
  ValueFinal :: int
  ValueFirst :: int
  ValueSecond :: int
  FinalDeviation :: int
  MaxDeviation :: int
  GasUsedFirst :: uint64
  GasUsedSecond :: uint64
  LogGasPrice :: int
  Percentage :: uint8
  Reprocess :: bool
  GasPriceOC :: bool
  BalanceOC :: bool
  LogL1GasPrice :: uint64
  LogL2GasPrice :: uint64
  LogError :: string

text \<open>
  The sequencer shares trackers by pointer between its structures and changes some of their fields
  in place: a pointer is a number, and the trackers live in a heap.  Times are nanoseconds.
\<close>

record TxTracker =
  txHash :: hash32
  HashStr :: string
  From :: bytes
  FromStr :: string
  Nonce :: uint64
  txGas :: uint64
  GasPrice :: int
  Cost :: int
  txBytes :: uint64
  UsedZKCounters :: ZKCounters
  ReservedZKCounters :: ZKCounters
  RawTx :: bytes
  ReceivedAt :: int
  IP :: string
  FailedReason :: "string option"
  EffectiveGasPrice :: int
  EGPPercentage :: byte
  IsLastExecution :: bool
  EGPLog :: EffectiveGasPriceLog
  L1GasPrice :: uint64
  L2GasPrice :: uint64

type_synonym ptr = nat
type_synonym heap = "ptr \<Rightarrow> TxTracker"

definition updateZKCounters :: "heap \<Rightarrow> ptr \<Rightarrow> ZKCounters \<Rightarrow> ZKCounters \<Rightarrow> heap" where
  "updateZKCounters h tx used reserved =
     h(tx := (h tx)\<lparr>UsedZKCounters := used, ReservedZKCounters := reserved\<rparr>)"

subsection \<open>The sorted list\<close>

text \<open>\<open>list\<close> maps hash strings to trackers, \<open>sorted\<close> is the slice.\<close>

record txSortedList =
  txList :: "(string \<times> ptr) list"
  txSorted :: "ptr list"

definition newTxSortedList :: txSortedList where
  "newTxSortedList = \<lparr>txList = [], txSorted = []\<rparr>"

definition isGreaterThan :: "heap \<Rightarrow> ptr \<Rightarrow> ptr \<Rightarrow> bool" where
  "isGreaterThan h tx1 tx2 \<longleftrightarrow> GasPrice (h tx1) > GasPrice (h tx2)"

definition isGreaterOrEqualThan :: "heap \<Rightarrow> ptr \<Rightarrow> ptr \<Rightarrow> bool" where
  "isGreaterOrEqualThan h tx1 tx2 \<longleftrightarrow> GasPrice (h tx1) \<ge> GasPrice (h tx2)"

text \<open>
  The predicate of both searches looks the tracker up in the map; a hash that is not there is a nil
  pointer, whose gas price cannot be read: the operation panics (\<open>None\<close>).
\<close>

definition atSorted :: "heap \<Rightarrow> txSortedList \<Rightarrow> nat \<Rightarrow> ptr option" where
  "atSorted h e i = map_of (txList e) (HashStr (h (txSorted e ! i)))"

definition addSort :: "heap \<Rightarrow> txSortedList \<Rightarrow> ptr \<Rightarrow> txSortedList option" where
  "addSort h e tx =
     map_option (\<lambda>i. e\<lparr>txSorted := take i (txSorted e) @ tx # drop i (txSorted e)\<rparr>)
       (sortSearch (length (txSorted e)) (\<lambda>i. map_option (isGreaterThan h tx) (atSorted h e i)))"

definition sl_add :: "heap \<Rightarrow> txSortedList \<Rightarrow> ptr \<Rightarrow> (txSortedList \<times> bool) option" where
  "sl_add h e tx =
     (if map_of (txList e) (HashStr (h tx)) = None
      then map_option (\<lambda>e'. (e', True)) (addSort h (e\<lparr>txList := AList.update (HashStr (h tx)) tx (txList e)\<rparr>) tx)
      else Some (e, False))"

text \<open>From the first transaction with at most the gas price, \<open>delete\<close> walks down to the hash.\<close>

fun deleteScan :: "heap \<Rightarrow> ptr \<Rightarrow> ptr list \<Rightarrow> nat \<Rightarrow> nat option" where
  "deleteScan h tx [] i = None"
| "deleteScan h tx (q # qs) i =
     (if GasPrice (h q) \<noteq> GasPrice (h tx) then None
      else if HashStr (h q) = HashStr (h tx) then Some i
      else deleteScan h tx qs (i + 1))"

definition sl_delete :: "heap \<Rightarrow> txSortedList \<Rightarrow> ptr \<Rightarrow> (txSortedList \<times> bool) option" where
  "sl_delete h e tx0 =
     (case map_of (txList e) (HashStr (h tx0)) of
        None \<Rightarrow> Some (e, False)
      | Some tx \<Rightarrow>
          (case sortSearch (length (txSorted e)) (\<lambda>i. map_option (isGreaterOrEqualThan h tx) (atSorted h e i)) of
             None \<Rightarrow> None
           | Some i \<Rightarrow>
               (case deleteScan h tx (drop i (txSorted e)) i of
                  None \<Rightarrow> Some (e, False)
                | Some j \<Rightarrow>
                    Some (e\<lparr>txList := AList.delete (HashStr (h tx)) (txList e),
                            txSorted := take j (txSorted e) @ drop (j + 1) (txSorted e)\<rparr>, True))))"

definition getByIndex :: "txSortedList \<Rightarrow> nat \<Rightarrow> ptr option" where
  "getByIndex e i = (if i < length (txSorted e) then Some (txSorted e ! i) else None)"

definition sl_len :: "txSortedList \<Rightarrow> nat" where
  "sl_len e = length (txSorted e)"

definition GetSorted :: "txSortedList \<Rightarrow> ptr list" where
  "GetSorted e = txSorted e"

section \<open>Well-formed lists\<close>

abbreviation hashes :: "heap \<Rightarrow> ptr list \<Rightarrow> string list" where
  "hashes h ps \<equiv> map (\<lambda>p. HashStr (h p)) ps"

definition price_ordered :: "heap \<Rightarrow> ptr list \<Rightarrow> bool" where
  "price_ordered h ps \<longleftrightarrow> sorted_wrt (\<lambda>p q. GasPrice (h p) \<ge> GasPrice (h q)) ps"

definition sl_ok :: "heap \<Rightarrow> txSortedList \<Rightarrow> bool" where
  "sl_ok h e \<longleftrightarrow> distinct (hashes h (txSorted e)) \<and> price_ordered h (txSorted e)
     \<and> (\<forall>k p. map_of (txList e) k = Some p \<longleftrightarrow> p \<in> set (txSorted e) \<and> k = HashStr (h p))"

lemma sl_ok_new: "sl_ok h newTxSortedList"
  by (simp add: sl_ok_def newTxSortedList_def price_ordered_def)

lemma sl_ok_lookup_iff:
  "sl_ok h e \<Longrightarrow> map_of (txList e) k = Some p \<longleftrightarrow> p \<in> set (txSorted e) \<and> k = HashStr (h p)"
  by (simp add: sl_ok_def)

lemma sl_ok_lookup_None:
  assumes "sl_ok h e"
  shows "map_of (txList e) k = None \<longleftrightarrow> k \<notin> set (hashes h (txSorted e))"
proof -
  have "(\<exists>p. map_of (txList e) k = Some p) \<longleftrightarrow> k \<in> set (hashes h (txSorted e))"
    unfolding sl_ok_lookup_iff [OF assms] by auto
  then show ?thesis by (cases "map_of (txList e) k") simp_all
qed

text \<open>Binary search on an ordered slice is a linear scan.\<close>

lemma search_ordered:
  assumes "price_ordered h ps" and look: "\<And>p. p \<in> set ps \<Longrightarrow> m (HashStr (h p)) = Some p"
    and mono: "\<And>p q. GasPrice (h q) \<le> GasPrice (h p) \<Longrightarrow> R (h p) \<Longrightarrow> R (h q)"
  shows "sortSearch (length ps) (\<lambda>i. map_option (\<lambda>q. R (h q)) (m (HashStr (h (ps ! i)))))
    = Some (length (takeWhile (\<lambda>q. \<not> R (h q)) ps))"
proof (rule sortSearch_takeWhile)
  fix a b assume ab: "a \<le> b" "b < length ps" "R (h (ps ! a))"
  show "R (h (ps ! b))"
  proof (cases "a = b")
    case False
    with ab have "GasPrice (h (ps ! b)) \<le> GasPrice (h (ps ! a))"
      using sorted_wrt_nth_less [OF assms(1) [unfolded price_ordered_def], of a b] by simp
    from mono [OF this ab(3)] show ?thesis .
  qed (use ab in simp)
qed (simp add: look)

lemma dropWhile_ordered:
  assumes "price_ordered h ps" "\<And>a b. GasPrice (h b) \<le> GasPrice (h a) \<Longrightarrow> R a \<Longrightarrow> R b"
    and "x \<in> set (dropWhile (\<lambda>q. \<not> R q) ps)"
  shows "R x"
  using assms(1,3)
proof (induction ps)
  case (Cons a ps)
  then show ?case using assms(2) [of x a] by (auto simp: price_ordered_def split: if_splits)
qed simp

text \<open>Inserting behind all prices that are at least as high keeps the order.\<close>

lemma price_ordered_insert:
  fixes p :: ptr
  assumes "price_ordered h ps"
  defines "A \<equiv> takeWhile (\<lambda>q. \<not> GasPrice (h p) > GasPrice (h q)) ps"
    and "B \<equiv> dropWhile (\<lambda>q. \<not> GasPrice (h p) > GasPrice (h q)) ps"
  shows "price_ordered h (A @ p # B)"
proof -
  have ps: "ps = A @ B" by (simp add: A_def B_def)
  have A: "\<forall>q \<in> set A. GasPrice (h p) \<le> GasPrice (h q)" by (auto simp: A_def dest: set_takeWhileD)
  have B: "\<forall>q \<in> set B. GasPrice (h q) \<le> GasPrice (h p)"
  proof
    fix q assume "q \<in> set B"
    then have "GasPrice (h p) > GasPrice (h q)"
      unfolding B_def by (rule dropWhile_ordered [OF assms(1), rotated]) simp
    then show "GasPrice (h q) \<le> GasPrice (h p)" by simp
  qed
  show ?thesis using assms(1) A B by (auto simp: ps price_ordered_def sorted_wrt_append)
qed

lemma sl_add_new:
  assumes ok: "sl_ok h e" and new: "HashStr (h p) \<notin> set (hashes h (txSorted e))"
  shows "\<exists>e'. sl_add h e p = Some (e', True) \<and> sl_ok h e'
    \<and> txSorted e' = takeWhile (\<lambda>q. \<not> isGreaterThan h p q) (txSorted e) @ p
        # dropWhile (\<lambda>q. \<not> isGreaterThan h p q) (txSorted e)"
proof -
  let ?ps = "txSorted e" and ?P = "\<lambda>q. \<not> isGreaterThan h p q"
  let ?e1 = "e\<lparr>txList := AList.update (HashStr (h p)) p (txList e)\<rparr>"
  let ?new = "takeWhile ?P ?ps @ p # dropWhile ?P ?ps"
  have none: "map_of (txList e) (HashStr (h p)) = None" using sl_ok_lookup_None [OF ok] new by simp
  have look: "map_of (txList ?e1) (HashStr (h q)) = Some q" if "q \<in> set ?ps" for q
  proof -
    have "HashStr (h q) \<noteq> HashStr (h p)" using that new by (metis image_eqI list.set_map)
    with that sl_ok_lookup_iff [OF ok, of "HashStr (h q)" q] show ?thesis by (simp add: update_conv')
  qed
  have "sortSearch (length ?ps) (\<lambda>i. map_option (isGreaterThan h p) (atSorted h ?e1 i))
      = Some (length (takeWhile ?P ?ps))"
    unfolding atSorted_def isGreaterThan_def
    using search_ordered [of h ?ps "map_of (txList ?e1)" "\<lambda>t. GasPrice t < GasPrice (h p)"] ok look
    by (auto simp: sl_ok_def)
  then have add: "sl_add h e p = Some (?e1\<lparr>txSorted := ?new\<rparr>, True)"
    using none by (simp add: sl_add_def addSort_def takeWhile_eq_take [symmetric] dropWhile_eq_drop)
  obtain A B where AB: "takeWhile ?P ?ps = A" "dropWhile ?P ?ps = B" "?ps = A @ B"
    by (metis takeWhile_dropWhile_id)
  have set_new: "set ?new = insert p (set ?ps)" unfolding AB(1,2) unfolding AB(3) by auto
  have "distinct (hashes h ?new)" using new ok unfolding AB(1,2) sl_ok_def unfolding AB(3) by auto
  moreover have "map_of (AList.update (HashStr (h p)) p (txList e)) k = Some q \<longleftrightarrow> q \<in> set ?new \<and> k = HashStr (h q)" for k q
    unfolding set_new update_conv' using new sl_ok_lookup_iff [OF ok, of k q] by auto
  ultimately have "sl_ok h (?e1\<lparr>txSorted := ?new\<rparr>)"
    using price_ordered_insert [of h ?ps p] ok by (simp add: sl_ok_def isGreaterThan_def)
  with add show ?thesis by simp
qed

lemma sl_add_old: "sl_ok h e \<Longrightarrow> HashStr (h p) \<in> set (hashes h (txSorted e)) \<Longrightarrow> sl_add h e p = Some (e, False)"
  using sl_ok_lookup_None [of h e "HashStr (h p)"] by (simp add: sl_add_def)

text \<open>The scan of \<open>delete\<close> finds the tracker in a part of the slice that starts at its price.\<close>

lemma deleteScan_finds:
  assumes "price_ordered h (xs @ q # ys)" "\<forall>x \<in> set xs. GasPrice (h x) \<le> GasPrice (h q)"
    "HashStr (h q) \<notin> set (hashes h xs)"
  shows "deleteScan h q (xs @ q # ys) i = Some (i + length xs)"
  using assms
proof (induction xs arbitrary: i)
  case (Cons x xs)
  then have "GasPrice (h x) = GasPrice (h q)" by (auto simp: price_ordered_def)
  with Cons show ?case by (auto simp: price_ordered_def)
qed simp

lemma sl_delete_found:
  assumes ok: "sl_ok h e" and q: "q \<in> set (txSorted e)" "HashStr (h q) = HashStr (h p)"
  shows "\<exists>e'. sl_delete h e p = Some (e', True) \<and> sl_ok h e' \<and> txSorted e' = remove1 q (txSorted e)"
proof -
  let ?P = "\<lambda>x. \<not> isGreaterOrEqualThan h q x"
  obtain xs ys where ps: "txSorted e = xs @ q # ys" using q(1) by (meson split_list)
  have d: "distinct (hashes h (xs @ q # ys))" and po: "price_ordered h (xs @ q # ys)"
    using ok by (auto simp: sl_ok_def ps)
  have look: "map_of (txList e) (HashStr (h p)) = Some q" using sl_ok_lookup_iff [OF ok] q by simp
  have search: "sortSearch (length (txSorted e)) (\<lambda>i. map_option (isGreaterOrEqualThan h q) (atSorted h e i))
      = Some (length (takeWhile ?P (txSorted e)))"
    unfolding atSorted_def isGreaterOrEqualThan_def
    using search_ordered [of h "txSorted e" "map_of (txList e)" "\<lambda>t. GasPrice t \<le> GasPrice (h q)"] ok sl_ok_lookup_iff [OF ok]
    by (auto simp: sl_ok_def)
  define k where "k = length (takeWhile ?P xs)"
  have tw: "takeWhile ?P (txSorted e) = takeWhile ?P xs"
    by (simp add: ps takeWhile_tail isGreaterOrEqualThan_def)
  have scan: "deleteScan h q (drop k (txSorted e)) k = Some (length xs)"
  proof -
    have "dropWhile ?P xs = drop k xs" by (simp add: k_def dropWhile_eq_drop)
    moreover have "set (drop k xs) \<subseteq> set xs" by (rule set_drop_subset)
    moreover have "price_ordered h (drop k xs @ q # ys)"
      using po set_drop_subset [of k xs] by (auto simp: price_ordered_def sorted_wrt_append sorted_wrt_drop)
    moreover have "\<forall>x \<in> set (dropWhile ?P xs). GasPrice (h x) \<le> GasPrice (h q)"
    proof
      have po': "price_ordered h xs" using po by (simp add: price_ordered_def sorted_wrt_append)
      fix x assume "x \<in> set (dropWhile ?P xs)"
      then have "isGreaterOrEqualThan h q x"
        by (rule dropWhile_ordered [OF po', rotated]) (simp add: isGreaterOrEqualThan_def)
      then show "GasPrice (h x) \<le> GasPrice (h q)" by (simp add: isGreaterOrEqualThan_def)
    qed
    moreover have "HashStr (h q) \<notin> set (hashes h xs)" using d by auto
    ultimately have "deleteScan h q (drop k xs @ q # ys) k = Some (k + length (drop k xs))"
      by (intro deleteScan_finds) auto
    moreover have "k \<le> length xs" by (simp add: k_def length_takeWhile_le)
    ultimately show ?thesis by (simp add: ps)
  qed
  define e' where "e' = e\<lparr>txList := AList.delete (HashStr (h q)) (txList e), txSorted := xs @ ys\<rparr>"
  have "sl_delete h e p = Some (e', True)"
    using look search scan by (simp add: sl_delete_def tw flip: k_def) (simp add: e'_def ps)
  moreover have "map_of (AList.delete (HashStr (h q)) (txList e)) j = Some x \<longleftrightarrow> x \<in> set (xs @ ys) \<and> j = HashStr (h x)" for j x
    using sl_ok_lookup_iff [OF ok, of j x] d by (auto simp: delete_conv' ps)
  then have "sl_ok h e'"
    using d po by (auto simp: sl_ok_def e'_def price_ordered_def sorted_wrt_append)
  moreover have "txSorted e' = remove1 q (txSorted e)"
    using d by (auto simp: e'_def ps remove1_append)
  ultimately show ?thesis by blast
qed

lemma sl_delete_missing:
  "sl_ok h e \<Longrightarrow> HashStr (h p) \<notin> set (hashes h (txSorted e)) \<Longrightarrow> sl_delete h e p = Some (e, False)"
  using sl_ok_lookup_None [of h e "HashStr (h p)"] by (simp add: sl_delete_def)

text \<open>The list only depends on the hashes and gas prices of its trackers.\<close>

lemma sl_ok_cong:
  assumes "sl_ok h e" "\<And>p. p \<in> set (txSorted e) \<Longrightarrow> HashStr (h' p) = HashStr (h p) \<and> GasPrice (h' p) = GasPrice (h p)"
  shows "sl_ok h' e"
proof -
  have "distinct (hashes h' (txSorted e))" using assms by (simp add: sl_ok_def cong: map_cong)
  moreover have "price_ordered h' (txSorted e)"
    using assms by (auto simp: sl_ok_def price_ordered_def intro: sorted_wrt_mono_rel [rotated])
  moreover have "p \<in> set (txSorted e) \<and> k = HashStr (h' p) \<longleftrightarrow> p \<in> set (txSorted e) \<and> k = HashStr (h p)" for p k
    using assms(2) by auto
  ultimately show ?thesis using assms(1) by (simp add: sl_ok_def)
qed

section \<open>The interface of the ready transactions\<close>

text \<open>
  What the worker relies on: the items are ordered by price, have distinct keys, and are the ones
  that were added and not deleted since; adding a key twice and deleting an unknown key change
  nothing; and no operation panics.
\<close>

locale ready_txs =
  fixes ok :: "'h \<Rightarrow> 's \<Rightarrow> bool"
    and items :: "'s \<Rightarrow> 'p list"
    and key :: "'h \<Rightarrow> 'p \<Rightarrow> 'k"
    and price :: "'h \<Rightarrow> 'p \<Rightarrow> int"
    and add :: "'h \<Rightarrow> 's \<Rightarrow> 'p \<Rightarrow> ('s \<times> bool) option"
    and delete :: "'h \<Rightarrow> 's \<Rightarrow> 'p \<Rightarrow> ('s \<times> bool) option"
  assumes ordered: "ok h s \<Longrightarrow> sorted_wrt (\<lambda>p q. price h p \<ge> price h q) (items s)"
    and distinct_keys: "ok h s \<Longrightarrow> distinct (map (key h) (items s))"
    and add_new: "ok h s \<Longrightarrow> key h p \<notin> key h ` set (items s) \<Longrightarrow>
      \<exists>s'. add h s p = Some (s', True) \<and> ok h s' \<and> set (items s') = insert p (set (items s))"
    and add_old: "ok h s \<Longrightarrow> key h p \<in> key h ` set (items s) \<Longrightarrow> add h s p = Some (s, False)"
    and delete_found: "ok h s \<Longrightarrow> q \<in> set (items s) \<Longrightarrow> key h q = key h p \<Longrightarrow>
      \<exists>s'. delete h s p = Some (s', True) \<and> ok h s' \<and> set (items s') = set (items s) - {q}"
    and delete_missing: "ok h s \<Longrightarrow> key h p \<notin> key h ` set (items s) \<Longrightarrow> delete h s p = Some (s, False)"
begin

lemma key_inj: "ok h s \<Longrightarrow> p \<in> set (items s) \<Longrightarrow> q \<in> set (items s) \<Longrightarrow> key h p = key h q \<Longrightarrow> p = q"
  using distinct_keys by (auto simp: distinct_map dest: inj_onD)

lemma add_total:
  assumes "ok h s"
  shows "\<exists>s' b. add h s p = Some (s', b) \<and> ok h s' \<and> key h ` set (items s') = insert (key h p) (key h ` set (items s))"
proof (cases "key h p \<in> key h ` set (items s)")
  case True
  then have "insert (key h p) (key h ` set (items s)) = key h ` set (items s)" by blast
  with True assms add_old [of h s p] show ?thesis by metis
next
  case False
  with assms show ?thesis using add_new [of h s p] by fastforce
qed

lemma delete_total:
  assumes "ok h s"
  shows "\<exists>s' b. delete h s p = Some (s', b) \<and> ok h s' \<and> set (items s') = {q \<in> set (items s). key h q \<noteq> key h p}"
proof (cases "key h p \<in> key h ` set (items s)")
  case True
  then obtain q where q: "q \<in> set (items s)" "key h q = key h p" by auto
  from delete_found [OF assms q] obtain s' where s': "delete h s p = Some (s', True)" "ok h s'"
      "set (items s') = set (items s) - {q}" by blast
  have "set (items s) - {q} = {q \<in> set (items s). key h q \<noteq> key h p}"
    using q key_inj [OF assms] by auto
  with s' show ?thesis by metis
next
  case False
  with assms show ?thesis by (auto simp: delete_missing image_iff)
qed

text \<open>Replacing a transaction: delete an item, then add one whose key is not there.\<close>

lemma replace:
  assumes "ok h s" "q \<in> set (items s)" "key h p \<notin> key h ` (set (items s) - {q})"
  shows "\<exists>s1 s2. delete h s q = Some (s1, True) \<and> add h s1 p = Some (s2, True) \<and> ok h s2
    \<and> set (items s2) = insert p (set (items s) - {q})"
proof -
  obtain s1 where s1: "delete h s q = Some (s1, True)" "ok h s1" "set (items s1) = set (items s) - {q}"
    using delete_found [OF assms(1,2) refl] by blast
  then show ?thesis using add_new [of h s1 p] assms(3) by fastforce
qed

end

interpretation sl: ready_txs sl_ok txSorted "\<lambda>h p. HashStr (h p)" "\<lambda>h p. GasPrice (h p)" sl_add sl_delete
proof (unfold_locales, goal_cases)
  case (3 h s p)
  then obtain e' where e': "sl_add h s p = Some (e', True)" "sl_ok h e'"
      "txSorted e' = takeWhile (\<lambda>q. \<not> isGreaterThan h p q) (txSorted s) @ p # dropWhile (\<lambda>q. \<not> isGreaterThan h p q) (txSorted s)"
    using sl_add_new [of h s p] by auto
  have "set (txSorted s) = set (takeWhile (\<lambda>q. \<not> isGreaterThan h p q) (txSorted s) @ dropWhile (\<lambda>q. \<not> isGreaterThan h p q) (txSorted s))"
    by simp
  then have "set (txSorted e') = insert p (set (txSorted s))" unfolding e'(3) set_append by simp
  with e' show ?case by blast
next
  case (5 h s q p)
  then have "distinct (txSorted s)" by (auto simp: sl_ok_def distinct_map)
  with 5 sl_delete_found [OF 5] show ?case by (auto simp: set_remove1_eq)
qed (auto simp: sl_ok_def price_ordered_def sl_add_old sl_delete_missing)

section \<open>Properties\<close>

text \<open>
  The reference: a list in which a new transaction goes behind all that pay at least as much, and
  from which a transaction is removed by its hash.
\<close>

datatype sl_op = SlAdd ptr | SlDelete ptr

fun ref_step :: "heap \<Rightarrow> sl_op \<Rightarrow> ptr list \<Rightarrow> ptr list" where
  "ref_step h (SlAdd p) ps =
     (if HashStr (h p) \<in> set (hashes h ps) then ps
      else filter (\<lambda>q. GasPrice (h q) \<ge> GasPrice (h p)) ps @ p # filter (\<lambda>q. \<not> GasPrice (h q) \<ge> GasPrice (h p)) ps)"
| "ref_step h (SlDelete p) ps = filter (\<lambda>q. HashStr (h q) \<noteq> HashStr (h p)) ps"

fun sl_step :: "heap \<Rightarrow> sl_op \<Rightarrow> txSortedList \<Rightarrow> txSortedList option" where
  "sl_step h (SlAdd p) e = map_option fst (sl_add h e p)"
| "sl_step h (SlDelete p) e = map_option fst (sl_delete h e p)"

fun sl_run :: "heap \<Rightarrow> sl_op list \<Rightarrow> txSortedList \<Rightarrow> txSortedList option" where
  "sl_run h [] e = Some e"
| "sl_run h (x # xs) e = (case sl_step h x e of None \<Rightarrow> None | Some e' \<Rightarrow> sl_run h xs e')"

lemma takeWhile_ordered_filter:
  assumes "price_ordered h ps"
  shows "takeWhile (\<lambda>q. \<not> isGreaterThan h p q) ps = filter (\<lambda>q. GasPrice (h q) \<ge> GasPrice (h p)) ps
    \<and> dropWhile (\<lambda>q. \<not> isGreaterThan h p q) ps = filter (\<lambda>q. \<not> GasPrice (h q) \<ge> GasPrice (h p)) ps"
  using assms
proof (induction ps)
  case (Cons a ps)
  then have IH: "takeWhile (\<lambda>q. \<not> isGreaterThan h p q) ps = filter (\<lambda>q. GasPrice (h q) \<ge> GasPrice (h p)) ps
    \<and> dropWhile (\<lambda>q. \<not> isGreaterThan h p q) ps = filter (\<lambda>q. \<not> GasPrice (h q) \<ge> GasPrice (h p)) ps"
    and a: "\<forall>q \<in> set ps. GasPrice (h q) \<le> GasPrice (h a)"
    by (simp_all add: price_ordered_def)
  show ?case
  proof (cases "isGreaterThan h p a")
    case True
    then have "\<forall>q \<in> set (a # ps). \<not> GasPrice (h q) \<ge> GasPrice (h p)"
      using a by (fastforce simp: isGreaterThan_def)
    then show ?thesis using True by (simp add: filter_False)
  next
    case False
    then show ?thesis using IH by (simp add: isGreaterThan_def)
  qed
qed simp

lemma sl_step_refines:
  assumes "sl_ok h e"
  shows "\<exists>e'. sl_step h x e = Some e' \<and> sl_ok h e' \<and> txSorted e' = ref_step h x (txSorted e)"
proof (cases x)
  case (SlAdd p)
  then show ?thesis
    using assms sl_add_new [OF assms, of p] sl_add_old [OF assms, of p] takeWhile_ordered_filter [of h "txSorted e" p]
    by (cases "HashStr (h p) \<in> set (hashes h (txSorted e))") (auto simp: sl_ok_def)
next
  case (SlDelete p)
  show ?thesis
  proof (cases "HashStr (h p) \<in> set (hashes h (txSorted e))")
    case True
    then obtain q where q: "q \<in> set (txSorted e)" "HashStr (h q) = HashStr (h p)" by auto
    then have "HashStr (h x) = HashStr (h p) \<longleftrightarrow> x = q" if "x \<in> set (txSorted e)" for x
      using sl.key_inj [OF assms that q(1)] by auto
    then have "filter (\<lambda>q. HashStr (h q) \<noteq> HashStr (h p)) (txSorted e) = removeAll q (txSorted e)"
      unfolding removeAll_filter_not_eq by (intro filter_cong) auto
    moreover have "distinct (txSorted e)" using assms by (auto simp: sl_ok_def distinct_map)
    ultimately show ?thesis
      using sl_delete_found [OF assms q] SlDelete by (force simp: distinct_remove1_removeAll)
  next
    case False
    then have "filter (\<lambda>q. HashStr (h q) \<noteq> HashStr (h p)) (txSorted e) = txSorted e"
      by (metis (mono_tags, lifting) filter_True image_eqI list.set_map)
    with False SlDelete show ?thesis using sl_delete_missing [OF assms, of p] assms by simp
  qed
qed

lemma sl_run_refines:
  "sl_ok h e \<Longrightarrow> \<exists>e'. sl_run h xs e = Some e' \<and> sl_ok h e' \<and> txSorted e' = fold (ref_step h) xs (txSorted e)"
proof (induction xs arbitrary: e)
  case (Cons x xs)
  obtain e1 where "sl_step h x e = Some e1" "sl_ok h e1" "txSorted e1 = ref_step h x (txSorted e)"
    using sl_step_refines [OF Cons.prems] by blast
  with Cons.IH [of e1] show ?case by simp
qed simp


end
