(* ===== verification/AddrQueue.thy ===== *)
theory AddrQueue
  imports TxSortedList
begin

text \<open>
  The queue of one sender (\<open>src/sequencer/addrqueue.go\<close>): at most one transaction is ready, the one
  with the sender's current nonce that its balance pays for; the others wait by nonce.  The theory
  shows the invariant of the queue under all its operations, that an update of nonce and balance
  leaves no executable transaction waiting, and two cases in which a transaction is lost.
\<close>

section \<open>Definitions\<close>

text \<open>
  A Go map is an association list, its order the order of iteration; the two sets of hashes are
  lists.
\<close>

record addrQueue =
  qFrom :: bytes
  qFromStr :: string
  currentNonce :: uint64
  currentBalance :: int
  readyTx :: "ptr option"
  notReadyTxs :: "(uint64 \<times> ptr) list"
  forcedTxs :: "hash32 list"
  pendingTxsToStore :: "hash32 list"

datatype worker_error =
    ErrDuplicatedNonce
  | ErrIntrinsicInvalidNonce
  | ErrInvalidIP
  | ErrOutOfCounters
  | ErrGetLastStateRoot
  | ErrGetNonce
  | ErrGetBalance

definition newAddrQueue :: "(bytes \<Rightarrow> string) \<Rightarrow> bytes \<Rightarrow> uint64 \<Rightarrow> int \<Rightarrow> addrQueue" where
  "newAddrQueue addrString addr nonce balance =
     \<lparr>qFrom = addr, qFromStr = addrString addr, currentNonce = nonce, currentBalance = balance,
      readyTx = None, notReadyTxs = [], forcedTxs = [], pendingTxsToStore = []\<rparr>"

text \<open>\<open>addTx\<close> returns the queue, the new and the previous ready transaction, the replaced one and the drop reason.\<close>

definition addTx ::
  "heap \<Rightarrow> addrQueue \<Rightarrow> ptr \<Rightarrow> addrQueue \<times> ptr option \<times> ptr option \<times> ptr option \<times> worker_error option" where
  "addTx h a tx =
     (if currentNonce a = Nonce (h tx) then
        (if readyTx a = None \<or> GasPrice (h tx) \<ge> GasPrice (h (the (readyTx a))) then
           (let oldReadyTx = readyTx a;
                repTx = (case oldReadyTx of
                    None \<Rightarrow> None
                  | Some old \<Rightarrow> if HashStr (h old) \<noteq> HashStr (h tx) then Some old else None)
            in if currentBalance a \<ge> Cost (h tx)
               then (a\<lparr>readyTx := Some tx\<rparr>, Some tx, oldReadyTx, repTx, None)
               else (a\<lparr>readyTx := None, notReadyTxs := AList.update (Nonce (h tx)) tx (notReadyTxs a)\<rparr>,
                     None, oldReadyTx, repTx, None))
         else (a, None, None, None, Some ErrDuplicatedNonce))
      else if currentNonce a > Nonce (h tx) then (a, None, None, None, Some ErrIntrinsicInvalidNonce)
      else
        (case map_of (notReadyTxs a) (Nonce (h tx)) of
           None \<Rightarrow> (a\<lparr>notReadyTxs := AList.update (Nonce (h tx)) tx (notReadyTxs a)\<rparr>, None, None, None, None)
         | Some nrTx \<Rightarrow>
             if GasPrice (h tx) \<ge> GasPrice (h nrTx)
             then (a\<lparr>notReadyTxs := AList.update (Nonce (h tx)) tx (notReadyTxs a)\<rparr>, None, None,
                   if HashStr (h nrTx) \<noteq> HashStr (h tx) then Some nrTx else None, None)
             else (a, None, None, None, Some ErrDuplicatedNonce)))"

definition addForcedTx :: "addrQueue \<Rightarrow> hash32 \<Rightarrow> addrQueue" where
  "addForcedTx a hash = a\<lparr>forcedTxs := List.insert hash (forcedTxs a)\<rparr>"

definition addPendingTxToStore :: "addrQueue \<Rightarrow> hash32 \<Rightarrow> addrQueue" where
  "addPendingTxToStore a hash = a\<lparr>pendingTxsToStore := List.insert hash (pendingTxsToStore a)\<rparr>"

text \<open>The clock is read once, as \<open>now\<close>.\<close>

definition expired :: "heap \<Rightarrow> int \<Rightarrow> int \<Rightarrow> ptr \<Rightarrow> bool" where
  "expired h maxTime now p \<longleftrightarrow> ReceivedAt (h p) + maxTime < now"

definition expireNotReady :: "heap \<Rightarrow> int \<Rightarrow> int \<Rightarrow> addrQueue \<Rightarrow> addrQueue \<times> ptr list" where
  "expireNotReady h maxTime now a =
     (let txs = filter (expired h maxTime now) (map snd (notReadyTxs a))
      in (a\<lparr>notReadyTxs := fold (\<lambda>p. AList.delete (Nonce (h p))) txs (notReadyTxs a)\<rparr>, txs))"

definition q_ExpireTransactions :: "heap \<Rightarrow> int \<Rightarrow> int \<Rightarrow> addrQueue \<Rightarrow> addrQueue \<times> ptr list \<times> ptr option" where
  "q_ExpireTransactions h maxTime now a =
     (case expireNotReady h maxTime now a of
        (a1, txs) \<Rightarrow>
          (case readyTx a1 of
             Some p \<Rightarrow>
               if expired h maxTime now p then (a1\<lparr>readyTx := None\<rparr>, txs @ [p], Some p) else (a1, txs, None)
           | None \<Rightarrow> (a1, txs, None)))"

definition q_IsEmpty :: "addrQueue \<Rightarrow> bool" where
  "q_IsEmpty a \<longleftrightarrow> readyTx a = None \<and> notReadyTxs a = [] \<and> forcedTxs a = [] \<and> pendingTxsToStore a = []"

text \<open>\<open>hashString\<close> is the string form of a hash.\<close>

definition readyHasHash :: "(hash32 \<Rightarrow> string) \<Rightarrow> heap \<Rightarrow> addrQueue \<Rightarrow> hash32 \<Rightarrow> bool" where
  "readyHasHash hashString h a hash =
     (case readyTx a of None \<Rightarrow> False | Some p \<Rightarrow> HashStr (h p) = hashString hash)"

definition findNotReady :: "(hash32 \<Rightarrow> string) \<Rightarrow> heap \<Rightarrow> addrQueue \<Rightarrow> hash32 \<Rightarrow> ptr option" where
  "findNotReady hashString h a hash = find (\<lambda>q. HashStr (h q) = hashString hash) (map snd (notReadyTxs a))"

definition q_deleteTx :: "(hash32 \<Rightarrow> string) \<Rightarrow> heap \<Rightarrow> addrQueue \<Rightarrow> hash32 \<Rightarrow> addrQueue \<times> ptr option \<times> bool" where
  "q_deleteTx hashString h a hash =
     (if readyHasHash hashString h a hash then (a\<lparr>readyTx := None\<rparr>, readyTx a, True)
      else
        (case findNotReady hashString h a hash of
           None \<Rightarrow> (a, None, False)
         | Some q \<Rightarrow> (a\<lparr>notReadyTxs := AList.delete (Nonce (h q)) (notReadyTxs a)\<rparr>, Some q, False)))"

definition deleteForcedTx :: "addrQueue \<Rightarrow> hash32 \<Rightarrow> addrQueue" where
  "deleteForcedTx a hash = a\<lparr>forcedTxs := removeAll hash (forcedTxs a)\<rparr>"

definition deletePendingTxToStore :: "addrQueue \<Rightarrow> hash32 \<Rightarrow> addrQueue" where
  "deletePendingTxToStore a hash = a\<lparr>pendingTxsToStore := removeAll hash (pendingTxsToStore a)\<rparr>"

definition getTransactions :: "addrQueue \<Rightarrow> ptr list" where
  "getTransactions a = (case readyTx a of Some p \<Rightarrow> [p] | None \<Rightarrow> []) @ map snd (notReadyTxs a)"

definition failNonce :: "ptr \<Rightarrow> heap \<Rightarrow> heap" where
  "failNonce p h = h(p := (h p)\<lparr>FailedReason := Some ''nonce intrinsic error''\<rparr>)"

text \<open>The update in its four steps: the new nonce, the ready transaction, its successor, and where the old one goes.\<close>

definition updateNonce :: "heap \<Rightarrow> addrQueue \<Rightarrow> uint64 option \<Rightarrow> heap \<times> addrQueue \<times> ptr list" where
  "updateNonce h a nonce =
     (case nonce of
        None \<Rightarrow> (h, a, [])
      | Some n \<Rightarrow>
          if currentNonce a = n then (h, a, [])
          else
            (let a1 = a\<lparr>currentNonce := n\<rparr>;
                 txsToDelete = filter (\<lambda>p. Nonce (h p) < n) (map snd (notReadyTxs a1))
             in (fold failNonce txsToDelete h,
                 a1\<lparr>notReadyTxs := fold (\<lambda>p. AList.delete (Nonce (h p))) txsToDelete (notReadyTxs a1)\<rparr>,
                 txsToDelete)))"

definition demoteReady :: "heap \<Rightarrow> addrQueue \<Rightarrow> addrQueue \<times> ptr option" where
  "demoteReady h a =
     (case readyTx a of
        None \<Rightarrow> (a, None)
      | Some p \<Rightarrow>
          if Nonce (h p) \<noteq> currentNonce a \<or> currentBalance a < Cost (h p)
          then (a\<lparr>readyTx := None\<rparr>, Some p) else (a, None))"

definition promoteNext :: "heap \<Rightarrow> addrQueue \<Rightarrow> addrQueue" where
  "promoteNext h a =
     (if readyTx a = None then
        (case map_of (notReadyTxs a) (currentNonce a) of
           None \<Rightarrow> a
         | Some nrTx \<Rightarrow>
             if currentBalance a \<ge> Cost (h nrTx)
             then a\<lparr>readyTx := Some nrTx, notReadyTxs := AList.delete (currentNonce a) (notReadyTxs a)\<rparr>
             else a)
      else a)"

definition updateCurrentNonceBalance ::
  "heap \<Rightarrow> addrQueue \<Rightarrow> uint64 option \<Rightarrow> int option
     \<Rightarrow> heap \<times> addrQueue \<times> ptr option \<times> ptr option \<times> ptr list" where
  "updateCurrentNonceBalance h a nonce balance =
     (let a0 = (case balance of None \<Rightarrow> a | Some b \<Rightarrow> a\<lparr>currentBalance := b\<rparr>)
      in case updateNonce h a0 nonce of
           (h1, a1, txsToDelete) \<Rightarrow>
             (case demoteReady h1 a1 of
                (a2, oldReadyTx) \<Rightarrow>
                  (let a3 = promoteNext h1 a2
                   in case oldReadyTx of
                        None \<Rightarrow> (h1, a3, readyTx a3, None, txsToDelete)
                      | Some old \<Rightarrow>
                          if Nonce (h1 old) > currentNonce a3
                          then (h1, a3\<lparr>notReadyTxs := AList.update (Nonce (h1 old)) old (notReadyTxs a3)\<rparr>,
                                readyTx a3, Some old, txsToDelete)
                          else (failNonce old h1, a3, readyTx a3, Some old, txsToDelete @ [old]))))"

definition q_UpdateTxZKCounters ::
  "(hash32 \<Rightarrow> string) \<Rightarrow> heap \<Rightarrow> addrQueue \<Rightarrow> hash32 \<Rightarrow> ZKCounters \<Rightarrow> ZKCounters \<Rightarrow> heap" where
  "q_UpdateTxZKCounters hashString h a hash used reserved =
     (case (if readyHasHash hashString h a hash then readyTx a else findNotReady hashString h a hash) of
        None \<Rightarrow> h
      | Some p \<Rightarrow> updateZKCounters h p used reserved)"

section \<open>Maps as association lists\<close>

lemma set_alist_update:
  "distinct (map fst al) \<Longrightarrow> set (AList.update k v al) = insert (k, v) {x \<in> set al. fst x \<noteq> k}"
  by (induction al) (auto simp: image_iff)

lemma fold_alist_delete:
  "fold (\<lambda>p. AList.delete (f p)) ps al = filter (\<lambda>x. fst x \<notin> f ` set ps) al"
  by (induction ps arbitrary: al) (auto simp: AList.delete_eq intro: filter_cong)

lemma distinct_filter_fst: "distinct (map fst al) \<Longrightarrow> distinct (map fst (filter P al))"
  by (induction al) auto

section \<open>The invariant of a queue\<close>

text \<open>What the queues and the sorted list read of a tracker never changes.\<close>

definition keys_eq :: "heap \<Rightarrow> heap \<Rightarrow> bool" where
  "keys_eq h h' \<longleftrightarrow> (\<forall>p. HashStr (h' p) = HashStr (h p) \<and> FromStr (h' p) = FromStr (h p) \<and> Nonce (h' p) = Nonce (h p)
     \<and> GasPrice (h' p) = GasPrice (h p) \<and> Cost (h' p) = Cost (h p) \<and> txHash (h' p) = txHash (h p)
     \<and> From (h' p) = From (h p))"

lemma keys_eqD:
  assumes "keys_eq h h'"
  shows "HashStr (h' p) = HashStr (h p)" "FromStr (h' p) = FromStr (h p)" "Nonce (h' p) = Nonce (h p)"
    "GasPrice (h' p) = GasPrice (h p)" "Cost (h' p) = Cost (h p)" "txHash (h' p) = txHash (h p)" "From (h' p) = From (h p)"
  using assms by (simp_all add: keys_eq_def)

lemma keys_eq_refl [intro, simp]: "keys_eq h h"
  by (simp add: keys_eq_def)

lemma keys_eq_trans: "keys_eq h h' \<Longrightarrow> keys_eq h' h'' \<Longrightarrow> keys_eq h h''"
  by (simp add: keys_eq_def)

lemma keys_eq_failNonce: "keys_eq h (failNonce p h)"
  by (simp add: keys_eq_def failNonce_def)

lemma keys_eq_fold_failNonce: "keys_eq h (fold failNonce ps h)"
  by (induction ps arbitrary: h) (auto intro: keys_eq_trans keys_eq_failNonce)

lemma keys_eq_updateZKCounters: "keys_eq h (updateZKCounters h p u r)"
  by (simp add: keys_eq_def updateZKCounters_def)

definition ready_ok :: "heap \<Rightarrow> addrQueue \<Rightarrow> bool" where
  "ready_ok h a \<longleftrightarrow> (\<forall>p. readyTx a = Some p \<longrightarrow> Nonce (h p) = currentNonce a \<and> Cost (h p) \<le> currentBalance a)"

definition waiting_ok :: "heap \<Rightarrow> addrQueue \<Rightarrow> bool" where
  "waiting_ok h a \<longleftrightarrow> distinct (map fst (notReadyTxs a))
     \<and> (\<forall>(n, p) \<in> set (notReadyTxs a). Nonce (h p) = n \<and> currentNonce a \<le> n)"

definition q_ok :: "heap \<Rightarrow> addrQueue \<Rightarrow> bool" where
  "q_ok h a \<longleftrightarrow> ready_ok h a \<and> waiting_ok h a"

lemma q_ok_keys_eq: "keys_eq h h' \<Longrightarrow> q_ok h a \<Longrightarrow> q_ok h' a"
  by (simp add: q_ok_def ready_ok_def waiting_ok_def keys_eqD [of h h'])

lemma waiting_ok_filter: "waiting_ok h a \<Longrightarrow> waiting_ok h (a\<lparr>notReadyTxs := filter P (notReadyTxs a)\<rparr>)"
  by (auto simp: waiting_ok_def distinct_filter_fst)

lemma waiting_ok_update:
  "waiting_ok h a \<Longrightarrow> currentNonce a \<le> Nonce (h p) \<Longrightarrow>
   waiting_ok h (a\<lparr>notReadyTxs := AList.update (Nonce (h p)) p (notReadyTxs a)\<rparr>)"
  by (auto simp: waiting_ok_def set_alist_update distinct_update)

lemma q_ok_new: "q_ok h (newAddrQueue s addr n b)"
  by (simp add: q_ok_def ready_ok_def waiting_ok_def newAddrQueue_def)

lemma addTx_ready:
  "currentNonce (fst (addTx h a tx)) = currentNonce a \<and> currentBalance (fst (addTx h a tx)) = currentBalance a
   \<and> (readyTx (fst (addTx h a tx)) = readyTx a \<or> readyTx (fst (addTx h a tx)) = None
      \<or> readyTx (fst (addTx h a tx)) = Some tx \<and> Nonce (h tx) = currentNonce a \<and> Cost (h tx) \<le> currentBalance a)"
  by (auto simp: addTx_def Let_def split: option.splits)

lemma q_ok_addTx:
  assumes "q_ok h a"
  shows "q_ok h (fst (addTx h a tx))"
proof -
  have w: "waiting_ok h a" using assms by (simp add: q_ok_def)
  have "waiting_ok h (fst (addTx h a tx))"
    using w waiting_ok_update [OF w, of tx]
    by (auto simp: addTx_def Let_def waiting_ok_def split: option.splits)
  moreover have "ready_ok h (fst (addTx h a tx))"
    using addTx_ready [of h a tx] assms by (auto simp: ready_ok_def q_ok_def)
  ultimately show ?thesis by (simp add: q_ok_def)
qed

lemma q_ok_expire:
  assumes "q_ok h a"
  shows "q_ok h (fst (q_ExpireTransactions h mx now a))"
proof -
  have "q_ok h (fst (expireNotReady h mx now a))"
    using assms waiting_ok_filter [of h a]
    by (simp add: q_ok_def ready_ok_def expireNotReady_def Let_def fold_alist_delete)
  then show ?thesis
    by (auto simp: q_ExpireTransactions_def q_ok_def ready_ok_def waiting_ok_def split: prod.splits option.splits)
qed

lemma q_ok_deleteTx:
  assumes "q_ok h a"
  shows "q_ok h (fst (q_deleteTx hs h a x))"
  using assms waiting_ok_filter [of h a]
  by (auto simp: q_ok_def ready_ok_def waiting_ok_def q_deleteTx_def AList.delete_eq split: option.splits)

lemma updateNonce_ok:
  assumes "waiting_ok h a" "updateNonce h a nonce = (h', a', del)"
  shows "keys_eq h h' \<and> waiting_ok h' a' \<and> readyTx a' = readyTx a \<and> currentBalance a' = currentBalance a"
proof (cases "nonce = None \<or> nonce = Some (currentNonce a)")
  case True
  with assms show ?thesis by (auto simp: updateNonce_def)
next
  case False
  then obtain n where n: "nonce = Some n" "currentNonce a \<noteq> n" by auto
  define ps where "ps = filter (\<lambda>p. Nonce (h p) < n) (map snd (notReadyTxs a))"
  have r: "h' = fold failNonce ps h"
    "a' = a\<lparr>currentNonce := n, notReadyTxs := filter (\<lambda>x. fst x \<notin> (\<lambda>p. Nonce (h p)) ` set ps) (notReadyTxs a)\<rparr>"
    using assms(2) n by (auto simp: updateNonce_def Let_def ps_def fold_alist_delete)
  have k: "keys_eq h h'" by (simp add: r keys_eq_fold_failNonce)
  have "n \<le> m" if "(m, p) \<in> set (notReadyTxs a')" for m p
  proof (rule ccontr)
    assume "\<not> n \<le> m"
    moreover have "Nonce (h p) = m" "(m, p) \<in> set (notReadyTxs a)" using that assms(1) by (auto simp: r waiting_ok_def)
    ultimately have "p \<in> set ps" by (force simp: ps_def)
    with that \<open>Nonce (h p) = m\<close> show False by (auto simp: r)
  qed
  then have "waiting_ok h' a'"
    using assms(1) by (auto simp: waiting_ok_def r(2) distinct_filter_fst keys_eqD [OF k])
  with k show ?thesis by (simp add: r)
qed

lemma updateBalance_ok: "waiting_ok h a \<Longrightarrow> waiting_ok h (case balance of None \<Rightarrow> a | Some b \<Rightarrow> a\<lparr>currentBalance := b\<rparr>)"
  by (simp add: waiting_ok_def split: option.split)

lemma demoteReady_ok:
  assumes "waiting_ok h a" "demoteReady h a = (a', old)"
  shows "q_ok h a' \<and> currentNonce a' = currentNonce a \<and> currentBalance a' = currentBalance a \<and> notReadyTxs a' = notReadyTxs a"
  using assms by (auto simp: demoteReady_def q_ok_def ready_ok_def waiting_ok_def split: option.splits if_splits)

lemma promoteNext_ok:
  assumes "q_ok h a"
  shows "q_ok h (promoteNext h a) \<and> currentNonce (promoteNext h a) = currentNonce a"
proof (cases "readyTx a = None \<and> (\<exists>p. map_of (notReadyTxs a) (currentNonce a) = Some p \<and> Cost (h p) \<le> currentBalance a)")
  case True
  then obtain p where p: "readyTx a = None" "map_of (notReadyTxs a) (currentNonce a) = Some p" "Cost (h p) \<le> currentBalance a"
    by blast
  have w: "waiting_ok h a" using assms by (simp add: q_ok_def)
  have "Nonce (h p) = currentNonce a" using w p(2) by (auto simp: waiting_ok_def dest: map_of_SomeD)
  moreover have "waiting_ok h (a\<lparr>notReadyTxs := AList.delete (currentNonce a) (notReadyTxs a)\<rparr>)"
    unfolding AList.delete_eq by (rule waiting_ok_filter [OF w])
  ultimately show ?thesis using p by (simp add: promoteNext_def q_ok_def ready_ok_def waiting_ok_def)
next
  case False
  then have "promoteNext h a = a" by (auto simp: promoteNext_def split: option.splits)
  with assms show ?thesis by simp
qed

text \<open>After the promotion no waiting transaction could be ready.\<close>

lemma promoteNext_progress:
  assumes "waiting_ok h a" "readyTx (promoteNext h a) = None" "(currentNonce a, p) \<in> set (notReadyTxs (promoteNext h a))"
  shows "currentBalance a < Cost (h p)"
proof -
  have same: "promoteNext h a = a" using assms(2) by (auto simp: promoteNext_def split: option.splits if_splits)
  then have "map_of (notReadyTxs a) (currentNonce a) = Some p" "readyTx a = None"
    using assms by (auto simp: waiting_ok_def)
  then show ?thesis using assms(2) by (simp add: promoteNext_def split: if_splits)
qed

lemma updateCurrentNonceBalance_ok:
  assumes "q_ok h a" "updateCurrentNonceBalance h a nonce balance = (h', a', new, prev, del)"
  shows "keys_eq h h' \<and> q_ok h' a' \<and> new = readyTx a'"
proof -
  let ?a0 = "case balance of None \<Rightarrow> a | Some b \<Rightarrow> a\<lparr>currentBalance := b\<rparr>"
  obtain h1 a1 del1 where u: "updateNonce h ?a0 nonce = (h1, a1, del1)" by (metis prod_cases3)
  obtain a2 old where d: "demoteReady h1 a1 = (a2, old)" by fastforce
  have w1: "keys_eq h h1" "waiting_ok h1 a1"
    using updateNonce_ok [OF updateBalance_ok u] assms(1) by (auto simp: q_ok_def)
  have q2: "q_ok h1 a2" using demoteReady_ok [OF w1(2) d] by simp
  have q3: "q_ok h1 (promoteNext h1 a2)" using promoteNext_ok [OF q2] by simp
  note run = assms(2) [unfolded updateCurrentNonceBalance_def Let_def u, simplified, unfolded d, simplified]
  show ?thesis
  proof (cases old)
    case None
    with run q3 w1 show ?thesis by auto
  next
    case (Some p)
    have "q_ok h1 (promoteNext h1 a2 \<lparr>notReadyTxs := AList.update (Nonce (h1 p)) p (notReadyTxs (promoteNext h1 a2))\<rparr>)"
      if "Nonce (h1 p) > currentNonce (promoteNext h1 a2)"
      using q3 waiting_ok_update [of h1 "promoteNext h1 a2" p] that by (auto simp: q_ok_def ready_ok_def)
    moreover have "q_ok (failNonce p h1) (promoteNext h1 a2)" "keys_eq h (failNonce p h1)"
      using q_ok_keys_eq [OF keys_eq_failNonce q3] keys_eq_trans [OF w1(1) keys_eq_failNonce] by auto
    ultimately show ?thesis using run Some w1 by (auto split: if_splits)
  qed
qed

text \<open>The parts of an update that decide what is ready afterwards.\<close>

lemma updateCurrentNonceBalance_parts:
  assumes "q_ok h a" "updateCurrentNonceBalance h a nonce balance = (h', a', new, prev, del)"
  shows "\<exists>h1 a2. q_ok h1 a2 \<and> keys_eq h1 h' \<and> readyTx a' = readyTx (promoteNext h1 a2)
    \<and> currentNonce a' = currentNonce a2 \<and> currentBalance a' = currentBalance a2 \<and> new = readyTx a'
    \<and> (\<forall>p. (currentNonce a2, p) \<in> set (notReadyTxs a') \<longrightarrow> (currentNonce a2, p) \<in> set (notReadyTxs (promoteNext h1 a2)))"
proof -
  let ?a0 = "case balance of None \<Rightarrow> a | Some b \<Rightarrow> a\<lparr>currentBalance := b\<rparr>"
  obtain h1 a1 del1 where u: "updateNonce h ?a0 nonce = (h1, a1, del1)" by (metis prod_cases3)
  obtain a2 old where d: "demoteReady h1 a1 = (a2, old)" by fastforce
  have w1: "waiting_ok h1 a1" using updateNonce_ok [OF updateBalance_ok u] assms(1) by (auto simp: q_ok_def)
  have q2: "q_ok h1 a2" using demoteReady_ok [OF w1 d] by simp
  then have q3: "q_ok h1 (promoteNext h1 a2)" "currentNonce (promoteNext h1 a2) = currentNonce a2"
    using promoteNext_ok by auto
  have b: "currentBalance (promoteNext h1 a2) = currentBalance a2" by (simp add: promoteNext_def split: option.split)
  note run = assms(2) [unfolded updateCurrentNonceBalance_def Let_def u, simplified, unfolded d, simplified]
  have "q_ok h1 a2 \<and> keys_eq h1 h' \<and> readyTx a' = readyTx (promoteNext h1 a2)
    \<and> currentNonce a' = currentNonce a2 \<and> currentBalance a' = currentBalance a2 \<and> new = readyTx a'
    \<and> (\<forall>p. (currentNonce a2, p) \<in> set (notReadyTxs a') \<longrightarrow> (currentNonce a2, p) \<in> set (notReadyTxs (promoteNext h1 a2)))"
    using run q2 q3 b keys_eq_failNonce [of h1]
    by (cases old) (auto simp: q_ok_def waiting_ok_def set_alist_update split: if_splits)
  then show ?thesis by blast
qed

section \<open>Reachable queues\<close>

text \<open>The queues a worker can reach, over all heaps, starting with a new queue.\<close>

inductive q_reach :: "(bytes \<Rightarrow> string) \<Rightarrow> (hash32 \<Rightarrow> string) \<Rightarrow> heap \<Rightarrow> addrQueue \<Rightarrow> bool"
  for addrString hashString where
  q_new: "q_reach addrString hashString h (newAddrQueue addrString addr n b)"
| q_add: "q_reach addrString hashString h a \<Longrightarrow> q_reach addrString hashString h (fst (addTx h a tx))"
| q_forced: "q_reach addrString hashString h a \<Longrightarrow> q_reach addrString hashString h (addForcedTx a x)"
| q_pending: "q_reach addrString hashString h a \<Longrightarrow> q_reach addrString hashString h (addPendingTxToStore a x)"
| q_expire: "q_reach addrString hashString h a \<Longrightarrow>
    q_reach addrString hashString h (fst (q_ExpireTransactions h maxTime now a))"
| q_delete: "q_reach addrString hashString h a \<Longrightarrow>
    q_reach addrString hashString h (fst (q_deleteTx hashString h a x))"
| q_delForced: "q_reach addrString hashString h a \<Longrightarrow> q_reach addrString hashString h (deleteForcedTx a x)"
| q_delPending: "q_reach addrString hashString h a \<Longrightarrow> q_reach addrString hashString h (deletePendingTxToStore a x)"
| q_update: "q_reach addrString hashString h a \<Longrightarrow>
    updateCurrentNonceBalance h a nonce balance = (h', a', r) \<Longrightarrow> q_reach addrString hashString h' a'"
| q_counters: "q_reach addrString hashString h a \<Longrightarrow>
    q_reach addrString hashString (q_UpdateTxZKCounters hashString h a x used reserved) a"

lemma q_ok_irrelevant: "q_ok h (a\<lparr>forcedTxs := f\<rparr>) = q_ok h a" "q_ok h (a\<lparr>pendingTxsToStore := f\<rparr>) = q_ok h a"
  by (simp_all add: q_ok_def ready_ok_def waiting_ok_def)

lemma keys_eq_q_UpdateTxZKCounters: "keys_eq h (q_UpdateTxZKCounters hs h a x used reserved)"
  by (simp add: q_UpdateTxZKCounters_def keys_eq_updateZKCounters split: option.split)

lemma q_reach_ok: "q_reach as hs h a \<Longrightarrow> q_ok h a"
proof (induction rule: q_reach.induct)
  case (q_update h a nonce balance h' a' r)
  obtain new prev del where "r = (new, prev, del)" by (metis prod_cases3)
  with q_update updateCurrentNonceBalance_ok show ?case by blast
next
  case (q_counters h a x used reserved)
  then show ?case using q_ok_keys_eq [OF keys_eq_q_UpdateTxZKCounters] by blast
qed (simp_all add: q_ok_new q_ok_addTx q_ok_expire q_ok_deleteTx q_ok_irrelevant addForcedTx_def
    addPendingTxToStore_def deleteForcedTx_def deletePendingTxToStore_def)

section \<open>Properties\<close>

text \<open>A heap of three transactions of one sender, for the concrete instances below.\<close>

definition sample_log :: EffectiveGasPriceLog where
  "sample_log = \<lparr>Enabled = False, ValueFinal = 0, ValueFirst = 0, ValueSecond = 0, FinalDeviation = 0, MaxDeviation = 0,
     GasUsedFirst = 0, GasUsedSecond = 0, LogGasPrice = 0, Percentage = 0, Reprocess = False, GasPriceOC = False,
     BalanceOC = False, LogL1GasPrice = 0, LogL2GasPrice = 0, LogError = []\<rparr>"

definition sample_tracker :: "string \<Rightarrow> uint64 \<Rightarrow> int \<Rightarrow> int \<Rightarrow> TxTracker" where
  "sample_tracker hash nonce price cost = \<lparr>txHash = [], HashStr = hash, From = [1], FromStr = ''0x1'', Nonce = nonce,
     txGas = 21000, GasPrice = price, Cost = cost, txBytes = 120, UsedZKCounters = no_counters,
     ReservedZKCounters = no_counters, RawTx = [], ReceivedAt = 0, IP = [], FailedReason = None,
     EffectiveGasPrice = 0, EGPPercentage = 0, IsLastExecution = False, EGPLog = sample_log, L1GasPrice = 0, L2GasPrice = 0\<rparr>"

definition sample_heap :: heap where
  "sample_heap = (\<lambda>_. sample_tracker ''0xa'' 7 10 100)(1 := sample_tracker ''0xb'' 8 20 100, 2 := sample_tracker ''0xc'' 7 5 900)"

definition sample_queue :: addrQueue where
  "sample_queue = fst (addTx sample_heap (newAddrQueue (\<lambda>_. ''0x1'') [1] 7 500) 0)"

lemma sample_queue_reach: "q_reach (\<lambda>_. ''0x1'') (\<lambda>_. []) sample_heap sample_queue"
  unfolding sample_queue_def by (intro q_reach.intros)

text \<open>
  C16: the invariant of a sender's queue.  In every reachable queue the ready transaction carries
  the current nonce and the balance pays for it, every waiting transaction is filed under its own
  nonce, and none of them has a nonce below the current one.
\<close>

theorem addrQueue_invariant:
  assumes "q_reach addrString hashString h a"
  shows "(\<forall>p. readyTx a = Some p \<longrightarrow> Nonce (h p) = currentNonce a \<and> Cost (h p) \<le> currentBalance a)
    \<and> distinct (map fst (notReadyTxs a))
    \<and> (\<forall>(n, p) \<in> set (notReadyTxs a). Nonce (h p) = n \<and> currentNonce a \<le> n)"
  using q_reach_ok [OF assms] by (simp add: q_ok_def ready_ok_def waiting_ok_def)

theorem addrQueue_invariant_witness:
  "readyTx sample_queue = Some 0 \<and> Nonce (sample_heap 0) = currentNonce sample_queue"
proof -
  have "readyTx sample_queue = Some 0"
    by (simp add: sample_queue_def addTx_def newAddrQueue_def sample_heap_def sample_tracker_def)
  with addrQueue_invariant [OF sample_queue_reach] show ?thesis by blast
qed



text \<open>
  Adding a transaction can lose another one without a trace.  When the new transaction has the
  current nonce but the balance does not pay for it, it overwrites a transaction that waits under
  that nonce - even one with a better gas price - and reports neither a replaced transaction nor a
  reason, so the pool never learns of the one that is gone.
\<close>

lemma addTx_loses_waiting:
  assumes "q_reach addrString hashString h a" and "readyTx a = None" and "Nonce (h tx) = currentNonce a"
    and "(currentNonce a, old) \<in> set (notReadyTxs a)" and "old \<noteq> tx" and "currentBalance a < Cost (h tx)"
  shows "\<exists>a'. addTx h a tx = (a', None, None, None, None) \<and> old \<notin> set (getTransactions a')"
proof -
  have w: "waiting_ok h a" using q_reach_ok [OF assms(1)] by (simp add: q_ok_def)
  define a' where "a' = a\<lparr>readyTx := None, notReadyTxs := AList.update (Nonce (h tx)) tx (notReadyTxs a)\<rparr>"
  have "addTx h a tx = (a', None, None, None, None)" using assms by (simp add: addTx_def a'_def)
  moreover have "Nonce (h old) = currentNonce a" using w assms(4) by (auto simp: waiting_ok_def)
  then have "old \<notin> set (getTransactions a')"
    using w assms(3,5) by (auto simp: a'_def getTransactions_def set_alist_update waiting_ok_def)
  ultimately show ?thesis by blast
qed

text \<open>
  When only the balance drops below the cost of the ready transaction, the update does not move
  it to the waiting ones: although its nonce is still the current one, it is deleted and its failure
  reason is the nonce.
\<close>

lemma balance_drop_deletes_ready:
  assumes "q_reach addrString hashString h a" and "readyTx a = Some p" and "b < Cost (h p)"
    and "updateCurrentNonceBalance h a None (Some b) = (h', a', newReady, prevReady, toDelete)"
  shows "prevReady = Some p \<and> p \<in> set toDelete \<and> FailedReason (h' p) = Some ''nonce intrinsic error''
    \<and> Nonce (h' p) = currentNonce a'"
proof -
  have n: "Nonce (h p) = currentNonce a" using q_reach_ok [OF assms(1)] assms(2) by (simp add: q_ok_def ready_ok_def)
  have d: "demoteReady h (a\<lparr>currentBalance := b\<rparr>) = (a\<lparr>currentBalance := b, readyTx := None\<rparr>, Some p)"
    using assms(2,3) by (simp add: demoteReady_def)
  have c: "currentNonce (promoteNext h x) = currentNonce x" for x by (simp add: promoteNext_def split: option.split)
  show ?thesis
    using assms(4) n by (auto simp: updateCurrentNonceBalance_def updateNonce_def d c failNonce_def Let_def)
qed

end
