(* ===== verification/BestFit.thy ===== *)
theory BestFit
  imports AddrQueue
begin

text \<open>
  The parallel search of \<open>GetBestFittingTx\<close> (\<open>src/sequencer/worker.go\<close>): a number of goroutines
  walk over the sorted list with a stride and race to report the transaction that fits the batch.
  The model runs them under an arbitrary schedule of their atomic steps; the theory shows that every
  schedule that lets them finish reports the first fitting transaction of the list, and that every
  long enough fair schedule lets them finish.
\<close>

section \<open>Definitions\<close>

text \<open>
  A goroutine at index \<open>i\<close> is about to enter the loop body and read \<open>foundAt\<close>, about to look at the
  candidate, about to take the lock and report it, or done.
\<close>

datatype goroutine = Checking nat | Evaluating nat | Reporting nat | Finished

record search_state =
  foundAt :: "nat option"
  routines :: "goroutine list"

definition candidateFits :: "heap \<Rightarrow> txSortedList \<Rightarrow> BatchResources \<Rightarrow> ZKCounters \<Rightarrow> nat \<Rightarrow> bool" where
  "candidateFits h e bresources highReserved i =
     (let tx = h (txSorted e ! i);
          needed = fst (getNeededZKCounters highReserved (UsedZKCounters tx) (ReservedZKCounters tx))
      in fst (BatchResources_Fits bresources \<lparr>resZKCounters = needed, Bytes = txBytes tx\<rparr>))"

text \<open>One atomic step of a goroutine, for a list of length \<open>len\<close> and \<open>nGo\<close> goroutines.\<close>

fun routineStep :: "(nat \<Rightarrow> bool) \<Rightarrow> nat \<Rightarrow> nat \<Rightarrow> nat option \<Rightarrow> goroutine \<Rightarrow> nat option \<times> goroutine" where
  "routineStep fits len nGo found (Checking i) =
     (if i < len then
        (case found of
           Some k \<Rightarrow> if i > k then (found, Finished) else (found, Evaluating i)
         | None \<Rightarrow> (found, Evaluating i))
      else (found, Finished))"
| "routineStep fits len nGo found (Evaluating i) =
     (if \<not> fits i then (found, Checking (i + nGo)) else (found, Reporting i))"
| "routineStep fits len nGo found (Reporting i) =
     ((case found of None \<Rightarrow> Some i | Some k \<Rightarrow> if k > i then Some i else found), Finished)"
| "routineStep fits len nGo found Finished = (found, Finished)"

definition searchStep :: "(nat \<Rightarrow> bool) \<Rightarrow> nat \<Rightarrow> nat \<Rightarrow> nat \<Rightarrow> search_state \<Rightarrow> search_state" where
  "searchStep fits len nGo t s =
     (if t < length (routines s) then
        (case routineStep fits len nGo (foundAt s) (routines s ! t) of
           (found, g) \<Rightarrow> \<lparr>foundAt = found, routines = (routines s)[t := g]\<rparr>)
      else s)"

definition searchStart :: "nat \<Rightarrow> search_state" where
  "searchStart nGo = \<lparr>foundAt = None, routines = map Checking [0..<nGo]\<rparr>"

text \<open>The schedule is the sequence in which the goroutines take their steps.\<close>

definition runSearch :: "(nat \<Rightarrow> bool) \<Rightarrow> nat \<Rightarrow> nat \<Rightarrow> nat list \<Rightarrow> search_state" where
  "runSearch fits len nGo schedule = fold (searchStep fits len nGo) schedule (searchStart nGo)"

definition allFinished :: "search_state \<Rightarrow> bool" where
  "allFinished s \<longleftrightarrow> (\<forall>g \<in> set (routines s). g = Finished)"

text \<open>\<open>wg.Wait()\<close> blocks until all have finished: a schedule that is too short has no result.\<close>

definition searchResult :: "(nat \<Rightarrow> bool) \<Rightarrow> nat \<Rightarrow> nat \<Rightarrow> nat list \<Rightarrow> nat option option" where
  "searchResult fits len nGo schedule =
     (let s = runSearch fits len nGo schedule in if allFinished s then Some (foundAt s) else None)"

section \<open>Correctness under every schedule\<close>

text \<open>What a goroutine has established: the indices of its stride that it has passed do not fit.\<close>

definition stride_clear :: "(nat \<Rightarrow> bool) \<Rightarrow> nat \<Rightarrow> nat \<Rightarrow> nat \<Rightarrow> bool" where
  "stride_clear fits nGo t i \<longleftrightarrow> (\<forall>j < i. j mod nGo = t \<longrightarrow> \<not> fits j)"

fun routine_ok :: "(nat \<Rightarrow> bool) \<Rightarrow> nat \<Rightarrow> nat \<Rightarrow> nat option \<Rightarrow> nat \<Rightarrow> goroutine \<Rightarrow> bool" where
  "routine_ok fits len nGo found t (Checking i) \<longleftrightarrow> i mod nGo = t \<and> stride_clear fits nGo t i"
| "routine_ok fits len nGo found t (Evaluating i) \<longleftrightarrow> i mod nGo = t \<and> i < len \<and> stride_clear fits nGo t i"
| "routine_ok fits len nGo found t (Reporting i) \<longleftrightarrow> i mod nGo = t \<and> i < len \<and> fits i \<and> stride_clear fits nGo t i"
| "routine_ok fits len nGo found t Finished \<longleftrightarrow>
     (\<forall>j < len. j mod nGo = t \<and> fits j \<longrightarrow> (\<exists>k \<le> j. found = Some k))"

definition search_inv :: "(nat \<Rightarrow> bool) \<Rightarrow> nat \<Rightarrow> nat \<Rightarrow> search_state \<Rightarrow> bool" where
  "search_inv fits len nGo s \<longleftrightarrow> length (routines s) = nGo
     \<and> (\<forall>k. foundAt s = Some k \<longrightarrow> k < len \<and> fits k)
     \<and> (\<forall>t < nGo. routine_ok fits len nGo (foundAt s) t (routines s ! t))"

definition found_le :: "nat option \<Rightarrow> nat option \<Rightarrow> bool" where
  "found_le found found' \<longleftrightarrow> (\<forall>k. found = Some k \<longrightarrow> (\<exists>k' \<le> k. found' = Some k'))"

lemma routine_ok_mono:
  "found_le found found' \<Longrightarrow> routine_ok fits len nGo found t g \<Longrightarrow> routine_ok fits len nGo found' t g"
proof (cases g)
  case Finished
  assume le: "found_le found found'" and "routine_ok fits len nGo found t g"
  then have fin: "\<And>j. j < len \<Longrightarrow> j mod nGo = t \<and> fits j \<Longrightarrow> \<exists>k \<le> j. found = Some k" using Finished by simp
  have "\<exists>k \<le> j. found' = Some k" if "j < len" "j mod nGo = t \<and> fits j" for j
    using fin [OF that] le unfolding found_le_def by (auto intro: order_trans)
  with Finished show ?thesis by simp
qed simp_all

lemma stride_next:
  assumes "stride_clear fits nGo t i" "i mod nGo = t" "\<not> fits i"
  shows "stride_clear fits nGo t (i + nGo)"
  unfolding stride_clear_def
proof (intro allI impI)
  fix j assume j: "j < i + nGo" "j mod nGo = t"
  show "\<not> fits j"
  proof (cases "j < i")
    case False
    then have "nGo dvd j - i" using mod_eq_dvd_iff_nat [of i j nGo] j(2) assms(2) by simp
    moreover have "j - i < nGo" using False j(1) by linarith
    ultimately have "j = i" using False by (metis dvd_imp_le le_antisym diff_is_0_eq not_less zero_less_diff)
    with assms(3) show ?thesis by simp
  qed (use assms(1) j in \<open>simp add: stride_clear_def\<close>)
qed

lemma routineStep_ok:
  assumes ok: "routine_ok fits len nGo found t g" and pos: "0 < nGo"
    and fk: "\<forall>k. found = Some k \<longrightarrow> k < len \<and> fits k"
    and step: "routineStep fits len nGo found g = (found', g')"
  shows "routine_ok fits len nGo found' t g' \<and> found_le found found' \<and> (\<forall>k. found' = Some k \<longrightarrow> k < len \<and> fits k)"
proof (cases g)
  case (Checking i)
  with ok step fk show ?thesis
    by (auto simp: found_le_def stride_clear_def split: if_splits option.splits) (meson le_less_linear less_imp_le order_trans)+
next
  case (Evaluating i)
  with ok step fk stride_next [of fits nGo t i] show ?thesis
    by (auto simp: found_le_def split: if_splits)
next
  case (Reporting i)
  with ok step fk show ?thesis
    by (auto simp: found_le_def stride_clear_def split: if_splits option.splits) (meson le_less_linear less_imp_le order_trans)+
next
  case Finished
  with ok step fk show ?thesis by (auto simp: found_le_def)
qed

lemma searchStep_inv:
  assumes inv: "search_inv fits len nGo s" and pos: "0 < nGo"
  shows "search_inv fits len nGo (searchStep fits len nGo t s)"
proof (cases "t < nGo")
  case True
  obtain found g where st: "routineStep fits len nGo (foundAt s) (routines s ! t) = (found, g)" by fastforce
  have ok: "routine_ok fits len nGo (foundAt s) u (routines s ! u)" if "u < nGo" for u
    using inv that by (simp add: search_inv_def)
  have r: "routine_ok fits len nGo found t g" "found_le (foundAt s) found" "\<forall>k. found = Some k \<longrightarrow> k < len \<and> fits k"
    using routineStep_ok [OF ok [OF True] pos _ st] inv unfolding search_inv_def by blast+
  have len: "length (routines s) = nGo" using inv by (simp add: search_inv_def)
  have "routine_ok fits len nGo found u ((routines s)[t := g] ! u)" if "u < nGo" for u
    using r(1) routine_ok_mono [OF r(2) ok [OF that]] that len by (cases "u = t") simp_all
  then show ?thesis using True st r(3) len by (simp add: search_inv_def searchStep_def)
next
  case False
  with inv show ?thesis by (simp add: searchStep_def search_inv_def)
qed

lemma runSearch_inv:
  assumes "0 < nGo"
  shows "search_inv fits len nGo (runSearch fits len nGo sched)"
proof -
  have "search_inv fits len nGo s \<Longrightarrow> search_inv fits len nGo (fold (searchStep fits len nGo) sched s)" for s
    by (induction sched arbitrary: s) (simp_all add: searchStep_inv [OF _ assms])
  moreover have "search_inv fits len nGo (searchStart nGo)"
    by (auto simp: search_inv_def searchStart_def stride_clear_def)
  ultimately show ?thesis by (simp add: runSearch_def)
qed

text \<open>The reference: the first index that fits.\<close>

definition firstFit :: "(nat \<Rightarrow> bool) \<Rightarrow> nat \<Rightarrow> nat option" where
  "firstFit fits len = find fits [0..<len]"

lemma firstFit_Some: "firstFit fits len = Some k \<longleftrightarrow> k < len \<and> fits k \<and> (\<forall>j < k. \<not> fits j)"
  by (auto simp: firstFit_def find_Some_iff)

lemma firstFit_None: "firstFit fits len = None \<longleftrightarrow> (\<forall>j < len. \<not> fits j)"
  by (auto simp: firstFit_def find_None_iff)

lemma finished_found:
  assumes inv: "search_inv fits len nGo s" and pos: "0 < nGo" and fin: "allFinished s"
  shows "foundAt s = firstFit fits len"
proof -
  have reported: "\<exists>k \<le> j. foundAt s = Some k" if "j < len" "fits j" for j
  proof -
    have "j mod nGo < nGo" using pos by simp
    moreover from this have "routines s ! (j mod nGo) = Finished"
      using fin inv by (simp add: allFinished_def search_inv_def)
    ultimately have "routine_ok fits len nGo (foundAt s) (j mod nGo) Finished"
      using inv unfolding search_inv_def by metis
    with that show ?thesis by simp
  qed
  show ?thesis
  proof (cases "foundAt s")
    case None
    then have "\<forall>j < len. \<not> fits j" using reported by fastforce
    with None firstFit_None show ?thesis by metis
  next
    case (Some k)
    have k: "k < len" "fits k" using inv Some by (auto simp: search_inv_def)
    have "\<not> fits j" if "j < k" for j
    proof
      assume "fits j"
      then have "\<exists>k' \<le> j. foundAt s = Some k'" using reported [of j] that k(1) by simp
      with Some that show False by simp
    qed
    with k Some firstFit_Some [of fits len k] show ?thesis by auto
  qed
qed

section \<open>Termination\<close>

text \<open>How many steps a goroutine can still take.\<close>

fun routine_left :: "nat \<Rightarrow> goroutine \<Rightarrow> nat" where
  "routine_left len (Checking i) = 2 * (len - i) + 3"
| "routine_left len (Evaluating i) = 2 * (len - i) + 2"
| "routine_left len (Reporting i) = 1"
| "routine_left len Finished = 0"

lemma routineStep_left:
  assumes "0 < nGo" "routine_ok fits len nGo found t g" "routineStep fits len nGo found g = (found', g')"
  shows "routine_left len g' \<le> routine_left len g - 1"
  using assms by (cases g) (auto split: if_splits option.splits)

lemma searchStep_left:
  assumes "search_inv fits len nGo s" "0 < nGo" "u < nGo"
  shows "routine_left len (routines (searchStep fits len nGo t s) ! u)
    \<le> routine_left len (routines s ! u) - (if t = u then 1 else 0)"
proof (cases "t = u")
  case True
  obtain found g where st: "routineStep fits len nGo (foundAt s) (routines s ! t) = (found, g)" by fastforce
  have "routine_left len g \<le> routine_left len (routines s ! t) - 1"
    using routineStep_left [OF assms(2) _ st] assms True by (auto simp: search_inv_def)
  with st True assms show ?thesis by (simp add: searchStep_def search_inv_def)
next
  case False
  with assms show ?thesis by (auto simp: searchStep_def split: prod.splits)
qed

lemma fold_left:
  assumes "search_inv fits len nGo s" "0 < nGo" "u < nGo"
  shows "routine_left len (routines (fold (searchStep fits len nGo) sched s) ! u)
    \<le> routine_left len (routines s ! u) - count_list sched u"
  using assms(1)
proof (induction sched arbitrary: s)
  case (Cons t sched)
  then show ?case
    using searchStep_left [OF Cons.prems assms(2,3), of t]
      Cons.IH [OF searchStep_inv [OF Cons.prems assms(2), of t]] by auto
qed simp

lemma fair_finishes:
  assumes "0 < nGo" "\<forall>t < nGo. 2 * len + 3 \<le> count_list sched t"
  shows "allFinished (runSearch fits len nGo sched)"
proof -
  let ?s = "runSearch fits len nGo sched"
  have start: "search_inv fits len nGo (searchStart nGo)" using runSearch_inv [OF assms(1), of fits len "[]"] by (simp add: runSearch_def)
  have "routines ?s ! u = Finished" if u: "u < nGo" for u
  proof -
    have "routine_left len (routines ?s ! u) \<le> routine_left len (routines (searchStart nGo) ! u) - count_list sched u"
      unfolding runSearch_def by (rule fold_left [OF start assms(1) u])
    also have "\<dots> = 0" using assms(2) u by (auto simp: searchStart_def)
    finally show ?thesis by (cases "routines ?s ! u") auto
  qed
  moreover have "length (routines ?s) = nGo" using runSearch_inv [OF assms(1)] by (simp add: search_inv_def)
  ultimately show ?thesis by (auto simp: allFinished_def in_set_conv_nth)
qed

section \<open>Properties\<close>

lemma searchResult_firstFit:
  assumes "searchResult fits len nGo schedule = Some found" and "0 < nGo"
  shows "found = firstFit fits len"
  using assms finished_found [OF runSearch_inv [OF assms(2)] assms(2)] by (auto simp: searchResult_def Let_def split: if_splits)

text \<open>
  C20: the parallel search is deterministic.  For every number of goroutines and every schedule of
  their steps that lets all of them finish, \<open>foundAt\<close> is the index of the first transaction of the
  sorted list that fits the batch - the best paying one - or -1 when none fits.
\<close>

theorem searchResult_is_first:
  assumes "0 < nGo" and "searchResult (candidateFits h e bresources high) (sl_len e) nGo schedule = Some found"
  shows "found = firstFit (candidateFits h e bresources high) (sl_len e)"
  using searchResult_firstFit [OF assms(2,1)] .

definition sample_sorted :: txSortedList where
  "sample_sorted = \<lparr>txList = [(''0xb'', 1), (''0xa'', 0)], txSorted = [1, 0]\<rparr>"

definition sample_txs :: heap where
  "sample_txs = (\<lambda>_. (sample_tracker ''0xa'' 7 10 100)\<lparr>txBytes := 100\<rparr>)(1 := (sample_tracker ''0xb'' 8 20 100)\<lparr>txBytes := 900\<rparr>)"

abbreviation sample_resources :: BatchResources where
  "sample_resources \<equiv> \<lparr>resZKCounters = no_counters, Bytes = 500\<rparr>"

theorem searchResult_is_first_witness:
  "searchResult (candidateFits sample_txs sample_sorted sample_resources no_counters) (sl_len sample_sorted) 2
     [0, 1, 0, 1, 0, 1] = Some (firstFit (candidateFits sample_txs sample_sorted sample_resources no_counters) (sl_len sample_sorted))"
proof -
  have "searchResult (candidateFits sample_txs sample_sorted sample_resources no_counters) (sl_len sample_sorted) 2
     [0, 1, 0, 1, 0, 1] = Some (Some (Suc 0))"
    by code_simp
  with searchResult_is_first [of 2 sample_txs sample_sorted sample_resources no_counters "[0, 1, 0, 1, 0, 1]" "Some (Suc 0)"]
  show ?thesis by simp
qed

text \<open>
  C21: the parallel search ends.  Every schedule in which each goroutine takes at least twice the
  length of the list plus three steps lets all goroutines finish, so \<open>wg.Wait()\<close> returns and there
  is a result.
\<close>

theorem searchResult_terminates:
  assumes "0 < nGo" and "\<forall>t < nGo. 2 * sl_len e + 3 \<le> count_list schedule t"
  shows "\<exists>found. searchResult (candidateFits h e bresources high) (sl_len e) nGo schedule = Some found"
  using fair_finishes [OF assms] by (simp add: searchResult_def)

theorem searchResult_terminates_witness:
  "\<exists>found. searchResult (candidateFits sample_txs sample_sorted sample_resources no_counters) (sl_len sample_sorted) 2
     (replicate 7 0 @ replicate 7 1) = Some found"
proof (rule searchResult_terminates)
  have "2 * sl_len sample_sorted + 3 \<le> count_list (replicate 7 0 @ replicate 7 (1::nat)) 0"
    "2 * sl_len sample_sorted + 3 \<le> count_list (replicate 7 0 @ replicate 7 (1::nat)) 1" by code_simp+
  then show "\<forall>t < 2. 2 * sl_len sample_sorted + 3 \<le> count_list (replicate 7 0 @ replicate 7 (1::nat)) t"
    by (auto simp only: less_2_cases_iff One_nat_def)
qed simp

end
