(* ===== verification/SeqWorker.thy ===== *)
theory SeqWorker
  imports BestFit
begin

text \<open>
  The worker of the sequencer (\<open>src/sequencer/worker.go\<close>): the queues of all senders, the sorted
  list of the ready transactions, the transactions that wait to be stored and those of a reorg.
  The theory shows that after every operation the sorted list holds exactly the ready transactions
  of the queues, and describes the operations on which that rests.
\<close>

section \<open>Definitions\<close>

subsection \<open>The worker\<close>

text \<open>
  \<open>readySignals\<close> counts the notifications to the finalizer.  The state interface answers with the
  last state root and the nonce and balance of an address at a root; \<open>None\<close> is an error.
\<close>

record Worker =
  w_heap :: heap
  pool :: "(string \<times> addrQueue) list"
  sortedList :: txSortedList
  pendingToStore :: "ptr list"
  reorgedTxs :: "ptr list"
  batchConstraints :: BatchConstraintsCfg
  readySignals :: nat
  wipTx :: "ptr option"

record stateInterface =
  GetLastStateRoot :: "hash32 option"
  GetNonceByStateRoot :: "bytes \<Rightarrow> hash32 \<Rightarrow> int option"
  GetBalanceByStateRoot :: "bytes \<Rightarrow> hash32 \<Rightarrow> int option"

definition NewWorker :: "heap \<Rightarrow> BatchConstraintsCfg \<Rightarrow> Worker" where
  "NewWorker h constraints =
     \<lparr>w_heap = h, pool = [], sortedList = newTxSortedList, pendingToStore = [], reorgedTxs = [],
      batchConstraints = constraints, readySignals = 0, wipTx = None\<rparr>"

subsection \<open>The sorted list\<close>

text \<open>An operation that would dereference a nil pointer has no result.\<close>

definition addTxToSortedList :: "Worker \<Rightarrow> ptr \<Rightarrow> Worker option" where
  "addTxToSortedList w p =
     (case sl_add (w_heap w) (sortedList w) p of
        None \<Rightarrow> None
      | Some (e, _) \<Rightarrow>
          Some (if sl_len e = 1 then w\<lparr>sortedList := e, readySignals := readySignals w + 1\<rparr>
                else w\<lparr>sortedList := e\<rparr>))"

definition deleteFromSortedList :: "Worker \<Rightarrow> ptr \<Rightarrow> Worker option" where
  "deleteFromSortedList w p =
     (case sl_delete (w_heap w) (sortedList w) p of None \<Rightarrow> None | Some (e, _) \<Rightarrow> Some (w\<lparr>sortedList := e\<rparr>))"

definition updateSortedList :: "Worker \<Rightarrow> ptr option \<Rightarrow> ptr option \<Rightarrow> Worker option" where
  "updateSortedList w prevReadyTx newReadyTx =
     (case (case prevReadyTx of None \<Rightarrow> Some w | Some p \<Rightarrow> deleteFromSortedList w p) of
        None \<Rightarrow> None
      | Some w1 \<Rightarrow> (case newReadyTx of None \<Rightarrow> Some w1 | Some p \<Rightarrow> addTxToSortedList w1 p))"

definition resetWipTx :: "Worker \<Rightarrow> hash32 \<Rightarrow> Worker" where
  "resetWipTx w hash =
     (case wipTx w of
        None \<Rightarrow> w
      | Some p \<Rightarrow> if txHash (w_heap w p) = hash then w\<lparr>wipTx := None\<rparr> else w)"

subsection \<open>Adding a transaction\<close>

text \<open>
  \<open>addTxTracker\<close> releases the worker while it asks the state for the account of a new sender: the
  checks before and the insertion after are separate steps.  \<open>validIP\<close> is the parser of addresses.
\<close>

definition addTxChecks :: "(string \<Rightarrow> bool) \<Rightarrow> Worker \<Rightarrow> ptr \<Rightarrow> worker_error option" where
  "addTxChecks validIP w p =
     (let tx = w_heap w p
      in if IP tx \<noteq> [] \<and> \<not> validIP (IP tx) then Some ErrInvalidIP
         else if \<not> IsWithinConstraints (batchConstraints w) (ReservedZKCounters tx) then Some ErrOutOfCounters
         else (case wipTx w of
                 None \<Rightarrow> None
               | Some q \<Rightarrow>
                   if FromStr (w_heap w q) = FromStr tx \<and> Nonce (w_heap w q) = Nonce tx
                   then Some ErrDuplicatedNonce else None))"

definition queryAccount :: "(bytes \<Rightarrow> string) \<Rightarrow> stateInterface \<Rightarrow> bytes \<Rightarrow> worker_error + addrQueue" where
  "queryAccount addrString st from =
     (case GetLastStateRoot st of
        None \<Rightarrow> Inl ErrGetLastStateRoot
      | Some root \<Rightarrow>
          (case GetNonceByStateRoot st from root of
             None \<Rightarrow> Inl ErrGetNonce
           | Some nonce \<Rightarrow>
               (case GetBalanceByStateRoot st from root of
                  None \<Rightarrow> Inl ErrGetBalance
                | Some balance \<Rightarrow> Inr (newAddrQueue addrString from (of_int nonce) balance))))"

definition insertTx :: "Worker \<Rightarrow> addrQueue \<Rightarrow> ptr \<Rightarrow> (Worker \<times> ptr option \<times> worker_error option) option" where
  "insertTx w addr p =
     (case addTx (w_heap w) addr p of
        (addr', newReadyTx, prevReadyTx, repTx, dropReason) \<Rightarrow>
          (let w1 = w\<lparr>pool := AList.update (FromStr (w_heap w p)) addr' (pool w)\<rparr>
           in case dropReason of
                Some e \<Rightarrow> Some (w1, repTx, Some e)
              | None \<Rightarrow>
                  (case updateSortedList w1 prevReadyTx newReadyTx of
                     None \<Rightarrow> None
                   | Some w2 \<Rightarrow> Some (w2, repTx, None))))"

definition addTxTracker ::
  "(bytes \<Rightarrow> string) \<Rightarrow> (string \<Rightarrow> bool) \<Rightarrow> stateInterface \<Rightarrow> Worker \<Rightarrow> ptr
     \<Rightarrow> (Worker \<times> ptr option \<times> worker_error option) option" where
  "addTxTracker addrString validIP st w p =
     (case addTxChecks validIP w p of
        Some e \<Rightarrow> Some (w, None, Some e)
      | None \<Rightarrow>
          (case map_of (pool w) (FromStr (w_heap w p)) of
             Some addr \<Rightarrow> insertTx w addr p
           | None \<Rightarrow>
               (case queryAccount addrString st (From (w_heap w p)) of
                  Inl e \<Rightarrow> Some (w, None, Some e)
                | Inr addr \<Rightarrow> insertTx w addr p)))"

subsection \<open>Updates of addresses\<close>

definition applyAddressUpdate ::
  "(bytes \<Rightarrow> string) \<Rightarrow> Worker \<Rightarrow> bytes \<Rightarrow> uint64 option \<Rightarrow> int option \<Rightarrow> (Worker \<times> ptr list) option" where
  "applyAddressUpdate addrString w from fromNonce fromBalance =
     (case map_of (pool w) (addrString from) of
        None \<Rightarrow> Some (w, [])
      | Some q \<Rightarrow>
          (case updateCurrentNonceBalance (w_heap w) q fromNonce fromBalance of
             (h', q', newReadyTx, prevReadyTx, txsToDelete) \<Rightarrow>
               (case updateSortedList (w\<lparr>w_heap := h', pool := AList.update (addrString from) q' (pool w)\<rparr>)
                       prevReadyTx newReadyTx of
                  None \<Rightarrow> None
                | Some w' \<Rightarrow> Some (w', txsToDelete))))"

text \<open>\<open>touchedAddresses\<close> maps an address to its new nonce and balance, each of which may be absent.\<close>

fun updateTouched ::
  "(bytes \<Rightarrow> string) \<Rightarrow> bytes \<Rightarrow> Worker \<Rightarrow> (bytes \<times> uint64 option \<times> int option) list \<Rightarrow> (Worker \<times> ptr list) option" where
  "updateTouched addrString from w [] = Some (w, [])"
| "updateTouched addrString from w ((addr, _, balance) # rest) =
     (if addr \<noteq> from then
        (case applyAddressUpdate addrString w addr None balance of
           None \<Rightarrow> None
         | Some (w1, del) \<Rightarrow>
             (case updateTouched addrString from w1 rest of
                None \<Rightarrow> None
              | Some (w2, dels) \<Rightarrow> Some (w2, del @ dels)))
      else updateTouched addrString from w rest)"

definition UpdateAfterSingleSuccessfulTxExecution ::
  "(bytes \<Rightarrow> string) \<Rightarrow> Worker \<Rightarrow> bytes \<Rightarrow> (bytes \<times> uint64 option \<times> int option) list \<Rightarrow> (Worker \<times> ptr list) option" where
  "UpdateAfterSingleSuccessfulTxExecution addrString w from touched =
     (case (case map_of touched from of
              Some (nonce, balance) \<Rightarrow> applyAddressUpdate addrString w from nonce balance
            | None \<Rightarrow> Some (w, [])) of
        None \<Rightarrow> None
      | Some (w1, del) \<Rightarrow>
          (case updateTouched addrString from w1 touched of
             None \<Rightarrow> None
           | Some (w2, dels) \<Rightarrow> Some (w2, del @ dels)))"

definition MoveTxToNotReady ::
  "(bytes \<Rightarrow> string) \<Rightarrow> Worker \<Rightarrow> hash32 \<Rightarrow> bytes \<Rightarrow> uint64 option \<Rightarrow> int option \<Rightarrow> (Worker \<times> ptr list) option" where
  "MoveTxToNotReady addrString w hash from actualNonce actualBalance =
     applyAddressUpdate addrString (resetWipTx w hash) from actualNonce actualBalance"

subsection \<open>Deleting transactions\<close>

definition w_deleteTx ::
  "(bytes \<Rightarrow> string) \<Rightarrow> (hash32 \<Rightarrow> string) \<Rightarrow> Worker \<Rightarrow> hash32 \<Rightarrow> bytes \<Rightarrow> (Worker \<times> ptr option) option" where
  "w_deleteTx addrString hashString w hash addr =
     (case map_of (pool w) (addrString addr) of
        None \<Rightarrow> Some (w, None)
      | Some q \<Rightarrow>
          (case q_deleteTx hashString (w_heap w) q hash of
             (q', deletedTx, isReady) \<Rightarrow>
               (let w1 = w\<lparr>pool := AList.update (addrString addr) q' (pool w)\<rparr>
                in case deletedTx of
                     Some p \<Rightarrow>
                       if isReady then map_option (\<lambda>w2. (w2, Some p)) (deleteFromSortedList w1 p)
                       else Some (w1, Some p)
                   | None \<Rightarrow> Some (w1, None))))"

definition w_DeleteTx ::
  "(bytes \<Rightarrow> string) \<Rightarrow> (hash32 \<Rightarrow> string) \<Rightarrow> Worker \<Rightarrow> hash32 \<Rightarrow> bytes \<Rightarrow> Worker option" where
  "w_DeleteTx addrString hashString w hash addr =
     map_option fst (w_deleteTx addrString hashString (resetWipTx w hash) hash addr)"

definition updateQueue :: "Worker \<Rightarrow> string \<Rightarrow> (addrQueue \<Rightarrow> addrQueue) \<Rightarrow> Worker" where
  "updateQueue w k f =
     (case map_of (pool w) k of None \<Rightarrow> w | Some q \<Rightarrow> w\<lparr>pool := AList.update k (f q) (pool w)\<rparr>)"

definition w_DeleteForcedTx :: "(bytes \<Rightarrow> string) \<Rightarrow> Worker \<Rightarrow> hash32 \<Rightarrow> bytes \<Rightarrow> Worker" where
  "w_DeleteForcedTx addrString w hash addr = updateQueue w (addrString addr) (\<lambda>q. deleteForcedTx q hash)"

definition w_AddForcedTx :: "(bytes \<Rightarrow> string) \<Rightarrow> Worker \<Rightarrow> hash32 \<Rightarrow> bytes \<Rightarrow> Worker" where
  "w_AddForcedTx addrString w hash addr = updateQueue w (addrString addr) (\<lambda>q. addForcedTx q hash)"

definition w_UpdateTxZKCounters ::
  "(bytes \<Rightarrow> string) \<Rightarrow> (hash32 \<Rightarrow> string) \<Rightarrow> Worker \<Rightarrow> hash32 \<Rightarrow> bytes \<Rightarrow> ZKCounters \<Rightarrow> ZKCounters \<Rightarrow> Worker" where
  "w_UpdateTxZKCounters addrString hashString w hash addr used reserved =
     (case map_of (pool w) (addrString addr) of
        None \<Rightarrow> w
      | Some q \<Rightarrow> w\<lparr>w_heap := q_UpdateTxZKCounters hashString (w_heap w) q hash used reserved\<rparr>)"

subsection \<open>Transactions that wait to be stored\<close>

definition MoveTxPendingToStore ::
  "(bytes \<Rightarrow> string) \<Rightarrow> (hash32 \<Rightarrow> string) \<Rightarrow> Worker \<Rightarrow> hash32 \<Rightarrow> bytes \<Rightarrow> Worker option" where
  "MoveTxPendingToStore addrString hashString w hash addr =
     (case w_deleteTx addrString hashString w hash addr of
        None \<Rightarrow> None
      | Some (w1, deletedTx) \<Rightarrow>
          (let w2 = (case deletedTx of None \<Rightarrow> w1 | Some p \<Rightarrow> w1\<lparr>pendingToStore := pendingToStore w1 @ [p]\<rparr>)
           in Some (updateQueue w2 (addrString addr) (\<lambda>q. addPendingTxToStore q hash))))"

text \<open>
  \<open>DeleteTxPendingToStore\<close> removes from the slice while it ranges over it.  The loop reads the
  backing array \<open>arr\<close>, whose length stays \<open>n\<close>, while the slice shrinks to \<open>m\<close>; removing at \<open>i\<close> shifts
  the rest of the slice down in the array.  Slicing beyond \<open>m\<close> panics.
\<close>

function deletePendingLoop :: "heap \<Rightarrow> hash32 \<Rightarrow> nat \<Rightarrow> ptr list \<Rightarrow> nat \<Rightarrow> ptr list option" where
  "deletePendingLoop h hash i arr m =
     (if i < length arr then
        (if txHash (h (arr ! i)) = hash then
           (if i + 1 \<le> m
            then deletePendingLoop h hash (i + 1) (take i arr @ drop (i + 1) (take m arr) @ drop (m - 1) arr) (m - 1)
            else None)
         else deletePendingLoop h hash (i + 1) arr m)
      else Some (take m arr))"
  by pat_completeness auto
termination
  by (relation "measure (\<lambda>(h, x, i, arr, m). length arr - i)") auto

declare deletePendingLoop.simps [simp del]

definition DeleteTxPendingToStore :: "(bytes \<Rightarrow> string) \<Rightarrow> Worker \<Rightarrow> hash32 \<Rightarrow> bytes \<Rightarrow> Worker option" where
  "DeleteTxPendingToStore addrString w hash addr =
     (case deletePendingLoop (w_heap w) hash 0 (pendingToStore w) (length (pendingToStore w)) of
        None \<Rightarrow> None
      | Some ps \<Rightarrow>
          Some (updateQueue (w\<lparr>pendingToStore := ps\<rparr>) (addrString addr) (\<lambda>q. deletePendingTxToStore q hash)))"

subsection \<open>Restoring after a reorg\<close>

fun removeQueues ::
  "(bytes \<Rightarrow> string) \<Rightarrow> Worker \<Rightarrow> ptr list \<Rightarrow> bytes list \<Rightarrow> (Worker \<times> ptr list) option" where
  "removeQueues addrString w txsList [] = Some (w, txsList)"
| "removeQueues addrString w txsList (addr # addrs) =
     (case map_of (pool w) (addrString addr) of
        None \<Rightarrow> removeQueues addrString w txsList addrs
      | Some q \<Rightarrow>
          (case (case readyTx q of None \<Rightarrow> Some w | Some p \<Rightarrow> deleteFromSortedList w p) of
             None \<Rightarrow> None
           | Some w1 \<Rightarrow>
               removeQueues addrString (w1\<lparr>pool := AList.delete (addrString addr) (pool w1)\<rparr>)
                 (txsList @ getTransactions q) addrs))"

text \<open>
  Restored transactions are added again one by one.  A replaced transaction makes the code overwrite
  the dropped ones with the (always empty) replaced ones and the restored transaction.
\<close>

fun restoreTxs ::
  "(bytes \<Rightarrow> string) \<Rightarrow> (string \<Rightarrow> bool) \<Rightarrow> stateInterface \<Rightarrow> Worker \<Rightarrow> ptr list \<Rightarrow> ptr list \<Rightarrow> ptr list
     \<Rightarrow> (Worker \<times> ptr list \<times> ptr list) option" where
  "restoreTxs addrString validIP st w droppedTxs replacedTxs [] = Some (w, droppedTxs, replacedTxs)"
| "restoreTxs addrString validIP st w droppedTxs replacedTxs (p # ps) =
     (case addTxTracker addrString validIP st w p of
        None \<Rightarrow> None
      | Some (w1, replacedTx, dropReason) \<Rightarrow>
          (let dropped1 = (if dropReason \<noteq> None then droppedTxs @ [p] else droppedTxs);
               dropped2 = (if replacedTx \<noteq> None then replacedTxs @ [p] else dropped1)
           in restoreTxs addrString validIP st w1 dropped2 replacedTxs ps))"

definition RestoreTxsPendingToStore ::
  "(bytes \<Rightarrow> string) \<Rightarrow> (string \<Rightarrow> bool) \<Rightarrow> stateInterface \<Rightarrow> Worker \<Rightarrow> (Worker \<times> ptr list \<times> ptr list) option" where
  "RestoreTxsPendingToStore addrString validIP st w =
     (let addrList = remdups (map (\<lambda>p. From (w_heap w p)) (pendingToStore w))
      in case removeQueues addrString (w\<lparr>reorgedTxs := pendingToStore w\<rparr>) (pendingToStore w) addrList of
           None \<Rightarrow> None
         | Some (w1, txsList) \<Rightarrow>
             restoreTxs addrString validIP st (w1\<lparr>pendingToStore := [], wipTx := None\<rparr>) [] [] txsList)"

subsection \<open>Selecting and expiring transactions\<close>

fun nextReorged :: "heap \<Rightarrow> (string \<times> addrQueue) list \<Rightarrow> ptr list \<Rightarrow> ptr option \<times> ptr list" where
  "nextReorged h pl [] = (None, [])"
| "nextReorged h pl (p # ps) =
     (case map_of pl (FromStr (h p)) of
        None \<Rightarrow> nextReorged h pl ps
      | Some q \<Rightarrow>
          (case readyTx q of
             None \<Rightarrow> nextReorged h pl ps
           | Some r \<Rightarrow> if txHash (h r) = txHash (h p) then (Some p, ps) else nextReorged h pl ps))"

datatype best_tx = BestTx ptr | ErrTransactionsListEmpty | ErrNoFittingTransaction

text \<open>
  The goroutines run under a schedule; an unfinished schedule, or an index the list does not have,
  gives no result.
\<close>

definition GetBestFittingTx ::
  "nat \<Rightarrow> nat list \<Rightarrow> Worker \<Rightarrow> BatchResources \<Rightarrow> ZKCounters \<Rightarrow> (Worker \<times> best_tx) option" where
  "GetBestFittingTx nGo schedule w0 remainingResources highReservedCounters =
     (let w1 = w0\<lparr>wipTx := None\<rparr>
      in case nextReorged (w_heap w1) (pool w1) (reorgedTxs w1) of
           (Some p, rest) \<Rightarrow> Some (w1\<lparr>reorgedTxs := rest\<rparr>, BestTx p)
         | (None, rest) \<Rightarrow>
             (let w = w1\<lparr>reorgedTxs := rest\<rparr>; e = sortedList w
              in if sl_len e = 0 then Some (w, ErrTransactionsListEmpty)
                 else
                   (case searchResult (candidateFits (w_heap w) e remainingResources highReservedCounters)
                           (sl_len e) nGo schedule of
                      None \<Rightarrow> None
                    | Some None \<Rightarrow> Some (w, ErrNoFittingTransaction)
                    | Some (Some i) \<Rightarrow>
                        (case getByIndex e i of
                           None \<Rightarrow> None
                         | Some tx \<Rightarrow> Some (w\<lparr>wipTx := Some tx\<rparr>, BestTx tx)))))"

fun expireQueues :: "int \<Rightarrow> int \<Rightarrow> Worker \<Rightarrow> string list \<Rightarrow> (Worker \<times> ptr list) option" where
  "expireQueues maxTime now w [] = Some (w, [])"
| "expireQueues maxTime now w (k # ks) =
     (case map_of (pool w) k of
        None \<Rightarrow> expireQueues maxTime now w ks
      | Some q \<Rightarrow>
          (case q_ExpireTransactions (w_heap w) maxTime now q of
             (q', subTxs, prevReadyTx) \<Rightarrow>
               (case updateSortedList (w\<lparr>pool := AList.update k q' (pool w)\<rparr>) prevReadyTx None of
                  None \<Rightarrow> None
                | Some w1 \<Rightarrow>
                    (case expireQueues maxTime now w1 ks of
                       None \<Rightarrow> None
                     | Some (w2, txs) \<Rightarrow> Some (w2, subTxs @ txs)))))"

definition w_ExpireTransactions :: "int \<Rightarrow> int \<Rightarrow> Worker \<Rightarrow> (Worker \<times> ptr list) option" where
  "w_ExpireTransactions maxTime now w = expireQueues maxTime now w (map fst (pool w))"

section \<open>The invariant of the worker\<close>

text \<open>
  The hash of a transaction determines its sender.  The ready transactions of the pool are those
  that the queues report; every queue is well-formed and holds transactions of its own sender.
\<close>

definition hash_owner :: "heap \<Rightarrow> bool" where
  "hash_owner h \<longleftrightarrow> (\<forall>p q. HashStr (h p) = HashStr (h q) \<longrightarrow> FromStr (h p) = FromStr (h q))"

definition ready_set :: "(string \<times> addrQueue) list \<Rightarrow> ptr set" where
  "ready_set pl = {p. \<exists>k q. map_of pl k = Some q \<and> readyTx q = Some p}"

definition owned :: "heap \<Rightarrow> string \<Rightarrow> addrQueue \<Rightarrow> bool" where
  "owned h k q \<longleftrightarrow> (\<forall>p \<in> set (getTransactions q). FromStr (h p) = k)"

definition pool_ok :: "heap \<Rightarrow> (string \<times> addrQueue) list \<Rightarrow> bool" where
  "pool_ok h pl \<longleftrightarrow> (\<forall>k q. map_of pl k = Some q \<longrightarrow> q_ok h q \<and> owned h k q)"

definition w_ok :: "Worker \<Rightarrow> bool" where
  "w_ok w \<longleftrightarrow> hash_owner (w_heap w) \<and> pool_ok (w_heap w) (pool w) \<and> sl_ok (w_heap w) (sortedList w)
     \<and> set (txSorted (sortedList w)) = ready_set (pool w)"

lemma hash_owner_keys_eq: "keys_eq h h' \<Longrightarrow> hash_owner h \<Longrightarrow> hash_owner h'"
  unfolding hash_owner_def using keys_eqD(1,2) [of h h'] by metis

lemma pool_ok_keys_eq: "keys_eq h h' \<Longrightarrow> pool_ok h pl \<Longrightarrow> pool_ok h' pl"
  unfolding pool_ok_def owned_def using q_ok_keys_eq [of h h'] keys_eqD(2) [of h h'] by metis

lemma sl_ok_keys_eq: "keys_eq h h' \<Longrightarrow> sl_ok h e \<Longrightarrow> sl_ok h' e"
  by (rule sl_ok_cong) (auto simp: keys_eqD [of h h'])

text \<open>
  The ready transactions change in one queue only: the old one of that queue leaves, the new one
  comes in.
\<close>

definition others :: "string \<Rightarrow> (string \<times> addrQueue) list \<Rightarrow> ptr set" where
  "others k pl = {p. \<exists>k' q. k' \<noteq> k \<and> map_of pl k' = Some q \<and> readyTx q = Some p}"

definition ready_of :: "string \<Rightarrow> (string \<times> addrQueue) list \<Rightarrow> ptr option" where
  "ready_of k pl = (case map_of pl k of None \<Rightarrow> None | Some q \<Rightarrow> readyTx q)"

lemma ready_set_split: "ready_set pl = others k pl \<union> set_option (ready_of k pl)"
proof (rule set_eqI)
  fix p
  have "(\<exists>k' q. map_of pl k' = Some q \<and> readyTx q = Some p) \<longleftrightarrow>
    (\<exists>k' q. k' \<noteq> k \<and> map_of pl k' = Some q \<and> readyTx q = Some p) \<or> ready_of k pl = Some p"
    unfolding ready_of_def by (cases "map_of pl k") (metis option.case option.distinct(1) option.inject)+
  then show "p \<in> ready_set pl \<longleftrightarrow> p \<in> others k pl \<union> set_option (ready_of k pl)"
    by (simp add: ready_set_def others_def)
qed

lemma others_update: "others k (AList.update k q pl) = others k pl"
  by (auto simp: others_def update_conv')

lemma ready_of_update: "ready_of k (AList.update k q pl) = readyTx q"
  by (simp add: ready_of_def update_conv')

lemma ready_set_update: "ready_set (AList.update k q pl) = others k pl \<union> set_option (readyTx q)"
  unfolding ready_set_split [of _ k] others_update ready_of_update ..

lemma others_from:
  assumes "pool_ok h pl" "p \<in> others k pl"
  shows "FromStr (h p) \<noteq> k"
proof -
  obtain k' q where q: "k' \<noteq> k" "map_of pl k' = Some q" "readyTx q = Some p" using assms(2) by (auto simp: others_def)
  then have "p \<in> set (getTransactions q)" by (simp add: getTransactions_def)
  with q(2) assms(1) have "FromStr (h p) = k'" unfolding pool_ok_def owned_def by blast
  with q(1) show ?thesis by simp
qed

lemma ready_of_from:
  assumes "pool_ok h pl" "ready_of k pl = Some p"
  shows "FromStr (h p) = k"
proof -
  obtain q where q: "map_of pl k = Some q" "readyTx q = Some p"
    using assms(2) by (cases "map_of pl k") (simp_all add: ready_of_def)
  then have "p \<in> set (getTransactions q)" by (simp add: getTransactions_def)
  with q(1) assms(1) show ?thesis unfolding pool_ok_def owned_def by blast
qed

text \<open>The frame of an operation that only touches the sorted list.\<close>

definition same_but_list :: "Worker \<Rightarrow> Worker \<Rightarrow> bool" where
  "same_but_list w w' \<longleftrightarrow> w_heap w' = w_heap w \<and> pool w' = pool w \<and> pendingToStore w' = pendingToStore w
     \<and> reorgedTxs w' = reorgedTxs w \<and> wipTx w' = wipTx w \<and> batchConstraints w' = batchConstraints w"

lemma deleteFromSortedList_ok:
  assumes "sl_ok (w_heap w) (sortedList w)"
  shows "\<exists>w'. deleteFromSortedList w p = Some w' \<and> same_but_list w w' \<and> sl_ok (w_heap w) (sortedList w')
    \<and> set (txSorted (sortedList w')) = {q \<in> set (txSorted (sortedList w)). HashStr (w_heap w q) \<noteq> HashStr (w_heap w p)}"
  using sl.delete_total [OF assms, of p] by (auto simp: deleteFromSortedList_def same_but_list_def)

lemma addTxToSortedList_ok:
  assumes "sl_ok (w_heap w) (sortedList w)"
  shows "\<exists>w'. addTxToSortedList w p = Some w' \<and> same_but_list w w' \<and> sl_ok (w_heap w) (sortedList w')
    \<and> (HashStr (w_heap w p) \<in> (\<lambda>q. HashStr (w_heap w q)) ` set (txSorted (sortedList w)) \<longrightarrow> sortedList w' = sortedList w)
    \<and> (HashStr (w_heap w p) \<notin> (\<lambda>q. HashStr (w_heap w q)) ` set (txSorted (sortedList w)) \<longrightarrow>
        set (txSorted (sortedList w')) = insert p (set (txSorted (sortedList w))))"
proof (cases "HashStr (w_heap w p) \<in> (\<lambda>q. HashStr (w_heap w q)) ` set (txSorted (sortedList w))")
  case True
  then show ?thesis using sl.add_old [OF assms True] assms by (simp add: addTxToSortedList_def same_but_list_def)
next
  case False
  obtain e where "sl_add (w_heap w) (sortedList w) p = Some (e, True)" "sl_ok (w_heap w) e"
      "set (txSorted e) = insert p (set (txSorted (sortedList w)))"
    using sl.add_new [OF assms False] by blast
  with False show ?thesis by (simp add: addTxToSortedList_def same_but_list_def)
qed

text \<open>
  Replacing the queue of one sender and then updating the sorted list by its previous and new ready
  transaction restores the invariant.
\<close>

lemma updateSortedList_ok:
  assumes own: "hash_owner (w_heap w)" and old: "pool_ok (w_heap w) pl" and new: "pool_ok (w_heap w) (pool w)"
    and sl: "sl_ok (w_heap w) (sortedList w)" "set (txSorted (sortedList w)) = ready_set pl"
    and upd: "pool w = AList.update k q pl"
    and pn: "prevR = ready_of k pl \<and> newR = readyTx q \<or> prevR = None \<and> readyTx q = ready_of k pl \<and> (newR = None \<or> newR = readyTx q)"
  shows "\<exists>w'. updateSortedList w prevR newR = Some w' \<and> same_but_list w w' \<and> w_ok w'"
proof -
  let ?h = "w_heap w" and ?R = "others k pl"
  have diff: "HashStr (?h r) \<noteq> HashStr (?h p)" if "r \<in> ?R" "FromStr (?h p) = k" for r p
    using others_from [OF old that(1)] that(2) own unfolding hash_owner_def by metis
  have target: "ready_set (pool w) = ?R \<union> set_option (readyTx q)" by (simp add: upd ready_set_update)
  have newk: "FromStr (?h p) = k" if "readyTx q = Some p" for p
    using ready_of_from [OF new, of k] that by (simp add: upd ready_of_update)
  have start: "set (txSorted (sortedList w)) = ?R \<union> set_option (ready_of k pl)" using sl(2) ready_set_split by metis
  obtain w1 where w1: "(case prevR of None \<Rightarrow> Some w | Some p \<Rightarrow> deleteFromSortedList w p) = Some w1"
      "same_but_list w w1" "sl_ok ?h (sortedList w1)"
      "set (txSorted (sortedList w1)) = ?R \<union> (if prevR = None then set_option (ready_of k pl) else {})"
  proof (cases prevR)
    case None
    then show thesis using that [of w] sl(1) start by (simp add: same_but_list_def)
  next
    case (Some p)
    then have p: "ready_of k pl = Some p" using pn by auto
    then have "FromStr (?h p) = k" using ready_of_from [OF old] by simp
    then have "{x \<in> ?R \<union> {p}. HashStr (?h x) \<noteq> HashStr (?h p)} = ?R" using diff by auto
    then show thesis
      using that deleteFromSortedList_ok [OF sl(1), of p] start p Some by auto
  qed
  show ?thesis
  proof (cases newR)
    case None
    then have "set (txSorted (sortedList w1)) = ready_set (pool w)" using pn w1(4) target by (auto split: if_splits)
    with None w1 own new show ?thesis by (auto simp: updateSortedList_def w_ok_def same_but_list_def)
  next
    case (Some p)
    then have q: "readyTx q = Some p" using pn by auto
    have h1: "w_heap w1 = ?h" "pool w1 = pool w" using w1(2) by (auto simp: same_but_list_def)
    obtain w2 where w2: "addTxToSortedList w1 p = Some w2" "same_but_list w1 w2" "sl_ok ?h (sortedList w2)"
      and add: "HashStr (?h p) \<in> (\<lambda>q. HashStr (?h q)) ` set (txSorted (sortedList w1)) \<longrightarrow> sortedList w2 = sortedList w1"
        "HashStr (?h p) \<notin> (\<lambda>q. HashStr (?h q)) ` set (txSorted (sortedList w1)) \<longrightarrow>
          set (txSorted (sortedList w2)) = insert p (set (txSorted (sortedList w1)))"
      using addTxToSortedList_ok [of w1 p] w1(3) unfolding h1 by blast
    have notR: "HashStr (?h p) \<notin> (\<lambda>q. HashStr (?h q)) ` ?R" using diff newk [OF q] by force
    have "set (txSorted (sortedList w2)) = ?R \<union> {p}"
    proof (cases "prevR = None \<and> ready_of k pl = Some p")
      case True
      then have "set (txSorted (sortedList w1)) = insert p ?R" using w1(4) by simp
      with add(1) show ?thesis by simp
    next
      case False
      then have "set (txSorted (sortedList w1)) = ?R" using w1(4) pn q by auto
      with add(2) notR show ?thesis by simp
    qed
    with w1 w2 own new Some q h1 target show ?thesis
      by (auto simp: updateSortedList_def w_ok_def same_but_list_def)
  qed
qed

section \<open>Every operation keeps the invariant\<close>

lemma pool_ok_update: "pool_ok h pl \<Longrightarrow> q_ok h q \<Longrightarrow> owned h k q \<Longrightarrow> pool_ok h (AList.update k q pl)"
  by (simp add: pool_ok_def update_conv')

lemma set_getTransactions: "set (getTransactions a) = set_option (readyTx a) \<union> snd ` set (notReadyTxs a)"
  by (cases "readyTx a") (simp_all add: getTransactions_def)

lemma getTransactions_update:
  assumes "distinct (map fst nr)"
  shows "snd ` set (AList.update k p nr) \<subseteq> insert p (snd ` set nr)"
  using assms by (auto simp: set_alist_update)

lemma addTx_results:
  assumes "addTx h a tx = (a', newR, prevR, rep, why)"
  shows "why \<noteq> None \<Longrightarrow> a' = a"
    and "why = None \<Longrightarrow> prevR = readyTx a \<and> newR = readyTx a' \<or> prevR = None \<and> readyTx a' = readyTx a \<and> newR = None"
    and "waiting_ok h a \<Longrightarrow> set (getTransactions a') \<subseteq> insert tx (set (getTransactions a))"
proof -
  show "why \<noteq> None \<Longrightarrow> a' = a"
    using assms by (auto simp: addTx_def Let_def split: option.splits if_splits)
  show "why = None \<Longrightarrow> prevR = readyTx a \<and> newR = readyTx a' \<or> prevR = None \<and> readyTx a' = readyTx a \<and> newR = None"
    using assms by (auto simp: addTx_def Let_def split: option.splits if_splits)
  assume w: "waiting_ok h a"
  have "a' = a \<or> a' = a\<lparr>readyTx := Some tx\<rparr> \<or> (\<exists>r. (r = None \<or> r = readyTx a) \<and>
      a' = a\<lparr>readyTx := r, notReadyTxs := AList.update (Nonce (h tx)) tx (notReadyTxs a)\<rparr>)"
    using assms by (auto simp: addTx_def Let_def split: option.splits if_splits)
  then show "set (getTransactions a') \<subseteq> insert tx (set (getTransactions a))"
    using w getTransactions_update [of "notReadyTxs a" "Nonce (h tx)" tx]
    unfolding set_getTransactions waiting_ok_def by (elim disjE exE conjE) (simp_all, blast+)
qed

lemma insertTx_ok:
  assumes ok: "w_ok w" and addr: "q_ok (w_heap w) addr" "owned (w_heap w) (FromStr (w_heap w p)) addr"
    and same: "readyTx addr = ready_of (FromStr (w_heap w p)) (pool w)"
  shows "\<exists>w' rep why. insertTx w addr p = Some (w', rep, why) \<and> w_ok w'"
proof -
  let ?h = "w_heap w" and ?k = "FromStr (w_heap w p)"
  obtain a' newR prevR rep why where add: "addTx ?h addr p = (a', newR, prevR, rep, why)" by (metis prod_cases5)
  note res = addTx_results [OF add]
  have w: "waiting_ok ?h addr" using addr(1) by (simp add: q_ok_def)
  have q': "q_ok ?h a'" using q_ok_addTx [OF addr(1), of p] add by simp
  have o': "owned ?h ?k a'" using res(3) [OF w] addr(2) by (auto simp: owned_def)
  have pool': "pool_ok ?h (AList.update ?k a' (pool w))"
    using ok q' o' by (intro pool_ok_update) (auto simp: w_ok_def)
  let ?w1 = "w\<lparr>pool := AList.update ?k a' (pool w)\<rparr>"
  show ?thesis
  proof (cases why)
    case None
    then have "\<exists>w'. updateSortedList ?w1 prevR newR = Some w' \<and> same_but_list ?w1 w' \<and> w_ok w'"
      using ok pool' res(2) same by (intro updateSortedList_ok [where pl = "pool w" and k = ?k and q = a']) (auto simp: w_ok_def)
    with None add show ?thesis by (auto simp: insertTx_def Let_def)
  next
    case (Some e)
    then have "a' = addr" using res(1) by simp
    then have "ready_set (AList.update ?k a' (pool w)) = ready_set (pool w)"
      using same by (simp add: ready_set_update ready_set_split [of "pool w" ?k])
    with Some add ok pool' show ?thesis by (simp add: insertTx_def w_ok_def)
  qed
qed

lemma queryAccount_fresh:
  "queryAccount as st from = Inr addr \<Longrightarrow> q_ok h addr \<and> owned h k addr \<and> readyTx addr = None"
  using q_ok_new by (auto simp: queryAccount_def owned_def getTransactions_def newAddrQueue_def split: option.splits)

lemma addTxTracker_ok:
  assumes ok: "w_ok w"
  shows "\<exists>w' rep why. addTxTracker as ip st w p = Some (w', rep, why) \<and> w_ok w'"
proof -
  let ?k = "FromStr (w_heap w p)"
  have "\<exists>w' rep why. insertTx w addr p = Some (w', rep, why) \<and> w_ok w'" if "map_of (pool w) ?k = Some addr" for addr
    using that ok by (intro insertTx_ok) (auto simp: w_ok_def pool_ok_def ready_of_def)
  moreover have "\<exists>w' rep why. insertTx w addr p = Some (w', rep, why) \<and> w_ok w'"
    if "map_of (pool w) ?k = None" "queryAccount as st (From (w_heap w p)) = Inr addr" for addr
    using that ok queryAccount_fresh [OF that(2)] by (intro insertTx_ok) (auto simp: ready_of_def)
  ultimately show ?thesis
    using ok by (auto simp: addTxTracker_def split: option.splits sum.splits)
qed

lemma update_results:
  assumes q: "q_ok h a" and u: "updateCurrentNonceBalance h a nonce balance = (h', a', newR, prevR, del)"
  shows "prevR = readyTx a \<and> newR = readyTx a' \<or> prevR = None \<and> readyTx a' = readyTx a \<and> newR = readyTx a'"
    and "set (getTransactions a') \<subseteq> set (getTransactions a)"
proof -
  let ?a0 = "case balance of None \<Rightarrow> a | Some b \<Rightarrow> a\<lparr>currentBalance := b\<rparr>"
  obtain h1 a1 del1 where n: "updateNonce h ?a0 nonce = (h1, a1, del1)" by (metis prod_cases3)
  obtain a2 old where d: "demoteReady h1 a1 = (a2, old)" by fastforce
  have w0: "waiting_ok h ?a0" using q updateBalance_ok by (auto simp: q_ok_def)
  have r0: "readyTx ?a0 = readyTx a" "notReadyTxs ?a0 = notReadyTxs a" by (simp_all split: option.split)
  have r1: "readyTx a1 = readyTx a" using updateNonce_ok [OF w0 n] r0 by simp
  have s1: "set (map snd (notReadyTxs a1)) \<subseteq> set (map snd (notReadyTxs a))"
    using n r0(2) by (auto simp: updateNonce_def Let_def fold_alist_delete split: option.splits if_splits)
  have r2: "old = None \<and> a2 = a1 \<or> (\<exists>p. readyTx a = Some p \<and> old = Some p \<and> a2 = a1\<lparr>readyTx := None\<rparr>)"
    using d r1 by (auto simp: demoteReady_def split: option.splits if_splits)
  have r3: "promoteNext h1 a2 = a2 \<or> readyTx a2 = None \<and> (\<exists>p \<in> set (map snd (notReadyTxs a2)).
      promoteNext h1 a2 = a2\<lparr>readyTx := Some p, notReadyTxs := AList.delete (currentNonce a2) (notReadyTxs a2)\<rparr>)"
    by (auto simp: promoteNext_def split: option.splits dest!: map_of_SomeD) force
  note run = u [unfolded updateCurrentNonceBalance_def Let_def n, simplified, unfolded d, simplified]
  show "prevR = readyTx a \<and> newR = readyTx a' \<or> prevR = None \<and> readyTx a' = readyTx a \<and> newR = readyTx a'"
    using run r1 r2 r3 by (cases old) (auto split: if_splits)
  have g3: "set (getTransactions (promoteNext h1 a2)) \<subseteq> set (getTransactions a2)"
    using r3 by (force simp: set_getTransactions AList.delete_eq)
  have g2: "set (getTransactions a2) \<subseteq> set (getTransactions a)"
    using r2 s1 r1 unfolding set_getTransactions set_map by (elim disjE exE conjE) (simp_all, blast+)
  have q3: "distinct (map fst (notReadyTxs (promoteNext h1 a2)))"
    using promoteNext_ok demoteReady_ok [OF _ d] updateNonce_ok [OF w0 n] by (auto simp: q_ok_def waiting_ok_def)
  have "set (getTransactions a') \<subseteq> set_option old \<union> set (getTransactions (promoteNext h1 a2))"
  proof -
    let ?a3 = "promoteNext h1 a2"
    have "a' = ?a3 \<or> (\<exists>p. old = Some p \<and> a' = ?a3\<lparr>notReadyTxs := AList.update (Nonce (h1 p)) p (notReadyTxs ?a3)\<rparr>)"
      using run by (cases old) (auto split: if_splits)
    then show ?thesis
    proof (elim disjE exE conjE)
      fix p assume "old = Some p" "a' = ?a3\<lparr>notReadyTxs := AList.update (Nonce (h1 p)) p (notReadyTxs ?a3)\<rparr>"
      with getTransactions_update [OF q3, of "Nonce (h1 p)" p] show ?thesis by (simp add: set_getTransactions) blast
    qed simp
  qed
  moreover have "set_option old \<subseteq> set (getTransactions a)" using r2 by (auto simp: set_getTransactions)
  ultimately show "set (getTransactions a') \<subseteq> set (getTransactions a)" using g2 g3 by blast
qed

lemma applyAddressUpdate_ok:
  assumes ok: "w_ok w"
  shows "\<exists>w' del. applyAddressUpdate as w from nonce balance = Some (w', del) \<and> w_ok w'"
proof (cases "map_of (pool w) (as from)")
  case None
  with ok show ?thesis by (simp add: applyAddressUpdate_def)
next
  case (Some q)
  let ?h = "w_heap w" and ?k = "as from"
  obtain h' q' newR prevR del where u: "updateCurrentNonceBalance ?h q nonce balance = (h', q', newR, prevR, del)"
    by (metis prod_cases5)
  have q: "q_ok ?h q" "owned ?h ?k q" using ok Some by (auto simp: w_ok_def pool_ok_def)
  have k: "keys_eq ?h h'" "q_ok h' q'" using updateCurrentNonceBalance_ok [OF q(1) u] by auto
  note res = update_results [OF q(1) u]
  have o': "owned h' ?k q'" using q(2) res(2) by (auto simp: owned_def keys_eqD [OF k(1)])
  have p': "pool_ok h' (pool w)" using ok pool_ok_keys_eq [OF k(1)] by (auto simp: w_ok_def)
  let ?w1 = "w\<lparr>w_heap := h', pool := AList.update ?k q' (pool w)\<rparr>"
  have "\<exists>w'. updateSortedList ?w1 prevR newR = Some w' \<and> same_but_list ?w1 w' \<and> w_ok w'"
  proof (rule updateSortedList_ok [where pl = "pool w" and k = ?k and q = q'])
    show "hash_owner (w_heap ?w1)" using ok hash_owner_keys_eq [OF k(1)] by (simp add: w_ok_def)
    show "pool_ok (w_heap ?w1) (pool ?w1)" using pool_ok_update [OF p' k(2) o'] by simp
    show "sl_ok (w_heap ?w1) (sortedList ?w1)" using ok sl_ok_keys_eq [OF k(1)] by (simp add: w_ok_def)
    show "prevR = ready_of ?k (pool w) \<and> newR = readyTx q' \<or>
        prevR = None \<and> readyTx q' = ready_of ?k (pool w) \<and> (newR = None \<or> newR = readyTx q')"
      using res(1) Some by (auto simp: ready_of_def)
  qed (use ok p' in \<open>simp_all add: w_ok_def\<close>)
  with Some u show ?thesis by (auto simp: applyAddressUpdate_def)
qed

lemma updateTouched_ok:
  "w_ok w \<Longrightarrow> \<exists>w' del. updateTouched as from w touched = Some (w', del) \<and> w_ok w'"
proof (induction touched arbitrary: w)
  case (Cons t touched)
  obtain addr n b where t: "t = (addr, n, b)" by (metis prod_cases3)
  show ?case
  proof (cases "addr = from")
    case True
    with Cons t show ?thesis by simp
  next
    case False
    obtain w1 del where w1: "applyAddressUpdate as w addr None b = Some (w1, del)" "w_ok w1"
      using applyAddressUpdate_ok [OF Cons.prems] by blast
    with Cons.IH [OF w1(2)] False t show ?thesis by auto
  qed
qed simp

lemma UpdateAfter_ok:
  assumes "w_ok w"
  shows "\<exists>w' del. UpdateAfterSingleSuccessfulTxExecution as w from touched = Some (w', del) \<and> w_ok w'"
proof -
  obtain w1 del where w1: "(case map_of touched from of
      Some (nonce, balance) \<Rightarrow> applyAddressUpdate as w from nonce balance | None \<Rightarrow> Some (w, [])) = Some (w1, del)" "w_ok w1"
    using assms applyAddressUpdate_ok [OF assms] by (cases "map_of touched from") fastforce+
  with updateTouched_ok [OF w1(2), of as "from" touched] show ?thesis
    by (auto simp: UpdateAfterSingleSuccessfulTxExecution_def)
qed

text \<open>Fields that the invariant does not mention.\<close>

lemma w_ok_frame:
  "w_heap w' = w_heap w \<Longrightarrow> pool w' = pool w \<Longrightarrow> sortedList w' = sortedList w \<Longrightarrow> w_ok w \<Longrightarrow> w_ok w'"
  by (simp add: w_ok_def)

lemma w_ok_resetWipTx: "w_ok w \<Longrightarrow> w_ok (resetWipTx w x)"
  by (rule w_ok_frame [of _ w]) (simp_all add: resetWipTx_def split: option.split)

lemma q_deleteTx_results:
  assumes "q_deleteTx hs h a x = (a', del, isReady)"
  shows "isReady \<Longrightarrow> del = readyTx a \<and> readyTx a' = None \<and> readyTx a \<noteq> None" and "\<not> isReady \<Longrightarrow> readyTx a' = readyTx a"
    and "set (getTransactions a') \<subseteq> set (getTransactions a)"
proof -
  have "isReady \<and> a' = a\<lparr>readyTx := None\<rparr> \<and> del = readyTx a \<and> readyTx a \<noteq> None
    \<or> \<not> isReady \<and> (a' = a \<or> (\<exists>n. a' = a\<lparr>notReadyTxs := AList.delete n (notReadyTxs a)\<rparr>))"
  proof (cases "readyHasHash hs h a x")
    case True
    then have "readyTx a \<noteq> None" by (cases "readyTx a") (simp_all add: readyHasHash_def)
    with True assms show ?thesis by (simp add: q_deleteTx_def)
  next
    case False
    with assms show ?thesis by (cases "findNotReady hs h a x") (auto simp: q_deleteTx_def)
  qed
  then show "isReady \<Longrightarrow> del = readyTx a \<and> readyTx a' = None \<and> readyTx a \<noteq> None" "\<not> isReady \<Longrightarrow> readyTx a' = readyTx a"
    "set (getTransactions a') \<subseteq> set (getTransactions a)"
    by (auto simp: set_getTransactions AList.delete_eq)
qed

lemma w_deleteTx_ok:
  assumes ok: "w_ok w"
  shows "\<exists>w' del. w_deleteTx as hs w x addr = Some (w', del) \<and> w_ok w'"
proof (cases "map_of (pool w) (as addr)")
  case None
  with ok show ?thesis by (simp add: w_deleteTx_def)
next
  case (Some q)
  let ?h = "w_heap w" and ?k = "as addr"
  obtain q' del isReady where d: "q_deleteTx hs ?h q x = (q', del, isReady)" by (metis prod_cases3)
  note res = q_deleteTx_results [OF d]
  have q: "q_ok ?h q" "owned ?h ?k q" using ok Some by (auto simp: w_ok_def pool_ok_def)
  have "q_ok ?h q'" using q_ok_deleteTx [OF q(1), of hs x] d by simp
  moreover have "owned ?h ?k q'" using res(3) q(2) by (auto simp: owned_def)
  ultimately have p': "pool_ok ?h (AList.update ?k q' (pool w))" using ok by (intro pool_ok_update) (auto simp: w_ok_def)
  let ?w1 = "w\<lparr>pool := AList.update ?k q' (pool w)\<rparr>"
  define prevR where "prevR = (if isReady then del else None)"
  have "\<exists>w'. updateSortedList ?w1 prevR None = Some w' \<and> same_but_list ?w1 w' \<and> w_ok w'"
    by (rule updateSortedList_ok [where pl = "pool w" and k = ?k and q = q'])
      (use ok p' res(1,2) Some in \<open>auto simp: w_ok_def prevR_def ready_of_def\<close>)
  with Some d res(1) show ?thesis
    by (cases del; cases isReady) (auto simp: w_deleteTx_def Let_def updateSortedList_def prevR_def split: option.splits)
qed

lemma updateQueue_ok:
  assumes ok: "w_ok w" and f: "\<And>q. q_ok (w_heap w) (f q) = q_ok (w_heap w) q" "\<And>q. readyTx (f q) = readyTx q"
    "\<And>q. notReadyTxs (f q) = notReadyTxs q"
  shows "w_ok (updateQueue w k f)"
proof (cases "map_of (pool w) k")
  case None
  with ok show ?thesis by (simp add: updateQueue_def)
next
  case (Some q)
  then have "q_ok (w_heap w) q" "owned (w_heap w) k q" using ok by (auto simp: w_ok_def pool_ok_def)
  then have "q_ok (w_heap w) (f q)" "owned (w_heap w) k (f q)" by (simp_all add: f owned_def getTransactions_def)
  then have "pool_ok (w_heap w) (AList.update k (f q) (pool w))" using ok by (intro pool_ok_update) (auto simp: w_ok_def)
  moreover have "ready_set (AList.update k (f q) (pool w)) = ready_set (pool w)"
    using Some by (simp add: ready_set_update f(2) ready_set_split [of "pool w" k] ready_of_def)
  ultimately show ?thesis using ok Some by (simp add: updateQueue_def w_ok_def)
qed

lemma MoveTxPendingToStore_ok:
  assumes "w_ok w"
  shows "\<exists>w'. MoveTxPendingToStore as hs w x addr = Some w' \<and> w_ok w'"
proof -
  obtain w1 del where w1: "w_deleteTx as hs w x addr = Some (w1, del)" "w_ok w1"
    using w_deleteTx_ok [OF assms] by blast
  let ?w2 = "case del of None \<Rightarrow> w1 | Some p \<Rightarrow> w1\<lparr>pendingToStore := pendingToStore w1 @ [p]\<rparr>"
  have "w_ok ?w2" using w1(2) by (rule w_ok_frame [rotated 3]) (simp_all split: option.split)
  then have "w_ok (updateQueue ?w2 (as addr) (\<lambda>q. addPendingTxToStore q x))"
    by (rule updateQueue_ok) (simp_all add: addPendingTxToStore_def q_ok_irrelevant)
  with w1(1) show ?thesis by (simp add: MoveTxPendingToStore_def Let_def)
qed

lemma DeleteTxPendingToStore_ok:
  assumes "w_ok w" "DeleteTxPendingToStore as w x addr = Some w'"
  shows "w_ok w'"
proof -
  obtain ps where w': "w' = updateQueue (w\<lparr>pendingToStore := ps\<rparr>) (as addr) (\<lambda>q. deletePendingTxToStore q x)"
    using assms(2) by (auto simp: DeleteTxPendingToStore_def split: option.splits)
  have "w_ok (w\<lparr>pendingToStore := ps\<rparr>)" using assms(1) by (simp add: w_ok_def)
  then show ?thesis
    unfolding w' by (rule updateQueue_ok) (simp_all add: deletePendingTxToStore_def q_ok_irrelevant)
qed

lemma w_UpdateTxZKCounters_ok:
  assumes "w_ok w"
  shows "w_ok (w_UpdateTxZKCounters as hs w x addr used reserved)"
proof (cases "map_of (pool w) (as addr)")
  case None
  with assms show ?thesis by (simp add: w_UpdateTxZKCounters_def)
next
  case (Some q)
  note k = keys_eq_q_UpdateTxZKCounters [of "w_heap w" hs q x used reserved]
  show ?thesis
    using assms Some hash_owner_keys_eq [OF k] pool_ok_keys_eq [OF k] sl_ok_keys_eq [OF k]
    by (simp add: w_UpdateTxZKCounters_def w_ok_def)
qed

lemma expire_results:
  assumes "q_ExpireTransactions h mx now a = (a', txs, prevR)"
  shows "prevR = readyTx a \<and> readyTx a' = None \<or> prevR = None \<and> readyTx a' = readyTx a"
    and "set (getTransactions a') \<subseteq> set (getTransactions a)"
proof -
  obtain nr where nr: "fst (expireNotReady h mx now a) = a\<lparr>notReadyTxs := filter nr (notReadyTxs a)\<rparr>"
    by (simp add: expireNotReady_def Let_def fold_alist_delete)
  then have "a' = a\<lparr>notReadyTxs := filter nr (notReadyTxs a)\<rparr> \<and> prevR = None
    \<or> a' = a\<lparr>notReadyTxs := filter nr (notReadyTxs a), readyTx := None\<rparr> \<and> prevR = readyTx a"
    using assms by (auto simp: q_ExpireTransactions_def case_prod_beta split: option.splits if_splits)
  then show "prevR = readyTx a \<and> readyTx a' = None \<or> prevR = None \<and> readyTx a' = readyTx a"
    "set (getTransactions a') \<subseteq> set (getTransactions a)"
    by (auto simp: set_getTransactions)
qed

lemma expireQueues_ok: "w_ok w \<Longrightarrow> \<exists>w' txs. expireQueues mx now w ks = Some (w', txs) \<and> w_ok w'"
proof (induction ks arbitrary: w)
  case (Cons k ks)
  show ?case
  proof (cases "map_of (pool w) k")
    case None
    with Cons show ?thesis by simp
  next
    case (Some q)
    let ?h = "w_heap w"
    obtain q' sub prevR where e: "q_ExpireTransactions ?h mx now q = (q', sub, prevR)" by (metis prod_cases3)
    have q: "q_ok ?h q" "owned ?h k q" using Cons.prems Some by (auto simp: w_ok_def pool_ok_def)
    have "q_ok ?h q'" using q_ok_expire [OF q(1), of mx now] e by simp
    moreover have "owned ?h k q'" using expire_results(2) [OF e] q(2) by (auto simp: owned_def)
    ultimately have p': "pool_ok ?h (AList.update k q' (pool w))" using Cons.prems by (intro pool_ok_update) (auto simp: w_ok_def)
    let ?w1 = "w\<lparr>pool := AList.update k q' (pool w)\<rparr>"
    have "\<exists>w'. updateSortedList ?w1 prevR None = Some w' \<and> same_but_list ?w1 w' \<and> w_ok w'"
      by (rule updateSortedList_ok [where pl = "pool w" and k = k and q = q'])
        (use Cons.prems p' expire_results(1) [OF e] Some in \<open>auto simp: w_ok_def ready_of_def\<close>)
    then obtain w1 where w1: "updateSortedList ?w1 prevR None = Some w1" "w_ok w1" by blast
    from Cons.IH [OF w1(2)] Some e w1(1) show ?thesis by auto
  qed
qed simp

text \<open>Removing a whole queue and its ready transaction.\<close>

lemma ready_set_delete: "ready_set (AList.delete k pl) = others k pl"
  by (auto simp: ready_set_def others_def delete_conv' restrict_map_def split: if_splits)

lemma removeQueue_ok:
  assumes ok: "w_ok w" and q: "map_of (pool w) k = Some q"
  shows "\<exists>w1. (case readyTx q of None \<Rightarrow> Some w | Some p \<Rightarrow> deleteFromSortedList w p) = Some w1
    \<and> w_ok (w1\<lparr>pool := AList.delete k (pool w1)\<rparr>)"
proof -
  let ?h = "w_heap w"
  have own: "hash_owner ?h" and po: "pool_ok ?h (pool w)" and sl: "sl_ok ?h (sortedList w)"
    and set: "set (txSorted (sortedList w)) = others k (pool w) \<union> set_option (readyTx q)"
    using ok q by (auto simp: w_ok_def ready_set_split [of "pool w" k] ready_of_def)
  have pd: "pool_ok ?h (AList.delete k (pool w))"
    using po by (auto simp: pool_ok_def delete_conv' restrict_map_def split: if_splits)
  show ?thesis
  proof (cases "readyTx q")
    case None
    with own sl set pd show ?thesis by (simp add: w_ok_def ready_set_delete)
  next
    case (Some p)
    have "FromStr (?h p) = k" using ready_of_from [OF po, of k p] q Some by (simp add: ready_of_def)
    then have "{x \<in> others k (pool w) \<union> {p}. HashStr (?h x) \<noteq> HashStr (?h p)} = others k (pool w)"
      using others_from [OF po] own unfolding hash_owner_def by blast
    with Some own set pd deleteFromSortedList_ok [OF sl, of p] show ?thesis
      by (auto simp: w_ok_def ready_set_delete same_but_list_def)
  qed
qed

lemma removeQueues_ok: "w_ok w \<Longrightarrow> \<exists>w' l'. removeQueues as w l addrs = Some (w', l') \<and> w_ok w'"
proof (induction addrs arbitrary: w l)
  case (Cons addr addrs)
  show ?case
  proof (cases "map_of (pool w) (as addr)")
    case None
    with Cons show ?thesis by simp
  next
    case (Some q)
    obtain w1 where w1: "(case readyTx q of None \<Rightarrow> Some w | Some p \<Rightarrow> deleteFromSortedList w p) = Some w1"
        "w_ok (w1\<lparr>pool := AList.delete (as addr) (pool w1)\<rparr>)"
      using removeQueue_ok [OF Cons.prems Some] by blast
    from Cons.IH [OF w1(2)] w1(1) Some show ?thesis by simp
  qed
qed simp

lemma restoreTxs_ok: "w_ok w \<Longrightarrow> \<exists>w' d r. restoreTxs as ip st w dr rp ps = Some (w', d, r) \<and> w_ok w'"
proof (induction ps arbitrary: w dr rp)
  case (Cons p ps)
  obtain w1 rep why where w1: "addTxTracker as ip st w p = Some (w1, rep, why)" "w_ok w1"
    using addTxTracker_ok [OF Cons.prems] by blast
  from Cons.IH [OF w1(2)] w1(1) show ?case by (simp add: Let_def)
qed simp

lemma RestoreTxsPendingToStore_ok:
  assumes "w_ok w"
  shows "\<exists>w' d r. RestoreTxsPendingToStore as ip st w = Some (w', d, r) \<and> w_ok w'"
proof -
  let ?w0 = "w\<lparr>reorgedTxs := pendingToStore w\<rparr>" and ?l = "pendingToStore w"
  let ?addrs = "remdups (map (\<lambda>p. From (w_heap w p)) (pendingToStore w))"
  have "w_ok ?w0" using assms by (simp add: w_ok_def)
  then obtain w1 l1 where w1: "removeQueues as ?w0 ?l ?addrs = Some (w1, l1)" "w_ok w1"
    using removeQueues_ok by blast
  then have "w_ok (w1\<lparr>pendingToStore := [], wipTx := None\<rparr>)" by (simp add: w_ok_def)
  from restoreTxs_ok [OF this] w1(1) show ?thesis by (simp add: RestoreTxsPendingToStore_def Let_def)
qed

lemma GetBestFittingTx_frame:
  assumes "GetBestFittingTx nGo sched w rem high = Some (w', best)"
  shows "w_heap w' = w_heap w \<and> pool w' = pool w \<and> sortedList w' = sortedList w"
  using assms by (auto simp: GetBestFittingTx_def Let_def split: prod.splits option.splits if_splits)

section \<open>Reachable workers\<close>

text \<open>
  The states of a worker.  The heap holds from the beginning the trackers of all transactions that
  are ever added; the state interface, the clock and the schedules may differ at every step.
\<close>

inductive w_reach :: "(bytes \<Rightarrow> string) \<Rightarrow> (hash32 \<Rightarrow> string) \<Rightarrow> (string \<Rightarrow> bool) \<Rightarrow> Worker \<Rightarrow> bool"
  for addrString hashString validIP where
  w_new: "hash_owner h \<Longrightarrow> w_reach addrString hashString validIP (NewWorker h constraints)"
| w_add: "w_reach addrString hashString validIP w \<Longrightarrow>
    addTxTracker addrString validIP st w p = Some (w', rep, why) \<Longrightarrow> w_reach addrString hashString validIP w'"
| w_after: "w_reach addrString hashString validIP w \<Longrightarrow>
    UpdateAfterSingleSuccessfulTxExecution addrString w addr touched = Some (w', del) \<Longrightarrow>
    w_reach addrString hashString validIP w'"
| w_notReady: "w_reach addrString hashString validIP w \<Longrightarrow>
    MoveTxToNotReady addrString w x addr nonce balance = Some (w', del) \<Longrightarrow> w_reach addrString hashString validIP w'"
| w_delete: "w_reach addrString hashString validIP w \<Longrightarrow>
    w_DeleteTx addrString hashString w x addr = Some w' \<Longrightarrow> w_reach addrString hashString validIP w'"
| w_delForced: "w_reach addrString hashString validIP w \<Longrightarrow>
    w_reach addrString hashString validIP (w_DeleteForcedTx addrString w x addr)"
| w_addForced: "w_reach addrString hashString validIP w \<Longrightarrow>
    w_reach addrString hashString validIP (w_AddForcedTx addrString w x addr)"
| w_counters: "w_reach addrString hashString validIP w \<Longrightarrow>
    w_reach addrString hashString validIP (w_UpdateTxZKCounters addrString hashString w x addr used reserved)"
| w_move: "w_reach addrString hashString validIP w \<Longrightarrow>
    MoveTxPendingToStore addrString hashString w x addr = Some w' \<Longrightarrow> w_reach addrString hashString validIP w'"
| w_delPending: "w_reach addrString hashString validIP w \<Longrightarrow>
    DeleteTxPendingToStore addrString w x addr = Some w' \<Longrightarrow> w_reach addrString hashString validIP w'"
| w_restore: "w_reach addrString hashString validIP w \<Longrightarrow>
    RestoreTxsPendingToStore addrString validIP st w = Some (w', dropped, replaced) \<Longrightarrow>
    w_reach addrString hashString validIP w'"
| w_best: "w_reach addrString hashString validIP w \<Longrightarrow>
    GetBestFittingTx nGo schedule w remaining high = Some (w', best) \<Longrightarrow> w_reach addrString hashString validIP w'"
| w_expire: "w_reach addrString hashString validIP w \<Longrightarrow>
    w_ExpireTransactions maxTime now w = Some (w', txs) \<Longrightarrow> w_reach addrString hashString validIP w'"

lemma w_ok_new: "hash_owner h \<Longrightarrow> w_ok (NewWorker h c)"
  by (simp add: w_ok_def NewWorker_def sl_ok_new pool_ok_def ready_set_def) (simp add: newTxSortedList_def)

lemma w_reach_ok: "w_reach as hs ip w \<Longrightarrow> w_ok w"
proof (induction rule: w_reach.induct)
  case (w_add w st p w' rep why)
  then show ?case using addTxTracker_ok [of w as ip st p] by auto
next
  case (w_after w addr touched w' del)
  then show ?case using UpdateAfter_ok [of w as addr touched] by auto
next
  case (w_notReady w x addr nonce balance w' del)
  then show ?case
    using applyAddressUpdate_ok [OF w_ok_resetWipTx, of w as x addr nonce balance] by (auto simp: MoveTxToNotReady_def)
next
  case (w_delete w x addr w')
  then show ?case using w_deleteTx_ok [OF w_ok_resetWipTx, of w as hs x x addr] by (auto simp: w_DeleteTx_def)
next
  case (w_delForced w x addr)
  then show ?case by (auto simp: w_DeleteForcedTx_def deleteForcedTx_def q_ok_irrelevant intro!: updateQueue_ok)
next
  case (w_addForced w x addr)
  then show ?case by (auto simp: w_AddForcedTx_def addForcedTx_def q_ok_irrelevant intro!: updateQueue_ok)
next
  case (w_move w x addr w')
  then show ?case using MoveTxPendingToStore_ok [of w as hs x addr] by auto
next
  case (w_restore w st w' dropped replaced)
  then show ?case using RestoreTxsPendingToStore_ok [of w as ip st] by auto
next
  case (w_best w nGo schedule remaining high w' best)
  then show ?case using GetBestFittingTx_frame w_ok_frame by metis
next
  case (w_expire w maxTime now w' txs)
  then show ?case using expireQueues_ok [of w maxTime now "map fst (pool w)"] by (auto simp: w_ExpireTransactions_def)
qed (auto simp: w_ok_new w_UpdateTxZKCounters_ok intro: DeleteTxPendingToStore_ok)

section \<open>Properties\<close>

text \<open>A worker over the sample heap, for the concrete instances below: two senders, two transactions of the first with one nonce.\<close>

definition worker_heap :: heap where
  "worker_heap = (\<lambda>_. (sample_tracker ''0xa'' 7 10 100)\<lparr>txHash := [10]\<rparr>)
     (1 := (sample_tracker ''0xb'' 3 20 100)\<lparr>txHash := [11], From := [2], FromStr := ''0x2''\<rparr>,
      2 := (sample_tracker ''0xc'' 7 20 100)\<lparr>txHash := [12]\<rparr>)"

definition sample_state :: stateInterface where
  "sample_state = \<lparr>GetLastStateRoot = Some zero_hash, GetNonceByStateRoot = (\<lambda>a r. Some (if a = [1] then 7 else 3)),
     GetBalanceByStateRoot = (\<lambda>a r. Some 500)\<rparr>"

definition sample_addrString :: "bytes \<Rightarrow> string" where
  "sample_addrString a = (if a = [1] then ''0x1'' else ''0x2'')"

definition sample_cfg :: BatchConstraintsCfg where
  "sample_cfg = \<lparr>MaxTxsPerBatch = 300, MaxBatchBytesSize = 120000, MaxCumulativeGasUsed = 30000000,
     MaxKeccakHashes = 2145, MaxPoseidonHashes = 252357, MaxPoseidonPaddings = 135191, MaxMemAligns = 236585,
     MaxArithmetics = 236585, MaxBinaries = 473170, MaxSteps = 7570538, MaxSHA256Hashes = 1596\<rparr>"

definition sample_add :: "Worker \<Rightarrow> ptr \<Rightarrow> Worker" where
  "sample_add w p = fst (the (addTxTracker sample_addrString (\<lambda>_. True) sample_state w p))"

definition sample_worker :: Worker where
  "sample_worker = sample_add (sample_add (NewWorker worker_heap sample_cfg) 0) 1"

lemma hash_owner_worker_heap: "hash_owner worker_heap"
  by (auto simp: hash_owner_def worker_heap_def sample_tracker_def)

lemma sample_add_reach:
  assumes "w_reach sample_addrString hs (\<lambda>_. True) w"
  shows "w_reach sample_addrString hs (\<lambda>_. True) (sample_add w p)"
  using addTxTracker_ok [OF w_reach_ok [OF assms], of sample_addrString "\<lambda>_. True" sample_state p]
  by (auto simp: sample_add_def intro: w_add [OF assms])

lemma sample_worker_reach: "w_reach sample_addrString (\<lambda>_. []) (\<lambda>_. True) sample_worker"
  unfolding sample_worker_def by (intro sample_add_reach w_new hash_owner_worker_heap)

lemma sample_worker_sorted: "GetSorted (sortedList sample_worker) = [1, 0]"
  by code_simp

text \<open>
  C22: the invariant of the worker.  In every reachable state the sorted list holds exactly the
  ready transactions of the senders' queues, each hash once, in descending order of gas price.
\<close>

theorem worker_sorted_ready:
  assumes "w_reach addrString hashString validIP w"
  shows "set (GetSorted (sortedList w)) = {p. \<exists>k q. map_of (pool w) k = Some q \<and> readyTx q = Some p}
    \<and> distinct (hashes (w_heap w) (GetSorted (sortedList w)))
    \<and> sorted_wrt (\<lambda>p q. GasPrice (w_heap w p) \<ge> GasPrice (w_heap w q)) (GetSorted (sortedList w))"
  using w_reach_ok [OF assms]
  by (simp add: w_ok_def GetSorted_def ready_set_def sl.ordered) (simp add: sl_ok_def)

theorem worker_sorted_ready_witness:
  "GetSorted (sortedList sample_worker) = [1, 0]
   \<and> (\<exists>k q. map_of (pool sample_worker) k = Some q \<and> readyTx q = Some 0)"
proof -
  have "0 \<in> set (GetSorted (sortedList sample_worker))" by (simp add: sample_worker_sorted)
  then show ?thesis
    unfolding worker_sorted_ready [OF sample_worker_reach, THEN conjunct1] by (simp add: sample_worker_sorted)
qed

text \<open>
  C23: the worker does not panic.  In every reachable state adding a transaction, updating or moving
  the transactions of an address, deleting, storing, restoring and expiring transactions all return.
\<close>

theorem worker_never_panics:
  assumes "w_reach addrString hashString validIP w"
  shows "addTxTracker addrString validIP st w p \<noteq> None
    \<and> UpdateAfterSingleSuccessfulTxExecution addrString w addr touched \<noteq> None
    \<and> MoveTxToNotReady addrString w x addr nonce balance \<noteq> None
    \<and> w_DeleteTx addrString hashString w x addr \<noteq> None
    \<and> MoveTxPendingToStore addrString hashString w x addr \<noteq> None
    \<and> RestoreTxsPendingToStore addrString validIP st w \<noteq> None
    \<and> w_ExpireTransactions maxTime now w \<noteq> None"
proof (intro conjI)
  note ok = w_reach_ok [OF assms]
  note ok' = w_ok_resetWipTx [OF ok, of x]
  show "addTxTracker addrString validIP st w p \<noteq> None" using addTxTracker_ok [OF ok, of addrString validIP st p] by auto
  show "UpdateAfterSingleSuccessfulTxExecution addrString w addr touched \<noteq> None"
    using UpdateAfter_ok [OF ok, of addrString addr touched] by auto
  show "MoveTxToNotReady addrString w x addr nonce balance \<noteq> None"
    using applyAddressUpdate_ok [OF ok', of addrString addr nonce balance] by (auto simp: MoveTxToNotReady_def)
  show "w_DeleteTx addrString hashString w x addr \<noteq> None"
    using w_deleteTx_ok [OF ok', of addrString hashString x addr] by (auto simp: w_DeleteTx_def)
  show "MoveTxPendingToStore addrString hashString w x addr \<noteq> None"
    using MoveTxPendingToStore_ok [OF ok, of addrString hashString x addr] by auto
  show "RestoreTxsPendingToStore addrString validIP st w \<noteq> None"
    using RestoreTxsPendingToStore_ok [OF ok, of addrString validIP st] by auto
  show "w_ExpireTransactions maxTime now w \<noteq> None"
    using expireQueues_ok [OF ok, of maxTime now "map fst (pool w)"] by (auto simp: w_ExpireTransactions_def)
qed

theorem worker_never_panics_witness:
  "RestoreTxsPendingToStore sample_addrString (\<lambda>_. True) sample_state sample_worker \<noteq> None"
  by (insert worker_never_panics [OF sample_worker_reach, of sample_state 0 "[]" "[]" "[]" None None 0 0], elim conjE, assumption)

definition tx_fits :: "heap \<Rightarrow> BatchResources \<Rightarrow> ZKCounters \<Rightarrow> ptr \<Rightarrow> bool" where
  "tx_fits h remaining high p \<longleftrightarrow>
     fst (BatchResources_Fits remaining
       \<lparr>resZKCounters = fst (getNeededZKCounters high (UsedZKCounters (h p)) (ReservedZKCounters (h p))), Bytes = txBytes (h p)\<rparr>)"

lemma candidateFits_tx_fits: "candidateFits h e remaining high i = tx_fits h remaining high (txSorted e ! i)"
  by (simp add: candidateFits_def tx_fits_def Let_def)

lemma GetBestFittingTx_cases:
  assumes "GetBestFittingTx nGo schedule w remaining high = Some (w', best)" and "reorgedTxs w = []"
  defines "r \<equiv> searchResult (candidateFits (w_heap w) (sortedList w) remaining high) (sl_len (sortedList w)) nGo schedule"
  shows "sl_len (sortedList w) = 0 \<and> best = ErrTransactionsListEmpty
    \<or> r = Some None \<and> best = ErrNoFittingTransaction
    \<or> (\<exists>i p. r = Some (Some i) \<and> getByIndex (sortedList w) i = Some p \<and> best = BestTx p \<and> wipTx w' = Some p)"
proof (cases "sl_len (sortedList w) = 0")
  case True
  then show ?thesis using assms(1,2) by (simp add: GetBestFittingTx_def)
next
  case False
  consider "r = None" | "r = Some None" | i where "r = Some (Some i)" by (metis option.exhaust)
  then show ?thesis
    using assms(1,2) False
    by cases (auto simp: GetBestFittingTx_def r_def [symmetric] split: option.splits)
qed

text \<open>
  C24: \<open>GetBestFittingTx\<close> selects the best transaction.  In a reachable state without reorged
  transactions, under any schedule long enough for the goroutines to finish, the transaction it
  returns is ready for its sender and fits the batch, and every ready transaction that pays more
  does not fit; and it reports that nothing fits only if no ready transaction does.
\<close>

theorem GetBestFittingTx_best:
  assumes reach: "w_reach addrString hashString validIP w" and noreorg: "reorgedTxs w = []" and pos: "0 < nGo"
    and run: "GetBestFittingTx nGo schedule w remaining high = Some (w', best)"
  shows "case best of
      BestTx p \<Rightarrow> p \<in> ready_set (pool w) \<and> tx_fits (w_heap w) remaining high p \<and> wipTx w' = Some p
        \<and> (\<forall>q \<in> ready_set (pool w). GasPrice (w_heap w q) > GasPrice (w_heap w p) \<longrightarrow> \<not> tx_fits (w_heap w) remaining high q)
    | ErrNoFittingTransaction \<Rightarrow> \<forall>q \<in> ready_set (pool w). \<not> tx_fits (w_heap w) remaining high q
    | ErrTransactionsListEmpty \<Rightarrow> ready_set (pool w) = {}"
proof -
  let ?e = "sortedList w" and ?h = "w_heap w"
  let ?fits = "candidateFits ?h ?e remaining high"
  have ok: "sl_ok ?h ?e" and set: "set (txSorted ?e) = ready_set (pool w)" using w_reach_ok [OF reach] by (auto simp: w_ok_def)
  note first = searchResult_firstFit [OF _ pos, of ?fits "sl_len ?e"]
  show ?thesis
  proof (cases best)
    case (BestTx p)
    then obtain i where i: "searchResult ?fits (sl_len ?e) nGo schedule = Some (Some i)" "getByIndex ?e i = Some p" "wipTx w' = Some p"
      using GetBestFittingTx_cases [OF run noreorg] by auto
    then have p: "i < sl_len ?e" "?fits i" "\<forall>j < i. \<not> ?fits j"
      using firstFit_Some [THEN iffD1, OF first [OF i(1), symmetric]] by blast+
    with i(2) have pi: "p = txSorted ?e ! i" by (simp add: getByIndex_def split: if_splits)
    have "\<not> tx_fits ?h remaining high q" if q: "q \<in> ready_set (pool w)" "GasPrice (?h q) > GasPrice (?h p)" for q
    proof -
      obtain j where j: "j < length (txSorted ?e)" "txSorted ?e ! j = q" using q(1) set by (metis in_set_conv_nth)
      have "j < i"
      proof (rule ccontr)
        assume "\<not> j < i"
        then have "GasPrice (?h q) \<le> GasPrice (?h p)"
          using sorted_wrt_nth_less [OF sl.ordered [OF ok], of i j] j p pi by (cases "i = j") auto
        with q(2) show False by simp
      qed
      with p(3) j(2) pi show ?thesis by (auto simp: candidateFits_tx_fits)
    qed
    moreover have "p \<in> ready_set (pool w)" unfolding pi set [symmetric] using p(1) by (simp add: sl_len_def)
    ultimately show ?thesis using BestTx p(2) pi i(3) by (simp add: candidateFits_tx_fits)
  next
    case ErrTransactionsListEmpty
    then have "sl_len ?e = 0" using GetBestFittingTx_cases [OF run noreorg] by auto
    with set ErrTransactionsListEmpty show ?thesis by (simp add: sl_len_def)
  next
    case ErrNoFittingTransaction
    then have "searchResult ?fits (sl_len ?e) nGo schedule = Some None"
      using GetBestFittingTx_cases [OF run noreorg] by auto
    then have "\<forall>j < sl_len ?e. \<not> ?fits j" using first firstFit_None [of ?fits "sl_len ?e"] by auto
    then have "\<not> tx_fits ?h remaining high q" if "q \<in> ready_set (pool w)" for q
      using that unfolding set [symmetric] in_set_conv_nth sl_len_def candidateFits_tx_fits by blast
    then show ?thesis by (simp add: ErrNoFittingTransaction)
  qed
qed

theorem GetBestFittingTx_best_witness:
  "\<exists>w'. GetBestFittingTx 2 [0, 1, 0, 1, 0, 1] sample_worker \<lparr>resZKCounters = no_counters, Bytes = 500\<rparr> no_counters
      = Some (w', BestTx 1) \<and> 1 \<in> ready_set (pool sample_worker)"
proof -
  let ?r = "GetBestFittingTx 2 [0, 1, 0, 1, 0, 1] sample_worker \<lparr>resZKCounters = no_counters, Bytes = 500\<rparr> no_counters"
  have "map_option snd ?r = Some (BestTx 1)" by code_simp
  then obtain w' where r: "?r = Some (w', BestTx 1)" by auto
  have "reorgedTxs sample_worker = []" by code_simp
  from GetBestFittingTx_best [OF sample_worker_reach this _ r] r show ?thesis by simp
qed

lemma deletePendingLoop_none:
  "(\<forall>j. i \<le> j \<and> j < length arr \<longrightarrow> txHash (h (arr ! j)) \<noteq> x) \<Longrightarrow> deletePendingLoop h x i arr m = Some (take m arr)"
  by (induction h x i arr m rule: deletePendingLoop.induct) (subst deletePendingLoop.simps, simp)

lemma deletePendingLoop_hit:
  assumes "distinct (map (\<lambda>p. txHash (h p)) arr)" and "i < length arr" and "txHash (h (arr ! i)) = x"
  shows "deletePendingLoop h x i arr (length arr) = Some (filter (\<lambda>p. txHash (h p) \<noteq> x) arr)"
proof -
  let ?n = "length arr"
  let ?arr = "take i arr @ drop (i + 1) arr @ drop (?n - 1) arr"
  have other: "txHash (h (arr ! j)) \<noteq> x" if "j < ?n" "j \<noteq> i" for j
    using assms that by (auto simp: distinct_conv_nth)
  have "txHash (h (?arr ! j)) \<noteq> x" if j: "i + 1 \<le> j" "j < length ?arr" for j
  proof (cases "j < ?n - 1")
    case True
    then have "?arr ! j = arr ! (j + 1)" using j assms(2) by (auto simp: nth_append)
    then show ?thesis using other [of "j + 1"] True j(1) by simp
  next
    case False
    then have "j = ?n - 1" using j assms(2) by auto
    then show ?thesis using other [of "?n - 1"] j assms(2) by (simp add: nth_append)
  qed
  then have "deletePendingLoop h x (i + 1) ?arr (?n - 1) = Some (take (?n - 1) ?arr)"
    by (intro deletePendingLoop_none) blast
  moreover have "filter (\<lambda>p. txHash (h p) \<noteq> x) arr = take i arr @ drop (i + 1) arr"
  proof -
    have "txHash (h p) \<noteq> x" if "p \<in> set (take i arr) \<union> set (drop (i + 1) arr)" for p
      using that
    proof
      assume "p \<in> set (take i arr)"
      then obtain j where "j < i" "p = arr ! j" using assms(2) by (auto simp: in_set_conv_nth)
      then show ?thesis using other [of j] assms(2) by simp
    next
      assume "p \<in> set (drop (i + 1) arr)"
      then obtain j where "j < ?n - (i + 1)" "p = arr ! (i + 1 + j)" by (auto simp: in_set_conv_nth)
      then show ?thesis using other [of "i + 1 + j"] by simp
    qed
    then show ?thesis using assms(2,3) by (subst id_take_nth_drop [OF assms(2)]) (simp add: filter_id_conv ball_Un)
  qed
  ultimately show ?thesis using assms(2,3) by (subst deletePendingLoop.simps) simp
qed

lemma deletePendingLoop_distinct:
  assumes "distinct (map (\<lambda>p. txHash (h p)) arr)" and "\<forall>j < i. j < length arr \<longrightarrow> txHash (h (arr ! j)) \<noteq> x"
  shows "deletePendingLoop h x i arr (length arr) = Some (filter (\<lambda>p. txHash (h p) \<noteq> x) arr)"
  using assms
proof (induction "length arr - i" arbitrary: i)
  case 0
  then have i: "length arr \<le> i" by simp
  with 0 have "\<forall>p \<in> set arr. txHash (h p) \<noteq> x" by (metis in_set_conv_nth order_less_le_trans)
  then have "filter (\<lambda>p. txHash (h p) \<noteq> x) arr = arr" by (simp add: filter_id_conv)
  with i show ?case by (simp add: deletePendingLoop.simps [of h x i])
next
  case (Suc n)
  show ?case
  proof (cases "txHash (h (arr ! i)) = x")
    case True
    with Suc show ?thesis by (intro deletePendingLoop_hit) auto
  next
    case False
    with Suc.prems have "\<forall>j < Suc i. j < length arr \<longrightarrow> txHash (h (arr ! j)) \<noteq> x" by (auto simp: less_Suc_eq)
    then have "deletePendingLoop h x (Suc i) arr (length arr) = Some (filter (\<lambda>p. txHash (h p) \<noteq> x) arr)"
      using Suc.hyps(2) by (intro Suc.hyps(1) Suc.prems(1)) auto
    with Suc.hyps(2) False show ?thesis by (subst deletePendingLoop.simps) simp
  qed
qed

text \<open>
  A transaction that has been stored leaves the list of those that wait for it.  As long as the
  list holds a hash once, \<open>DeleteTxPendingToStore\<close> removes exactly that transaction, keeps the order
  of the others and does not touch the pool's ready transactions.
\<close>

lemma DeleteTxPendingToStore_removes:
  assumes "distinct (map (\<lambda>p. txHash (w_heap w p)) (pendingToStore w))"
  shows "\<exists>w'. DeleteTxPendingToStore addrString w hash addr = Some w'
    \<and> pendingToStore w' = filter (\<lambda>p. txHash (w_heap w p) \<noteq> hash) (pendingToStore w)
    \<and> w_heap w' = w_heap w \<and> sortedList w' = sortedList w"
  using deletePendingLoop_distinct [OF assms, of 0 hash]
  by (simp add: DeleteTxPendingToStore_def updateQueue_def split: option.split)

lemma restoreTxs_replaced: "restoreTxs as ip st w d r ps = Some (w', d', r') \<Longrightarrow> r' = r"
  by (induction as ip st w d r ps rule: restoreTxs.induct) (auto simp: Let_def split: option.splits)

text \<open>
  After a reorg the caller never learns which transactions were replaced.  Whatever happens
  while the transactions are added again, \<open>RestoreTxsPendingToStore\<close> returns an empty list of
  replaced transactions.
\<close>

lemma RestoreTxs_replaced_lost:
  assumes "RestoreTxsPendingToStore addrString validIP st w = Some (w', dropped, replaced)"
  shows "replaced = []"
  using assms by (auto simp: RestoreTxsPendingToStore_def Let_def split: option.splits dest: restoreTxs_replaced)


end
