(* ===== verification/BlockRanges.thy ===== *)
theory BlockRanges
  imports Prelude "HOL-Library.Multiset"
begin

text \<open>
  Ranges of L1 blocks and the lists of live ranges of the parallel synchronizer
  (\<open>synchronizer/l1_parallel_sync/block_range.go\<close>, \<open>l1_live_block_ranges.go\<close> and the \<open>min\<close> and
  \<open>max\<close> of \<open>l1_common.go\<close>).  The list is an implementation of a set of blocks: adding refuses what
  overlaps, so the ranges stay disjoint.
\<close>

section \<open>A range of blocks\<close>

definition latestBlockNumber :: uint64 where
  "latestBlockNumber = - 1"

definition invalidBlockNumber :: uint64 where
  "invalidBlockNumber = 0"

datatype range_error =
    errBlockRangeInvalidIsNil | errBlockRangeInvalidIsZero | errBlockRangeInvalidIsWrong
  | errBlockRangeInvalidOverlap | errBlockRangeNotFound | errBlockRangeIsEmpty

record blockRange =
  fromBlock :: uint64
  toBlock :: uint64

definition go_min :: "uint64 \<Rightarrow> uint64 \<Rightarrow> uint64" where
  "go_min a b = (if a < b then a else b)"

definition go_max :: "uint64 \<Rightarrow> uint64 \<Rightarrow> uint64" where
  "go_max a b = (if a > b then a else b)"

definition br_len :: "blockRange \<Rightarrow> uint64" where
  "br_len b = (if toBlock b = latestBlockNumber \<or> fromBlock b = latestBlockNumber then 0
     else toBlock b - fromBlock b + 1)"

text \<open>A nil receiver is \<open>None\<close>; the result is the error, if any.\<close>

definition isValid :: "blockRange option \<Rightarrow> range_error option" where
  "isValid br =
     (case br of
        None \<Rightarrow> Some errBlockRangeInvalidIsNil
      | Some b \<Rightarrow>
          if fromBlock b = invalidBlockNumber \<or> toBlock b = invalidBlockNumber then Some errBlockRangeInvalidIsZero
          else if fromBlock b > toBlock b then Some errBlockRangeInvalidIsWrong
          else None)"

definition br_overlaps :: "blockRange \<Rightarrow> blockRange \<Rightarrow> bool" where
  "br_overlaps b br \<longleftrightarrow> fromBlock b \<le> toBlock br \<and> fromBlock br \<le> toBlock b"

section \<open>A list of ranges\<close>

text \<open>An item of the list holds nothing but its range.\<close>

record liveBlockRanges =
  ranges :: "blockRange list"

definition newLiveBlockRanges :: liveBlockRanges where
  "newLiveBlockRanges = \<lparr>ranges = []\<rparr>"

definition lr_len :: "liveBlockRanges \<Rightarrow> nat" where
  "lr_len l = length (ranges l)"

definition lr_overlaps :: "liveBlockRanges \<Rightarrow> blockRange \<Rightarrow> bool" where
  "lr_overlaps l br = list_ex (\<lambda>r. br_overlaps r br) (ranges l)"

definition addBlockRange :: "liveBlockRanges \<Rightarrow> blockRange \<Rightarrow> liveBlockRanges \<times> range_error option" where
  "addBlockRange l br =
     (case isValid (Some br) of
        Some e \<Rightarrow> (l, Some e)
      | None \<Rightarrow>
          if lr_overlaps l br then (l, Some errBlockRangeInvalidOverlap)
          else (l\<lparr>ranges := ranges l @ [br]\<rparr>, None))"

definition removeBlockRange :: "liveBlockRanges \<Rightarrow> blockRange \<Rightarrow> liveBlockRanges \<times> range_error option" where
  "removeBlockRange l br =
     (if br \<in> set (ranges l) then (l\<lparr>ranges := remove1 br (ranges l)\<rparr>, None)
      else (l, Some errBlockRangeNotFound))"

definition getFirstBlockRange :: "liveBlockRanges \<Rightarrow> range_error + blockRange" where
  "getFirstBlockRange l = (case ranges l of [] \<Rightarrow> Inl errBlockRangeIsEmpty | r # _ \<Rightarrow> Inr r)"

definition superStep :: "blockRange \<Rightarrow> nat \<times> uint64 \<times> uint64 \<Rightarrow> nat \<times> uint64 \<times> uint64" where
  "superStep r acc =
     (case acc of (i, f0, t0) \<Rightarrow>
        (let (f1, t1) = (if i = 0 then (fromBlock r, toBlock r) else (f0, t0));
             t2 = (if toBlock r > t1 then toBlock r else t1);
             f2 = (if fromBlock r < f1 then fromBlock r else f1)
         in (i + 1, f2, t2)))"

definition getSuperBlockRange :: "liveBlockRanges \<Rightarrow> blockRange option" where
  "getSuperBlockRange l =
     (case fold superStep (ranges l) (0, invalidBlockNumber, invalidBlockNumber) of
        (_, f, t) \<Rightarrow>
          (let res = \<lparr>fromBlock = f, toBlock = t\<rparr>
           in if isValid (Some res) = None then Some res else None))"

section \<open>Ranges as sets of blocks\<close>

named_theorems range_defs \<open>definitions of the range operations\<close>

declare latestBlockNumber_def [range_defs] invalidBlockNumber_def [range_defs]
  addBlockRange_def [range_defs] removeBlockRange_def [range_defs] newLiveBlockRanges_def [range_defs]
  getFirstBlockRange_def [range_defs] lr_len_def [range_defs]

definition blocks_of :: "blockRange \<Rightarrow> uint64 set" where
  "blocks_of br = {b. fromBlock br \<le> b \<and> b \<le> toBlock br}"

definition br_valid :: "blockRange \<Rightarrow> bool" where
  "br_valid br \<longleftrightarrow> fromBlock br \<noteq> 0 \<and> fromBlock br \<le> toBlock br"

definition covered :: "liveBlockRanges \<Rightarrow> uint64 set" where
  "covered l = (\<Union>r \<in> set (ranges l). blocks_of r)"

definition disjoint_ranges :: "blockRange list \<Rightarrow> bool" where
  "disjoint_ranges rs \<longleftrightarrow> sorted_wrt (\<lambda>a b. \<not> br_overlaps a b) rs"

definition lr_ok :: "liveBlockRanges \<Rightarrow> bool" where
  "lr_ok l \<longleftrightarrow> (\<forall>r \<in> set (ranges l). br_valid r) \<and> disjoint_ranges (ranges l)"

lemma latest_max [simp]: "b \<le> latestBlockNumber"
  by (simp add: latestBlockNumber_def)

lemma unat_next_block: "x \<noteq> latestBlockNumber \<Longrightarrow> unat (x + 1) = unat x + 1"
proof -
  assume "x \<noteq> latestBlockNumber"
  then have "unat x \<noteq> unat (- 1 :: uint64)" unfolding latestBlockNumber_def word_unat_eq_iff .
  then have "unat x \<noteq> 2 ^ 64 - 1" by (simp add: unsigned_minus_1_eq_mask mask_eq_exp_minus_1)
  moreover have "unat x < 2 ^ 64" using unsigned_less [of x, where ?'a = nat] by simp
  ultimately show ?thesis by (intro unat_plus_one) simp
qed

lemma next_block:
  assumes "x \<noteq> latestBlockNumber"
  shows "y < x + 1 \<longleftrightarrow> y \<le> x" and "x + 1 \<le> y \<longleftrightarrow> x < y" and "x + 1 \<noteq> 0"
proof -
  note u = unat_next_block [OF assms]
  show "y < x + 1 \<longleftrightarrow> y \<le> x" unfolding word_less_nat_alt word_le_nat_alt u by linarith
  show "x + 1 \<le> y \<longleftrightarrow> x < y" unfolding word_less_nat_alt word_le_nat_alt u by linarith
  show "x + 1 \<noteq> 0" using u by (metis add_is_0 one_neq_zero unat_0)
qed

lemma isValid_None: "isValid (Some br) = None \<longleftrightarrow> br_valid br"
  by (auto simp: isValid_def br_valid_def invalidBlockNumber_def)

lemma br_overlaps_iff:
  assumes "br_valid a" and "br_valid b"
  shows "br_overlaps a b \<longleftrightarrow> blocks_of a \<inter> blocks_of b \<noteq> {}"
proof
  assume "br_overlaps a b"
  then have "max (fromBlock a) (fromBlock b) \<in> blocks_of a \<inter> blocks_of b"
    using assms by (auto simp: br_overlaps_def blocks_of_def br_valid_def max_def)
  then show "blocks_of a \<inter> blocks_of b \<noteq> {}" by blast
next
  assume "blocks_of a \<inter> blocks_of b \<noteq> {}"
  then show "br_overlaps a b" by (auto simp: br_overlaps_def blocks_of_def intro: order_trans)
qed

lemma br_overlaps_sym: "br_overlaps a b = br_overlaps b a"
  by (auto simp: br_overlaps_def)

lemma blocks_of_nonempty: "br_valid r \<Longrightarrow> fromBlock r \<in> blocks_of r \<and> toBlock r \<in> blocks_of r"
  by (simp add: blocks_of_def br_valid_def)

lemma lr_overlaps_iff:
  assumes "lr_ok l" and "br_valid br"
  shows "lr_overlaps l br \<longleftrightarrow> covered l \<inter> blocks_of br \<noteq> {}"
  using assms br_overlaps_iff by (auto simp: lr_overlaps_def covered_def lr_ok_def list_ex_iff)

lemma disjoint_ranges_remove1: "disjoint_ranges rs \<Longrightarrow> disjoint_ranges (remove1 r rs)"
  unfolding disjoint_ranges_def by (induction rs) (auto dest: set_remove1_subset [THEN subsetD])

lemma disjoint_ranges_covered:
  assumes "\<forall>r \<in> set rs. br_valid r" and "disjoint_ranges rs" and "r \<in> set rs"
  shows "(\<Union>x \<in> set (remove1 r rs). blocks_of x) = (\<Union>x \<in> set rs. blocks_of x) - blocks_of r"
  using assms
proof (induction rs)
  case (Cons a rs)
  have disj: "blocks_of a \<inter> blocks_of x = {}" if "x \<in> set rs" for x
    using Cons.prems that br_overlaps_iff [of a x] by (auto simp: disjoint_ranges_def)
  show ?case
  proof (cases "a = r")
    case True
    then show ?thesis using disj by auto
  next
    case False
    then have "(\<Union>x \<in> set (remove1 r rs). blocks_of x) = (\<Union>x \<in> set rs. blocks_of x) - blocks_of r"
      using Cons by (auto simp: disjoint_ranges_def)
    moreover have "blocks_of a \<inter> blocks_of r = {}" using disj Cons.prems(3) False by auto
    ultimately show ?thesis using False by auto
  qed
qed simp

section \<open>The contract of a store of ranges\<close>

text \<open>
  What the synchronization status relies on: a store keeps disjoint valid ranges, adding one
  succeeds exactly when it is valid and touches no block of the store, removing one frees exactly
  its blocks.
\<close>

locale range_store =
  fixes empty :: 's
    and add :: "'s \<Rightarrow> blockRange \<Rightarrow> 's \<times> range_error option"
    and remove :: "'s \<Rightarrow> blockRange \<Rightarrow> 's \<times> range_error option"
    and members :: "'s \<Rightarrow> blockRange set"
    and inv :: "'s \<Rightarrow> bool"
  assumes empty_inv: "inv empty" and members_empty: "members empty = {}"
    and members_valid: "inv s \<Longrightarrow> r \<in> members s \<Longrightarrow> br_valid r"
    and members_disjoint: "inv s \<Longrightarrow> r \<in> members s \<Longrightarrow> r' \<in> members s \<Longrightarrow> r \<noteq> r' \<Longrightarrow> blocks_of r \<inter> blocks_of r' = {}"
    and add_ok: "inv s \<Longrightarrow> br_valid r \<Longrightarrow> \<forall>x \<in> members s. blocks_of x \<inter> blocks_of r = {} \<Longrightarrow>
      snd (add s r) = None \<and> inv (fst (add s r)) \<and> members (fst (add s r)) = insert r (members s)"
    and add_refused: "snd (add s r) \<noteq> None \<Longrightarrow> fst (add s r) = s"
    and remove_ok: "inv s \<Longrightarrow> r \<in> members s \<Longrightarrow>
      snd (remove s r) = None \<and> inv (fst (remove s r)) \<and> members (fst (remove s r)) = members s - {r}"
    and remove_missing: "r \<notin> members s \<Longrightarrow> remove s r = (s, Some errBlockRangeNotFound)"
begin

text \<open>Moving a range from one store to another that shares no block with it succeeds.\<close>

lemma move_ok:
  assumes "inv s" "inv t" "r \<in> members s" "\<forall>x \<in> members t. blocks_of x \<inter> blocks_of r = {}"
  shows "snd (remove s r) = None \<and> snd (add t r) = None \<and> inv (fst (remove s r)) \<and> inv (fst (add t r))
    \<and> members (fst (remove s r)) \<union> members (fst (add t r)) = members s \<union> members t"
  using remove_ok [OF assms(1,3)] add_ok [OF assms(2) members_valid [OF assms(1,3)] assms(4)] assms(3) by auto

end

lemma lr_ok_distinct: "lr_ok l \<Longrightarrow> distinct (ranges l)"
proof -
  assume ok: "lr_ok l"
  have "distinct rs" if "\<forall>r \<in> set rs. br_valid r" "disjoint_ranges rs" for rs
    using that
  proof (induction rs)
    case (Cons a rs)
    have "a \<notin> set rs"
      using Cons.prems by (auto simp: disjoint_ranges_def br_overlaps_def br_valid_def)
    with Cons show ?case by (auto simp: disjoint_ranges_def)
  qed simp
  with ok show ?thesis by (simp add: lr_ok_def)
qed

lemma lr_ok_disjoint:
  assumes "lr_ok l" "r \<in> set (ranges l)" "r' \<in> set (ranges l)" "r \<noteq> r'"
  shows "blocks_of r \<inter> blocks_of r' = {}"
proof -
  obtain i j where ij: "i < length (ranges l)" "j < length (ranges l)" "r = ranges l ! i" "r' = ranges l ! j" "i \<noteq> j"
    using assms(2-4) by (metis in_set_conv_nth)
  then have "\<not> br_overlaps r r'"
    using assms(1) br_overlaps_sym
    by (metis lr_ok_def disjoint_ranges_def sorted_wrt_iff_nth_less linorder_neqE_nat)
  with assms br_overlaps_iff show ?thesis by (auto simp: lr_ok_def)
qed

lemma addBlockRange_ok:
  assumes "lr_ok l" and "br_valid r" and "\<forall>x \<in> set (ranges l). blocks_of x \<inter> blocks_of r = {}"
  shows "addBlockRange l r = (l\<lparr>ranges := ranges l @ [r]\<rparr>, None)" and "lr_ok (l\<lparr>ranges := ranges l @ [r]\<rparr>)"
proof -
  have no: "\<not> br_overlaps x r" if "x \<in> set (ranges l)" for x
    using assms that br_overlaps_iff by (auto simp: lr_ok_def)
  then show "addBlockRange l r = (l\<lparr>ranges := ranges l @ [r]\<rparr>, None)"
    using assms(2) by (auto simp: addBlockRange_def isValid_None [THEN iffD2] lr_overlaps_def list_ex_iff)
  show "lr_ok (l\<lparr>ranges := ranges l @ [r]\<rparr>)"
    using assms(1,2) no by (auto simp: lr_ok_def disjoint_ranges_def sorted_wrt_append)
qed

lemma removeBlockRange_ok:
  assumes "lr_ok l" and "r \<in> set (ranges l)"
  shows "removeBlockRange l r = (l\<lparr>ranges := remove1 r (ranges l)\<rparr>, None)" and "lr_ok (l\<lparr>ranges := remove1 r (ranges l)\<rparr>)"
  using assms disjoint_ranges_remove1
  by (auto simp: removeBlockRange_def lr_ok_def dest: set_remove1_subset [THEN subsetD])

interpretation lrs: range_store newLiveBlockRanges addBlockRange removeBlockRange "\<lambda>l. set (ranges l)" lr_ok
proof (unfold_locales, goal_cases)
  case 1 show ?case by (simp add: lr_ok_def newLiveBlockRanges_def disjoint_ranges_def)
next
  case 2 show ?case by (simp add: newLiveBlockRanges_def)
next
  case (3 s r) then show ?case by (simp add: lr_ok_def)
next
  case (4 s r r') then show ?case by (rule lr_ok_disjoint)
next
  case (5 s r) then show ?case using addBlockRange_ok [of s r] by simp
next
  case (6 s r) then show ?case by (auto simp: addBlockRange_def split: option.splits if_splits)
next
  case (7 s r) then show ?case using removeBlockRange_ok [of s r] lr_ok_distinct by (simp add: set_remove1_eq)
next
  case (8 r s) then show ?case by (simp add: removeBlockRange_def)
qed

text \<open>
  A list of ranges tiles its blocks when the ranges are valid and disjoint, in whatever order they
  are listed.
\<close>

definition tiles :: "blockRange list \<Rightarrow> bool" where
  "tiles rs \<longleftrightarrow> (\<forall>r \<in> set rs. br_valid r) \<and> disjoint_ranges rs"

definition blocks_in :: "blockRange list \<Rightarrow> uint64 set" where
  "blocks_in rs = (\<Union>r \<in> set rs. blocks_of r)"

lemma lr_ok_tiles: "lr_ok l = tiles (ranges l)"
  by (simp add: lr_ok_def tiles_def)

lemma tiles_iff:
  "tiles rs \<longleftrightarrow> (\<forall>r \<in> set rs. br_valid r) \<and> distinct rs
     \<and> (\<forall>r \<in> set rs. \<forall>r' \<in> set rs. r \<noteq> r' \<longrightarrow> blocks_of r \<inter> blocks_of r' = {})"  (is "_ \<longleftrightarrow> ?rhs")
proof
  assume "tiles rs"
  then have ok: "lr_ok \<lparr>ranges = rs\<rparr>" by (simp add: lr_ok_tiles)
  show ?rhs
  proof (intro conjI ballI impI)
    show "br_valid r" if "r \<in> set rs" for r using ok that by (simp add: lr_ok_def)
    show "distinct rs" using lr_ok_distinct [OF ok] by simp
    show "blocks_of r \<inter> blocks_of r' = {}" if "r \<in> set rs" "r' \<in> set rs" "r \<noteq> r'" for r r'
      using lr_ok_disjoint [OF ok, of r r'] that by simp
  qed
next
  assume r: ?rhs
  have "\<not> br_overlaps (rs ! i) (rs ! j)" if "i < j" "j < length rs" for i j
  proof -
    have "rs ! i \<in> set rs" "rs ! j \<in> set rs" using that by simp_all
    moreover have "rs ! i \<noteq> rs ! j" using r that by (simp add: nth_eq_iff_index_eq)
    ultimately show ?thesis using r br_overlaps_iff by metis
  qed
  then show "tiles rs" using r unfolding tiles_def disjoint_ranges_def sorted_wrt_iff_nth_less by blast
qed

lemma tiles_perm:
  assumes "mset rs = mset rs'"
  shows "tiles rs = tiles rs'"
  unfolding tiles_iff mset_eq_setD [OF assms] mset_eq_imp_distinct_iff [OF assms] ..

lemma tiles_Cons:
  "tiles (r # rs) \<longleftrightarrow> br_valid r \<and> tiles rs \<and> (\<forall>x \<in> set rs. blocks_of r \<inter> blocks_of x = {})"
proof -
  have "(\<forall>x \<in> set rs. \<not> br_overlaps r x) \<longleftrightarrow> (\<forall>x \<in> set rs. blocks_of r \<inter> blocks_of x = {})"
    if "br_valid r" "\<forall>x \<in> set rs. br_valid x"
    using that br_overlaps_iff by blast
  then show ?thesis by (auto simp: tiles_def disjoint_ranges_def)
qed

lemma tiles_append: "tiles (xs @ ys) \<Longrightarrow> tiles xs \<and> tiles ys"
  by (simp add: tiles_def disjoint_ranges_def sorted_wrt_append)

lemma tiles_shrink:
  "tiles (r # rs) \<Longrightarrow> br_valid r' \<Longrightarrow> blocks_of r' \<subseteq> blocks_of r \<Longrightarrow> tiles (r' # rs)"
  by (auto simp: tiles_Cons)

lemma blocks_in_Cons [simp]: "blocks_in (r # rs) = blocks_of r \<union> blocks_in rs" "blocks_in [] = {}"
  by (simp_all add: blocks_in_def)

lemma blocks_in_perm:
  assumes "mset rs = mset rs'"
  shows "blocks_in rs = blocks_in rs'"
  unfolding blocks_in_def mset_eq_setD [OF assms] ..

text \<open>The super range is the smallest one around all live ranges.\<close>

lemma superStep_fold:
  assumes "\<forall>r \<in> set rs. f \<le> t \<and> fromBlock r \<le> toBlock r" and "0 < i"
  shows "\<exists>f' t'. fold superStep rs (i, f, t) = (i + length rs, f', t')
    \<and> f' = foldr (\<lambda>r. min (fromBlock r)) rs f \<and> t' = foldr (\<lambda>r. max (toBlock r)) rs t"
  using assms
proof (induction rs arbitrary: i f t)
  case (Cons r rs)
  have step: "superStep r (i, f, t) = (i + 1, min (fromBlock r) f, max (toBlock r) t)"
    using Cons.prems(2) by (auto simp: superStep_def min_def max_def)
  have swap: "foldr (\<lambda>r. min (fromBlock r)) rs (min x y) = min x (foldr (\<lambda>r. min (fromBlock r)) rs y)"
    "foldr (\<lambda>r. max (toBlock r)) rs (max x y) = max x (foldr (\<lambda>r. max (toBlock r)) rs y)" for x y
    by (induction rs) (simp_all add: min.left_commute max.left_commute)
  have "\<forall>r' \<in> set rs. min (fromBlock r) f \<le> max (toBlock r) t \<and> fromBlock r' \<le> toBlock r'"
    using Cons.prems(1) by (auto intro: min.coboundedI1 max.coboundedI1 min.coboundedI2)
  from Cons.IH [OF this, of "i + 1"] step swap show ?case by simp
qed simp

lemma getSuperBlockRange_covers:
  assumes "lr_ok l" and "ranges l \<noteq> []"
  shows "\<exists>r. getSuperBlockRange l = Some r \<and> br_valid r \<and> covered l \<subseteq> blocks_of r
    \<and> fromBlock r \<in> covered l \<and> toBlock r \<in> covered l"
proof -
  obtain r rs where l: "ranges l = r # rs" using assms(2) by (cases "ranges l") auto
  define f where "f = foldr (\<lambda>r. min (fromBlock r)) rs (fromBlock r)"
  define t where "t = foldr (\<lambda>r. max (toBlock r)) rs (toBlock r)"
  have v: "br_valid x" if "x \<in> set (r # rs)" for x using assms(1) l that by (auto simp: lr_ok_def)
  have "superStep r (0, invalidBlockNumber, invalidBlockNumber) = (1, fromBlock r, toBlock r)"
    by (simp add: superStep_def)
  then have fold: "fold superStep (ranges l) (0, invalidBlockNumber, invalidBlockNumber) = (1 + length rs, f, t)"
    using superStep_fold [of rs "fromBlock r" "toBlock r" 1] v l by (simp add: f_def t_def br_valid_def)
  have bounds: "\<forall>x \<in> set (r # rs). f \<le> fromBlock x \<and> toBlock x \<le> t"
    unfolding f_def t_def by (induction rs) (auto simp: min_le_iff_disj le_max_iff_disj)
  have attained: "f \<in> fromBlock ` set (r # rs)" "t \<in> toBlock ` set (r # rs)"
    unfolding f_def t_def by (induction rs) (auto simp: min_def max_def)
  then have mem: "f \<in> covered l" "t \<in> covered l"
    using blocks_of_nonempty v l by (auto simp: covered_def)
  have "f \<noteq> 0" using attained(1) v by (auto simp: br_valid_def)
  moreover have "f \<le> t" using bounds v [of r] by (auto simp: br_valid_def intro: order_trans)
  ultimately have valid: "br_valid \<lparr>fromBlock = f, toBlock = t\<rparr>" by (simp add: br_valid_def)
  then have "getSuperBlockRange l = Some \<lparr>fromBlock = f, toBlock = t\<rparr>"
    using isValid_None by (simp add: getSuperBlockRange_def fold Let_def)
  moreover have "covered l \<subseteq> blocks_of \<lparr>fromBlock = f, toBlock = t\<rparr>"
    using bounds l by (auto simp: covered_def blocks_of_def intro: order_trans)
  ultimately show ?thesis using valid mem by auto
qed

end
