(* ===== verification/SyncStatus.thy ===== *)
theory SyncStatus
  imports BlockRanges
begin

text \<open>
  The bookkeeping of the parallel L1 synchronizer: which ranges of blocks have been requested, which
  must be retried and which come next (\<open>synchronizer/l1_parallel_sync/l1_syncstatus.go\<close>).  A mutex
  guards every method, so each is one step.  \<open>log.Fatal\<close> ends the process: such a step gives \<open>None\<close>.
\<close>

section \<open>The status and its operations\<close>

record syncStatus =
  lastBlockStoreOnStateDB :: uint64
  highestBlockRequested :: uint64
  lastBlockOnL1 :: uint64
  amountOfBlocksInEachRange :: uint64
  processingRanges :: liveBlockRanges
  errorRanges :: liveBlockRanges

datatype status_error = errSyncChunkSizeMustBeGreaterThanZero | errStartingBlockNumberMustBeDefined

definition invalidLastBlock :: uint64 where
  "invalidLastBlock = 0"

definition maximumBlockDistanceFromLatestToFinalized :: uint64 where
  "maximumBlockDistanceFromLatestToFinalized = 96"

definition newSyncStatus :: "uint64 \<Rightarrow> uint64 \<Rightarrow> syncStatus" where
  "newSyncStatus lastBlock amount =
     \<lparr>lastBlockStoreOnStateDB = lastBlock, highestBlockRequested = lastBlock, lastBlockOnL1 = invalidLastBlock,
      amountOfBlocksInEachRange = amount, processingRanges = newLiveBlockRanges, errorRanges = newLiveBlockRanges\<rparr>"

definition ss_Reset :: "syncStatus \<Rightarrow> uint64 \<Rightarrow> syncStatus" where
  "ss_Reset s lastBlock =
     s\<lparr>lastBlockStoreOnStateDB := lastBlock, highestBlockRequested := lastBlock, processingRanges := newLiveBlockRanges\<rparr>"

definition GetLastBlockOnL1 :: "syncStatus \<Rightarrow> uint64" where
  "GetLastBlockOnL1 s = lastBlockOnL1 s"

definition HaveRequiredAllBlocksToBeSynchronized :: "syncStatus \<Rightarrow> bool" where
  "HaveRequiredAllBlocksToBeSynchronized s \<longleftrightarrow> lastBlockOnL1 s \<le> highestBlockRequested s"

definition IsNodeFullySynchronizedWithL1 :: "syncStatus \<Rightarrow> bool" where
  "IsNodeFullySynchronizedWithL1 s \<longleftrightarrow>
     lastBlockOnL1 s \<noteq> invalidLastBlock
     \<and> lastBlockOnL1 s \<le> highestBlockRequested s \<and> lr_len (errorRanges s) = 0 \<and> lr_len (processingRanges s) = 0"

definition GetNextRangeOnlyRetries :: "syncStatus \<Rightarrow> syncStatus \<times> blockRange option" where
  "GetNextRangeOnlyRetries s =
     (case getFirstBlockRange (errorRanges s) of
        Inl _ \<Rightarrow> (s, None)
      | Inr br \<Rightarrow>
          if toBlock br = latestBlockNumber
          then (s\<lparr>errorRanges := fst (removeBlockRange (errorRanges s) br)\<rparr>, None)
          else (s, Some br))"

definition getHighestBlockRequestedUnsafe :: "syncStatus \<Rightarrow> uint64" where
  "getHighestBlockRequestedUnsafe s =
     fold (\<lambda>r res. if toBlock r > res then toBlock r else res) (ranges (errorRanges s))
       (fold (\<lambda>r res. if toBlock r > res then toBlock r else res) (ranges (processingRanges s)) invalidBlockNumber)"

definition getNextBlockRangeFromUnsafe :: "uint64 \<Rightarrow> uint64 \<Rightarrow> uint64 \<Rightarrow> blockRange" where
  "getNextBlockRangeFromUnsafe lastBlockInState lastBlockInL1 amount =
     (let f = lastBlockInState + 1; t = go_min lastBlockInL1 (f + amount)
      in \<lparr>fromBlock = f, toBlock = (if t = lastBlockInL1 then latestBlockNumber else t)\<rparr>)"

definition GetNextRange :: "syncStatus \<Rightarrow> (syncStatus \<times> blockRange option) option" where
  "GetNextRange s0 =
     (case GetNextRangeOnlyRetries s0 of
        (s, Some br) \<Rightarrow> Some (s, Some br)
      | (s, None) \<Rightarrow>
          if lastBlockOnL1 s = invalidLastBlock then Some (s, None)
          else if lastBlockOnL1 s \<le> highestBlockRequested s then Some (s, None)
          else if getHighestBlockRequestedUnsafe s = latestBlockNumber then Some (s, None)
          else
            (let br = getNextBlockRangeFromUnsafe
                   (go_max (lastBlockStoreOnStateDB s) (getHighestBlockRequestedUnsafe s)) (lastBlockOnL1 s)
                   (amountOfBlocksInEachRange s)
             in if isValid (Some br) = None then Some (s, Some br) else None))"

definition OnStartedNewWorker :: "syncStatus \<Rightarrow> blockRange \<Rightarrow> syncStatus option" where
  "OnStartedNewWorker s br =
     (let s1 = s\<lparr>errorRanges := fst (removeBlockRange (errorRanges s) br)\<rparr>
      in case addBlockRange (processingRanges s1) br of
           (_, Some _) \<Rightarrow> None
         | (p, None) \<Rightarrow>
             (let s2 = s1\<lparr>processingRanges := p\<rparr>
              in Some (if toBlock br = latestBlockNumber then s2\<lparr>highestBlockRequested := lastBlockOnL1 s2\<rparr>
                       else if toBlock br > highestBlockRequested s2 then s2\<lparr>highestBlockRequested := toBlock br\<rparr>
                       else s2)))"

definition OnFinishWorker :: "syncStatus \<Rightarrow> blockRange \<Rightarrow> bool \<Rightarrow> uint64 \<Rightarrow> (syncStatus \<times> bool) option" where
  "OnFinishWorker s br successful highest =
     (case removeBlockRange (processingRanges s) br of
        (_, Some _) \<Rightarrow> Some (s, False)
      | (p, None) \<Rightarrow>
          (let s1 = s\<lparr>processingRanges := p\<rparr>
           in if successful then
                Some (if highest \<noteq> invalidBlockNumber \<and> highest > lastBlockStoreOnStateDB s1
                      then s1\<lparr>lastBlockStoreOnStateDB := highest\<rparr> else s1, True)
              else
                (case addBlockRange (errorRanges s1) br of
                   (_, Some _) \<Rightarrow> None
                 | (e, None) \<Rightarrow> Some (s1\<lparr>errorRanges := e\<rparr>, True))))"

record onNewLastBlockResponse =
  fullRange :: blockRange
  extendedRange :: "blockRange option"

definition OnNewLastBlockOnL1 :: "syncStatus \<Rightarrow> uint64 \<Rightarrow> syncStatus \<times> onNewLastBlockResponse" where
  "OnNewLastBlockOnL1 s lastBlock =
     (let stored = lastBlockStoreOnStateDB s;
          response = \<lparr>fullRange = \<lparr>fromBlock = stored, toBlock = lastBlock\<rparr>, extendedRange = None\<rparr>;
          oldLastBlock = lastBlockOnL1 s
      in if oldLastBlock = invalidLastBlock then
           (s\<lparr>lastBlockOnL1 := lastBlock\<rparr>, response\<lparr>extendedRange := Some \<lparr>fromBlock = stored, toBlock = lastBlock\<rparr>\<rparr>)
         else if lastBlock > oldLastBlock then
           (s\<lparr>lastBlockOnL1 := lastBlock\<rparr>,
            response\<lparr>extendedRange := Some \<lparr>fromBlock = oldLastBlock + 1, toBlock = lastBlock\<rparr>\<rparr>)
         else if lastBlock = oldLastBlock then (s\<lparr>lastBlockOnL1 := lastBlock\<rparr>, response)
         else (s, response\<lparr>fullRange := \<lparr>fromBlock = stored, toBlock = oldLastBlock\<rparr>\<rparr>))"

definition DoesItHaveAllTheNeedDataToWork :: "syncStatus \<Rightarrow> bool" where
  "DoesItHaveAllTheNeedDataToWork s \<longleftrightarrow> lastBlockOnL1 s \<noteq> invalidLastBlock \<and> lastBlockStoreOnStateDB s \<noteq> invalidBlockNumber"

definition ss_Verify :: "syncStatus \<Rightarrow> status_error option" where
  "ss_Verify s =
     (if amountOfBlocksInEachRange s = 0 then Some errSyncChunkSizeMustBeGreaterThanZero
      else if lastBlockStoreOnStateDB s = invalidBlockNumber then Some errStartingBlockNumberMustBeDefined
      else None)"

definition BlockNumberIsInsideUnsafeArea :: "syncStatus \<Rightarrow> uint64 \<Rightarrow> bool" where
  "BlockNumberIsInsideUnsafeArea s blockNumber0 =
     (let blockNumber = (if blockNumber0 = invalidBlockNumber then highestBlockRequested s else blockNumber0)
      in lastBlockOnL1 s - blockNumber < maximumBlockDistanceFromLatestToFinalized)"

definition GetHighestBlockReceived :: "syncStatus \<Rightarrow> uint64" where
  "GetHighestBlockReceived s = lastBlockStoreOnStateDB s"

section \<open>What has been requested\<close>

text \<open>
  The frontier is the highest block that is stored, in process or waiting for a retry: new ranges
  start behind it.
\<close>

abbreviation live :: "syncStatus \<Rightarrow> blockRange set" where
  "live s \<equiv> set (ranges (processingRanges s)) \<union> set (ranges (errorRanges s))"

definition frontier :: "syncStatus \<Rightarrow> uint64" where
  "frontier s = go_max (lastBlockStoreOnStateDB s) (getHighestBlockRequestedUnsafe s)"

lemma fold_highest_le:
  "fold (\<lambda>r res. if toBlock r > res then toBlock r else res) rs a \<le> b \<longleftrightarrow> a \<le> b \<and> (\<forall>r \<in> set rs. toBlock r \<le> b)"
  by (induction rs arbitrary: a) (auto intro: order_trans)

lemma fold_highest_mem:
  "fold (\<lambda>r res. if toBlock r > res then toBlock r else res) rs a \<in> insert a (toBlock ` set rs)"
  by (induction rs arbitrary: a) (auto split: if_splits)

lemma highest_le_iff: "getHighestBlockRequestedUnsafe s \<le> b \<longleftrightarrow> (\<forall>r \<in> live s. toBlock r \<le> b)"
  unfolding getHighestBlockRequestedUnsafe_def fold_highest_le by (auto simp: invalidBlockNumber_def)

lemma highest_mem: "getHighestBlockRequestedUnsafe s \<in> insert 0 (toBlock ` live s)"
proof -
  let ?a = "fold (\<lambda>r res. if toBlock r > res then toBlock r else res) (ranges (processingRanges s)) invalidBlockNumber"
  have "getHighestBlockRequestedUnsafe s \<in> insert ?a (toBlock ` set (ranges (errorRanges s)))"
    unfolding getHighestBlockRequestedUnsafe_def by (rule fold_highest_mem)
  moreover have "?a \<in> insert 0 (toBlock ` set (ranges (processingRanges s)))"
    using fold_highest_mem [of "ranges (processingRanges s)" invalidBlockNumber] by (simp add: invalidBlockNumber_def)
  ultimately show ?thesis by (auto simp: image_Un)
qed

lemma highest_latest: "getHighestBlockRequestedUnsafe s = latestBlockNumber \<longleftrightarrow> (\<exists>r \<in> live s. toBlock r = latestBlockNumber)"
proof
  assume "getHighestBlockRequestedUnsafe s = latestBlockNumber"
  with highest_mem [of s] have "latestBlockNumber \<in> toBlock ` live s" by (auto simp: latestBlockNumber_def)
  then show "\<exists>r \<in> live s. toBlock r = latestBlockNumber" by force
next
  assume "\<exists>r \<in> live s. toBlock r = latestBlockNumber"
  then have "latestBlockNumber \<le> getHighestBlockRequestedUnsafe s" using highest_le_iff [of s "getHighestBlockRequestedUnsafe s"] by force
  then show "getHighestBlockRequestedUnsafe s = latestBlockNumber" by (simp add: order_antisym)
qed

lemma frontier_le_iff: "frontier s \<le> b \<longleftrightarrow> lastBlockStoreOnStateDB s \<le> b \<and> (\<forall>r \<in> live s. toBlock r \<le> b)"
  unfolding frontier_def go_max_def using highest_le_iff [of s b] by (auto intro: order_trans)

section \<open>No block is requested twice and none is forgotten\<close>

text \<open>
  The ghost list \<open>D\<close> holds the ranges that have been answered, cut at the highest block of the answer.
\<close>

abbreviation all_ranges :: "syncStatus \<Rightarrow> blockRange list \<Rightarrow> blockRange list" where
  "all_ranges s D \<equiv> ranges (processingRanges s) @ ranges (errorRanges s) @ D"

text \<open>Block numbers and the chunk size stay below \<open>2 ^ 63\<close>, so that adding them does not wrap around.\<close>

definition max_block :: uint64 where
  "max_block = 9223372036854775808"

definition sync_ok :: "uint64 \<Rightarrow> syncStatus \<Rightarrow> blockRange list \<Rightarrow> bool" where
  "sync_ok start s D \<longleftrightarrow>
     tiles (all_ranges s D)
     \<and> (\<forall>r \<in> set (all_ranges s D). start < fromBlock r)
     \<and> start \<le> lastBlockStoreOnStateDB s \<and> lastBlockStoreOnStateDB s < max_block
     \<and> (\<forall>d \<in> set D. toBlock d \<le> lastBlockStoreOnStateDB s)
     \<and> (\<forall>r \<in> live s. toBlock r = latestBlockNumber \<longrightarrow> lastBlockStoreOnStateDB s < fromBlock r)
     \<and> (\<forall>b. start < b \<and> b \<le> frontier s \<longrightarrow> b \<in> blocks_in (all_ranges s D))
     \<and> lastBlockOnL1 s < max_block \<and> amountOfBlocksInEachRange s < max_block - 1
     \<and> (\<forall>r \<in> live s. toBlock r \<noteq> latestBlockNumber \<longrightarrow> toBlock r < max_block)"

lemma sync_okD:
  assumes "sync_ok start s D"
  shows "tiles (all_ranges s D)" "r \<in> set (all_ranges s D) \<Longrightarrow> start < fromBlock r"
    "start \<le> lastBlockStoreOnStateDB s" "lastBlockStoreOnStateDB s < max_block"
    "d \<in> set D \<Longrightarrow> toBlock d \<le> lastBlockStoreOnStateDB s"
    "r \<in> live s \<Longrightarrow> toBlock r = latestBlockNumber \<Longrightarrow> lastBlockStoreOnStateDB s < fromBlock r"
    "start < b \<Longrightarrow> b \<le> frontier s \<Longrightarrow> b \<in> blocks_in (all_ranges s D)"
    "lastBlockOnL1 s < max_block" "amountOfBlocksInEachRange s < max_block - 1"
    "r \<in> live s \<Longrightarrow> toBlock r \<noteq> latestBlockNumber \<Longrightarrow> toBlock r < max_block"
  using assms unfolding sync_ok_def by blast+

lemma sync_okI:
  assumes "tiles (all_ranges s D)" and "\<And>r. r \<in> set (all_ranges s D) \<Longrightarrow> start < fromBlock r"
    and "start \<le> lastBlockStoreOnStateDB s" and "lastBlockStoreOnStateDB s < max_block"
    and "\<And>d. d \<in> set D \<Longrightarrow> toBlock d \<le> lastBlockStoreOnStateDB s"
    and "\<And>r. r \<in> live s \<Longrightarrow> toBlock r = latestBlockNumber \<Longrightarrow> lastBlockStoreOnStateDB s < fromBlock r"
    and "\<And>b. start < b \<Longrightarrow> b \<le> frontier s \<Longrightarrow> b \<in> blocks_in (all_ranges s D)"
    and "lastBlockOnL1 s < max_block" and "amountOfBlocksInEachRange s < max_block - 1"
    and "\<And>r. r \<in> live s \<Longrightarrow> toBlock r \<noteq> latestBlockNumber \<Longrightarrow> toBlock r < max_block"
  shows "sync_ok start s D"
  using assms unfolding sync_ok_def by blast

lemma sync_ok_lr_ok: "sync_ok start s D \<Longrightarrow> lr_ok (processingRanges s) \<and> lr_ok (errorRanges s)"
  unfolding lr_ok_tiles by (drule sync_okD(1)) (metis tiles_append)

lemma tiles_disjoint: "tiles rs \<Longrightarrow> r \<in> set rs \<Longrightarrow> r' \<in> set rs \<Longrightarrow> r \<noteq> r' \<Longrightarrow> blocks_of r \<inter> blocks_of r' = {}"
  by (simp add: tiles_iff)

lemma tiles_valid: "tiles rs \<Longrightarrow> r \<in> set rs \<Longrightarrow> br_valid r"
  by (simp add: tiles_def)

text \<open>A range up to the latest block lies above everything else.\<close>

lemma below_latest:
  assumes ok: "sync_ok start s D" and br: "br \<in> live s" "toBlock br = latestBlockNumber"
    and r: "r \<in> set (all_ranges s D)" "r \<noteq> br"
  shows "toBlock r < fromBlock br"
proof (rule ccontr)
  assume "\<not> toBlock r < fromBlock br"
  then have "toBlock r \<in> blocks_of br" by (simp add: blocks_of_def br(2))
  moreover have "toBlock r \<in> blocks_of r" using tiles_valid [OF sync_okD(1) [OF ok] r(1)] blocks_of_nonempty by blast
  moreover have "br \<in> set (all_ranges s D)" using br(1) by auto
  ultimately show False using tiles_disjoint [OF sync_okD(1) [OF ok] r(1) _ r(2)] by blast
qed

lemma frontier_cong:
  "live s' = live s \<Longrightarrow> lastBlockStoreOnStateDB s' = lastBlockStoreOnStateDB s \<Longrightarrow> frontier s' = frontier s"
  by (metis frontier_le_iff order_antisym order_refl)

lemma frontier_ge: "lastBlockStoreOnStateDB s \<le> frontier s" "r \<in> live s \<Longrightarrow> toBlock r \<le> frontier s"
  using frontier_le_iff [of s "frontier s"] by auto

lemma frontier_mem: "frontier s \<in> insert (lastBlockStoreOnStateDB s) (toBlock ` live s)"
  using highest_mem [of s] unfolding frontier_def go_max_def by (auto simp: word_neq_0_conv [symmetric] split: if_splits)

text \<open>Moving ranges around changes nothing that matters.\<close>

lemma sync_ok_perm:
  assumes "sync_ok start s D" and "mset (all_ranges s' D) = mset (all_ranges s D)" and "live s' = live s"
    and "lastBlockStoreOnStateDB s' = lastBlockStoreOnStateDB s" and "lastBlockOnL1 s' = lastBlockOnL1 s"
    and "amountOfBlocksInEachRange s' = amountOfBlocksInEachRange s"
  shows "sync_ok start s' D"
  using assms(1) tiles_perm [OF assms(2)] mset_eq_setD [OF assms(2)] blocks_in_perm [OF assms(2)] frontier_cong [OF assms(3,4)]
  unfolding sync_ok_def assms(3-6) by simp

lemma sync_ok_new:
  assumes "start < max_block" and "amount < max_block - 1"
  shows "sync_ok start (ss_Reset (newSyncStatus invalidBlockNumber amount) start) []"
proof -
  let ?s = "ss_Reset (newSyncStatus invalidBlockNumber amount) start"
  have "frontier ?s \<le> start" by (simp add: frontier_le_iff ss_Reset_def newSyncStatus_def newLiveBlockRanges_def)
  with assms show ?thesis
    by (auto simp: sync_ok_def ss_Reset_def newSyncStatus_def newLiveBlockRanges_def tiles_def disjoint_ranges_def
        invalidLastBlock_def max_block_def)
qed

lemma sync_ok_lastBlock:
  assumes "sync_ok start s D" and "n < max_block"
  shows "sync_ok start (fst (OnNewLastBlockOnL1 s n)) D"
proof -
  have f: "frontier (s\<lparr>lastBlockOnL1 := n\<rparr>) = frontier s" by (rule frontier_cong) simp_all
  have "sync_ok start (s\<lparr>lastBlockOnL1 := n\<rparr>) D" using assms unfolding sync_ok_def f by simp
  with assms(1) show ?thesis by (simp add: OnNewLastBlockOnL1_def Let_def)
qed

lemma remove1_live: "lr_ok l \<Longrightarrow> br \<in> set (ranges l) \<Longrightarrow> set (remove1 br (ranges l)) = set (ranges l) - {br}"
  using lr_ok_distinct by (simp add: set_remove1_eq)

text \<open>Dropping a range up to the latest block, or replacing it by the part that was answered.\<close>

lemma sync_ok_cut_latest:
  assumes ok: "sync_ok start s D" and br: "br \<in> live s" "toBlock br = latestBlockNumber"
    and m: "mset (br # ranges (processingRanges s') @ ranges (errorRanges s') @ D) = mset (all_ranges s D)"
    and D': "D' = D \<or> (\<exists>hi. D' = \<lparr>fromBlock = fromBlock br, toBlock = hi\<rparr> # D \<and> fromBlock br \<le> hi \<and> hi = lastBlockStoreOnStateDB s')"
    and st: "lastBlockStoreOnStateDB s \<le> lastBlockStoreOnStateDB s'" "lastBlockStoreOnStateDB s' < max_block"
      "D' = D \<Longrightarrow> lastBlockStoreOnStateDB s' < fromBlock br"
    and eq: "lastBlockOnL1 s' = lastBlockOnL1 s" "amountOfBlocksInEachRange s' = amountOfBlocksInEachRange s"
  shows "sync_ok start s' D'"
proof -
  let ?rest = "ranges (processingRanges s') @ ranges (errorRanges s') @ D"
  have D1: "r \<in> set D \<or> fromBlock r = fromBlock br \<and> toBlock r = lastBlockStoreOnStateDB s'" if "r \<in> set D'" for r
    using D' that by auto
  have D2: "set D \<subseteq> set D'" using D' by auto
  have t: "tiles (br # ?rest)" using sync_okD(1) [OF ok] tiles_perm [OF m] by simp
  then have distinct: "br \<notin> set ?rest" and tr: "tiles ?rest" by (simp_all add: tiles_iff)
  have set: "set (all_ranges s D) = insert br (set ?rest)" using mset_eq_setD [OF m] by simp
  have below: "toBlock r < fromBlock br" if "r \<in> set ?rest" for r
    using below_latest [OF ok br, of r] set that distinct by auto
  have brs: "start < fromBlock br" using sync_okD(2) [OF ok, of br] set by auto
  have cover: "b \<in> blocks_in ?rest" if "start < b" "b < fromBlock br" for b
  proof -
    have "b \<le> frontier s" using frontier_ge(2) [OF br(1)] br(2) by (metis latest_max order_trans)
    then have "b \<in> blocks_in (br # ?rest)" using sync_okD(7) [OF ok that(1)] blocks_in_perm [OF m] by simp
    with that(2) show ?thesis by (auto simp: blocks_of_def)
  qed
  have "tiles (ranges (processingRanges s') @ ranges (errorRanges s') @ D')"
  proof (cases "D' = D")
    case False
    then obtain hi where hi: "D' = \<lparr>fromBlock = fromBlock br, toBlock = hi\<rparr> # D" "fromBlock br \<le> hi" using D' by auto
    then have "tiles (\<lparr>fromBlock = fromBlock br, toBlock = hi\<rparr> # ?rest)"
      using tiles_valid [OF t, of br] by (intro tiles_shrink [OF t]) (auto simp: br_valid_def blocks_of_def br(2))
    then show ?thesis using tiles_perm [of "\<lparr>fromBlock = fromBlock br, toBlock = hi\<rparr> # ?rest"] hi(1) by simp
  qed (use tr in simp)
  moreover have "b \<in> blocks_in (ranges (processingRanges s') @ ranges (errorRanges s') @ D')"
    if b: "start < b" "b \<le> frontier s'" for b
  proof (cases "b < fromBlock br")
    case True
    then show ?thesis using cover [OF b(1)] D2 by (auto simp: blocks_in_def)
  next
    case False
    have "toBlock r < b" if "r \<in> live s'" for r using below [of r] that False by (auto simp: not_less)
    then have "b \<le> lastBlockStoreOnStateDB s'" using frontier_mem [of s'] b(2) by (metis imageE insertE leD)
    with False st(3) D' show ?thesis by (auto simp: blocks_in_def blocks_of_def)
  qed
  moreover have small: "toBlock r < max_block" if "r \<in> live s'" "toBlock r \<noteq> latestBlockNumber" for r
  proof -
    have "r \<in> set (all_ranges s D)" using that(1) unfolding set by auto
    then show ?thesis using sync_okD(4,5,10) [OF ok] that(2) by (auto intro: order_le_less_trans)
  qed
  moreover have "start < fromBlock r" if r: "r \<in> set (all_ranges s' D')" for r
  proof (cases "r \<in> set ?rest")
    case True
    then show ?thesis using sync_okD(2) [OF ok] unfolding set by blast
  next
    case False
    then show ?thesis using r D1 [of r] brs by auto
  qed
  moreover have "toBlock d \<le> lastBlockStoreOnStateDB s'" if "d \<in> set D'" for d
    using D1 [OF that] sync_okD(5) [OF ok, of d] st(1) by (metis order_refl order_trans)
  moreover have "toBlock r \<noteq> latestBlockNumber" if "r \<in> live s'" for r
  proof -
    have "toBlock r < fromBlock br" by (rule below) (use that in auto)
    then show ?thesis using latest_max [of "fromBlock br"] by (metis leD)
  qed
  ultimately show ?thesis
    using sync_okD(3,8,9) [OF ok] st(1,2) small by (intro sync_okI) (auto simp: eq)
qed

lemma getFirst_mem: "getFirstBlockRange l = Inr br \<Longrightarrow> br \<in> set (ranges l)"
  by (auto simp: getFirstBlockRange_def split: list.splits)

lemma GetNextRangeOnlyRetries_ok:
  assumes ok: "sync_ok start s D" and r: "GetNextRangeOnlyRetries s = (s', br)"
  shows "sync_ok start s' D" and "br = Some x \<Longrightarrow> x \<in> set (ranges (errorRanges s')) \<and> toBlock x \<noteq> latestBlockNumber"
proof -
  consider (none) e where "getFirstBlockRange (errorRanges s) = Inl e"
    | (drop) y where "getFirstBlockRange (errorRanges s) = Inr y" "toBlock y = latestBlockNumber"
    | (retry) y where "getFirstBlockRange (errorRanges s) = Inr y" "toBlock y \<noteq> latestBlockNumber"
    by (cases "getFirstBlockRange (errorRanges s)") auto
  then have "sync_ok start s' D \<and> (\<forall>x. br = Some x \<longrightarrow> x \<in> set (ranges (errorRanges s')) \<and> toBlock x \<noteq> latestBlockNumber)"
  proof cases
    case none
    with ok r show ?thesis by (simp add: GetNextRangeOnlyRetries_def)
  next
    case retry
    with ok r getFirst_mem show ?thesis by (auto simp: GetNextRangeOnlyRetries_def)
  next
    case drop
    then have y: "y \<in> set (ranges (errorRanges s))" using getFirst_mem by blast
    then have s': "s' = s\<lparr>errorRanges := (errorRanges s)\<lparr>ranges := remove1 y (ranges (errorRanges s))\<rparr>\<rparr>" "br = None"
      using drop r by (auto simp: GetNextRangeOnlyRetries_def removeBlockRange_def)
    have "sync_ok start s' D"
      by (rule sync_ok_cut_latest [OF ok, where br = y]) (use y drop(2) s' sync_okD(4,6) [OF ok] in simp_all)
    with s'(2) show ?thesis by simp
  qed
  then show "sync_ok start s' D" "br = Some x \<Longrightarrow> x \<in> set (ranges (errorRanges s')) \<and> toBlock x \<noteq> latestBlockNumber" by auto
qed

lemma OnStarted_retry:
  assumes ok: "sync_ok start s D" and br: "br \<in> set (ranges (errorRanges s))"
  shows "\<exists>s'. OnStartedNewWorker s br = Some s' \<and> sync_ok start s' D"
proof -
  let ?E = "(errorRanges s)\<lparr>ranges := remove1 br (ranges (errorRanges s))\<rparr>"
  let ?P = "(processingRanges s)\<lparr>ranges := ranges (processingRanges s) @ [br]\<rparr>"
  note lr = sync_ok_lr_ok [OF ok, THEN conjunct1] sync_ok_lr_ok [OF ok, THEN conjunct2]
  have disj: "\<forall>x \<in> set (ranges (processingRanges s)). blocks_of x \<inter> blocks_of br = {}"
  proof
    fix x assume x: "x \<in> set (ranges (processingRanges s))"
    then have "x \<noteq> br" using sync_okD(1) [OF ok] br by (auto simp: tiles_iff)
    with x br show "blocks_of x \<inter> blocks_of br = {}" by (intro tiles_disjoint [OF sync_okD(1) [OF ok]]) auto
  qed
  have rem: "removeBlockRange (errorRanges s) br = (?E, None)" by (rule removeBlockRange_ok(1) [OF lr(2) br])
  have add: "addBlockRange (processingRanges s) br = (?P, None)"
    by (rule addBlockRange_ok(1) [OF lr(1) _ disj]) (use tiles_valid [OF sync_okD(1) [OF ok]] br in simp)
  let ?s = "s\<lparr>errorRanges := ?E, processingRanges := ?P\<rparr>"
  have "sync_ok start (?s\<lparr>highestBlockRequested := h\<rparr>) D" for h
    by (rule sync_ok_perm [OF ok]) (use br remove1_live [OF lr(2) br] in auto)
  from this [of "highestBlockRequested s"] this show ?thesis
    by (auto simp: OnStartedNewWorker_def rem add Let_def)
qed

lemma OnStarted_new:
  assumes ok: "sync_ok start s D" and f: "frontier s \<noteq> latestBlockNumber" and br: "br_valid br" "fromBlock br = frontier s + 1"
    and small: "toBlock br \<noteq> latestBlockNumber \<Longrightarrow> toBlock br < max_block"
  shows "\<exists>s'. OnStartedNewWorker s br = Some s' \<and> sync_ok start s' D"
proof -
  let ?P = "(processingRanges s)\<lparr>ranges := ranges (processingRanges s) @ [br]\<rparr>"
  have below: "toBlock r < fromBlock br" if "r \<in> set (all_ranges s D)" for r
    using that frontier_ge(1) [of s] frontier_ge(2) [where s = s] sync_okD(5) [OF ok] next_block(1) [OF f] br(2) by (auto intro: order_trans)
  then have disj: "blocks_of x \<inter> blocks_of br = {}" if "x \<in> set (all_ranges s D)" for x
    using below [OF that] by (auto simp: blocks_of_def)
  then have "br \<notin> set (ranges (errorRanges s))" using blocks_of_nonempty [OF br(1)] by auto
  then have rem: "removeBlockRange (errorRanges s) br = (errorRanges s, Some errBlockRangeNotFound)"
    by (rule lrs.remove_missing)
  have add: "addBlockRange (processingRanges s) br = (?P, None)"
    by (rule addBlockRange_ok(1)) (use sync_ok_lr_ok [OF ok] br(1) disj in auto)
  let ?s = "s\<lparr>processingRanges := ?P\<rparr>"
  have st: "lastBlockStoreOnStateDB s < fromBlock br" using frontier_ge(1) [of s] next_block(1) [OF f] br(2) by simp
  have "tiles (br # all_ranges s D)" using sync_okD(1) [OF ok] br(1) disj by (auto simp: tiles_Cons)
  then have t: "tiles (all_ranges ?s D)" using tiles_perm [of "br # all_ranges s D" "all_ranges ?s D"] by simp
  have "frontier ?s \<le> toBlock br"
    unfolding frontier_le_iff using st below br(1) by (auto simp: br_valid_def) (meson less_imp_le order_trans)+
  then have cov: "b \<in> blocks_in (all_ranges ?s D)" if "start < b" "b \<le> frontier ?s" for b
    using that sync_okD(7) [OF ok, of b] next_block(2) [OF f, of b] br(2)
    by (cases "b \<le> frontier s") (auto simp: blocks_in_def blocks_of_def not_le)
  have "start \<le> frontier s" using sync_okD(3) [OF ok] frontier_ge(1) by (rule order_trans)
  then have brs: "start < fromBlock br" using next_block(1) [OF f] br(2) by simp
  have "sync_ok start ?s D"
    using t cov sync_okD [OF ok] st brs small by (intro sync_okI) auto
  moreover have "frontier (?s\<lparr>highestBlockRequested := h\<rparr>) = frontier ?s" for h by (rule frontier_cong) simp_all
  ultimately have "sync_ok start (?s\<lparr>highestBlockRequested := h\<rparr>) D" for h unfolding sync_ok_def by simp
  from this [of "highestBlockRequested s"] this show ?thesis
    by (auto simp: OnStartedNewWorker_def rem add Let_def)
qed

text \<open>A new range starts behind the frontier and ends at most one chunk further, or at the latest block.\<close>

lemma frontier_small:
  assumes "sync_ok start s D"
  shows "frontier s = latestBlockNumber \<or> frontier s < max_block"
  using frontier_mem [of s]
proof
  assume "frontier s = lastBlockStoreOnStateDB s"
  with sync_okD(4) [OF assms] show ?thesis by simp
next
  assume "frontier s \<in> toBlock ` live s"
  then obtain r where "r \<in> live s" "frontier s = toBlock r" by blast
  with sync_okD(10) [OF assms, of r] show ?thesis by auto
qed

lemma next_range_valid:
  assumes f: "f < max_block" and l1: "l1 < max_block" and amount: "amount < max_block - 1"
  defines "br \<equiv> getNextBlockRangeFromUnsafe f l1 amount"
  shows "br_valid br" and "fromBlock br = f + 1"
    and "toBlock br \<noteq> latestBlockNumber \<Longrightarrow> toBlock br < max_block \<and> unat (toBlock br) = unat f + 1 + unat amount"
proof -
  have f': "f \<noteq> latestBlockNumber" using f by (auto simp: max_block_def latestBlockNumber_def)
  note u = unat_next_block [OF f']
  show fb: "fromBlock br = f + 1" by (simp add: br_def getNextBlockRangeFromUnsafe_def Let_def)
  have "unat f + 1 + unat amount < 2 ^ 64"
    using f amount by (simp add: word_less_nat_alt max_block_def)
  then have w: "unat (f + 1 + amount) = unat f + 1 + unat amount"
    using u unat_word_ariths(1) [of "f + 1" amount] by simp
  have "toBlock br = latestBlockNumber \<or> toBlock br = f + 1 + amount \<and> f + 1 + amount < l1"
    by (auto simp: br_def getNextBlockRangeFromUnsafe_def Let_def go_min_def)
  then have "br_valid br \<and> (toBlock br \<noteq> latestBlockNumber \<longrightarrow> toBlock br < max_block \<and> unat (toBlock br) = unat f + 1 + unat amount)"
  proof
    assume "toBlock br = latestBlockNumber"
    then show ?thesis using fb next_block(3) [OF f'] by (simp add: br_valid_def)
  next
    assume "toBlock br = f + 1 + amount \<and> f + 1 + amount < l1"
    then show ?thesis using w u fb l1 next_block(3) [OF f'] by (auto simp: br_valid_def word_le_nat_alt)
  qed
  then show "br_valid br" "toBlock br \<noteq> latestBlockNumber \<Longrightarrow> toBlock br < max_block \<and> unat (toBlock br) = unat f + 1 + unat amount"
    by auto
qed

lemma GetNextRange_cases:
  assumes ok: "sync_ok start s D"
  obtains (nothing) s' where "GetNextRange s = Some (s', None)" "sync_ok start s' D"
  | (retry) s' br where "GetNextRange s = Some (s', Some br)" "sync_ok start s' D" "br \<in> set (ranges (errorRanges s'))"
      "toBlock br \<noteq> latestBlockNumber"
  | (new) s' br where "GetNextRange s = Some (s', Some br)" "sync_ok start s' D" "frontier s' \<noteq> latestBlockNumber"
      "br_valid br" "fromBlock br = frontier s' + 1" "toBlock br \<noteq> latestBlockNumber \<longrightarrow> toBlock br < max_block"
      "toBlock br \<noteq> latestBlockNumber \<longrightarrow> unat (toBlock br) = unat (frontier s') + 1 + unat (amountOfBlocksInEachRange s')"
proof -
  obtain s' r where r: "GetNextRangeOnlyRetries s = (s', r)" by fastforce
  note r_ok = GetNextRangeOnlyRetries_ok [OF ok r]
  show ?thesis
  proof (cases r)
    case (Some br)
    then show ?thesis using retry [of s' br] r r_ok by (simp add: GetNextRange_def)
  next
    case None
    let ?br = "getNextBlockRangeFromUnsafe (frontier s') (lastBlockOnL1 s') (amountOfBlocksInEachRange s')"
    show ?thesis
    proof (cases "lastBlockOnL1 s' = invalidLastBlock \<or> lastBlockOnL1 s' \<le> highestBlockRequested s'
        \<or> getHighestBlockRequestedUnsafe s' = latestBlockNumber")
      case True
      then have "GetNextRange s = Some (s', None)" using r None by (auto simp: GetNextRange_def)
      then show ?thesis using r_ok(1) by (rule nothing)
    next
      case False
      have "frontier s' \<noteq> latestBlockNumber"
        using frontier_mem [of s'] sync_okD(4) [OF r_ok(1)] False highest_latest [of s']
        by (auto simp: max_block_def latestBlockNumber_def)
      moreover from this have "frontier s' < max_block" using frontier_small [OF r_ok(1)] by simp
      note v = next_range_valid [OF this sync_okD(8,9) [OF r_ok(1)]]
      moreover have "GetNextRange s = Some (s', Some ?br)"
        using r None False v(1) isValid_None by (simp add: GetNextRange_def frontier_def Let_def)
      ultimately show ?thesis using new [of s' ?br] r_ok(1) by blast
    qed
  qed
qed

lemma GetNextRange_start:
  assumes ok: "sync_ok start s D" and br: "GetNextRange s = Some (s', Some br)"
  shows "\<exists>s''. OnStartedNewWorker s' br = Some s'' \<and> sync_ok start s'' D"
  using ok
proof (cases rule: GetNextRange_cases)
  case (retry t x)
  then show ?thesis using OnStarted_retry [OF retry(2,3)] br by simp
next
  case (new t x)
  then show ?thesis using OnStarted_new [OF new(2-5)] br by simp
qed (use br in simp)

text \<open>
  The answer of a worker: for a range with an end the highest block is that end, for a range up to
  the latest block it is the highest block found, or the one before the range.
\<close>

definition reply_ok :: "blockRange \<Rightarrow> uint64 \<Rightarrow> bool" where
  "reply_ok br hi \<longleftrightarrow>
     (if toBlock br = latestBlockNumber then fromBlock br - 1 \<le> hi \<and> hi < max_block else hi = toBlock br)"

definition answered :: "blockRange \<Rightarrow> uint64 \<Rightarrow> blockRange list \<Rightarrow> blockRange list" where
  "answered br hi D = (if hi < fromBlock br then D else \<lparr>fromBlock = fromBlock br, toBlock = hi\<rparr> # D)"

lemma OnFinishWorker_unknown: "br \<notin> set (ranges (processingRanges s)) \<Longrightarrow> OnFinishWorker s br ok hi = Some (s, False)"
  by (simp add: OnFinishWorker_def lrs.remove_missing)

lemma OnFinishWorker_error:
  assumes ok: "sync_ok start s D" and br: "br \<in> set (ranges (processingRanges s))"
  shows "\<exists>s'. OnFinishWorker s br False hi = Some (s', True) \<and> sync_ok start s' D"
proof -
  let ?P = "(processingRanges s)\<lparr>ranges := remove1 br (ranges (processingRanges s))\<rparr>"
  let ?E = "(errorRanges s)\<lparr>ranges := ranges (errorRanges s) @ [br]\<rparr>"
  note lr = sync_ok_lr_ok [OF ok, THEN conjunct1] sync_ok_lr_ok [OF ok, THEN conjunct2]
  have disj: "\<forall>x \<in> set (ranges (errorRanges s)). blocks_of x \<inter> blocks_of br = {}"
  proof
    fix x assume x: "x \<in> set (ranges (errorRanges s))"
    then have "x \<noteq> br" using sync_okD(1) [OF ok] br by (auto simp: tiles_iff)
    with x br show "blocks_of x \<inter> blocks_of br = {}" by (intro tiles_disjoint [OF sync_okD(1) [OF ok]]) auto
  qed
  have rem: "removeBlockRange (processingRanges s) br = (?P, None)" by (rule removeBlockRange_ok(1) [OF lr(1) br])
  have add: "addBlockRange (errorRanges s) br = (?E, None)"
    by (rule addBlockRange_ok(1) [OF lr(2) _ disj]) (use tiles_valid [OF sync_okD(1) [OF ok]] br in simp)
  have "sync_ok start (s\<lparr>processingRanges := ?P, errorRanges := ?E\<rparr>) D"
    by (rule sync_ok_perm [OF ok]) (use br remove1_live [OF lr(1) br] in auto)
  then show ?thesis by (simp add: OnFinishWorker_def rem add Let_def)
qed

lemma OnFinishWorker_success:
  assumes ok: "sync_ok start s D" and br: "br \<in> set (ranges (processingRanges s))" and hi: "reply_ok br hi"
  shows "\<exists>s'. OnFinishWorker s br True hi = Some (s', True) \<and> sync_ok start s' (answered br hi D)
    \<and> lastBlockStoreOnStateDB s' = max (lastBlockStoreOnStateDB s) hi"
proof -
  let ?P = "(processingRanges s)\<lparr>ranges := remove1 br (ranges (processingRanges s))\<rparr>"
  let ?st = "max (lastBlockStoreOnStateDB s) hi"
  let ?s = "s\<lparr>processingRanges := ?P, lastBlockStoreOnStateDB := ?st\<rparr>"
  note lr = sync_ok_lr_ok [OF ok, THEN conjunct1]
  have brl: "br \<in> live s" using br by simp
  have valid: "br_valid br" using tiles_valid [OF sync_okD(1) [OF ok]] br by simp
  have rem: "removeBlockRange (processingRanges s) br = (?P, None)" by (rule removeBlockRange_ok(1) [OF lr br])
  have run: "OnFinishWorker s br True hi = Some (?s, True)"
  proof (cases "hi > lastBlockStoreOnStateDB s")
    case True
    then have "hi \<noteq> 0" "max (lastBlockStoreOnStateDB s) hi = hi" by auto
    with True show ?thesis by (simp add: OnFinishWorker_def rem Let_def invalidBlockNumber_def)
  next
    case False
    then have "max (lastBlockStoreOnStateDB s) hi = lastBlockStoreOnStateDB s" by simp
    with False show ?thesis by (simp add: OnFinishWorker_def rem Let_def)
  qed
  have m: "mset (br # ranges (processingRanges ?s) @ ranges (errorRanges ?s) @ D) = mset (all_ranges s D)" using br by simp
  have "sync_ok start ?s (answered br hi D)"
  proof (cases "toBlock br = latestBlockNumber")
    case True
    have st: "lastBlockStoreOnStateDB s < fromBlock br" by (rule sync_okD(6) [OF ok brl True])
    have "hi < max_block" using hi True by (simp add: reply_ok_def)
    then show ?thesis
      using st sync_okD(4) [OF ok] m br
      by (intro sync_ok_cut_latest [OF ok brl True, where s' = ?s]) (auto simp: answered_def max_def not_less split: if_splits)
  next
    case False
    then have hi': "hi = toBlock br" using hi by (simp add: reply_ok_def)
    then have D': "answered br hi D = br # D" using valid by (simp add: answered_def br_valid_def not_less)
    have m': "mset (all_ranges ?s (br # D)) = mset (all_ranges s D)" using br by simp
    have sub: "live ?s \<subseteq> live s" by (auto dest: set_remove1_subset [THEN subsetD])
    have "frontier ?s \<le> frontier s"
      unfolding frontier_le_iff using frontier_ge(1) [of s] frontier_ge(2) [where s = s] brl sub hi' by auto
    moreover have "?st < fromBlock r" if "r \<in> live ?s" "toBlock r = latestBlockNumber" for r
    proof -
      have r: "r \<in> live s" "r \<noteq> br" using that sub False by auto
      show ?thesis
        using sync_okD(6) [OF ok r(1) that(2)] below_latest [OF ok r(1) that(2), of br] r(2) br hi' by (simp add: max_def)
    qed
    ultimately show ?thesis
      unfolding D' using sync_okD [OF ok] tiles_perm [OF m'] mset_eq_setD [OF m'] blocks_in_perm [OF m'] sub hi' brl False
      by (intro sync_okI) (auto simp: le_max_iff_disj)
  qed
  with run show ?thesis by auto
qed

section \<open>Reachable states\<close>

text \<open>
  The producer's goroutine performs these steps one after the other.  A range is handed out and
  either taken by a worker or, when all workers are busy, forgotten.  \<open>Reset\<close> is left out: it keeps
  the ranges to be retried and breaks the invariant, see below.
\<close>

inductive sync_reach :: "uint64 \<Rightarrow> syncStatus \<Rightarrow> blockRange list \<Rightarrow> bool" for start where
  sr_new: "start < max_block \<Longrightarrow> amount < max_block - 1 \<Longrightarrow>
    sync_reach start (ss_Reset (newSyncStatus invalidBlockNumber amount) start) []"
| sr_last: "sync_reach start s D \<Longrightarrow> n < max_block \<Longrightarrow> sync_reach start (fst (OnNewLastBlockOnL1 s n)) D"
| sr_next: "sync_reach start s D \<Longrightarrow> GetNextRange s = Some (s', br) \<Longrightarrow> sync_reach start s' D"
| sr_retry: "sync_reach start s D \<Longrightarrow> GetNextRangeOnlyRetries s = (s', br) \<Longrightarrow> sync_reach start s' D"
| sr_start: "sync_reach start s D \<Longrightarrow> GetNextRange s = Some (s', Some br) \<Longrightarrow> OnStartedNewWorker s' br = Some s'' \<Longrightarrow>
    sync_reach start s'' D"
| sr_startRetry: "sync_reach start s D \<Longrightarrow> GetNextRangeOnlyRetries s = (s', Some br) \<Longrightarrow>
    OnStartedNewWorker s' br = Some s'' \<Longrightarrow> sync_reach start s'' D"
| sr_failed: "sync_reach start s D \<Longrightarrow> OnFinishWorker s br False hi = Some (s', b) \<Longrightarrow> sync_reach start s' D"
| sr_done: "sync_reach start s D \<Longrightarrow> br \<in> set (ranges (processingRanges s)) \<Longrightarrow> reply_ok br hi \<Longrightarrow>
    OnFinishWorker s br True hi = Some (s', b) \<Longrightarrow> sync_reach start s' (answered br hi D)"

lemma GetNextRange_sync_ok: "sync_ok start s D \<Longrightarrow> GetNextRange s = Some (s', r) \<Longrightarrow> sync_ok start s' D"
  by (erule GetNextRange_cases) auto

lemma OnFinishWorker_returns:
  assumes "sync_ok start s D"
  shows "OnFinishWorker s br ok hi \<noteq> None"
proof (cases "br \<in> set (ranges (processingRanges s))")
  case True
  show ?thesis
  proof (cases ok)
    case False
    with OnFinishWorker_error [OF assms True, of hi] show ?thesis by auto
  next
    assume ok
    with removeBlockRange_ok(1) [OF _ True] sync_ok_lr_ok [OF assms] show ?thesis by (simp add: OnFinishWorker_def Let_def)
  qed
qed (simp add: OnFinishWorker_unknown)

lemma sync_reach_ok: "sync_reach start s D \<Longrightarrow> sync_ok start s D"
proof (induction rule: sync_reach.induct)
  case (sr_start s D s' br s'')
  then show ?case using GetNextRange_start by fastforce
next
  case (sr_startRetry s D s' br s'')
  then have "sync_ok start s' D" "br \<in> set (ranges (errorRanges s'))" using GetNextRangeOnlyRetries_ok by blast+
  then show ?case using OnStarted_retry sr_startRetry.hyps(3) by fastforce
next
  case (sr_failed s D br hi s' b)
  then show ?case
    using OnFinishWorker_error [of start s D br hi] OnFinishWorker_unknown [of br s False hi]
    by (cases "br \<in> set (ranges (processingRanges s))") auto
next
  case (sr_done s D br hi s' b)
  then show ?case using OnFinishWorker_success [of start s D br hi] by auto
next
  case (sr_new amount)
  then show ?case by (rule sync_ok_new)
next
  case (sr_last s D n)
  then show ?case by (blast intro: sync_ok_lastBlock)
next
  case (sr_next s D s' br)
  then show ?case by (blast intro: GetNextRange_sync_ok)
next
  case (sr_retry s D s' br)
  then show ?case by (blast intro: GetNextRangeOnlyRetries_ok)
qed

lemma sync_ok_blocks:
  assumes "sync_ok start s D"
  shows "blocks_in (all_ranges s D) = {b. start < b \<and> b \<le> frontier s}"
proof
  show "{b. start < b \<and> b \<le> frontier s} \<subseteq> blocks_in (all_ranges s D)" using sync_okD(7) [OF assms] by blast
  show "blocks_in (all_ranges s D) \<subseteq> {b. start < b \<and> b \<le> frontier s}"
  proof
    fix b assume "b \<in> blocks_in (all_ranges s D)"
    then obtain r where r: "r \<in> set (all_ranges s D)" "fromBlock r \<le> b" "b \<le> toBlock r"
      by (auto simp: blocks_in_def blocks_of_def)
    have "toBlock r \<le> frontier s"
      using r(1) sync_okD(5) [OF assms, of r] frontier_ge(1) [of s] frontier_ge(2) [of r s] by (auto intro: order_trans)
    with r sync_okD(2) [OF assms r(1)] show "b \<in> {b. start < b \<and> b \<le> frontier s}" by (auto intro: order_trans)
  qed
qed

section \<open>Properties\<close>

text \<open>A status that starts behind block 10 with chunks of 100 blocks and an L1 of 500 blocks.\<close>

definition sample_status :: syncStatus where
  "sample_status = fst (OnNewLastBlockOnL1 (ss_Reset (newSyncStatus invalidBlockNumber 100) 10) 500)"

definition sample_started :: syncStatus where
  "sample_started = the (OnStartedNewWorker sample_status \<lparr>fromBlock = 11, toBlock = 111\<rparr>)"

lemma sample_status_reach: "sync_reach 10 sample_status []"
  unfolding sample_status_def by (intro sr_last sr_new) (simp_all add: max_block_def)

lemma sample_status_next: "GetNextRange sample_status = Some (sample_status, Some \<lparr>fromBlock = 11, toBlock = 111\<rparr>)"
  by code_simp

lemma sample_started_reach: "sync_reach 10 sample_started []"
proof -
  obtain s where "OnStartedNewWorker sample_status \<lparr>fromBlock = 11, toBlock = 111\<rparr> = Some s"
    using GetNextRange_start [OF sync_reach_ok [OF sample_status_reach] sample_status_next] by blast
  with sr_start [OF sample_status_reach sample_status_next] show ?thesis by (simp add: sample_started_def)
qed





text \<open>
  A failed request up to the latest block counts as synchronized.  When the only outstanding
  range is one up to the latest block and its worker fails, the range is dropped instead of being
  retried: although not a single block of it was received, the node is then reported fully
  synchronized and no further range is handed out.
\<close>

lemma new_range_L1:
  assumes "GetNextRange s = Some (s', Some br)" and "ranges (errorRanges s') = []"
  shows "lastBlockOnL1 s' \<noteq> invalidLastBlock"
  using assms by (auto simp: GetNextRange_def GetNextRangeOnlyRetries_def getFirstBlockRange_def Let_def
      split: prod.splits option.splits if_splits list.splits sum.splits)

lemma failed_latest_reported_synced:
  assumes nxt: "GetNextRange s = Some (s1, Some br)" "toBlock br = latestBlockNumber"
    and idle: "ranges (processingRanges s1) = []" "ranges (errorRanges s1) = []"
    and start: "OnStartedNewWorker s1 br = Some s2"
    and failed: "OnFinishWorker s2 br False hi = Some (s3, True)"
    and retry: "GetNextRangeOnlyRetries s3 = (s4, r)"
  shows "r = None \<and> IsNodeFullySynchronizedWithL1 s4 \<and> GetNextRange s4 = Some (s4, None)
    \<and> lastBlockStoreOnStateDB s4 = lastBlockStoreOnStateDB s1"
proof -
  let ?P = "processingRanges s1" and ?E = "errorRanges s1"
  have valid: "isValid (Some br) = None" using start
    by (cases "isValid (Some br)") (simp_all add: OnStartedNewWorker_def addBlockRange_def Let_def)
  have s2: "s2 = s1\<lparr>processingRanges := ?P\<lparr>ranges := [br]\<rparr>, highestBlockRequested := lastBlockOnL1 s1\<rparr>"
    using start valid nxt(2) idle
    by (simp add: OnStartedNewWorker_def addBlockRange_def removeBlockRange_def lr_overlaps_def Let_def)
  have s3: "s3 = s2\<lparr>processingRanges := ?P\<lparr>ranges := []\<rparr>, errorRanges := ?E\<lparr>ranges := [br]\<rparr>\<rparr>"
    using failed valid idle
    by (simp add: s2 OnFinishWorker_def addBlockRange_def removeBlockRange_def lr_overlaps_def Let_def)
  have s4: "s4 = s3\<lparr>errorRanges := ?E\<lparr>ranges := []\<rparr>\<rparr>" "r = None"
    using retry nxt(2)
    by (simp_all add: s3 GetNextRangeOnlyRetries_def getFirstBlockRange_def removeBlockRange_def)
  show ?thesis
    using new_range_L1 [OF nxt(1) idle(2)] s4
    by (simp add: s3 s2 IsNodeFullySynchronizedWithL1_def lr_len_def GetNextRange_def GetNextRangeOnlyRetries_def
        getFirstBlockRange_def)
qed

definition sample_latest :: syncStatus where
  "sample_latest = fst (OnNewLastBlockOnL1 (ss_Reset (newSyncStatus invalidBlockNumber 100) 10) 50)"

definition sample_failed :: syncStatus where
  "sample_failed = fst (the (OnFinishWorker (the (OnStartedNewWorker sample_latest \<lparr>fromBlock = 11, toBlock = latestBlockNumber\<rparr>))
     \<lparr>fromBlock = 11, toBlock = latestBlockNumber\<rparr> False 0))"

lemma failed_latest_reported_synced_example:
  "IsNodeFullySynchronizedWithL1 (fst (GetNextRangeOnlyRetries sample_failed))
   \<and> lastBlockStoreOnStateDB (fst (GetNextRangeOnlyRetries sample_failed)) = 10"
proof -
  let ?br = "\<lparr>fromBlock = 11, toBlock = latestBlockNumber\<rparr>"
  let ?s2 = "the (OnStartedNewWorker sample_latest ?br)"
  have n: "GetNextRange sample_latest = Some (sample_latest, Some ?br)" by code_simp
  have i: "ranges (processingRanges sample_latest) = []" "ranges (errorRanges sample_latest) = []" by code_simp+
  have s: "OnStartedNewWorker sample_latest ?br = Some ?s2" by code_simp
  have f: "OnFinishWorker ?s2 ?br False 0 = Some (sample_failed, True)" by code_simp
  have st: "lastBlockStoreOnStateDB sample_latest = 10" by code_simp
  show ?thesis
    using failed_latest_reported_synced [OF n _ i s f, of "fst (GetNextRangeOnlyRetries sample_failed)"
        "snd (GetNextRangeOnlyRetries sample_failed)"] st by simp
qed

text \<open>
  A reset forgets blocks.  \<open>Reset\<close> keeps the ranges that wait for a retry.  After a reset to an
  earlier block the stale range is handed out first, and the next new range begins behind it: the
  blocks between the new starting point and the stale range are never requested.
\<close>

lemma Reset_skips_blocks:
  assumes "sync_reach start s D" and err: "ranges (errorRanges s) = [br]" and l: "toBlock br \<noteq> latestBlockNumber"
    and old: "start' < fromBlock br"
    and started: "OnStartedNewWorker (ss_Reset s start') br = Some s1"
    and nxt: "GetNextRange s1 = Some (s2, Some br')"
  shows "GetNextRange (ss_Reset s start') = Some (ss_Reset s start', Some br) \<and> fromBlock br' = toBlock br + 1"
proof -
  have inv: "sync_ok start s D" using assms(1) by (rule sync_reach_ok)
  have "br_valid br" using tiles_valid [OF sync_okD(1) [OF inv], of br] err by simp
  then have valid: "isValid (Some br) = None" "start' < toBlock br" using old isValid_None by (auto simp: br_valid_def)
  have first: "GetNextRange (ss_Reset s start') = Some (ss_Reset s start', Some br)"
    using err l by (simp add: ss_Reset_def GetNextRange_def GetNextRangeOnlyRetries_def getFirstBlockRange_def)
  have s1: "ranges (errorRanges s1) = []" "ranges (processingRanges s1) = [br]" "lastBlockStoreOnStateDB s1 = start'"
    using started err valid
    by (auto simp: OnStartedNewWorker_def ss_Reset_def addBlockRange_def removeBlockRange_def lr_overlaps_def
        newLiveBlockRanges_def Let_def)
  have "getHighestBlockRequestedUnsafe s1 = toBlock br"
    using s1 valid(2) by (simp add: getHighestBlockRequestedUnsafe_def invalidBlockNumber_def)
      (metis not_less_iff_gr_or_eq word_not_simps(1))
  then have "fromBlock br' = toBlock br + 1"
    using nxt s1 valid(2)
    by (auto simp: GetNextRange_def GetNextRangeOnlyRetries_def getFirstBlockRange_def getNextBlockRangeFromUnsafe_def
        go_max_def Let_def split: if_splits)
  with first show ?thesis by simp
qed

definition sample_error :: syncStatus where
  "sample_error = fst (the (OnFinishWorker sample_started \<lparr>fromBlock = 11, toBlock = 111\<rparr> False 0))"

lemma Reset_skips_blocks_example:
  "\<exists>s2. GetNextRange (the (OnStartedNewWorker (ss_Reset sample_error 5) \<lparr>fromBlock = 11, toBlock = 111\<rparr>))
     = Some (s2, Some \<lparr>fromBlock = 112, toBlock = 212\<rparr>) \<and> (112 :: uint64) = 111 + 1"
proof -
  let ?br = "\<lparr>fromBlock = 11, toBlock = 111\<rparr>" and ?br' = "\<lparr>fromBlock = 112, toBlock = 212\<rparr>"
  let ?s1 = "the (OnStartedNewWorker (ss_Reset sample_error 5) ?br)"
  have "OnFinishWorker sample_started ?br False 0 = Some (sample_error, True)" by code_simp
  from sr_failed [OF sample_started_reach this] have reach: "sync_reach 10 sample_error []" .
  have err: "ranges (errorRanges sample_error) = [?br]" by code_simp
  have started: "OnStartedNewWorker (ss_Reset sample_error 5) ?br = Some ?s1" by code_simp
  have nxt: "GetNextRange ?s1 = Some (?s1, Some ?br')" by code_simp
  from Reset_skips_blocks [OF reach err _ _ started nxt] nxt show ?thesis by (simp add: latestBlockNumber_def)
qed

end
