(* ===== verification/OrderFilter.thy ===== *)
theory OrderFilter
  imports BlockRanges
begin

text \<open>
  The answers of the L1 workers, the messages between producer and consumer, and the filter that
  puts the answers into block order (\<open>l1_data_message.go\<close>, the result types of
  \<open>l1_worker_etherman.go\<close> and \<open>l1_filter_send_orderer_results_to_synchronizer.go\<close>).

  The events of an L1 block and their order are opaque here: \<open>'ev\<close> and \<open>'ord\<close>.  A block of the
  Ethereum client is what its accessors return.
\<close>

section \<open>Results and messages\<close>

record 'ev ethBlock =
  BlockNumber :: uint64
  BlockHash :: hash32
  ParentHash :: hash32
  ReceivedAt :: int
  blockEvents :: 'ev

record l1Block =
  NumberU64 :: uint64
  HeaderHash :: hash32
  HeaderParentHash :: hash32
  HeaderTime :: uint64

record ('ev, 'ord) rollupInfoByBlockRangeResult =
  resBlockRange :: blockRange
  resBlocks :: "'ev ethBlock list"
  resOrder :: "(hash32 \<times> 'ord list) list"
  lastBlockOfRange :: "l1Block option"
  previousBlockOfRange :: "l1Block option"

definition getRealHighestBlockNumberInResponse :: "('ev, 'ord) rollupInfoByBlockRangeResult \<Rightarrow> uint64" where
  "getRealHighestBlockNumberInResponse r =
     (let highest = fold (\<lambda>b h. if BlockNumber b > h then BlockNumber b else h) (resBlocks r) invalidBlockNumber
      in case lastBlockOfRange r of
           None \<Rightarrow> highest
         | Some b \<Rightarrow> if NumberU64 b > highest then NumberU64 b else highest)"

definition getHighestBlockNumberInResponse :: "('ev, 'ord) rollupInfoByBlockRangeResult \<Rightarrow> uint64" where
  "getHighestBlockNumberInResponse r =
     (if toBlock (resBlockRange r) \<noteq> latestBlockNumber then toBlock (resBlockRange r)
      else
        (let highestBlock = getRealHighestBlockNumberInResponse r
         in if highestBlock = invalidBlockNumber then fromBlock (resBlockRange r) - 1 else highestBlock))"

datatype eventEnum = eventNone | eventStop | eventProducerIsFullySynced

record l1ConsumerControl =
  event :: eventEnum
  parameter :: uint64

record ('ev, 'ord) L1SyncMessage =
  dataIsValid :: bool
  msgData :: "('ev, 'ord) rollupInfoByBlockRangeResult"
  ctrlIsValid :: bool
  ctrl :: l1ConsumerControl

text \<open>The zero values of Go for the part of a message that is not set.\<close>

definition zeroResult :: "('ev, 'ord) rollupInfoByBlockRangeResult" where
  "zeroResult = \<lparr>resBlockRange = \<lparr>fromBlock = 0, toBlock = 0\<rparr>, resBlocks = [], resOrder = [],
     lastBlockOfRange = None, previousBlockOfRange = None\<rparr>"

definition newL1SyncMessageControl :: "eventEnum \<Rightarrow> ('ev, 'ord) L1SyncMessage" where
  "newL1SyncMessageControl e =
     \<lparr>dataIsValid = False, msgData = zeroResult, ctrlIsValid = True, ctrl = \<lparr>event = e, parameter = 0\<rparr>\<rparr>"

definition newL1SyncMessageControlWProducerIsFullySynced :: "uint64 \<Rightarrow> ('ev, 'ord) L1SyncMessage" where
  "newL1SyncMessageControlWProducerIsFullySynced lastBlock =
     \<lparr>dataIsValid = False, msgData = zeroResult, ctrlIsValid = True,
      ctrl = \<lparr>event = eventProducerIsFullySynced, parameter = lastBlock\<rparr>\<rparr>"

text \<open>A nil result ends the process.\<close>

definition newL1SyncMessageData ::
  "('ev, 'ord) rollupInfoByBlockRangeResult option \<Rightarrow> ('ev, 'ord) L1SyncMessage option" where
  "newL1SyncMessageData result =
     map_option (\<lambda>r. \<lparr>dataIsValid = True, msgData = r, ctrlIsValid = False, ctrl = \<lparr>event = eventNone, parameter = 0\<rparr>\<rparr>) result"

section \<open>The filter\<close>

record ('ev, 'ord) orderFilter =
  lastBlockOnSynchronizer :: uint64
  pendingResults :: "('ev, 'ord) L1SyncMessage list"

definition newFilter :: "uint64 \<Rightarrow> ('ev, 'ord) orderFilter" where
  "newFilter lastBlock = \<lparr>lastBlockOnSynchronizer = lastBlock, pendingResults = []\<rparr>"

definition numItemBlockedInQueue :: "('ev, 'ord) orderFilter \<Rightarrow> nat" where
  "numItemBlockedInQueue s = length (pendingResults s)"

definition filter_Reset :: "('ev, 'ord) orderFilter \<Rightarrow> uint64 \<Rightarrow> ('ev, 'ord) orderFilter" where
  "filter_Reset s lastBlock = s\<lparr>lastBlockOnSynchronizer := lastBlock, pendingResults := []\<rparr>"

definition matchNextBlockUnsafe :: "uint64 \<Rightarrow> ('ev, 'ord) rollupInfoByBlockRangeResult \<Rightarrow> bool" where
  "matchNextBlockUnsafe lastBlock r \<longleftrightarrow> fromBlock (resBlockRange r) = lastBlock + 1"

definition setLastBlockOnSynchronizer :: "('ev, 'ord) orderFilter \<Rightarrow> uint64 \<Rightarrow> ('ev, 'ord) orderFilter" where
  "setLastBlockOnSynchronizer s highest =
     (if highest = invalidBlockNumber then s else s\<lparr>lastBlockOnSynchronizer := highest\<rparr>)"

definition addPendingResultUnsafe :: "('ev, 'ord) orderFilter \<Rightarrow> ('ev, 'ord) L1SyncMessage \<Rightarrow> ('ev, 'ord) orderFilter" where
  "addPendingResultUnsafe s m = s\<lparr>pendingResults := pendingResults s @ [m]\<rparr>"

definition removeIndexes :: "nat list \<Rightarrow> 'a list \<Rightarrow> 'a list" where
  "removeIndexes is xs = map snd (filter (\<lambda>(j, x). j \<notin> set is) (enumerate 0 xs))"

text \<open>The loop over the pending results up to its \<open>break\<close>: the index of the message to send next.\<close>

fun findToSend :: "uint64 \<Rightarrow> nat \<Rightarrow> ('ev, 'ord) L1SyncMessage list \<Rightarrow> nat option" where
  "findToSend lastBlock i [] = None"
| "findToSend lastBlock i (m # ms) =
     (if dataIsValid m then
        (if matchNextBlockUnsafe lastBlock (msgData m) then Some i else findToSend lastBlock (i + 1) ms)
      else if i = 0 then Some i
      else findToSend lastBlock (i + 1) ms)"

lemma findToSend_less: "findToSend l i ms = Some k \<Longrightarrow> i \<le> k \<and> k < i + length ms"
  by (induction l i ms rule: findToSend.induct) (auto split: if_splits)

lemma removeIndexes_Nil [simp]: "removeIndexes [] xs = xs"
  by (simp add: removeIndexes_def)

lemma removeIndexes_single: "i < length xs \<Longrightarrow> removeIndexes [i] xs = take i xs @ drop (Suc i) xs"
proof -
  have "map snd (filter (\<lambda>(j, x). j \<noteq> n + i) (enumerate n xs)) = take i xs @ drop (Suc i) xs" if "i < length xs" for n
    using that
  proof (induction xs arbitrary: n i)
    case (Cons x xs)
    have all: "map snd (filter (\<lambda>(j, x). j \<noteq> n) (enumerate (Suc n) xs)) = xs"
      by (subst filter_True) (auto simp: in_set_enumerate_eq)
    show ?case
    proof (cases i)
      case (Suc k)
      then show ?thesis using Cons.IH [of k "Suc n"] Cons.prems by simp
    qed (simp add: all)
  qed simp
  from this [of 0] show "i < length xs \<Longrightarrow> removeIndexes [i] xs = take i xs @ drop (Suc i) xs"
    by (simp add: removeIndexes_def)
qed

function sendResultIfPossibleUnsafe ::
  "('ev, 'ord) orderFilter \<Rightarrow> ('ev, 'ord) L1SyncMessage list \<Rightarrow> ('ev, 'ord) orderFilter \<times> ('ev, 'ord) L1SyncMessage list" where
  "sendResultIfPossibleUnsafe s previous =
     (case findToSend (lastBlockOnSynchronizer s) 0 (pendingResults s) of
        None \<Rightarrow> (s\<lparr>pendingResults := removeIndexes [] (pendingResults s)\<rparr>, previous)
      | Some i \<Rightarrow>
          (let result = pendingResults s ! i;
               s1 = (if dataIsValid result
                     then setLastBlockOnSynchronizer s (getHighestBlockNumberInResponse (msgData result)) else s)
           in sendResultIfPossibleUnsafe (s1\<lparr>pendingResults := removeIndexes [i] (pendingResults s1)\<rparr>) (previous @ [result])))"
  by pat_completeness auto
termination
proof (relation "measure (\<lambda>(s, _). length (pendingResults s))", goal_cases)
  case (2 s previous i result s1)
  then have "i < length (pendingResults s)" using findToSend_less by fastforce
  with 2 show ?case by (simp add: removeIndexes_single setLastBlockOnSynchronizer_def)
qed simp

declare sendResultIfPossibleUnsafe.simps [simp del]

text \<open>\<open>checkValidDataUnsafe\<close> only writes to the log.\<close>

definition Filter :: "('ev, 'ord) orderFilter \<Rightarrow> ('ev, 'ord) L1SyncMessage \<Rightarrow> ('ev, 'ord) orderFilter \<times> ('ev, 'ord) L1SyncMessage list" where
  "Filter s m = sendResultIfPossibleUnsafe (addPendingResultUnsafe s m) []"

section \<open>The filter delivers in block order\<close>

abbreviation res_from :: "('ev, 'ord) rollupInfoByBlockRangeResult \<Rightarrow> uint64" where
  "res_from r \<equiv> fromBlock (resBlockRange r)"

definition next_last :: "uint64 \<Rightarrow> ('ev, 'ord) rollupInfoByBlockRangeResult \<Rightarrow> uint64" where
  "next_last l r = (if getHighestBlockNumberInResponse r = 0 then l else getHighestBlockNumberInResponse r)"

text \<open>A chain of results: each begins right behind the highest block of the one before.\<close>

fun chain :: "uint64 \<Rightarrow> ('ev, 'ord) rollupInfoByBlockRangeResult list \<Rightarrow> bool" where
  "chain l [] \<longleftrightarrow> True"
| "chain l (r # rs) \<longleftrightarrow> res_from r = l + 1 \<and> chain (next_last l r) rs"

lemma chain_append: "chain l (xs @ ys) \<longleftrightarrow> chain l xs \<and> chain (foldl next_last l xs) ys"
  by (induction xs arbitrary: l) auto

definition data_only :: "('ev, 'ord) orderFilter \<Rightarrow> bool" where
  "data_only s \<longleftrightarrow> (\<forall>m \<in> set (pendingResults s). dataIsValid m)"

lemma findToSend_Some:
  assumes "\<forall>m \<in> set ms. dataIsValid m" and "findToSend l i ms = Some k"
  shows "i \<le> k \<and> k < i + length ms \<and> res_from (msgData (ms ! (k - i))) = l + 1"
  using assms
proof (induction ms arbitrary: i)
  case (Cons m ms)
  then show ?case
    by (cases "matchNextBlockUnsafe l (msgData m)")
      (fastforce simp: matchNextBlockUnsafe_def nth_Cons' less_Suc_eq_le)+
qed simp

lemma findToSend_None:
  "\<forall>m \<in> set ms. dataIsValid m \<Longrightarrow> findToSend l i ms = None \<Longrightarrow> m \<in> set ms \<Longrightarrow> res_from (msgData m) \<noteq> l + 1"
  by (induction ms arbitrary: i) (auto simp: matchNextBlockUnsafe_def split: if_splits)

lemmas findToSend_data = findToSend_Some findToSend_None

lemma mset_take_drop: "i < length xs \<Longrightarrow> add_mset (xs ! i) (mset (take i xs @ drop (Suc i) xs)) = mset xs"
  by (subst (3) id_take_nth_drop [of i xs]) simp_all

lemma send_data:
  assumes "data_only s" and "sendResultIfPossibleUnsafe s prev = (s', outs)"
  shows "\<exists>new. outs = prev @ new \<and> (\<forall>m \<in> set new. dataIsValid m) \<and> data_only s'
    \<and> chain (lastBlockOnSynchronizer s) (map msgData new)
    \<and> lastBlockOnSynchronizer s' = foldl next_last (lastBlockOnSynchronizer s) (map msgData new)
    \<and> mset (pendingResults s) = mset new + mset (pendingResults s')
    \<and> (\<forall>m \<in> set (pendingResults s'). res_from (msgData m) \<noteq> lastBlockOnSynchronizer s' + 1)"
  using assms
proof (induction s prev arbitrary: s' outs rule: sendResultIfPossibleUnsafe.induct)
  case (1 s prev)
  let ?l = "lastBlockOnSynchronizer s" and ?ms = "pendingResults s"
  have d: "\<forall>m \<in> set ?ms. dataIsValid m" using 1(2) by (simp add: data_only_def)
  show ?case
  proof (cases "findToSend ?l 0 ?ms")
    case None
    then have "s' = s" "outs = prev" using 1(3) by (simp_all add: sendResultIfPossibleUnsafe.simps [of s])
    then show ?thesis using 1(2) findToSend_data(2) [OF d None] by simp
  next
    case (Some i)
    have i: "i < length ?ms" "res_from (msgData (?ms ! i)) = ?l + 1" using findToSend_data(1) [OF d Some] by simp_all
    let ?m = "?ms ! i" and ?ms' = "take i ?ms @ drop (Suc i) ?ms"
    let ?s1 = "setLastBlockOnSynchronizer s (getHighestBlockNumberInResponse (msgData ?m))"
    let ?s2 = "?s1\<lparr>pendingResults := ?ms'\<rparr>"
    have dm: "dataIsValid ?m" using d i(1) by simp
    have p1: "pendingResults ?s1 = ?ms" by (simp add: setLastBlockOnSynchronizer_def)
    have l2: "lastBlockOnSynchronizer ?s2 = next_last ?l (msgData ?m)"
      by (simp add: setLastBlockOnSynchronizer_def next_last_def invalidBlockNumber_def)
    have "data_only ?s2" using d by (auto simp: data_only_def dest: in_set_takeD in_set_dropD)
    moreover have "sendResultIfPossibleUnsafe ?s2 (prev @ [?m]) = (s', outs)"
      using 1(3) Some dm i(1) p1 by (simp add: sendResultIfPossibleUnsafe.simps [of s] removeIndexes_single Let_def)
    ultimately obtain new where new: "outs = (prev @ [?m]) @ new" "\<forall>m \<in> set new. dataIsValid m" "data_only s'"
      "chain (next_last ?l (msgData ?m)) (map msgData new)"
      "lastBlockOnSynchronizer s' = foldl next_last (next_last ?l (msgData ?m)) (map msgData new)"
      "mset ?ms' = mset new + mset (pendingResults s')"
      "\<forall>m \<in> set (pendingResults s'). res_from (msgData m) \<noteq> lastBlockOnSynchronizer s' + 1"
      using 1(1) [OF Some refl refl, of s' outs] dm i(1) p1 l2 by (auto simp: removeIndexes_single)
    have "mset ?ms = mset (?m # new) + mset (pendingResults s')"
      using mset_take_drop [OF i(1)] new(6) by simp
    with new dm i(2) show ?thesis by (intro exI [of _ "?m # new"]) simp
  qed
qed

text \<open>Feeding the filter with results as they arrive.\<close>

definition data_msg :: "('ev, 'ord) rollupInfoByBlockRangeResult \<Rightarrow> ('ev, 'ord) L1SyncMessage" where
  "data_msg r = the (newL1SyncMessageData (Some r))"

fun feedAll :: "('ev, 'ord) orderFilter \<Rightarrow> ('ev, 'ord) rollupInfoByBlockRangeResult list
    \<Rightarrow> ('ev, 'ord) orderFilter \<times> ('ev, 'ord) L1SyncMessage list" where
  "feedAll s [] = (s, [])"
| "feedAll s (r # rs) =
     (case Filter s (data_msg r) of (s1, out1) \<Rightarrow> (case feedAll s1 rs of (s2, out2) \<Rightarrow> (s2, out1 @ out2)))"

definition filter_ok :: "('ev, 'ord) orderFilter \<Rightarrow> bool" where
  "filter_ok s \<longleftrightarrow> data_only s \<and> (\<forall>m \<in> set (pendingResults s). res_from (msgData m) \<noteq> lastBlockOnSynchronizer s + 1)"

lemma msgData_data_msg [simp]: "msgData (data_msg r) = r" "dataIsValid (data_msg r)"
  by (simp_all add: data_msg_def newL1SyncMessageData_def)

lemma filter_ok_new [simp]: "filter_ok (newFilter l)"
  by (simp add: filter_ok_def data_only_def newFilter_def)

lemma Filter_data:
  assumes "filter_ok s" and "Filter s (data_msg r) = (s', outs)"
  shows "filter_ok s' \<and> chain (lastBlockOnSynchronizer s) (map msgData outs)
    \<and> lastBlockOnSynchronizer s' = foldl next_last (lastBlockOnSynchronizer s) (map msgData outs)
    \<and> add_mset r (mset (map msgData (pendingResults s))) = mset (map msgData outs) + mset (map msgData (pendingResults s'))"
proof -
  let ?s = "addPendingResultUnsafe s (data_msg r)"
  have "data_only ?s" using assms(1) by (auto simp: filter_ok_def data_only_def addPendingResultUnsafe_def)
  from send_data [OF this assms(2) [unfolded Filter_def]] obtain new where new: "outs = new" "data_only s'"
    "chain (lastBlockOnSynchronizer ?s) (map msgData new)"
    "lastBlockOnSynchronizer s' = foldl next_last (lastBlockOnSynchronizer ?s) (map msgData new)"
    "mset (pendingResults ?s) = mset new + mset (pendingResults s')"
    "\<forall>m \<in> set (pendingResults s'). res_from (msgData m) \<noteq> lastBlockOnSynchronizer s' + 1"
    by auto
  from arg_cong [where f = "image_mset msgData", OF new(5)]
  have "add_mset r (mset (map msgData (pendingResults s))) = mset (map msgData outs) + mset (map msgData (pendingResults s'))"
    by (simp add: addPendingResultUnsafe_def new(1))
  with new show ?thesis by (simp add: filter_ok_def addPendingResultUnsafe_def)
qed

lemma feedAll_data:
  assumes "filter_ok s" and "feedAll s rs = (s', outs)"
  shows "filter_ok s' \<and> chain (lastBlockOnSynchronizer s) (map msgData outs)
    \<and> lastBlockOnSynchronizer s' = foldl next_last (lastBlockOnSynchronizer s) (map msgData outs)
    \<and> mset rs + mset (map msgData (pendingResults s)) = mset (map msgData outs) + mset (map msgData (pendingResults s'))"
  using assms
proof (induction rs arbitrary: s s' outs)
  case (Cons r rs)
  obtain s1 out1 where f: "Filter s (data_msg r) = (s1, out1)" by fastforce
  obtain s2 out2 where g: "feedAll s1 rs = (s2, out2)" by fastforce
  have eq: "s' = s2" "outs = out1 @ out2" using Cons.prems(2) f g by simp_all
  note one = Filter_data [OF Cons.prems(1) f]
  note rest = Cons.IH [OF one [THEN conjunct1] g]
  have "mset (r # rs) + mset (map msgData (pendingResults s))
    = mset rs + (mset (map msgData out1) + mset (map msgData (pendingResults s1)))"
    using one by (simp add: ac_simps)
  also have "\<dots> = mset (map msgData outs) + mset (map msgData (pendingResults s2))"
    using rest by (simp add: eq ac_simps)
  finally show ?case using one rest by (simp add: eq chain_append)
qed simp

text \<open>Results that make progress: the answer reaches at least the first block of its range.\<close>

definition solid :: "('ev, 'ord) rollupInfoByBlockRangeResult \<Rightarrow> bool" where
  "solid r \<longleftrightarrow> res_from r \<noteq> 0 \<and> res_from r \<le> getHighestBlockNumberInResponse r
     \<and> getHighestBlockNumberInResponse r \<noteq> latestBlockNumber"

lemma chain_above:
  assumes "chain l rs" and "\<forall>r \<in> set rs. solid r" and "l \<noteq> latestBlockNumber" and "r \<in> set rs"
  shows "l < res_from r"
  using assms
proof (induction rs arbitrary: l)
  case (Cons x rs)
  have x: "res_from x = l + 1" using Cons.prems(1) by simp
  have lx: "l < res_from x"
    unfolding x using next_block(1) [OF Cons.prems(3), of l] by simp
  show ?case
  proof (cases "r = x")
    case False
    have hx: "res_from x \<le> next_last l x" "next_last l x \<noteq> latestBlockNumber"
      using Cons.prems(2) by (auto simp: solid_def next_last_def)
    then have "next_last l x < res_from r" using Cons.IH [of "next_last l x"] Cons.prems False by simp
    with lx hx(1) show ?thesis by (meson order_less_le_trans order_less_trans)
  qed (use lx in simp)
qed simp

lemma chain_prefix:
  assumes "chain l ms" and "chain l outs" and "\<forall>r \<in> set ms. solid r" and "l \<noteq> latestBlockNumber" and "mset outs \<subseteq># mset ms"
  shows "\<exists>rest. ms = outs @ rest"
  using assms
proof (induction outs arbitrary: l ms)
  case (Cons x outs)
  have x: "x \<in> set ms" using Cons.prems(5) by (metis list.set_intros(1) mset_subset_eqD set_mset_mset)
  then obtain m ms' where ms: "ms = m # ms'" by (cases ms) auto
  have hm: "next_last l m \<noteq> latestBlockNumber" "l + 1 \<le> next_last l m"
    using Cons.prems(1,3) by (auto simp: ms solid_def next_last_def)
  have "x = m"
  proof (rule ccontr)
    assume "x \<noteq> m"
    then have "x \<in> set ms'" using x by (simp add: ms)
    then have "next_last l m < res_from x"
      using chain_above [of "next_last l m" ms' x] Cons.prems(1,3) hm(1) by (simp add: ms)
    with Cons.prems(2) hm(2) show False by simp
  qed
  with Cons.prems have "\<exists>rest. ms' = outs @ rest" by (intro Cons.IH [of "next_last l m"]) (auto simp: ms hm)
  with \<open>x = m\<close> show ?case by (auto simp: ms)
qed simp

section \<open>Properties\<close>

text \<open>
  C32: the filter puts the answers into block order.  However the answers of the workers arrive, if
  arranged by block they continue each other from behind the last block of the synchronizer, the
  filter passes on exactly this arrangement: every answer once, in order, nothing left in the queue.
\<close>

theorem Filter_sorts:
  assumes "chain l ms" and "\<forall>r \<in> set ms. solid r" and "l \<noteq> latestBlockNumber" and "mset rs = mset ms"
  shows "\<exists>f outs. feedAll (newFilter l) rs = (f, outs) \<and> map msgData outs = ms \<and> pendingResults f = []"
proof -
  obtain f outs where run: "feedAll (newFilter l) rs = (f, outs)" by fastforce
  let ?outs = "map msgData outs" and ?pend = "map msgData (pendingResults f)"
  have f: "filter_ok f" "chain l ?outs" "lastBlockOnSynchronizer f = foldl next_last l ?outs"
    and m: "mset ms = mset ?outs + mset ?pend"
    using feedAll_data [OF filter_ok_new run] assms(4) by (simp_all add: newFilter_def)
  obtain rest where rest: "ms = ?outs @ rest"
    using chain_prefix [OF assms(1) f(2) assms(2,3)] m by auto
  then have pend: "mset rest = mset ?pend" using m by simp
  have "rest = []"
  proof (cases rest)
    case (Cons r rs')
    then have "res_from r = lastBlockOnSynchronizer f + 1" using assms(1) rest f(3) by (simp add: chain_append)
    moreover have "r \<in> set ?pend" using pend Cons by (metis list.set_intros(1) set_mset_mset)
    ultimately show ?thesis using f(1) by (auto simp: filter_ok_def)
  qed
  with pend rest have "pendingResults f = []" "?outs = ms" by auto
  with run show ?thesis by blast
qed

definition sample_result :: "uint64 \<Rightarrow> uint64 \<Rightarrow> (unit, unit) rollupInfoByBlockRangeResult" where
  "sample_result f t = \<lparr>resBlockRange = \<lparr>fromBlock = f, toBlock = t\<rparr>, resBlocks = [], resOrder = [],
     lastBlockOfRange = None, previousBlockOfRange = None\<rparr>"

theorem Filter_sorts_witness:
  "map msgData (snd (feedAll (newFilter 10) [sample_result 21 30, sample_result 11 20]))
     = [sample_result 11 20, sample_result 21 30]"
proof -
  let ?a = "sample_result 11 20" and ?b = "sample_result 21 30"
  have "chain 10 [?a, ?b]" "\<forall>r \<in> set [?a, ?b]. solid r"
    by (simp_all add: solid_def next_last_def getHighestBlockNumberInResponse_def sample_result_def latestBlockNumber_def)
  from Filter_sorts [OF this, of "[?b, ?a]"] show ?thesis by (auto simp: latestBlockNumber_def)
qed

end
