(* ===== verification/L1Workers.thy ===== *)
theory L1Workers
  imports OrderFilter
begin

text \<open>
  The workers that fetch ranges of blocks from L1: the request of one worker, the pool of workers,
  and the decorator that delays repeated requests (\<open>l1_worker_etherman.go\<close>, \<open>l1_workers.go\<close>,
  \<open>l1_workers_decorator_limit_retries_by_time.go\<close>) with its cache
  (\<open>synchronizer/common/generic_cache.go\<close>).

  The Ethereum client is a parameter: its answers may change from one call to the next, so every
  call is made at a moment.
\<close>

section \<open>A request of a worker\<close>

datatype requestLastBlockMode =
    requestLastBlockModeNone | requestLastBlockModeIfNoBlocksInAnswer | requestLastBlockModeAlways

record requestRollupInfoByBlockRange =
  reqBlockRange :: blockRange
  sleepBefore :: int
  requestLastBlockIfNoBlocksInAnswer :: requestLastBlockMode
  requestPreviousBlock :: bool

record ('ev, 'ord, 'err) etherman =
  GetRollupInfoByBlockRange :: "nat \<Rightarrow> uint64 \<Rightarrow> uint64 option \<Rightarrow> 'err + ('ev ethBlock list \<times> (hash32 \<times> 'ord list) list)"
  EthBlockByNumber :: "nat \<Rightarrow> uint64 \<Rightarrow> 'err + l1Block"
  HeaderByNumber :: "nat \<Rightarrow> 'err + uint64"

definition mustRequestLastBlock :: "requestLastBlockMode \<Rightarrow> int \<Rightarrow> uint64 \<Rightarrow> bool" where
  "mustRequestLastBlock mode lenBlocks lastBlockRequest =
     (case mode of
        requestLastBlockModeNone \<Rightarrow> False
      | requestLastBlockModeIfNoBlocksInAnswer \<Rightarrow> lenBlocks = 0 \<and> lastBlockRequest \<noteq> latestBlockNumber
      | requestLastBlockModeAlways \<Rightarrow> lastBlockRequest \<noteq> latestBlockNumber)"

definition fillLastBlock ::
  "('ev, 'ord, 'err) etherman \<Rightarrow> nat \<Rightarrow> requestRollupInfoByBlockRange \<Rightarrow> bool
     \<Rightarrow> ('ev, 'ord) rollupInfoByBlockRangeResult \<Rightarrow> ('ev, 'ord) rollupInfoByBlockRangeResult \<times> 'err option" where
  "fillLastBlock eth t request haveExecutedRollupInfo result =
     (if lastBlockOfRange result \<noteq> None then (result, None)
      else
        (let lenBlocks = (if haveExecutedRollupInfo then int (length (resBlocks result)) else - 1)
         in if mustRequestLastBlock (requestLastBlockIfNoBlocksInAnswer request) lenBlocks (toBlock (reqBlockRange request))
            then (case EthBlockByNumber eth t (toBlock (reqBlockRange request)) of
                    Inl e \<Rightarrow> (result, Some e)
                  | Inr b \<Rightarrow> (result\<lparr>lastBlockOfRange := Some b\<rparr>, None))
            else (result, None)))"

text \<open>On an error \<open>fillRollup\<close> has already stored what the client returned with it, here nothing.\<close>

definition fillRollup ::
  "('ev, 'ord, 'err) etherman \<Rightarrow> nat \<Rightarrow> requestRollupInfoByBlockRange
     \<Rightarrow> ('ev, 'ord) rollupInfoByBlockRangeResult \<Rightarrow> ('ev, 'ord) rollupInfoByBlockRangeResult \<times> 'err option" where
  "fillRollup eth t request result =
     (let br = reqBlockRange request;
          to = (if toBlock br \<noteq> latestBlockNumber then Some (toBlock br) else None)
      in case GetRollupInfoByBlockRange eth t (fromBlock br) to of
           Inl e \<Rightarrow> (result\<lparr>resBlocks := [], resOrder := []\<rparr>, Some e)
         | Inr (bs, ord) \<Rightarrow> (result\<lparr>resBlocks := bs, resOrder := ord\<rparr>, None))"

definition fillPreviousBlock ::
  "('ev, 'ord, 'err) etherman \<Rightarrow> nat \<Rightarrow> requestRollupInfoByBlockRange
     \<Rightarrow> ('ev, 'ord) rollupInfoByBlockRangeResult \<Rightarrow> ('ev, 'ord) rollupInfoByBlockRangeResult \<times> 'err option" where
  "fillPreviousBlock eth t request result =
     (if requestPreviousBlock request \<and> fromBlock (reqBlockRange request) > 2 then
        (case EthBlockByNumber eth t (fromBlock (reqBlockRange request) - 1) of
           Inl e \<Rightarrow> (result\<lparr>previousBlockOfRange := None\<rparr>, Some e)
         | Inr b \<Rightarrow> (result\<lparr>previousBlockOfRange := Some b\<rparr>, None))
      else (result, None))"

definition executeRequestRollupInfoByBlockRange ::
  "('ev, 'ord, 'err) etherman \<Rightarrow> nat \<Rightarrow> requestRollupInfoByBlockRange
     \<Rightarrow> ('ev, 'ord) rollupInfoByBlockRangeResult \<times> 'err option" where
  "executeRequestRollupInfoByBlockRange eth t request =
     (case fillLastBlock eth t request False (zeroResult\<lparr>resBlockRange := reqBlockRange request\<rparr>) of
        (r1, Some e) \<Rightarrow> (r1, Some e)
      | (r1, None) \<Rightarrow>
          (case fillRollup eth (t + 1) request r1 of
             (r2, Some e) \<Rightarrow> (r2, Some e)
           | (r2, None) \<Rightarrow>
               (case fillLastBlock eth (t + 2) request True r2 of
                  (r3, Some e) \<Rightarrow> (r3, Some e)
                | (r3, None) \<Rightarrow> fillPreviousBlock eth (t + 3) request r3)))"

section \<open>The pool of workers\<close>

datatype ethermanStatusEnum = ethermanIdle | ethermanWorking | ethermanError

datatype typeOfRequest = typeRequestNone | typeRequestRollupInfo | typeRequestLastBlock

datatype pool_error = errWorkerBusy | errAllWorkersBusy | errRequiredEtherman

datatype 'err worker_failure = poolFailure pool_error | ContextCanceled | ethermanFailure 'err

record genericResponse =
  duration :: int
  respType :: typeOfRequest

record ('ev, 'ord, 'err) responseRollupInfoByBlockRange =
  respErr :: "'err worker_failure option"
  respGeneric :: genericResponse
  respResult :: "('ev, 'ord) rollupInfoByBlockRangeResult option"

definition response_getHighestBlockNumberInResponse :: "('ev, 'ord, 'err) responseRollupInfoByBlockRange \<Rightarrow> uint64" where
  "response_getHighestBlockNumberInResponse r =
     (case respResult r of None \<Rightarrow> invalidBlockNumber | Some x \<Rightarrow> getHighestBlockNumberInResponse x)"

record workerEtherman =
  weStatus :: ethermanStatusEnum
  typeOfCurrentRequest :: typeOfRequest
  weRequest :: "requestRollupInfoByBlockRange option"

definition newWorker :: workerEtherman where
  "newWorker = \<lparr>weStatus = ethermanIdle, typeOfCurrentRequest = typeRequestNone, weRequest = None\<rparr>"

definition isIdle :: "workerEtherman \<Rightarrow> bool" where
  "isIdle w \<longleftrightarrow> weStatus w = ethermanIdle"

definition setStatus :: "ethermanStatusEnum \<Rightarrow> workerEtherman \<Rightarrow> workerEtherman" where
  "setStatus st w = w\<lparr>weStatus := st, typeOfCurrentRequest := typeRequestNone\<rparr>"

definition worker_asyncRequest :: "workerEtherman \<Rightarrow> requestRollupInfoByBlockRange \<Rightarrow> pool_error + workerEtherman" where
  "worker_asyncRequest w request =
     (if \<not> isIdle w then Inl errWorkerBusy
      else Inr (w\<lparr>weStatus := ethermanWorking, typeOfCurrentRequest := typeRequestRollupInfo, weRequest := Some request\<rparr>))"

text \<open>
  The goroutine of a worker: it may be cancelled in its sleep, otherwise it asks the client; either
  way it becomes idle and answers for the requested range.
\<close>

definition worker_finish ::
  "('ev, 'ord, 'err) etherman \<Rightarrow> nat \<Rightarrow> bool \<Rightarrow> int \<Rightarrow> workerEtherman
     \<Rightarrow> (workerEtherman \<times> ('ev, 'ord, 'err) responseRollupInfoByBlockRange) option" where
  "worker_finish eth t cancelled elapsed w =
     (case weRequest w of
        None \<Rightarrow> None
      | Some request \<Rightarrow>
          if isIdle w then None
          else if sleepBefore request > 0 \<and> cancelled then
            Some (setStatus ethermanIdle w,
              \<lparr>respErr = Some ContextCanceled, respGeneric = \<lparr>duration = 0, respType = typeRequestRollupInfo\<rparr>,
               respResult = Some (zeroResult\<lparr>resBlockRange := reqBlockRange request\<rparr>)\<rparr>)
          else
            (case executeRequestRollupInfoByBlockRange eth t request of
               (res, err) \<Rightarrow>
                 Some (setStatus ethermanIdle w,
                   \<lparr>respErr = map_option ethermanFailure err, respGeneric = \<lparr>duration = elapsed, respType = typeRequestRollupInfo\<rparr>,
                    respResult = Some res\<rparr>)))"

definition worker_requestLastBlock ::
  "('ev, 'ord, 'err) etherman \<Rightarrow> nat \<Rightarrow> workerEtherman \<Rightarrow> workerEtherman \<times> ('err worker_failure + uint64)" where
  "worker_requestLastBlock eth t w =
     (if \<not> isIdle w then (w, Inl (poolFailure errWorkerBusy))
      else (setStatus ethermanIdle w, map_sum ethermanFailure id (HeaderByNumber eth t)))"

text \<open>A worker of the pool with the context of its request; stopping the pool cancels the contexts.\<close>

record workerData =
  wdWorker :: workerEtherman
  wdCancelled :: bool

record workers =
  workerForLastBlock :: workerEtherman
  workerList :: "workerData list"

text \<open>Fewer than two clients end the process; the first one is reserved for the last block.\<close>

definition newWorkers :: "nat \<Rightarrow> workers option" where
  "newWorkers numEthermans =
     (if numEthermans < 2 then None
      else Some \<lparr>workerForLastBlock = newWorker,
                 workerList = replicate (numEthermans - 1) \<lparr>wdWorker = newWorker, wdCancelled = False\<rparr>\<rparr>)"

definition workers_initialize :: "workers \<Rightarrow> pool_error option" where
  "workers_initialize w = (if workerList w = [] then Some errRequiredEtherman else None)"

definition howManyRunningWorkers :: "workers \<Rightarrow> nat" where
  "howManyRunningWorkers w = length (filter (\<lambda>x. \<not> isIdle (wdWorker x)) (workerList w))"

definition workers_stop :: "workers \<Rightarrow> workers" where
  "workers_stop w = w\<lparr>workerList := map (\<lambda>x. x\<lparr>wdCancelled := True\<rparr>) (workerList w)\<rparr>"

fun getIdleWorkerFrom :: "nat \<Rightarrow> workerData list \<Rightarrow> nat option" where
  "getIdleWorkerFrom i [] = None"
| "getIdleWorkerFrom i (w # ws) = (if isIdle (wdWorker w) then Some i else getIdleWorkerFrom (i + 1) ws)"

definition getIdleWorkerUnsafe :: "workers \<Rightarrow> nat option" where
  "getIdleWorkerUnsafe w = getIdleWorkerFrom 0 (workerList w)"

definition asyncGenericRequest ::
  "workers \<Rightarrow> requestRollupInfoByBlockRange \<Rightarrow> workers \<times> pool_error option" where
  "asyncGenericRequest w request =
     (case getIdleWorkerUnsafe w of
        None \<Rightarrow> (w, Some errAllWorkersBusy)
      | Some i \<Rightarrow>
          (case worker_asyncRequest (wdWorker (workerList w ! i)) request of
             Inl e \<Rightarrow> (w\<lparr>workerList := (workerList w)[i := (workerList w ! i)\<lparr>wdCancelled := True\<rparr>]\<rparr>, Some e)
           | Inr x \<Rightarrow> (w\<lparr>workerList := (workerList w)[i := \<lparr>wdWorker = x, wdCancelled = False\<rparr>]\<rparr>, None)))"

text \<open>The goroutine of the worker with index \<open>i\<close> ends and its response goes to the outgoing channel.\<close>

definition pool_finish ::
  "('ev, 'ord, 'err) etherman \<Rightarrow> nat \<Rightarrow> int \<Rightarrow> workers \<Rightarrow> nat
     \<Rightarrow> (workers \<times> ('ev, 'ord, 'err) responseRollupInfoByBlockRange) option" where
  "pool_finish eth t elapsed w i =
     (if i < length (workerList w) then
        (case worker_finish eth t (wdCancelled (workerList w ! i)) elapsed (wdWorker (workerList w ! i)) of
           None \<Rightarrow> None
         | Some (x, resp) \<Rightarrow> Some (w\<lparr>workerList := (workerList w)[i := \<lparr>wdWorker = x, wdCancelled = True\<rparr>]\<rparr>, resp))
      else None)"

text \<open>
  The last block is asked for until an answer comes or the retries are used up; with no retries to
  begin with the counter passes below zero and only an answer ends the loop.
\<close>

partial_function (option) requestLastBlockWithRetries ::
  "('ev, 'ord, 'err) etherman \<Rightarrow> nat \<Rightarrow> workerEtherman \<Rightarrow> int \<Rightarrow> (workerEtherman \<times> ('err worker_failure + uint64)) option" where
  "requestLastBlockWithRetries eth t w maxPermittedRetries =
     (case worker_requestLastBlock eth t w of
        (w1, Inr b) \<Rightarrow> Some (w1, Inr b)
      | (w1, Inl e) \<Rightarrow>
          if maxPermittedRetries - 1 = 0 then Some (w1, Inl e)
          else requestLastBlockWithRetries eth (t + 1) w1 (maxPermittedRetries - 1))"

declare requestLastBlockWithRetries.simps [code]

section \<open>A cache whose entries expire\<close>

record ('k, 'v) Cache =
  cacheData :: "('k \<times> ('v \<times> int)) list"
  timeOfLiveItems :: int

definition NewCache :: "int \<Rightarrow> ('k, 'v) Cache" where
  "NewCache ttl = \<lparr>cacheData = [], timeOfLiveItems = ttl\<rparr>"

definition isOutdated :: "int \<Rightarrow> int \<Rightarrow> bool" where
  "isOutdated validTime now \<longleftrightarrow> validTime < now"

definition Cache_Get :: "int \<Rightarrow> ('k, 'v) Cache \<Rightarrow> 'k \<Rightarrow> ('k, 'v) Cache \<times> 'v option" where
  "Cache_Get now c key =
     (case map_of (cacheData c) key of
        None \<Rightarrow> (c, None)
      | Some (v, validTime) \<Rightarrow>
          if isOutdated validTime now then (c\<lparr>cacheData := AList.delete key (cacheData c)\<rparr>, None)
          else (c\<lparr>cacheData := AList.update key (v, now + timeOfLiveItems c) (cacheData c)\<rparr>, Some v))"

definition Cache_GetOrDefault :: "int \<Rightarrow> ('k, 'v) Cache \<Rightarrow> 'k \<Rightarrow> 'v \<Rightarrow> ('k, 'v) Cache \<times> 'v" where
  "Cache_GetOrDefault now c key d = (case Cache_Get now c key of (c', Some v) \<Rightarrow> (c', v) | (c', None) \<Rightarrow> (c', d))"

definition Cache_Set :: "int \<Rightarrow> ('k, 'v) Cache \<Rightarrow> 'k \<Rightarrow> 'v \<Rightarrow> ('k, 'v) Cache" where
  "Cache_Set now c key v = c\<lparr>cacheData := AList.update key (v, now + timeOfLiveItems c) (cacheData c)\<rparr>"

definition Cache_Delete :: "('k, 'v) Cache \<Rightarrow> 'k \<Rightarrow> ('k, 'v) Cache" where
  "Cache_Delete c key = c\<lparr>cacheData := AList.delete key (cacheData c)\<rparr>"

definition Cache_Len :: "('k, 'v) Cache \<Rightarrow> nat" where
  "Cache_Len c = length (cacheData c)"

definition Cache_Keys :: "('k, 'v) Cache \<Rightarrow> 'k list" where
  "Cache_Keys c = map fst (cacheData c)"

definition Cache_Values :: "('k, 'v) Cache \<Rightarrow> 'v list" where
  "Cache_Values c = map (fst \<circ> snd) (cacheData c)"

definition Cache_Clear :: "('k, 'v) Cache \<Rightarrow> ('k, 'v) Cache" where
  "Cache_Clear c = c\<lparr>cacheData := []\<rparr>"

definition Cache_DeleteOutdated :: "int \<Rightarrow> ('k, 'v) Cache \<Rightarrow> ('k, 'v) Cache" where
  "Cache_DeleteOutdated now c = c\<lparr>cacheData := filter (\<lambda>(k, v, validTime). \<not> isOutdated validTime now) (cacheData c)\<rparr>"

definition Cache_RenewEntry :: "int \<Rightarrow> ('k, 'v) Cache \<Rightarrow> 'k \<Rightarrow> ('k, 'v) Cache" where
  "Cache_RenewEntry now c key =
     (case map_of (cacheData c) key of
        None \<Rightarrow> c
      | Some (v, _) \<Rightarrow> c\<lparr>cacheData := AList.update key (v, now + timeOfLiveItems c) (cacheData c)\<rparr>)"

section \<open>The decorator that limits retries\<close>

record controlWorkerFlux =
  fluxTime :: int
  retries :: int

record workerDecorator =
  decorated :: workers
  dProcessingRanges :: "(blockRange, controlWorkerFlux) Cache"
  minTimeBetweenCalls :: int

definition timeOfLiveOfEntries :: int where
  "timeOfLiveOfEntries = 3600000000000"

definition newWorkerDecoratorLimitRetriesByTime :: "workers \<Rightarrow> int \<Rightarrow> workerDecorator" where
  "newWorkerDecoratorLimitRetriesByTime w minTime =
     \<lparr>decorated = w, dProcessingRanges = NewCache timeOfLiveOfEntries, minTimeBetweenCalls = minTime\<rparr>"

text \<open>The method shadows the one of the embedded workers and does not call it.\<close>

definition decorator_stop :: "workerDecorator \<Rightarrow> workerDecorator" where
  "decorator_stop d = d\<lparr>dProcessingRanges := Cache_Clear (dProcessingRanges d)\<rparr>"

definition decorator_asyncRequest ::
  "int \<Rightarrow> workerDecorator \<Rightarrow> requestRollupInfoByBlockRange \<Rightarrow> workerDecorator \<times> pool_error option" where
  "decorator_asyncRequest now d request0 =
     (case Cache_Get now (dProcessingRanges d) (reqBlockRange request0) of
        (cache1, found) \<Rightarrow>
          (let flux = (case found of None \<Rightarrow> \<lparr>fluxTime = 0, retries = 0\<rparr> | Some f \<Rightarrow> f);
               elapsed = now - fluxTime flux;
               request = (if found \<noteq> None \<and> elapsed < minTimeBetweenCalls d
                          then request0\<lparr>sleepBefore := (minTimeBetweenCalls d - elapsed) - sleepBefore request0\<rparr>
                          else request0)
           in case asyncGenericRequest (decorated d) request of
                (w, err) \<Rightarrow>
                  (let cache2 = (if err \<noteq> Some errAllWorkersBusy
                                 then Cache_Set now cache1 (reqBlockRange request) \<lparr>fluxTime = now, retries = retries flux + 1\<rparr>
                                 else cache1)
                   in (d\<lparr>decorated := w, dProcessingRanges := Cache_DeleteOutdated now cache2\<rparr>, err))))"

section \<open>Facts on requests\<close>

lemma mustRequestLastBlock_latest [simp]: "\<not> mustRequestLastBlock mode n latestBlockNumber"
  by (cases mode) (simp_all add: mustRequestLastBlock_def)

lemma fillLastBlock_frame:
  "fillLastBlock eth t req b r = (r', e) \<Longrightarrow>
     resBlockRange r' = resBlockRange r \<and> resBlocks r' = resBlocks r \<and> previousBlockOfRange r' = previousBlockOfRange r
     \<and> (toBlock (reqBlockRange req) = latestBlockNumber \<longrightarrow> lastBlockOfRange r' = lastBlockOfRange r)
     \<and> (e = None \<longrightarrow> mustRequestLastBlock (requestLastBlockIfNoBlocksInAnswer req)
          (if b then int (length (resBlocks r)) else - 1) (toBlock (reqBlockRange req)) \<longrightarrow> lastBlockOfRange r' \<noteq> None)
     \<and> (lastBlockOfRange r \<noteq> None \<longrightarrow> lastBlockOfRange r' = lastBlockOfRange r)"
  unfolding fillLastBlock_def Let_def by (auto split: if_splits sum.splits)

lemma fillRollup_frame:
  "fillRollup eth t req r = (r', e) \<Longrightarrow>
     resBlockRange r' = resBlockRange r \<and> lastBlockOfRange r' = lastBlockOfRange r \<and> previousBlockOfRange r' = previousBlockOfRange r"
  unfolding fillRollup_def Let_def by (auto split: if_splits sum.splits)

lemma executeRequest_range:
  assumes "executeRequestRollupInfoByBlockRange eth t req = (r, err)"
  shows "resBlockRange r = reqBlockRange req"
proof -
  let ?z = "zeroResult\<lparr>resBlockRange := reqBlockRange req\<rparr>"
  obtain r1 e1 where 1: "fillLastBlock eth t req False ?z = (r1, e1)" by fastforce
  obtain r2 e2 where 2: "fillRollup eth (t + 1) req r1 = (r2, e2)" by fastforce
  obtain r3 e3 where 3: "fillLastBlock eth (t + 2) req True r2 = (r3, e3)" by fastforce
  have prev: "resBlockRange (fst (fillPreviousBlock eth (t + 3) req r3)) = resBlockRange r3"
    by (simp add: fillPreviousBlock_def split: sum.split)
  have "resBlockRange r3 = reqBlockRange req" "resBlockRange r2 = reqBlockRange req" "resBlockRange r1 = reqBlockRange req"
    using fillLastBlock_frame [OF 1] fillRollup_frame [OF 2] fillLastBlock_frame [OF 3] by simp_all
  with assms 1 2 3 prev show ?thesis
    by (cases e1; cases e2; cases e3) (auto simp: executeRequestRollupInfoByBlockRange_def)
qed

text \<open>
  A successful request up to the latest block returns the blocks of the client and no last block; one
  with an end that always asks for the last block has it; one that asks for the previous block has it.
\<close>

lemma executeRequest_success:
  assumes "executeRequestRollupInfoByBlockRange eth t req = (r, None)"
  shows "\<exists>ord. GetRollupInfoByBlockRange eth (t + 1) (fromBlock (reqBlockRange req))
      (if toBlock (reqBlockRange req) \<noteq> latestBlockNumber then Some (toBlock (reqBlockRange req)) else None) = Inr (resBlocks r, ord)"
    and "toBlock (reqBlockRange req) = latestBlockNumber \<Longrightarrow> lastBlockOfRange r = None"
    and "toBlock (reqBlockRange req) \<noteq> latestBlockNumber \<Longrightarrow> requestLastBlockIfNoBlocksInAnswer req = requestLastBlockModeAlways
      \<Longrightarrow> lastBlockOfRange r \<noteq> None"
    and "requestPreviousBlock req \<Longrightarrow> fromBlock (reqBlockRange req) > 2 \<Longrightarrow> previousBlockOfRange r \<noteq> None"
proof -
  let ?z = "zeroResult\<lparr>resBlockRange := reqBlockRange req\<rparr>"
  obtain r1 e1 where 1: "fillLastBlock eth t req False ?z = (r1, e1)" by fastforce
  obtain r2 e2 where 2: "fillRollup eth (t + 1) req r1 = (r2, e2)" by fastforce
  obtain r3 e3 where 3: "fillLastBlock eth (t + 2) req True r2 = (r3, e3)" by fastforce
  have ok: "e1 = None" "e2 = None" "e3 = None" "fillPreviousBlock eth (t + 3) req r3 = (r, None)"
    using assms 1 2 3 by (cases e1; cases e2; cases e3; simp add: executeRequestRollupInfoByBlockRange_def)+
  have prev: "resBlocks r = resBlocks r3" "lastBlockOfRange r = lastBlockOfRange r3"
    using ok(4) by (auto simp: fillPreviousBlock_def split: if_splits sum.splits)
  note f = fillLastBlock_frame [OF 1] fillRollup_frame [OF 2] fillLastBlock_frame [OF 3]
  have "\<exists>ord. GetRollupInfoByBlockRange eth (t + 1) (fromBlock (reqBlockRange req))
      (if toBlock (reqBlockRange req) \<noteq> latestBlockNumber then Some (toBlock (reqBlockRange req)) else None) = Inr (resBlocks r2, ord)"
    using 2 ok(2) by (auto simp: fillRollup_def Let_def split: sum.splits)
  then show "\<exists>ord. GetRollupInfoByBlockRange eth (t + 1) (fromBlock (reqBlockRange req))
      (if toBlock (reqBlockRange req) \<noteq> latestBlockNumber then Some (toBlock (reqBlockRange req)) else None) = Inr (resBlocks r, ord)"
    using f(3) prev(1) by simp
  show "lastBlockOfRange r = None" if "toBlock (reqBlockRange req) = latestBlockNumber"
    using f that prev(2) by (simp add: zeroResult_def)
  show "lastBlockOfRange r \<noteq> None" if "toBlock (reqBlockRange req) \<noteq> latestBlockNumber"
    "requestLastBlockIfNoBlocksInAnswer req = requestLastBlockModeAlways"
  proof -
    have "lastBlockOfRange r1 \<noteq> None" using f(1) ok(1) that by (simp add: mustRequestLastBlock_def)
    then show ?thesis using f(2,3) prev(2) by auto
  qed
  show "previousBlockOfRange r \<noteq> None" if "requestPreviousBlock req" "fromBlock (reqBlockRange req) > 2"
    using ok(4) that by (auto simp: fillPreviousBlock_def split: sum.splits)
qed

lemma requestLastBlockWithRetries_returns:
  "0 < n \<Longrightarrow> \<exists>r. requestLastBlockWithRetries eth t w (int n) = Some r"
proof (induction n arbitrary: t w)
  case (Suc n)
  obtain w1 a where a: "worker_requestLastBlock eth t w = (w1, a)" by fastforce
  show ?case
  proof (cases "n = 0")
    case True
    then show ?thesis using a by (cases a) (simp_all add: requestLastBlockWithRetries.simps [of eth t])
  next
    case False
    then show ?thesis using a Suc.IH [of "t + 1" w1]
      by (cases a) (simp_all add: requestLastBlockWithRetries.simps [of eth t])
  qed
qed simp

text \<open>Starting a request uses up an idle worker.\<close>

definition idle_count :: "workers \<Rightarrow> nat" where
  "idle_count w = length (filter (\<lambda>x. isIdle (wdWorker x)) (workerList w))"

lemma getIdleWorkerFrom_Some:
  "getIdleWorkerFrom i ws = Some k \<Longrightarrow> i \<le> k \<and> k < i + length ws \<and> isIdle (wdWorker (ws ! (k - i)))"
  by (induction i ws rule: getIdleWorkerFrom.induct) (fastforce simp: nth_Cons' split: if_splits)+

lemma asyncGenericRequest_idle_count:
  assumes "asyncGenericRequest w req = (w', None)"
  shows "idle_count w' < idle_count w"
proof -
  obtain i where i: "getIdleWorkerFrom 0 (workerList w) = Some i"
    using assms by (auto simp: asyncGenericRequest_def getIdleWorkerUnsafe_def split: option.splits)
  have idle: "i < length (workerList w)" "isIdle (wdWorker (workerList w ! i))"
    using getIdleWorkerFrom_Some [OF i] by simp_all
  then obtain x where w': "w' = w\<lparr>workerList := (workerList w)[i := x]\<rparr>" "\<not> isIdle (wdWorker x)"
    using assms i by (auto simp: asyncGenericRequest_def getIdleWorkerUnsafe_def worker_asyncRequest_def isIdle_def)
  have "workerList w = take i (workerList w) @ workerList w ! i # drop (Suc i) (workerList w)"
    by (rule id_take_nth_drop [OF idle(1)])
  from arg_cong [where f = "\<lambda>l. length (filter (\<lambda>x. isIdle (wdWorker x)) l)", OF this] idle w'
  show ?thesis by (simp add: idle_count_def upd_conv_take_nth_drop)
qed

lemma decorator_asyncRequest_idle_count:
  "decorator_asyncRequest now d req = (d', None) \<Longrightarrow> idle_count (decorated d') < idle_count (decorated d)"
  by (auto simp: decorator_asyncRequest_def Let_def split: prod.splits dest: asyncGenericRequest_idle_count)

end
