(* ===== verification/SyncProducer.thy ===== *)
theory SyncProducer
  imports SyncStatus L1Workers
begin

text \<open>
  The producer of the parallel L1 synchronizer: its goroutine launches requests, receives the answers
  of the workers and passes them to the consumer in block order
  (\<open>l1_rollup_info_producer.go\<close>, \<open>l1_rollup_info_producer_statistics.go\<close>).

  A case of the \<open>select\<close> statement is chosen from outside.  A step gives \<open>None\<close> when the chosen case is
  not ready, when \<open>log.Fatal\<close> ends the process or when asking for the last block never returns.  A
  channel is the list of the messages in it; a send to a full channel waits for the consumer and is
  then an append.
\<close>

section \<open>State\<close>

record ConfigProducer =
  SyncChunkSize :: uint64
  TtlOfLastBlockOnL1 :: int
  TimeoutForRequestLastBlockOnL1 :: int
  NumOfAllowedRetriesForRequestLastBlockOnL1 :: int
  TimeOutMainLoop :: int
  TimeForShowUpStatisticsLog :: int
  MinTimeBetweenRetriesForRollupInfo :: int

datatype producerStatusEnum = producerIdle | producerWorking | producerSynchronized | producerNoRunning | producerReseting

datatype producerCmd = producerNop | producerStop | producerReset uint64

record l1RollupInfoProducerStatistics =
  initialBlockNumber :: uint64
  lastBlockNumber :: uint64
  numRollupInfoOk :: uint64
  numRollupInfoErrors :: uint64
  numRetrievedBlocks :: uint64
  startTime :: int
  lastShowUpTime :: int
  accumulatedTimeProcessingRollup :: int

record ('ev, 'ord, 'err) L1RollupInfoProducer =
  pWorkers :: workerDecorator
  pResponses :: "('ev, 'ord, 'err) responseRollupInfoByBlockRange list"
  pSyncStatus :: syncStatus
  outgoingChannel :: "('ev, 'ord) L1SyncMessage list"
  outgoingCap :: nat
  timeLastBLockOnL1 :: int
  pStatus :: producerStatusEnum
  pFilter :: "('ev, 'ord) orderFilter"
  pStatistics :: l1RollupInfoProducerStatistics
  pCfg :: ConfigProducer
  channelCmds :: "producerCmd list"
  ctxCancelled :: bool

definition normalize :: "ConfigProducer \<Rightarrow> bool" where
  "normalize cfg \<longleftrightarrow> SyncChunkSize cfg \<noteq> 0"

definition newRollupInfoProducerStatistics :: "uint64 \<Rightarrow> int \<Rightarrow> l1RollupInfoProducerStatistics" where
  "newRollupInfoProducerStatistics startingBlockNumber now =
     \<lparr>initialBlockNumber = startingBlockNumber, lastBlockNumber = 0, numRollupInfoOk = 0, numRollupInfoErrors = 0,
      numRetrievedBlocks = 0, startTime = now, lastShowUpTime = 0, accumulatedTimeProcessingRollup = 0\<rparr>"

definition stat_reset :: "uint64 \<Rightarrow> int \<Rightarrow> l1RollupInfoProducerStatistics \<Rightarrow> l1RollupInfoProducerStatistics" where
  "stat_reset startingBlockNumber now l =
     l\<lparr>initialBlockNumber := startingBlockNumber, startTime := now, numRollupInfoOk := 0, numRollupInfoErrors := 0,
       numRetrievedBlocks := 0, lastShowUpTime := now\<rparr>"

definition stat_onResponseRollupInfo ::
  "('ev, 'ord, 'err) responseRollupInfoByBlockRange \<Rightarrow> l1RollupInfoProducerStatistics \<Rightarrow> l1RollupInfoProducerStatistics" where
  "stat_onResponseRollupInfo r l =
     (case (respErr r, respResult r) of
        (None, Some res) \<Rightarrow>
          l\<lparr>numRollupInfoOk := numRollupInfoOk l + 1,
            numRetrievedBlocks := numRetrievedBlocks l + br_len (resBlockRange res),
            accumulatedTimeProcessingRollup := accumulatedTimeProcessingRollup l + duration (respGeneric r)\<rparr>
      | _ \<Rightarrow> l\<lparr>numRollupInfoErrors := numRollupInfoErrors l + 1\<rparr>)"

definition NewL1DataRetriever :: "ConfigProducer \<Rightarrow> nat \<Rightarrow> nat \<Rightarrow> int \<Rightarrow> ('ev, 'ord, 'err) L1RollupInfoProducer option" where
  "NewL1DataRetriever cfg numEthermans capacity now =
     (if \<not> normalize cfg then None
      else
        (case newWorkers numEthermans of
           None \<Rightarrow> None
         | Some w \<Rightarrow>
             Some \<lparr>pWorkers = newWorkerDecoratorLimitRetriesByTime w (MinTimeBetweenRetriesForRollupInfo cfg),
                   pResponses = [],
                   pSyncStatus = newSyncStatus invalidBlockNumber (SyncChunkSize cfg),
                   outgoingChannel = [], outgoingCap = capacity, timeLastBLockOnL1 = 0,
                   pStatus = producerNoRunning, pFilter = newFilter invalidBlockNumber,
                   pStatistics = newRollupInfoProducerStatistics invalidBlockNumber now,
                   pCfg = cfg, channelCmds = [], ctxCancelled = False\<rparr>))"

section \<open>Operations\<close>

definition sendPackages ::
  "('ev, 'ord) L1SyncMessage list \<Rightarrow> ('ev, 'ord, 'err) L1RollupInfoProducer \<Rightarrow> ('ev, 'ord, 'err) L1RollupInfoProducer" where
  "sendPackages pkgs l = l\<lparr>outgoingChannel := outgoingChannel l @ pkgs\<rparr>"

definition emptyChannel :: "('ev, 'ord, 'err) L1RollupInfoProducer \<Rightarrow> ('ev, 'ord, 'err) L1RollupInfoProducer" where
  "emptyChannel l = l\<lparr>outgoingChannel := []\<rparr>"

definition p_setStatus :: "producerStatusEnum \<Rightarrow> ('ev, 'ord, 'err) L1RollupInfoProducer \<Rightarrow> ('ev, 'ord, 'err) L1RollupInfoProducer" where
  "p_setStatus newStatus l =
     (let l1 = l\<lparr>pStatus := newStatus\<rparr>
      in if pStatus l \<noteq> newStatus \<and> newStatus = producerSynchronized
         then sendPackages [newL1SyncMessageControlWProducerIsFullySynced (GetHighestBlockReceived (pSyncStatus l))] l1
         else l1)"

definition p_Reset :: "uint64 \<Rightarrow> ('ev, 'ord, 'err) L1RollupInfoProducer \<Rightarrow> ('ev, 'ord, 'err) L1RollupInfoProducer" where
  "p_Reset startingBlockNumber l =
     (let l1 = emptyChannel (p_setStatus producerReseting l)
      in l1\<lparr>channelCmds := channelCmds l1 @ [producerReset startingBlockNumber]\<rparr>)"

definition resetUnsafe :: "int \<Rightarrow> uint64 \<Rightarrow> ('ev, 'ord, 'err) L1RollupInfoProducer \<Rightarrow> ('ev, 'ord, 'err) L1RollupInfoProducer" where
  "resetUnsafe now startingBlockNumber l =
     (let l1 = p_setStatus producerReseting l;
          l2 = l1\<lparr>pSyncStatus := ss_Reset (pSyncStatus l1) startingBlockNumber,
                  pStatistics := stat_reset startingBlockNumber now (pStatistics l1),
                  pWorkers := decorator_stop (pWorkers l1)\<rparr>;
          l3 = emptyChannel l2;
          l4 = l3\<lparr>pFilter := filter_Reset (pFilter l3) startingBlockNumber\<rparr>
      in p_setStatus producerIdle l4)"

text \<open>
  A step that waits in its \<open>select\<close> watches the context that is cancelled; the new one is for the next
  start, see \<open>p_initialize\<close>.
\<close>

definition p_Abort :: "('ev, 'ord, 'err) L1RollupInfoProducer \<Rightarrow> ('ev, 'ord, 'err) L1RollupInfoProducer" where
  "p_Abort l = (emptyChannel l)\<lparr>ctxCancelled := True\<rparr>"

definition p_Stop :: "('ev, 'ord, 'err) L1RollupInfoProducer \<Rightarrow> ('ev, 'ord, 'err) L1RollupInfoProducer" where
  "p_Stop l = l\<lparr>channelCmds := channelCmds l @ [producerStop]\<rparr>"

definition stopUnsafe :: "('ev, 'ord, 'err) L1RollupInfoProducer \<Rightarrow> ('ev, 'ord, 'err) L1RollupInfoProducer" where
  "stopUnsafe l =
     (let l1 = (if pStatus l \<noteq> producerNoRunning then l\<lparr>ctxCancelled := True\<rparr> else l);
          l2 = p_setStatus producerNoRunning l1
      in l2\<lparr>pWorkers := decorator_stop (pWorkers l2)\<rparr>)"

definition executeCmd :: "int \<Rightarrow> producerCmd \<Rightarrow> ('ev, 'ord, 'err) L1RollupInfoProducer \<Rightarrow> ('ev, 'ord, 'err) L1RollupInfoProducer \<times> bool" where
  "executeCmd now cmd l =
     (case cmd of
        producerStop \<Rightarrow> (stopUnsafe l, False)
      | producerReset n \<Rightarrow> (resetUnsafe now n l, True)
      | producerNop \<Rightarrow> (l, True))"

definition p_initialize :: "('ev, 'ord, 'err) L1RollupInfoProducer \<Rightarrow> ('ev, 'ord, 'err) L1RollupInfoProducer \<times> pool_error option" where
  "p_initialize l =
     ((if ctxCancelled l then l\<lparr>ctxCancelled := False\<rparr> else l), workers_initialize (decorated (pWorkers l)))"

definition onNewLastBlock :: "int \<Rightarrow> uint64 \<Rightarrow> ('ev, 'ord, 'err) L1RollupInfoProducer \<Rightarrow> ('ev, 'ord, 'err) L1RollupInfoProducer" where
  "onNewLastBlock now lastBlock l =
     (case OnNewLastBlockOnL1 (pSyncStatus l) lastBlock of
        (s, resp) \<Rightarrow>
          l\<lparr>pSyncStatus := s,
            pStatistics := (pStatistics l)\<lparr>lastBlockNumber := toBlock (fullRange resp)\<rparr>,
            timeLastBLockOnL1 := now\<rparr>)"

definition canISendNewRequestsUnsafe :: "('ev, 'ord, 'err) L1RollupInfoProducer \<Rightarrow> bool" where
  "canISendNewRequestsUnsafe l \<longleftrightarrow>
     \<not> numItemBlockedInQueue (pFilter l) + length (outgoingChannel l) > outgoingCap l"

definition buildRequest :: "syncStatus \<Rightarrow> blockRange \<Rightarrow> requestRollupInfoByBlockRange" where
  "buildRequest s br =
     (let request = \<lparr>reqBlockRange = br, sleepBefore = 0,
            requestLastBlockIfNoBlocksInAnswer = requestLastBlockModeIfNoBlocksInAnswer, requestPreviousBlock = False\<rparr>
      in if BlockNumberIsInsideUnsafeArea s (fromBlock br)
         then request\<lparr>requestLastBlockIfNoBlocksInAnswer := requestLastBlockModeAlways, requestPreviousBlock := True\<rparr>
         else request)"

text \<open>The loop ends when there is nothing to request or no worker takes the request.\<close>

function launchLoop ::
  "bool \<Rightarrow> int \<Rightarrow> syncStatus \<Rightarrow> workerDecorator \<Rightarrow> nat \<Rightarrow> (syncStatus \<times> workerDecorator \<times> nat) option" where
  "launchLoop allowNewRequests now s d launched =
     (case (if allowNewRequests then GetNextRange s else Some (GetNextRangeOnlyRetries s)) of
        None \<Rightarrow> None
      | Some (s1, None) \<Rightarrow> Some (s1, d, launched)
      | Some (s1, Some br) \<Rightarrow>
          (case decorator_asyncRequest now d (buildRequest s1 br) of
             (d1, Some _) \<Rightarrow> Some (s1, d1, launched)
           | (d1, None) \<Rightarrow>
               (case OnStartedNewWorker s1 br of
                  None \<Rightarrow> None
                | Some s2 \<Rightarrow> launchLoop allowNewRequests now s2 d1 (launched + 1))))"
  by pat_completeness auto
termination
  by (relation "measure (\<lambda>(a, now, s, d, n). idle_count (decorated d))")
    (auto dest: decorator_asyncRequest_idle_count [OF sym])

declare launchLoop.simps [simp del]

definition launchWork :: "int \<Rightarrow> ('ev, 'ord, 'err) L1RollupInfoProducer \<Rightarrow> (('ev, 'ord, 'err) L1RollupInfoProducer \<times> nat) option" where
  "launchWork now l =
     (case launchLoop (canISendNewRequestsUnsafe l) now (pSyncStatus l) (pWorkers l) 0 of
        None \<Rightarrow> None
      | Some (s, d, n) \<Rightarrow> Some (l\<lparr>pSyncStatus := s, pWorkers := d\<rparr>, n))"

definition renewLastBlockOnL1IfNeeded ::
  "('ev, 'ord, 'err) etherman \<Rightarrow> nat \<Rightarrow> int \<Rightarrow> ('ev, 'ord, 'err) L1RollupInfoProducer \<Rightarrow> ('ev, 'ord, 'err) L1RollupInfoProducer option" where
  "renewLastBlockOnL1IfNeeded eth t now l =
     (if now - timeLastBLockOnL1 l > TtlOfLastBlockOnL1 (pCfg l) then
        (case requestLastBlockWithRetries eth t (workerForLastBlock (decorated (pWorkers l)))
                (NumOfAllowedRetriesForRequestLastBlockOnL1 (pCfg l)) of
           None \<Rightarrow> None
         | Some (w, r) \<Rightarrow>
             (let d = pWorkers l; l1 = l\<lparr>pWorkers := d\<lparr>decorated := (decorated d)\<lparr>workerForLastBlock := w\<rparr>\<rparr>\<rparr>
              in case r of Inl _ \<Rightarrow> Some l1 | Inr b \<Rightarrow> Some (onNewLastBlock now b l1)))
      else Some l)"

text \<open>A response without a result would end in a nil pointer panic.\<close>

definition onResponseRollupInfo ::
  "('ev, 'ord, 'err) responseRollupInfoByBlockRange \<Rightarrow> ('ev, 'ord, 'err) L1RollupInfoProducer
     \<Rightarrow> ('ev, 'ord, 'err) L1RollupInfoProducer option" where
  "onResponseRollupInfo result l =
     (if pStatus l = producerReseting then Some l
      else
        (case respResult result of
           None \<Rightarrow> None
         | Some res \<Rightarrow>
             (let l1 = l\<lparr>pStatistics := stat_onResponseRollupInfo result (pStatistics l)\<rparr>;
                  isOk = (respErr result = None);
                  highest = (if isOk then response_getHighestBlockNumberInResponse result else invalidBlockNumber)
              in case OnFinishWorker (pSyncStatus l1) (resBlockRange res) isOk highest of
                   None \<Rightarrow> None
                 | Some (s, False) \<Rightarrow> Some (l1\<lparr>pSyncStatus := s\<rparr>)
                 | Some (s, True) \<Rightarrow>
                     (let l2 = l1\<lparr>pSyncStatus := s\<rparr>
                      in if isOk then
                           (case newL1SyncMessageData (Some res) of
                              None \<Rightarrow> None
                            | Some m \<Rightarrow>
                                (case Filter (pFilter l2) m of
                                   (f, pkgs) \<Rightarrow> Some (sendPackages pkgs (l2\<lparr>pFilter := f\<rparr>))))
                         else Some l2))))"

definition getNextTimeout :: "int \<Rightarrow> ('ev, 'ord, 'err) L1RollupInfoProducer \<Rightarrow> int" where
  "getNextTimeout now l =
     (if pStatus l = producerSynchronized
      then max ((now - timeLastBLockOnL1 l) + TtlOfLastBlockOnL1 (pCfg l)) 1000000000
      else TimeOutMainLoop (pCfg l))"

section \<open>A step of the main loop\<close>

datatype select_case = SelDone | SelCmd | SelTimeout | SelResponse

definition p_select :: "int \<Rightarrow> select_case \<Rightarrow> ('ev, 'ord, 'err) L1RollupInfoProducer \<Rightarrow> (('ev, 'ord, 'err) L1RollupInfoProducer \<times> bool) option" where
  "p_select now c l =
     (case c of
        SelDone \<Rightarrow> if ctxCancelled l then Some (l, False) else None
      | SelCmd \<Rightarrow>
          (case channelCmds l of [] \<Rightarrow> None | cmd # cmds \<Rightarrow> Some (executeCmd now cmd (l\<lparr>channelCmds := cmds\<rparr>)))
      | SelTimeout \<Rightarrow> Some (l, True)
      | SelResponse \<Rightarrow>
          (case pResponses l of
             [] \<Rightarrow> None
           | r # rs \<Rightarrow> map_option (\<lambda>l1. (l1, True)) (onResponseRollupInfo r (l\<lparr>pResponses := rs\<rparr>))))"

definition stepIdle ::
  "('ev, 'ord, 'err) etherman \<Rightarrow> nat \<Rightarrow> int \<Rightarrow> ('ev, 'ord, 'err) L1RollupInfoProducer \<Rightarrow> ('ev, 'ord, 'err) L1RollupInfoProducer option" where
  "stepIdle eth t now l =
     (case renewLastBlockOnL1IfNeeded eth t now l of
        None \<Rightarrow> None
      | Some l1 \<Rightarrow>
          if DoesItHaveAllTheNeedDataToWork (pSyncStatus l1)
          then (let l2 = p_setStatus producerWorking l1 in Some (l2\<lparr>channelCmds := channelCmds l2 @ [producerNop]\<rparr>))
          else Some l1)"

definition renewWhen ::
  "bool \<Rightarrow> ('ev, 'ord, 'err) etherman \<Rightarrow> nat \<Rightarrow> int \<Rightarrow> ('ev, 'ord, 'err) L1RollupInfoProducer \<Rightarrow> ('ev, 'ord, 'err) L1RollupInfoProducer option" where
  "renewWhen b eth t now l = (if b then renewLastBlockOnL1IfNeeded eth t now l else Some l)"

definition stepWorking ::
  "('ev, 'ord, 'err) etherman \<Rightarrow> nat \<Rightarrow> int \<Rightarrow> ('ev, 'ord, 'err) L1RollupInfoProducer \<Rightarrow> ('ev, 'ord, 'err) L1RollupInfoProducer option" where
  "stepWorking eth t now l =
     (case launchWork now l of
        None \<Rightarrow> None
      | Some (l1, _) \<Rightarrow>
          (case renewWhen (HaveRequiredAllBlocksToBeSynchronized (pSyncStatus l1)) eth t now l1 of
             None \<Rightarrow> None
           | Some l2 \<Rightarrow>
               (case renewWhen (BlockNumberIsInsideUnsafeArea (pSyncStatus l2) invalidBlockNumber) eth (t + 1) now l2 of
                  None \<Rightarrow> None
                | Some l3 \<Rightarrow>
                    if IsNodeFullySynchronizedWithL1 (pSyncStatus l3) then Some (p_setStatus producerSynchronized l3)
                    else map_option fst (launchWork now l3))))"

definition stepSynchronized ::
  "('ev, 'ord, 'err) etherman \<Rightarrow> nat \<Rightarrow> int \<Rightarrow> ('ev, 'ord, 'err) L1RollupInfoProducer \<Rightarrow> ('ev, 'ord, 'err) L1RollupInfoProducer option" where
  "stepSynchronized eth t now l =
     (case renewLastBlockOnL1IfNeeded eth t now l of
        None \<Rightarrow> None
      | Some l1 \<Rightarrow>
          (case launchWork now l1 of
             None \<Rightarrow> None
           | Some (l2, n) \<Rightarrow> Some (if n > 0 then p_setStatus producerWorking l2 else l2)))"

definition p_step ::
  "('ev, 'ord, 'err) etherman \<Rightarrow> nat \<Rightarrow> int \<Rightarrow> select_case \<Rightarrow> ('ev, 'ord, 'err) L1RollupInfoProducer
     \<Rightarrow> (('ev, 'ord, 'err) L1RollupInfoProducer \<times> bool) option" where
  "p_step eth t now c l0 =
     (let l = (if pStatus l0 = producerNoRunning then l0\<lparr>pStatus := producerIdle\<rparr> else l0)
      in case p_select now c l of
           None \<Rightarrow> None
         | Some (l1, False) \<Rightarrow> Some (l1, False)
         | Some (l1, True) \<Rightarrow>
             (case (case pStatus l1 of
                      producerIdle \<Rightarrow> stepIdle eth t now l1
                    | producerWorking \<Rightarrow> stepWorking eth t now l1
                    | producerSynchronized \<Rightarrow> stepSynchronized eth t now l1
                    | _ \<Rightarrow> Some l1) of
                None \<Rightarrow> None
              | Some l2 \<Rightarrow>
                  (let st = pStatistics l2; every = TimeForShowUpStatisticsLog (pCfg l2)
                   in Some (if every \<noteq> 0 \<and> now - lastShowUpTime st > every
                            then l2\<lparr>pStatistics := st\<lparr>lastShowUpTime := now\<rparr>\<rparr> else l2, True))))"

subsection \<open>Running the producer\<close>

text \<open>The loop of \<open>Start\<close> over the cases that the \<open>select\<close> statements choose, each at its moment.\<close>

fun p_loop ::
  "('ev, 'ord, 'err) etherman \<Rightarrow> (nat \<times> int \<times> select_case) list \<Rightarrow> ('ev, 'ord, 'err) L1RollupInfoProducer
     \<Rightarrow> ('ev, 'ord, 'err) L1RollupInfoProducer option" where
  "p_loop eth [] l = Some l"
| "p_loop eth ((t, now, c) # cs) l =
     (case p_step eth t now c l of
        None \<Rightarrow> None
      | Some (l1, False) \<Rightarrow> Some (p_setStatus producerNoRunning l1)
      | Some (l1, True) \<Rightarrow> p_loop eth cs l1)"

definition p_Start ::
  "('ev, 'ord, 'err) etherman \<Rightarrow> (nat \<times> int \<times> select_case) list \<Rightarrow> ('ev, 'ord, 'err) L1RollupInfoProducer
     \<Rightarrow> (pool_error + ('ev, 'ord, 'err) L1RollupInfoProducer) option" where
  "p_Start eth cs l =
     (case p_initialize l of
        (l1, Some e) \<Rightarrow> Some (Inl e)
      | (l1, None) \<Rightarrow> map_option Inr (p_loop eth cs (p_setStatus producerIdle l1)))"

section \<open>The client\<close>

text \<open>
  What is relied on of the Ethereum client: its block numbers are below \<open>2 ^ 63\<close> and the blocks of a
  range do not lie before its beginning.
\<close>

definition eth_ok :: "('ev, 'ord, 'err) etherman \<Rightarrow> bool" where
  "eth_ok eth \<longleftrightarrow> (\<forall>t b. HeaderByNumber eth t = Inr b \<longrightarrow> b < max_block)
     \<and> (\<forall>t f to bs ord. GetRollupInfoByBlockRange eth t f to = Inr (bs, ord) \<longrightarrow>
          (\<forall>b \<in> set bs. f \<le> BlockNumber b \<and> BlockNumber b < max_block))"

lemma requestLastBlockWithRetries_header:
  assumes "requestLastBlockWithRetries eth t w n = Some r" and "snd r = Inr b"
  shows "\<exists>t. HeaderByNumber eth t = Inr b"
proof -
  have "\<forall>b. snd r = Inr b \<longrightarrow> (\<exists>t. HeaderByNumber eth t = Inr b)"
  proof (rule requestLastBlockWithRetries.raw_induct [OF _ assms(1), where P = "\<lambda>eth t w n r. \<forall>b. snd r = Inr b \<longrightarrow> (\<exists>t. HeaderByNumber eth t = Inr b)"], goal_cases)
    case (1 rec eth t w n r)
    obtain w1 a where a: "worker_requestLastBlock eth t w = (w1, a)" by fastforce
    show ?case
    proof (cases a)
      case (Inl e)
      then have step: "(if n - 1 = 0 then Some (w1, Inl e) else rec eth (t + 1) w1 (n - 1)) = Some r"
        using 1(2) a by simp
      show ?thesis
      proof (cases "n - 1 = 0")
        case True
        then have "r = (w1, Inl e)" using step by simp
        then show ?thesis by simp
      next
        case False
        then show ?thesis using 1(1) step by simp
      qed
    next
      case (Inr b)
      then have "HeaderByNumber eth t = Inr b"
        using a by (auto simp: worker_requestLastBlock_def map_sum_def split: if_splits sum.splits)
      then show ?thesis using 1(2) a Inr by auto
    qed
  qed
  with assms(2) show ?thesis by blast
qed

section \<open>Answers\<close>

text \<open>The part of its range that a result answers, and the answered ranges of all results.\<close>

abbreviation res_high :: "('ev, 'ord) rollupInfoByBlockRangeResult \<Rightarrow> uint64" where
  "res_high \<equiv> getHighestBlockNumberInResponse"

fun cuts :: "('ev, 'ord) rollupInfoByBlockRangeResult list \<Rightarrow> blockRange list" where
  "cuts [] = []"
| "cuts (r # rs) = answered (resBlockRange r) (res_high r) (cuts rs)"

definition result_ok :: "('ev, 'ord) rollupInfoByBlockRangeResult \<Rightarrow> bool" where
  "result_ok r \<longleftrightarrow> res_from r \<noteq> 0 \<and> res_from r - 1 \<le> res_high r \<and> res_high r \<noteq> latestBlockNumber"

definition resp_ok :: "('ev, 'ord, 'err) responseRollupInfoByBlockRange \<Rightarrow> bool" where
  "resp_ok x \<longleftrightarrow> respResult x \<noteq> None \<and> (\<forall>res. respErr x = None \<and> respResult x = Some res \<and> toBlock (resBlockRange res) = latestBlockNumber \<longrightarrow>
     lastBlockOfRange res = None \<and> (\<forall>b \<in> set (resBlocks res). res_from res \<le> BlockNumber b \<and> BlockNumber b < max_block))"

lemma pool_finish_resp_ok:
  assumes eth: "eth_ok eth" and "pool_finish eth t elapsed w i = Some (w', resp)"
  shows "resp_ok resp"
proof -
  let ?x = "workerList w ! i"
  obtain x where f: "worker_finish eth t (wdCancelled ?x) elapsed (wdWorker ?x) = Some (x, resp)"
    using assms(2) by (auto simp: pool_finish_def split: if_splits option.splits)
  then obtain req where req: "weRequest (wdWorker ?x) = Some req" by (auto simp: worker_finish_def split: option.splits)
  obtain res err where ex: "executeRequestRollupInfoByBlockRange eth t req = (res, err)" by fastforce
  show ?thesis
    unfolding resp_ok_def
  proof (rule conjI [OF _ allI [OF impI]])
    show "respResult resp \<noteq> None" using f req ex by (auto simp: worker_finish_def split: if_splits)
  next
    fix r assume r: "respErr resp = None \<and> respResult resp = Some r \<and> toBlock (resBlockRange r) = latestBlockNumber"
    then have "r = res" "err = None" using f req ex by (auto simp: worker_finish_def split: if_splits)
    note ok = executeRequest_success [OF ex [unfolded this(2)]] and range = executeRequest_range [OF ex]
    from ok(1) eth have "\<forall>b \<in> set (resBlocks res). res_from res \<le> BlockNumber b \<and> BlockNumber b < max_block"
      unfolding eth_ok_def range by blast
    with ok(2) r range \<open>r = res\<close> show "lastBlockOfRange r = None
      \<and> (\<forall>b \<in> set (resBlocks r). res_from r \<le> BlockNumber b \<and> BlockNumber b < max_block)" by simp
  qed
qed

lemma fold_block_max:
  "fold (\<lambda>b h. if BlockNumber b > h then BlockNumber b else h) bs a \<in> insert a (BlockNumber ` set bs)"
  by (induction bs arbitrary: a) (auto split: if_splits)

text \<open>A range up to the latest block begins right behind a block that is known.\<close>

lemma latest_from_small:
  assumes ok: "sync_ok start s D" and br: "br \<in> live s" "toBlock br = latestBlockNumber"
  shows "fromBlock br - 1 < max_block"
proof -
  let ?b = "fromBlock br - 1"
  have st: "start < fromBlock br" using sync_okD(2) [OF ok, of br] br(1) by auto
  then have nz: "fromBlock br \<noteq> 0" by auto
  then have "unat (fromBlock br) \<noteq> 0" by (simp add: unat_eq_0)
  with nz have lt: "?b < fromBlock br" by (simp add: word_less_nat_alt unat_minus_one)
  show ?thesis
  proof (cases "start < ?b")
    case True
    have "?b \<le> frontier s" using frontier_ge(2) [OF br(1)] br(2) by (metis latest_max order_trans)
    from sync_okD(7) [OF ok True this] obtain r where r: "r \<in> set (all_ranges s D)" "?b \<in> blocks_of r"
      by (auto simp: blocks_in_def)
    then have "r \<noteq> br" using lt by (auto simp: blocks_of_def)
    with below_latest [OF ok br r(1)] have "toBlock r \<noteq> latestBlockNumber" by (metis latest_max leD)
    then have "toBlock r < max_block"
      using r(1) sync_okD(10) [OF ok, of r] sync_okD(5) [OF ok, of r] sync_okD(4) [OF ok] by (auto intro: order_le_less_trans)
    with r(2) show ?thesis by (auto simp: blocks_of_def intro: order_le_less_trans)
  next
    case False
    then have "?b \<le> lastBlockStoreOnStateDB s" using sync_okD(3) [OF ok] by (simp add: not_less order_trans)
    with sync_okD(4) [OF ok] show ?thesis by (rule order_le_less_trans [rotated])
  qed
qed

lemma response_reply_ok:
  assumes ok: "sync_ok start s D" and x: "resp_ok x" "respErr x = None" "respResult x = Some res"
    and br: "resBlockRange res \<in> set (ranges (processingRanges s))"
  shows "reply_ok (resBlockRange res) (res_high res)" and "result_ok res"
proof -
  let ?br = "resBlockRange res"
  have brl: "?br \<in> live s" using br by simp
  have valid: "br_valid ?br" using tiles_valid [OF sync_okD(1) [OF ok]] br by simp
  have nz: "fromBlock ?br \<noteq> 0" using valid by (simp add: br_valid_def)
  have le: "fromBlock ?br - 1 \<le> fromBlock ?br" using nz by (simp add: word_le_nat_alt unat_minus_one)
  have "reply_ok ?br (res_high res) \<and> fromBlock ?br - 1 \<le> res_high res \<and> res_high res < latestBlockNumber"
  proof (cases "toBlock ?br = latestBlockNumber")
    case False
    moreover have "toBlock ?br < latestBlockNumber" using False by (metis latest_max order_le_less)
    ultimately show ?thesis
      using valid le by (auto simp: reply_ok_def getHighestBlockNumberInResponse_def br_valid_def)
  next
    case True
    let ?h = "getRealHighestBlockNumberInResponse res"
    have b: "lastBlockOfRange res = None" "\<forall>b \<in> set (resBlocks res). fromBlock ?br \<le> BlockNumber b \<and> BlockNumber b < max_block"
      using x True by (auto simp: resp_ok_def)
    then have "?h = 0 \<or> fromBlock ?br \<le> ?h \<and> ?h < max_block"
      using fold_block_max [of "resBlocks res" 0]
      by (auto simp: getRealHighestBlockNumberInResponse_def invalidBlockNumber_def)
    then have "fromBlock ?br - 1 \<le> res_high res \<and> res_high res < max_block"
      using True latest_from_small [OF ok brl True] le
      by (auto simp: getHighestBlockNumberInResponse_def invalidBlockNumber_def Let_def intro: order_trans)
    moreover have "max_block \<le> latestBlockNumber" by simp
    ultimately show ?thesis using True by (auto simp: reply_ok_def intro: order_less_le_trans)
  qed
  then show "reply_ok ?br (res_high res)" "result_ok res" using nz by (auto simp: result_ok_def)
qed

section \<open>The invariant of the producer\<close>

text \<open>The results that the consumer has received or will find in the channel, in their order.\<close>

definition sent ::
  "('ev, 'ord) L1SyncMessage list \<Rightarrow> ('ev, 'ord, 'err) L1RollupInfoProducer \<Rightarrow> ('ev, 'ord) rollupInfoByBlockRangeResult list" where
  "sent C l = map msgData (filter dataIsValid (C @ outgoingChannel l))"

text \<open>
  Every successful answer is either sent or waits in the filter; the answered ranges are those of the
  status; what is sent is a chain.
\<close>

definition parts_ok ::
  "uint64 \<Rightarrow> ('ev, 'ord) rollupInfoByBlockRangeResult list \<Rightarrow> syncStatus \<Rightarrow> ('ev, 'ord) orderFilter \<Rightarrow> bool" where
  "parts_ok start S s f \<longleftrightarrow>
     (\<exists>R. sync_ok start s (cuts R) \<and> filter_ok f \<and> chain start S \<and> lastBlockOnSynchronizer f = foldl next_last start S
        \<and> mset R = mset S + mset (map msgData (pendingResults f)) \<and> (\<forall>r \<in> set R. result_ok r))"

definition prod_inv :: "uint64 \<Rightarrow> ('ev, 'ord) L1SyncMessage list \<Rightarrow> ('ev, 'ord, 'err) L1RollupInfoProducer \<Rightarrow> bool" where
  "prod_inv start C l \<longleftrightarrow> parts_ok start (sent C l) (pSyncStatus l) (pFilter l)
     \<and> (\<forall>x \<in> set (pResponses l). resp_ok x) \<and> (\<forall>n. producerReset n \<notin> set (channelCmds l))"

lemma prod_inv_cong:
  "sent C l' = sent C l \<Longrightarrow> pSyncStatus l' = pSyncStatus l \<Longrightarrow> pFilter l' = pFilter l \<Longrightarrow> pResponses l' = pResponses l
     \<Longrightarrow> channelCmds l' = channelCmds l \<Longrightarrow> prod_inv start C l' = prod_inv start C l"
  by (simp add: prod_inv_def)

lemma p_setStatus_simps [simp]:
  "sent C (p_setStatus st l) = sent C l" "pSyncStatus (p_setStatus st l) = pSyncStatus l" "pFilter (p_setStatus st l) = pFilter l"
  "pResponses (p_setStatus st l) = pResponses l" "channelCmds (p_setStatus st l) = channelCmds l" "pCfg (p_setStatus st l) = pCfg l"
  "pStatus (p_setStatus st l) = st"
  by (simp_all add: p_setStatus_def Let_def sendPackages_def sent_def newL1SyncMessageControlWProducerIsFullySynced_def)

lemma prod_inv_setStatus [simp]: "prod_inv start C (p_setStatus st l) = prod_inv start C l"
  by (rule prod_inv_cong) simp_all

lemma prod_inv_frame [simp]:
  "prod_inv start C (l\<lparr>pWorkers := w\<rparr>) = prod_inv start C l"
  "prod_inv start C (l\<lparr>pStatistics := st\<rparr>) = prod_inv start C l"
  "prod_inv start C (l\<lparr>pStatus := x\<rparr>) = prod_inv start C l"
  "prod_inv start C (l\<lparr>ctxCancelled := b\<rparr>) = prod_inv start C l"
  "prod_inv start C (l\<lparr>timeLastBLockOnL1 := now\<rparr>) = prod_inv start C l"
  by (rule prod_inv_cong; simp add: sent_def)+

lemma parts_ok_status:
  "parts_ok start S s f \<Longrightarrow> (\<And>D. sync_ok start s D \<Longrightarrow> sync_ok start s' D) \<Longrightarrow> parts_ok start S s' f"
  unfolding parts_ok_def by blast

lemma prod_inv_status:
  assumes "prod_inv start C l" and "\<And>D. sync_ok start (pSyncStatus l) D \<Longrightarrow> sync_ok start s D"
  shows "prod_inv start C (l\<lparr>pSyncStatus := s\<rparr>)"
proof -
  have "sent C (l\<lparr>pSyncStatus := s\<rparr>) = sent C l" by (simp add: sent_def)
  with assms show ?thesis using parts_ok_status [of start "sent C l" "pSyncStatus l" "pFilter l" s] by (simp add: prod_inv_def)
qed

section \<open>Every operation keeps it\<close>

lemma launchLoop_ok:
  "sync_ok start s D \<Longrightarrow> \<exists>s' d' n. launchLoop allow now s d k = Some (s', d', n) \<and> sync_ok start s' D"
proof (induction allow now s d k rule: launchLoop.induct)
  case (1 allow now s d k)
  let ?g = "if allow then GetNextRange s else Some (GetNextRangeOnlyRetries s)"
  have "\<exists>s1 r. ?g = Some (s1, r) \<and> sync_ok start s1 D"
  proof (cases allow)
    case True
    then show ?thesis by (auto intro: GetNextRange_cases [OF 1(2)])
  next
    case False
    then show ?thesis using GetNextRangeOnlyRetries_ok(1) [OF 1(2)] by (cases "GetNextRangeOnlyRetries s") auto
  qed
  then obtain s1 r where g: "?g = Some (s1, r)" "sync_ok start s1 D" by blast
  show ?case
  proof (cases r)
    case None
    then show ?thesis using g by (simp add: launchLoop.simps [of allow])
  next
    case (Some br)
    obtain d1 e where e: "decorator_asyncRequest now d (buildRequest s1 br) = (d1, e)" by fastforce
    have "\<exists>s2. OnStartedNewWorker s1 br = Some s2 \<and> sync_ok start s2 D"
    proof (cases allow)
      case True
      then show ?thesis using GetNextRange_start [OF 1(2)] g Some by simp
    next
      case False
      then have "GetNextRangeOnlyRetries s = (s1, Some br)" using g(1) Some by simp
      then have "br \<in> set (ranges (errorRanges s1))" using GetNextRangeOnlyRetries_ok(2) [OF 1(2)] by blast
      then show ?thesis by (rule OnStarted_retry [OF g(2)])
    qed
    then obtain s2 where s2: "OnStartedNewWorker s1 br = Some s2" "sync_ok start s2 D" by blast
    show ?thesis
    proof (cases e)
      case None
      then show ?thesis
        using 1(1) [OF g(1) refl Some e [symmetric] None s2(1,2)] g(1) Some e s2(1) by (simp add: launchLoop.simps [of allow now s])
    next
      case (Some x)
      then show ?thesis using g e \<open>r = Some br\<close> by (simp add: launchLoop.simps [of allow now s])
    qed
  qed
qed

lemma launchWork_ok:
  assumes "prod_inv start C l"
  shows "\<exists>l' n. launchWork now l = Some (l', n) \<and> prod_inv start C l' \<and> pCfg l' = pCfg l"
proof -
  let ?run = "launchLoop (canISendNewRequestsUnsafe l) now (pSyncStatus l) (pWorkers l) 0"
  obtain D where "sync_ok start (pSyncStatus l) D" using assms by (auto simp: prod_inv_def parts_ok_def)
  then obtain s d n where run: "?run = Some (s, d, n)" using launchLoop_ok by blast
  have "sync_ok start s D" if "sync_ok start (pSyncStatus l) D" for D
    using launchLoop_ok [OF that, of "canISendNewRequestsUnsafe l" now "pWorkers l" 0] run by auto
  with assms have "prod_inv start C (l\<lparr>pSyncStatus := s\<rparr>)" by (rule prod_inv_status)
  moreover have "launchWork now l = Some (l\<lparr>pSyncStatus := s, pWorkers := d\<rparr>, n)" using run by (simp add: launchWork_def)
  ultimately show ?thesis by simp
qed

lemma renew_inv:
  assumes "prod_inv start C l" and "eth_ok eth" and "renewLastBlockOnL1IfNeeded eth t now l = Some l'"
  shows "prod_inv start C l' \<and> pCfg l' = pCfg l"
proof (cases "now - timeLastBLockOnL1 l > TtlOfLastBlockOnL1 (pCfg l)")
  case True
  let ?w = "workerForLastBlock (decorated (pWorkers l))"
  let ?l1 = "\<lambda>w. l\<lparr>pWorkers := (pWorkers l)\<lparr>decorated := (decorated (pWorkers l))\<lparr>workerForLastBlock := w\<rparr>\<rparr>\<rparr>"
  obtain w r where r: "requestLastBlockWithRetries eth t ?w (NumOfAllowedRetriesForRequestLastBlockOnL1 (pCfg l)) = Some (w, r)"
    using assms(3) True by (auto simp: renewLastBlockOnL1IfNeeded_def split: option.splits)
  show ?thesis
  proof (cases r)
    case (Inl e)
    then have "l' = ?l1 w" using assms(3) True r by (simp add: renewLastBlockOnL1IfNeeded_def Let_def)
    with assms(1) show ?thesis by simp
  next
    case (Inr b)
    then have l': "l' = onNewLastBlock now b (?l1 w)" using assms(3) True r by (simp add: renewLastBlockOnL1IfNeeded_def Let_def)
    have "b < max_block" using requestLastBlockWithRetries_header [OF r, of b] Inr assms(2) by (auto simp: eth_ok_def)
    then have "prod_inv start C ((?l1 w)\<lparr>pSyncStatus := fst (OnNewLastBlockOnL1 (pSyncStatus l) b)\<rparr>)"
      using assms(1) by (intro prod_inv_status) (simp_all add: sync_ok_lastBlock)
    then show ?thesis by (simp add: l' onNewLastBlock_def case_prod_beta)
  qed
qed (use assms in \<open>simp add: renewLastBlockOnL1IfNeeded_def\<close>)

lemma renew_returns:
  assumes "0 < NumOfAllowedRetriesForRequestLastBlockOnL1 (pCfg l)"
  shows "renewLastBlockOnL1IfNeeded eth t now l \<noteq> None"
proof -
  obtain n where n: "NumOfAllowedRetriesForRequestLastBlockOnL1 (pCfg l) = int n" "0 < n"
    using assms zero_less_imp_eq_int by blast
  obtain w r where "requestLastBlockWithRetries eth t (workerForLastBlock (decorated (pWorkers l))) (int n) = Some (w, r)"
    using requestLastBlockWithRetries_returns [OF n(2)] by fastforce
  then show ?thesis by (cases r) (simp_all add: renewLastBlockOnL1IfNeeded_def n(1) Let_def)
qed

lemma Filter_valid:
  assumes "filter_ok s" and "Filter s (data_msg r) = (s', outs)"
  shows "\<forall>m \<in> set outs. dataIsValid m"
proof -
  have "data_only (addPendingResultUnsafe s (data_msg r))"
    using assms(1) by (auto simp: filter_ok_def data_only_def addPendingResultUnsafe_def)
  from send_data [OF this assms(2) [unfolded Filter_def]] show ?thesis by auto
qed

text \<open>A successful answer becomes one of the results and passes through the filter.\<close>

lemma parts_ok_answer:
  assumes ok: "parts_ok start S s f" and br: "resBlockRange res \<in> set (ranges (processingRanges s))"
    and x: "resp_ok x" "respErr x = None" "respResult x = Some res"
    and fin: "OnFinishWorker s (resBlockRange res) True (res_high res) = Some (s', b)"
    and flt: "Filter f (data_msg res) = (f', pkgs)"
  shows "parts_ok start (S @ map msgData pkgs) s' f'"
proof -
  obtain R where R: "sync_ok start s (cuts R)" "filter_ok f" "chain start S" "lastBlockOnSynchronizer f = foldl next_last start S"
    "mset R = mset S + mset (map msgData (pendingResults f))" "\<forall>r \<in> set R. result_ok r"
    using ok by (auto simp: parts_ok_def)
  note reply = response_reply_ok [OF R(1) x br]
  have "sync_ok start s' (cuts (res # R))" using OnFinishWorker_success [OF R(1) br reply(1)] fin by simp
  moreover note F = Filter_data [OF R(2) flt]
  moreover have "mset (res # R) = mset (S @ map msgData pkgs) + mset (map msgData (pendingResults f'))"
    using F R(5) by (simp add: ac_simps)
  moreover have "\<forall>r \<in> set (res # R). result_ok r" using R(6) reply(2) by simp
  ultimately show ?thesis
    unfolding parts_ok_def using R(3,4) by (intro exI [of _ "res # R"]) (simp add: chain_append)
qed

lemma onResponse_ok:
  assumes inv: "prod_inv start C l" and x: "resp_ok x"
  shows "\<exists>l'. onResponseRollupInfo x l = Some l' \<and> prod_inv start C l' \<and> pCfg l' = pCfg l"
proof (cases "pStatus l = producerReseting")
  case False
  obtain res where res: "respResult x = Some res" using x by (auto simp: resp_ok_def)
  let ?l1 = "l\<lparr>pStatistics := stat_onResponseRollupInfo x (pStatistics l)\<rparr>" and ?br = "resBlockRange res"
  let ?hi = "if respErr x = None then response_getHighestBlockNumberInResponse x else invalidBlockNumber"
  obtain D where D: "sync_ok start (pSyncStatus l) D" using inv by (auto simp: prod_inv_def parts_ok_def)
  show ?thesis
  proof (cases "?br \<in> set (ranges (processingRanges (pSyncStatus l)))")
    case unknown: False
    then have "onResponseRollupInfo x l = Some (?l1\<lparr>pSyncStatus := pSyncStatus l\<rparr>)"
      using False res by (simp add: onResponseRollupInfo_def Let_def OnFinishWorker_unknown)
    moreover have "?l1\<lparr>pSyncStatus := pSyncStatus l\<rparr> = ?l1" by simp
    ultimately show ?thesis using inv by simp
  next
    case br: True
    show ?thesis
    proof (cases "respErr x")
      case (Some e)
      obtain s where s: "OnFinishWorker (pSyncStatus l) ?br False invalidBlockNumber = Some (s, True)"
        using OnFinishWorker_error [OF D br] by blast
      have "sync_ok start s D" if "sync_ok start (pSyncStatus l) D" for D
        using OnFinishWorker_error [OF that br, of invalidBlockNumber] s by simp
      then have "prod_inv start C (?l1\<lparr>pSyncStatus := s\<rparr>)" using inv by (intro prod_inv_status) simp_all
      moreover have "onResponseRollupInfo x l = Some (?l1\<lparr>pSyncStatus := s\<rparr>)"
        using False res Some s by (simp add: onResponseRollupInfo_def Let_def)
      ultimately show ?thesis by simp
    next
      case None
      obtain R where R: "sync_ok start (pSyncStatus l) (cuts R)" "filter_ok (pFilter l)"
        "mset R = mset (sent C l) + mset (map msgData (pendingResults (pFilter l)))"
        using inv by (auto simp: prod_inv_def parts_ok_def)
      obtain s where s: "OnFinishWorker (pSyncStatus l) ?br True (res_high res) = Some (s, True)"
        using OnFinishWorker_success [OF R(1) br response_reply_ok(1) [OF R(1) x None res br]] by blast
      obtain f pkgs where f: "Filter (pFilter l) (data_msg res) = (f, pkgs)" by fastforce
      let ?l2 = "sendPackages pkgs (?l1\<lparr>pSyncStatus := s, pFilter := f\<rparr>)"
      have "newL1SyncMessageData (Some res) = Some (data_msg res)" by (simp add: data_msg_def newL1SyncMessageData_def)
      then have "onResponseRollupInfo x l = Some ?l2"
        using False res None s f by (simp add: onResponseRollupInfo_def Let_def response_getHighestBlockNumberInResponse_def)
      moreover have "sent C ?l2 = sent C l @ map msgData pkgs"
        using Filter_valid [OF R(2) f] by (simp add: sent_def sendPackages_def filter_id_conv [THEN iffD2])
      moreover have "parts_ok start (sent C l @ map msgData pkgs) s f"
        using inv by (intro parts_ok_answer [OF _ br x None res s f]) (simp add: prod_inv_def)
      ultimately show ?thesis using inv by (simp add: prod_inv_def sendPackages_def)
    qed
  qed
qed (use inv in \<open>simp add: onResponseRollupInfo_def\<close>)

lemma sent_channelCmds [simp]: "sent C (l\<lparr>channelCmds := cs\<rparr>) = sent C l"
  by (simp add: sent_def)

text \<open>With retries for the last block left to do, the steps return; all of them keep the invariant.\<close>

definition keeps :: "uint64 \<Rightarrow> ('ev, 'ord) L1SyncMessage list \<Rightarrow> ('ev, 'ord, 'err) L1RollupInfoProducer
    \<Rightarrow> ('ev, 'ord, 'err) L1RollupInfoProducer option \<Rightarrow> bool" where
  "keeps start C l r \<longleftrightarrow>
     (case r of
        None \<Rightarrow> NumOfAllowedRetriesForRequestLastBlockOnL1 (pCfg l) \<le> 0
      | Some l' \<Rightarrow> prod_inv start C l' \<and> pCfg l' = pCfg l)"

lemma keeps_renewWhen:
  "prod_inv start C l \<Longrightarrow> eth_ok eth \<Longrightarrow> keeps start C l (renewWhen b eth t now l)"
  using renew_inv [of start C l eth t now] renew_returns [of l eth t now]
  by (auto simp: keeps_def renewWhen_def split: option.split intro: leI)

lemma keeps_stepIdle:
  assumes "prod_inv start C l" and "eth_ok eth"
  shows "keeps start C l (stepIdle eth t now l)"
proof -
  have nop: "prod_inv start C ((p_setStatus producerWorking l2)\<lparr>channelCmds := channelCmds l2 @ [producerNop]\<rparr>)"
    if "prod_inv start C l2" for l2 :: "('a, 'b, 'c) L1RollupInfoProducer"
    using that by (simp add: prod_inv_def)
  from keeps_renewWhen [OF assms, of True t now] nop show ?thesis
    by (auto simp: keeps_def renewWhen_def stepIdle_def Let_def split: option.splits)
qed

lemma keeps_stepWorking:
  assumes "prod_inv start C l" and "eth_ok eth"
  shows "keeps start C l (stepWorking eth t now l)"
proof -
  obtain l1 n where l1: "launchWork now l = Some (l1, n)" "prod_inv start C l1" "pCfg l1 = pCfg l"
    using launchWork_ok [OF assms(1)] by blast
  let ?r2 = "renewWhen (HaveRequiredAllBlocksToBeSynchronized (pSyncStatus l1)) eth t now l1"
  have r2: "keeps start C l1 ?r2" by (rule keeps_renewWhen [OF l1(2) assms(2)])
  show ?thesis
  proof (cases ?r2)
    case None
    then show ?thesis using r2 l1 by (simp add: keeps_def stepWorking_def)
  next
    case (Some l2)
    then have l2: "prod_inv start C l2" "pCfg l2 = pCfg l" using r2 l1(3) by (simp_all add: keeps_def)
    let ?r3 = "renewWhen (BlockNumberIsInsideUnsafeArea (pSyncStatus l2) invalidBlockNumber) eth (t + 1) now l2"
    have r3: "keeps start C l2 ?r3" by (rule keeps_renewWhen [OF l2(1) assms(2)])
    show ?thesis
    proof (cases ?r3)
      case None
      then show ?thesis using r3 l2 l1 Some by (simp add: keeps_def stepWorking_def)
    next
      case l3: (Some l3)
      then have "prod_inv start C l3" "pCfg l3 = pCfg l" using r3 l2(2) by (simp_all add: keeps_def)
      then show ?thesis using launchWork_ok [of start C l3 now] l1 Some l3 by (auto simp: keeps_def stepWorking_def)
    qed
  qed
qed

lemma keeps_stepSynchronized:
  assumes "prod_inv start C l" and "eth_ok eth"
  shows "keeps start C l (stepSynchronized eth t now l)"
proof -
  have r: "keeps start C l (renewLastBlockOnL1IfNeeded eth t now l)"
    using keeps_renewWhen [OF assms, of True t now] by (simp add: renewWhen_def)
  show ?thesis
  proof (cases "renewLastBlockOnL1IfNeeded eth t now l")
    case None
    then show ?thesis using r by (simp add: keeps_def stepSynchronized_def)
  next
    case (Some l1)
    then have "prod_inv start C l1" "pCfg l1 = pCfg l" using r by (simp_all add: keeps_def)
    then show ?thesis using launchWork_ok [of start C l1 now] Some by (auto simp: keeps_def stepSynchronized_def)
  qed
qed

text \<open>A case of the \<open>select\<close> statement is ready when its channel has something to receive.\<close>

fun select_ready :: "select_case \<Rightarrow> ('ev, 'ord, 'err) L1RollupInfoProducer \<Rightarrow> bool" where
  "select_ready SelDone l \<longleftrightarrow> ctxCancelled l"
| "select_ready SelCmd l \<longleftrightarrow> channelCmds l \<noteq> []"
| "select_ready SelTimeout l \<longleftrightarrow> True"
| "select_ready SelResponse l \<longleftrightarrow> pResponses l \<noteq> []"

lemma p_select_not_ready: "\<not> select_ready c l \<Longrightarrow> p_select now c l = None"
  by (cases c) (simp_all add: p_select_def)

lemma p_select_ok:
  assumes inv: "prod_inv start C l" and ready: "select_ready c l"
  shows "\<exists>l' b. p_select now c l = Some (l', b) \<and> prod_inv start C l' \<and> pCfg l' = pCfg l"
proof (cases c)
  case SelCmd
  then obtain cmd cmds where cmds: "channelCmds l = cmd # cmds" using ready by (cases "channelCmds l") auto
  have inv': "prod_inv start C (l\<lparr>channelCmds := cmds\<rparr>)" using inv cmds by (simp add: prod_inv_def sent_def)
  show ?thesis
  proof (cases cmd)
    case producerStop
    then show ?thesis using inv' cmds SelCmd by (auto simp: p_select_def executeCmd_def stopUnsafe_def Let_def)
  next
    case (producerReset n)
    have "producerReset n \<notin> set (channelCmds l)" using inv by (simp add: prod_inv_def)
    then show ?thesis using producerReset cmds by simp
  qed (use inv' cmds SelCmd in \<open>auto simp: p_select_def executeCmd_def\<close>)
next
  case SelResponse
  then obtain x xs where xs: "pResponses l = x # xs" using ready by (cases "pResponses l") auto
  have "prod_inv start C (l\<lparr>pResponses := xs\<rparr>)" "resp_ok x" using inv xs by (simp_all add: prod_inv_def sent_def)
  from onResponse_ok [OF this] xs SelResponse show ?thesis by (auto simp: p_select_def)
qed (use inv ready in \<open>auto simp: p_select_def\<close>)

lemma p_step_inv:
  assumes inv: "prod_inv start C l0" and eth: "eth_ok eth" and ready: "select_ready c l0"
  shows "keeps start C l0 (map_option fst (p_step eth t now c l0))"
proof -
  let ?l = "if pStatus l0 = producerNoRunning then l0\<lparr>pStatus := producerIdle\<rparr> else l0"
  have l: "prod_inv start C ?l" "pCfg ?l = pCfg l0" "select_ready c ?l" using inv ready by (cases c; simp)+
  obtain l1 b where l1: "p_select now c ?l = Some (l1, b)" "prod_inv start C l1" "pCfg l1 = pCfg l0"
    using p_select_ok [OF l(1,3), of now] l(2) by auto
  let ?r = "case pStatus l1 of producerIdle \<Rightarrow> stepIdle eth t now l1 | producerWorking \<Rightarrow> stepWorking eth t now l1
    | producerSynchronized \<Rightarrow> stepSynchronized eth t now l1 | _ \<Rightarrow> Some l1"
  have r: "keeps start C l1 ?r"
    using keeps_stepIdle [OF l1(2) eth] keeps_stepWorking [OF l1(2) eth] keeps_stepSynchronized [OF l1(2) eth] l1(2)
    by (cases "pStatus l1") (simp_all, simp_all add: keeps_def)
  show ?thesis
  proof (cases b)
    case False
    then show ?thesis using l1 by (simp add: p_step_def Let_def keeps_def)
  next
    case True
    then have step: "p_step eth t now c l0 = (case ?r of None \<Rightarrow> None | Some l2 \<Rightarrow>
        (let st = pStatistics l2; every = TimeForShowUpStatisticsLog (pCfg l2)
         in Some (if every \<noteq> 0 \<and> now - lastShowUpTime st > every
                  then l2\<lparr>pStatistics := st\<lparr>lastShowUpTime := now\<rparr>\<rparr> else l2, True)))"
      using l1(1) by (simp add: p_step_def Let_def)
    show ?thesis
    proof (cases ?r)
      case None
      then show ?thesis using r l1(3) unfolding step by (simp add: keeps_def)
    next
      case (Some l2)
      then show ?thesis using r l1(3) unfolding step by (simp add: keeps_def Let_def)
    qed
  qed
qed

section \<open>Runs of the producer\<close>

text \<open>
  The producer after the command that sets its first block, its workers and the consumer, interleaved
  in any way.  \<open>C\<close> are the messages the consumer has taken from the channel.  A later \<open>Reset\<close> is not
  part of a run: it empties the channel and begins a new one.
\<close>

inductive prod_reach ::
  "('ev, 'ord, 'err) etherman \<Rightarrow> uint64 \<Rightarrow> ('ev, 'ord) L1SyncMessage list \<Rightarrow> ('ev, 'ord, 'err) L1RollupInfoProducer \<Rightarrow> bool"
  for eth start where
  pr_init: "NewL1DataRetriever cfg n cap now = Some l \<Longrightarrow> start < max_block \<Longrightarrow> SyncChunkSize cfg < max_block - 1 \<Longrightarrow>
    prod_reach eth start [] (resetUnsafe now' start l)"
| pr_step: "prod_reach eth start C l \<Longrightarrow> p_step eth t now c l = Some (l', b) \<Longrightarrow> prod_reach eth start C l'"
| pr_worker: "prod_reach eth start C l \<Longrightarrow> pool_finish eth t elapsed (decorated (pWorkers l)) i = Some (w, r) \<Longrightarrow>
    prod_reach eth start C (l\<lparr>pWorkers := (pWorkers l)\<lparr>decorated := w\<rparr>, pResponses := pResponses l @ [r]\<rparr>)"
| pr_consume: "prod_reach eth start C l \<Longrightarrow> outgoingChannel l = m # ms \<Longrightarrow>
    prod_reach eth start (C @ [m]) (l\<lparr>outgoingChannel := ms\<rparr>)"
| pr_stop: "prod_reach eth start C l \<Longrightarrow> prod_reach eth start C (p_Stop l)"

lemma prod_inv_init:
  assumes "NewL1DataRetriever cfg n cap now = Some l" and "start < max_block" and "SyncChunkSize cfg < max_block - 1"
  shows "prod_inv start [] (resetUnsafe now' start l)"
proof -
  have l: "pSyncStatus l = newSyncStatus invalidBlockNumber (SyncChunkSize cfg)" "pResponses l = []" "channelCmds l = []"
    using assms(1) by (auto simp: NewL1DataRetriever_def split: if_splits option.splits)
  let ?l = "resetUnsafe now' start l"
  have r: "pSyncStatus ?l = ss_Reset (pSyncStatus l) start" "pResponses ?l = []" "channelCmds ?l = []"
    "outgoingChannel ?l = []" "lastBlockOnSynchronizer (pFilter ?l) = start" "pendingResults (pFilter ?l) = []"
    using l by (simp_all add: resetUnsafe_def Let_def p_setStatus_def emptyChannel_def sendPackages_def filter_Reset_def)
  have "parts_ok start [] (pSyncStatus ?l) (pFilter ?l)"
    unfolding parts_ok_def using sync_ok_new [OF assms(2,3)]
    by (intro exI [of _ "[]"]) (simp add: r l(1) filter_ok_def data_only_def)
  then show ?thesis by (simp add: prod_inv_def r sent_def)
qed

lemma prod_reach_inv:
  assumes "prod_reach eth start C l" and "eth_ok eth"
  shows "prod_inv start C l"
  using assms
proof (induction rule: prod_reach.induct)
  case (pr_step C l t now c l' b)
  then have "select_ready c l"
  proof -
    let ?l = "if pStatus l = producerNoRunning then l\<lparr>pStatus := producerIdle\<rparr> else l"
    have "p_select now c ?l \<noteq> None" using pr_step.hyps(2) by (intro notI) (simp add: p_step_def Let_def)
    then have "select_ready c ?l" by (metis p_select_not_ready)
    then show ?thesis by (cases c) (simp_all split: if_splits)
  qed
  from p_step_inv [OF pr_step.IH [OF pr_step.prems] pr_step.prems this, of t now] pr_step.hyps(2)
  show ?case by (simp add: keeps_def)
next
  case (pr_worker C l t elapsed i w r)
  then show ?case using pool_finish_resp_ok [OF pr_worker.prems pr_worker.hyps(2)] by (simp add: prod_inv_def sent_def)
qed (auto simp: prod_inv_init, auto simp: prod_inv_def sent_def p_Stop_def)

text \<open>A chain of answers covers exactly the blocks up to the highest block of its last answer.\<close>

lemma chain_next_last:
  assumes "result_ok r" and "res_from r = l + 1" and "l \<noteq> latestBlockNumber"
  shows "next_last l r = res_high r" and "l \<le> res_high r"
proof -
  have l: "res_from r - 1 = l" using assms(2) by simp
  then show "l \<le> res_high r" using assms(1) by (simp add: result_ok_def)
  then show "next_last l r = res_high r" by (auto simp: next_last_def)
qed

lemma chain_cover:
  assumes "chain l S" and "\<forall>r \<in> set S. result_ok r" and "l \<noteq> latestBlockNumber"
  shows "blocks_in (cuts S) = {b. l < b \<and> b \<le> foldl next_last l S} \<and> l \<le> foldl next_last l S
    \<and> foldl next_last l S \<noteq> latestBlockNumber"
  using assms
proof (induction S arbitrary: l)
  case Nil
  then show ?case by auto
next
  case (Cons r S)
  let ?h = "res_high r"
  have r: "result_ok r" "res_from r = l + 1" using Cons.prems by simp_all
  note nl = chain_next_last [OF r Cons.prems(3)]
  have h: "?h \<noteq> latestBlockNumber" using r(1) by (simp add: result_ok_def)
  have IH: "blocks_in (cuts S) = {b. ?h < b \<and> b \<le> foldl next_last ?h S}" "?h \<le> foldl next_last ?h S"
    "foldl next_last ?h S \<noteq> latestBlockNumber"
    using Cons.IH [OF _ _ h] Cons.prems nl by simp_all
  have "blocks_in (answered (resBlockRange r) ?h D) = {b. l < b \<and> b \<le> ?h} \<union> blocks_in D" for D
    using next_block [OF Cons.prems(3)] r(2) by (auto simp: answered_def blocks_of_def)
  with IH nl show ?case by (auto intro: order_trans)
qed

lemma cuts_append: "cuts (xs @ ys) = cuts xs @ cuts ys"
  by (induction xs) (simp_all add: answered_def)

lemma cuts_mem: "d \<in> set (cuts rs) \<Longrightarrow> \<exists>r \<in> set rs. fromBlock d = res_from r"
  by (induction rs) (auto simp: answered_def split: if_splits)

lemma mset_cuts: "mset xs = mset ys \<Longrightarrow> mset (cuts xs) = mset (cuts ys)"
proof -
  have c: "mset (cuts zs) = (\<Sum>z \<in># mset zs. mset (cuts [z]))" for zs :: "('a, 'b) rollupInfoByBlockRangeResult list"
    by (induction zs) (simp_all add: answered_def)
  show "mset (cuts xs) = mset (cuts ys)" if "mset xs = mset ys" using that by (simp only: c [of xs] c [of ys])
qed

lemma parts_ok_complete:
  assumes ok: "parts_ok start S s f" and live: "live s = {}"
  shows "lastBlockOnSynchronizer f = lastBlockStoreOnStateDB s"
proof -
  obtain R where R: "sync_ok start s (cuts R)" "filter_ok f" "chain start S" "lastBlockOnSynchronizer f = foldl next_last start S"
    "mset R = mset S + mset (map msgData (pendingResults f))" "\<forall>r \<in> set R. result_ok r"
    using ok by (auto simp: parts_ok_def)
  let ?P = "map msgData (pendingResults f)" and ?L = "lastBlockOnSynchronizer f" and ?st = "lastBlockStoreOnStateDB s"
  have mR: "mset R = mset (S @ ?P)" using R(5) by simp
  have all: "all_ranges s (cuts R) = cuts R" using live by simp
  have m: "mset (cuts R) = mset (cuts S @ cuts ?P)" using mset_cuts [OF mR] by (simp add: cuts_append)
  have "start < max_block" using sync_okD(3,4) [OF R(1)] by (rule order_le_less_trans)
  then have st: "start \<noteq> latestBlockNumber" by (auto simp: latestBlockNumber_def max_block_def)
  have "\<forall>r \<in> set S. result_ok r" using R(6) mset_eq_setD [OF mR] by auto
  from chain_cover [OF R(3) this st] R(4)
  have S: "blocks_in (cuts S) = {b. start < b \<and> b \<le> ?L}" "start \<le> ?L" "?L \<noteq> latestBlockNumber" by simp_all
  have "frontier s = ?st" using frontier_mem [of s] live by simp
  then have cov: "b \<in> blocks_in (cuts S @ cuts ?P)" if "start < b" "b \<le> ?st" for b
    using sync_okD(7) [OF R(1), of b] that unfolding all blocks_in_perm [OF m] by simp
  have le: "?L \<le> ?st"
  proof (cases "start < ?L")
    case True
    then have "?L \<in> blocks_in (cuts S)" using S(1) by simp
    then obtain d where "d \<in> set (cuts R)" "?L \<le> toBlock d" using mset_eq_setD [OF m] by (auto simp: blocks_in_def blocks_of_def)
    then show ?thesis using sync_okD(5) [OF R(1)] by (meson order_trans)
  qed (use sync_okD(3) [OF R(1)] in \<open>meson not_less order_trans\<close>)
  have "\<not> ?L < ?st"
  proof
    assume lt: "?L < ?st"
    let ?b = "?L + 1"
    have b: "?b \<le> ?st" "start < ?b" using next_block [OF S(3)] lt S(2) by simp_all
    have "?L < ?b" using next_block(1) [OF S(3)] by simp
    then have "?b \<notin> blocks_in (cuts S)" using S(1) by (auto simp: not_le)
    then have "?b \<in> blocks_in (cuts ?P)" using cov [OF b(2,1)] by (auto simp: blocks_in_def)
    then obtain d where d: "d \<in> set (cuts ?P)" "fromBlock d \<le> ?b" by (auto simp: blocks_in_def blocks_of_def)
    obtain p where p: "p \<in> set (pendingResults f)" "fromBlock d = res_from (msgData p)"
      using cuts_mem [OF d(1)] by auto
    have "fromBlock d \<noteq> ?b" using p R(2) by (simp add: filter_ok_def)
    then have "fromBlock d \<le> ?L" using d(2) next_block(1) [OF S(3)] by (metis order_le_less)
    moreover have dR: "d \<in> set (all_ranges s (cuts R))" using d(1) mset_eq_setD [OF m] all by simp
    ultimately have "fromBlock d \<in> blocks_in (cuts S)" using S(1) sync_okD(2) [OF R(1) dR] by simp
    then obtain e where e: "e \<in> set (cuts S)" "fromBlock d \<in> blocks_of e" by (auto simp: blocks_in_def)
    have t: "tiles (cuts S @ cuts ?P)" using sync_okD(1) [OF R(1)] all tiles_perm [OF m] by simp
    then have "e \<noteq> d" using e(1) d(1) by (auto simp: tiles_iff)
    then have "blocks_of e \<inter> blocks_of d = {}" using tiles_disjoint [OF t] e(1) d(1) by simp
    with e(2) blocks_of_nonempty [OF tiles_valid [OF t, of d]] d(1) show False by auto
  qed
  with le show ?thesis by simp
qed

section \<open>A sample run\<close>

text \<open>A run: the last block is 20, the range behind block 10 is requested and answered with block 15.\<close>

definition sample_cfg :: ConfigProducer where
  "sample_cfg = \<lparr>SyncChunkSize = 100, TtlOfLastBlockOnL1 = 5, TimeoutForRequestLastBlockOnL1 = 5,
     NumOfAllowedRetriesForRequestLastBlockOnL1 = 3, TimeOutMainLoop = 60, TimeForShowUpStatisticsLog = 0,
     MinTimeBetweenRetriesForRollupInfo = 5\<rparr>"

definition sample_eth :: "(unit, unit, unit) etherman" where
  "sample_eth = \<lparr>GetRollupInfoByBlockRange = (\<lambda>t f to. if f \<le> 15
       then Inr ([\<lparr>BlockNumber = 15, BlockHash = [], ParentHash = [], ReceivedAt = 0, blockEvents = ()\<rparr>], []) else Inr ([], [])),
     EthBlockByNumber = (\<lambda>t n. Inr \<lparr>NumberU64 = n, HeaderHash = [], HeaderParentHash = [], HeaderTime = 0\<rparr>),
     HeaderByNumber = (\<lambda>t. Inr 20)\<rparr>"

definition sample_p0 :: "(unit, unit, unit) L1RollupInfoProducer" where
  "sample_p0 = resetUnsafe 0 10 (the (NewL1DataRetriever sample_cfg 2 10 0))"

definition sample_p1 :: "(unit, unit, unit) L1RollupInfoProducer" where
  "sample_p1 = fst (the (p_step sample_eth 0 10 SelTimeout sample_p0))"

definition sample_p2 :: "(unit, unit, unit) L1RollupInfoProducer" where
  "sample_p2 = fst (the (p_step sample_eth 1 11 SelCmd sample_p1))"

definition sample_answer :: "workers \<times> (unit, unit, unit) responseRollupInfoByBlockRange" where
  "sample_answer = the (pool_finish sample_eth 2 1 (decorated (pWorkers sample_p2)) 0)"

definition sample_p3 :: "(unit, unit, unit) L1RollupInfoProducer" where
  "sample_p3 = sample_p2\<lparr>pWorkers := (pWorkers sample_p2)\<lparr>decorated := fst sample_answer\<rparr>,
     pResponses := pResponses sample_p2 @ [snd sample_answer]\<rparr>"

definition sample_p4 :: "(unit, unit, unit) L1RollupInfoProducer" where
  "sample_p4 = fst (the (p_step sample_eth 3 12 SelResponse sample_p3))"

lemma sample_init: "NewL1DataRetriever sample_cfg 2 10 0 = Some (the (NewL1DataRetriever sample_cfg 2 10 0))"
  by (simp add: NewL1DataRetriever_def normalize_def newWorkers_def sample_cfg_def)

lemma sample_step1: "p_step sample_eth 0 10 SelTimeout sample_p0 = Some (sample_p1, True)"
  by code_simp

lemma sample_step2: "p_step sample_eth 1 11 SelCmd sample_p1 = Some (sample_p2, True)"
  by code_simp

lemma sample_step3: "pool_finish sample_eth 2 1 (decorated (pWorkers sample_p2)) 0 = Some (fst sample_answer, snd sample_answer)"
  by code_simp

lemma sample_step4: "p_step sample_eth 3 12 SelResponse sample_p3 = Some (sample_p4, True)"
  by code_simp

lemma sample_reach: "prod_reach sample_eth 10 [] sample_p3" "prod_reach sample_eth 10 [] sample_p4"
proof -
  have "prod_reach sample_eth 10 [] sample_p0"
    unfolding sample_p0_def by (rule pr_init [OF sample_init]) (simp_all add: sample_cfg_def max_block_def)
  from pr_step [OF pr_step [OF this sample_step1] sample_step2] have "prod_reach sample_eth 10 [] sample_p2" .
  from pr_worker [OF this sample_step3] show 3: "prod_reach sample_eth 10 [] sample_p3" by (simp add: sample_p3_def)
  from pr_step [OF 3 sample_step4] show "prod_reach sample_eth 10 [] sample_p4" .
qed

lemma sample_eth_ok: "eth_ok sample_eth"
  by (auto simp: eth_ok_def sample_eth_def max_block_def)

section \<open>Properties\<close>





end
