(* ===== verification/SyncConsumer.thy ===== *)
theory SyncConsumer
  imports SyncProducer
begin

text \<open>
  The consumer of the parallel L1 synchronizer, which hands the results of the producer to the
  synchronizer, and the orchestration of the two (\<open>l1_rollup_info_consumer.go\<close>,
  \<open>l1_rollup_info_consumer_statistics.go\<close>, \<open>l1_sync_orchestration.go\<close>, \<open>reorg_error.go\<close>).

  The synchronizer is a parameter: \<open>ProcessBlockRange\<close> changes a state \<open>'w\<close> and may fail.  The events
  of a block without any are the parameter \<open>noEv\<close>.
\<close>

section \<open>State\<close>

record stateBlock =
  sbBlockNumber :: uint64
  sbBlockHash :: hash32
  sbParentHash :: hash32
  sbReceivedAt :: int
  sbChecked :: bool

datatype 'e consumer_error =
    errContextCanceled | errConsumerStopped | errConsumerStoppedBecauseIsSynchronized
  | errConsumerAndProducerDesynchronized | ReorgError uint64 | processError 'e

definition IsReorgError :: "'e consumer_error option \<Rightarrow> bool" where
  "IsReorgError err = (case err of Some (ReorgError _) \<Rightarrow> True | _ \<Rightarrow> False)"

definition GetReorgErrorBlockNumber :: "'e consumer_error option \<Rightarrow> uint64" where
  "GetReorgErrorBlockNumber err = (case err of Some (ReorgError n) \<Rightarrow> n | _ \<Rightarrow> 0)"

record ConfigConsumer =
  ApplyAfterNumRollupReceived :: int
  AceptableInacctivityTime :: int

record l1RollupInfoConsumerStatistics =
  numProcessedRollupInfo :: uint64
  numProcessedRollupInfoForCheckTime :: uint64
  numProcessedBlocks :: uint64
  csStartTime :: int
  timePreviousProcessingDuration :: int
  startStepTime :: int
  csCfg :: ConfigConsumer

record l1RollupInfoConsumer =
  cStatistics :: l1RollupInfoConsumerStatistics
  lastEthBlockSynced :: "stateBlock option"
  lastEthBlockReceived :: "stateBlock option"
  highestBlockProcessed :: uint64

type_synonym ('ev, 'ord, 'e, 'w) processor =
  "'w \<Rightarrow> 'ev ethBlock list \<Rightarrow> (hash32 \<times> 'ord list) list \<Rightarrow> 'w \<times> 'e option"

definition NewL1RollupInfoConsumer :: "ConfigConsumer \<Rightarrow> int \<Rightarrow> l1RollupInfoConsumer" where
  "NewL1RollupInfoConsumer cfg now =
     \<lparr>cStatistics = \<lparr>numProcessedRollupInfo = 0, numProcessedRollupInfoForCheckTime = 0, numProcessedBlocks = 0,
        csStartTime = now, timePreviousProcessingDuration = 0, startStepTime = 0, csCfg = cfg\<rparr>,
      lastEthBlockSynced = None, lastEthBlockReceived = None, highestBlockProcessed = invalidBlockNumber\<rparr>"

section \<open>Statistics\<close>

definition stat_onStart :: "int \<Rightarrow> l1RollupInfoConsumerStatistics \<Rightarrow> l1RollupInfoConsumerStatistics" where
  "stat_onStart now s = s\<lparr>csStartTime := now, startStepTime := 0, numProcessedRollupInfoForCheckTime := 0\<rparr>"

definition stat_onStartStep :: "int \<Rightarrow> l1RollupInfoConsumerStatistics \<Rightarrow> l1RollupInfoConsumerStatistics" where
  "stat_onStartStep now s = s\<lparr>startStepTime := now\<rparr>"

definition stat_onReset :: "l1RollupInfoConsumerStatistics \<Rightarrow> l1RollupInfoConsumerStatistics" where
  "stat_onReset s = s\<lparr>numProcessedRollupInfoForCheckTime := 0, startStepTime := 0\<rparr>"

text \<open>The times and the message only go to the log.\<close>

definition stat_onStartProcess :: "l1RollupInfoConsumerStatistics \<Rightarrow> l1RollupInfoConsumerStatistics" where
  "stat_onStartProcess s =
     s\<lparr>numProcessedRollupInfo := numProcessedRollupInfo s + 1,
       numProcessedRollupInfoForCheckTime := numProcessedRollupInfoForCheckTime s + 1\<rparr>"

definition stat_onFinishProcess ::
  "nat \<Rightarrow> int \<Rightarrow> bool \<Rightarrow> l1RollupInfoConsumerStatistics \<Rightarrow> l1RollupInfoConsumerStatistics" where
  "stat_onFinishProcess numBlocks executionTime failed s =
     (let s1 = s\<lparr>timePreviousProcessingDuration := executionTime\<rparr>
      in if failed then s1 else s1\<lparr>numProcessedBlocks := numProcessedBlocks s1 + of_nat numBlocks\<rparr>)"

section \<open>Processing a result\<close>

definition convertL1BlockToEthBlock :: "'ev \<Rightarrow> l1Block \<Rightarrow> 'ev ethBlock" where
  "convertL1BlockToEthBlock noEv fb =
     \<lparr>BlockNumber = NumberU64 fb, BlockHash = HeaderHash fb, ParentHash = HeaderParentHash fb,
      ReceivedAt = sint (HeaderTime fb), blockEvents = noEv\<rparr>"

definition convertL1BlockToStateBlock :: "l1Block \<Rightarrow> stateBlock" where
  "convertL1BlockToStateBlock fb =
     \<lparr>sbBlockNumber = NumberU64 fb, sbBlockHash = HeaderHash fb, sbParentHash = HeaderParentHash fb,
      sbReceivedAt = sint (HeaderTime fb), sbChecked = False\<rparr>"

definition convertEthmanBlockToStateBlock :: "'ev ethBlock \<Rightarrow> stateBlock" where
  "convertEthmanBlockToStateBlock fb =
     \<lparr>sbBlockNumber = BlockNumber fb, sbBlockHash = BlockHash fb, sbParentHash = ParentHash fb,
      sbReceivedAt = ReceivedAt fb, sbChecked = False\<rparr>"

definition getHighestBlockReceived :: "('ev, 'ord) rollupInfoByBlockRangeResult \<Rightarrow> stateBlock option" where
  "getHighestBlockReceived r =
     (case lastBlockOfRange r of
        Some b \<Rightarrow> Some (convertL1BlockToStateBlock b)
      | None \<Rightarrow>
          fold (\<lambda>b highest.
              case highest of
                None \<Rightarrow> Some (convertEthmanBlockToStateBlock b)
              | Some h \<Rightarrow> if BlockNumber b > sbBlockNumber h then Some (convertEthmanBlockToStateBlock b) else highest)
            (resBlocks r) None)"

definition checkPreviousBlocks ::
  "('ev, 'ord) rollupInfoByBlockRangeResult \<Rightarrow> stateBlock option \<Rightarrow> 'e consumer_error option" where
  "checkPreviousBlocks r cachedBlock =
     (case (cachedBlock, previousBlockOfRange r) of
        (Some c, Some p) \<Rightarrow>
          if sbBlockNumber c = NumberU64 p \<and> sbBlockHash c \<noteq> HeaderHash p then Some (ReorgError (sbBlockNumber c)) else None
      | _ \<Rightarrow> None)"

definition processUnsafe ::
  "('ev, 'ord, 'e, 'w) processor \<Rightarrow> 'ev \<Rightarrow> 'w \<Rightarrow> ('ev, 'ord) rollupInfoByBlockRangeResult \<Rightarrow> 'w \<times> ('e + stateBlock option)" where
  "processUnsafe ProcessBlockRange noEv w r =
     (if resBlocks r = [] then
        (case lastBlockOfRange r of
           None \<Rightarrow> (w, Inr None)
         | Some lb \<Rightarrow>
             (case ProcessBlockRange w [convertL1BlockToEthBlock noEv lb] (resOrder r) of
                (w1, Some e) \<Rightarrow> (w1, Inl e)
              | (w1, None) \<Rightarrow> (w1, Inr (Some (convertL1BlockToStateBlock lb)))))
      else
        (let tmpStateBlock = convertEthmanBlockToStateBlock (last (resBlocks r))
         in case ProcessBlockRange w (resBlocks r) (resOrder r) of
              (w1, Some e) \<Rightarrow> (w1, Inl e)
            | (w1, None) \<Rightarrow> (w1, Inr (Some tmpStateBlock))))"

definition processIncommingRollupInfoData ::
  "('ev, 'ord, 'e, 'w) processor \<Rightarrow> 'ev \<Rightarrow> int \<Rightarrow> ('ev, 'ord) rollupInfoByBlockRangeResult \<Rightarrow> l1RollupInfoConsumer \<times> 'w
     \<Rightarrow> (l1RollupInfoConsumer \<times> 'w) \<times> 'e consumer_error option" where
  "processIncommingRollupInfoData ProcessBlockRange noEv executionTime r cw =
     (case cw of (c, w) \<Rightarrow>
        if highestBlockProcessed c \<noteq> invalidBlockNumber \<and> highestBlockProcessed c + 1 \<noteq> fromBlock (resBlockRange r)
        then ((c, w), None)
        else
          (let c1 = c\<lparr>highestBlockProcessed := getHighestBlockNumberInResponse r,
                      cStatistics := stat_onStartProcess (cStatistics c)\<rparr>
           in case (if lastEthBlockReceived c1 \<noteq> None then checkPreviousBlocks r (lastEthBlockReceived c1) else None) of
                Some e \<Rightarrow> ((c1, w), Some e)
              | None \<Rightarrow>
                  (let c2 = c1\<lparr>lastEthBlockReceived := getHighestBlockReceived r\<rparr>;
                       n = length (resBlocks r)
                   in case processUnsafe ProcessBlockRange noEv w r of
                        (w1, Inl e) \<Rightarrow>
                          ((c2\<lparr>cStatistics := stat_onFinishProcess n executionTime True (cStatistics c2)\<rparr>, w1), Some (processError e))
                      | (w1, Inr processed) \<Rightarrow>
                          (let c3 = (if processed \<noteq> None then c2\<lparr>lastEthBlockSynced := processed\<rparr> else c2);
                               st = stat_onFinishProcess n executionTime False (cStatistics c3)
                           in ((c3\<lparr>cStatistics := st\<lparr>numProcessedBlocks := numProcessedBlocks st + of_nat n\<rparr>\<rparr>, w1), None)))))"

definition processIncommingRollupControlData :: "nat \<Rightarrow> l1ConsumerControl \<Rightarrow> l1RollupInfoConsumer \<Rightarrow> 'e consumer_error option" where
  "processIncommingRollupControlData itemsInChannel control c =
     (if event control = eventStop then Some errConsumerStopped
      else if event control = eventProducerIsFullySynced \<and> itemsInChannel = 0 then
        (if highestBlockProcessed c \<noteq> invalidBlockNumber \<and> highestBlockProcessed c \<noteq> parameter control
         then Some errConsumerAndProducerDesynchronized
         else Some errConsumerStoppedBecauseIsSynchronized)
      else None)"

section \<open>The loop of the consumer\<close>

text \<open>
  What a step receives: the end of its context, or a message with the number of messages that are
  left in the channel.
\<close>

datatype ('ev, 'ord) received = CtxDone | Received "('ev, 'ord) L1SyncMessage" nat

definition c_step ::
  "('ev, 'ord, 'e, 'w) processor \<Rightarrow> 'ev \<Rightarrow> int \<times> int \<times> ('ev, 'ord) received \<Rightarrow> l1RollupInfoConsumer \<times> 'w
     \<Rightarrow> (l1RollupInfoConsumer \<times> 'w) \<times> 'e consumer_error option" where
  "c_step P noEv input cw =
     (case input of (now, executionTime, rc) \<Rightarrow>
        (let cw0 = ((fst cw)\<lparr>cStatistics := stat_onStartStep now (cStatistics (fst cw))\<rparr>, snd cw)
         in case rc of
              CtxDone \<Rightarrow> (cw0, Some errContextCanceled)
            | Received m items \<Rightarrow>
                (case (if dataIsValid m then processIncommingRollupInfoData P noEv executionTime (msgData m) cw0 else (cw0, None)) of
                   (cw1, err) \<Rightarrow>
                     if ctrlIsValid m then (cw1, processIncommingRollupControlData items (ctrl m) (fst cw1))
                     else (cw1, err))))"

text \<open>The loop ends with the first error; without one the consumer still waits.\<close>

fun c_loop ::
  "('ev, 'ord, 'e, 'w) processor \<Rightarrow> 'ev \<Rightarrow> (int \<times> int \<times> ('ev, 'ord) received) list \<Rightarrow> l1RollupInfoConsumer \<times> 'w
     \<Rightarrow> (l1RollupInfoConsumer \<times> 'w) \<times> 'e consumer_error option" where
  "c_loop P noEv [] cw = (cw, None)"
| "c_loop P noEv (i # is) cw =
     (case c_step P noEv i cw of
        (cw1, Some e) \<Rightarrow> (cw1, Some e)
      | (cw1, None) \<Rightarrow> c_loop P noEv is cw1)"

definition c_begin :: "int \<Rightarrow> stateBlock option \<Rightarrow> l1RollupInfoConsumer \<Rightarrow> l1RollupInfoConsumer" where
  "c_begin now lastBlock c =
     (let c1 = c\<lparr>lastEthBlockSynced := lastBlock\<rparr>;
          c2 = (case lastBlock of
                  Some b \<Rightarrow> if highestBlockProcessed c1 = invalidBlockNumber then c1\<lparr>highestBlockProcessed := sbBlockNumber b\<rparr> else c1
                | None \<Rightarrow> c1)
      in c2\<lparr>cStatistics := stat_onStart now (cStatistics c2)\<rparr>)"

text \<open>A regular stop is not an error.\<close>

definition c_result :: "'e consumer_error \<Rightarrow> 'e consumer_error option" where
  "c_result err = (if err \<noteq> errConsumerStopped \<and> err \<noteq> errConsumerStoppedBecauseIsSynchronized then Some err else None)"

definition c_Start ::
  "('ev, 'ord, 'e, 'w) processor \<Rightarrow> 'ev \<Rightarrow> int \<Rightarrow> stateBlock option \<Rightarrow> (int \<times> int \<times> ('ev, 'ord) received) list
     \<Rightarrow> l1RollupInfoConsumer \<times> 'w \<Rightarrow> (l1RollupInfoConsumer \<times> 'w) \<times> 'e consumer_error option option" where
  "c_Start P noEv now lastBlock is cw =
     (case c_loop P noEv is (c_begin now lastBlock (fst cw), snd cw) of
        (cw1, None) \<Rightarrow> (cw1, None)
      | (cw1, Some e) \<Rightarrow> (cw1, Some (c_result e)))"

definition c_Reset :: "uint64 \<Rightarrow> l1RollupInfoConsumer \<Rightarrow> l1RollupInfoConsumer" where
  "c_Reset startingBlockNumber c =
     c\<lparr>highestBlockProcessed := startingBlockNumber, lastEthBlockSynced := None, cStatistics := stat_onReset (cStatistics c)\<rparr>"

definition GetLastEthBlockSynced :: "l1RollupInfoConsumer \<Rightarrow> stateBlock option" where
  "GetLastEthBlockSynced c = lastEthBlockSynced c"

section \<open>The orchestration\<close>

text \<open>
  The producer and the consumer share the channel of the producer.  \<open>producerEnds\<close> and \<open>consumerEnds\<close>
  are the last actions of the two goroutines that \<open>launchProducer\<close> and \<open>launchConsumer\<close> start; the
  loop of \<open>orchestrate\<close> is taken one chosen case of its \<open>select\<close> statement at a time.
\<close>

datatype 'e orch_error = producerError pool_error | consumerError "'e consumer_error" | errMissingLastEthBlockSynced

record ('ev, 'ord, 'err, 'e) L1SyncOrchestration =
  producer :: "('ev, 'ord, 'err) L1RollupInfoProducer"
  consumer :: l1RollupInfoConsumer
  producerRunning :: bool
  consumerRunning :: bool
  isRunning :: bool
  chProducer :: "pool_error option list"
  chConsumer :: "'e consumer_error option list"

definition NewL1SyncOrchestration ::
  "('ev, 'ord, 'err) L1RollupInfoProducer \<Rightarrow> l1RollupInfoConsumer \<Rightarrow> ('ev, 'ord, 'err, 'e) L1SyncOrchestration" where
  "NewL1SyncOrchestration p c =
     \<lparr>producer = p, consumer = c, producerRunning = False, consumerRunning = False, isRunning = False,
      chProducer = [], chConsumer = []\<rparr>"

definition orch_Reset :: "uint64 \<Rightarrow> ('ev, 'ord, 'err, 'e) L1SyncOrchestration \<Rightarrow> ('ev, 'ord, 'err, 'e) L1SyncOrchestration" where
  "orch_Reset n l = l\<lparr>consumer := c_Reset n (consumer l), producer := p_Reset n (producer l)\<rparr>"

text \<open>A missing last block is dereferenced only when the producer has to be started.\<close>

definition launchProducer ::
  "stateBlock option \<Rightarrow> ('ev, 'ord, 'err, 'e) L1SyncOrchestration \<Rightarrow> ('ev, 'ord, 'err, 'e) L1SyncOrchestration option" where
  "launchProducer lastBlock l =
     (if \<not> producerRunning l then
        (case lastBlock of
           None \<Rightarrow> None
         | Some b \<Rightarrow> Some (l\<lparr>producer := p_Reset (sbBlockNumber b) (producer l), producerRunning := True\<rparr>))
      else Some l)"

definition producerEnds :: "pool_error option \<Rightarrow> ('ev, 'ord, 'err, 'e) L1SyncOrchestration \<Rightarrow> ('ev, 'ord, 'err, 'e) L1SyncOrchestration" where
  "producerEnds err l = l\<lparr>producerRunning := False, chProducer := chProducer l @ [err]\<rparr>"

definition launchConsumer ::
  "int \<Rightarrow> stateBlock option \<Rightarrow> ('ev, 'ord, 'err, 'e) L1SyncOrchestration \<Rightarrow> ('ev, 'ord, 'err, 'e) L1SyncOrchestration" where
  "launchConsumer now lastBlock l =
     (if consumerRunning l then l
      else l\<lparr>consumerRunning := True, consumer := c_begin now lastBlock (consumer l)\<rparr>)"

definition consumerEnds ::
  "'e consumer_error option \<Rightarrow> ('ev, 'ord, 'err, 'e) L1SyncOrchestration \<Rightarrow> ('ev, 'ord, 'err, 'e) L1SyncOrchestration" where
  "consumerEnds err l = l\<lparr>consumerRunning := False, chConsumer := chConsumer l @ [err]\<rparr>"

definition orch_Start ::
  "int \<Rightarrow> stateBlock option \<Rightarrow> ('ev, 'ord, 'err, 'e) L1SyncOrchestration \<Rightarrow> ('ev, 'ord, 'err, 'e) L1SyncOrchestration option" where
  "orch_Start now lastBlock l =
     map_option (launchConsumer now lastBlock) (launchProducer lastBlock (l\<lparr>isRunning := True\<rparr>))"

text \<open>\<open>Abort\<close> waits until the goroutines that run have ended, with whatever errors.\<close>

definition orch_Abort ::
  "pool_error option \<Rightarrow> 'e consumer_error option \<Rightarrow> ('ev, 'ord, 'err, 'e) L1SyncOrchestration \<Rightarrow> ('ev, 'ord, 'err, 'e) L1SyncOrchestration" where
  "orch_Abort producerErr consumerErr l =
     (let l1 = l\<lparr>producer := p_Abort (producer l)\<rparr>;
          l2 = (if producerRunning l1 then producerEnds producerErr l1 else l1)
      in if consumerRunning l2 then consumerEnds consumerErr l2 else l2)"

definition IsProducerRunning :: "('ev, 'ord, 'err, 'e) L1SyncOrchestration \<Rightarrow> bool" where
  "IsProducerRunning l = producerRunning l"

definition StopAfterProcessChannelQueue ::
  "('ev, 'ord, 'err, 'e) L1SyncOrchestration \<Rightarrow> ('ev, 'ord, 'err, 'e) L1SyncOrchestration" where
  "StopAfterProcessChannelQueue l = l\<lparr>producer := sendPackages [newL1SyncMessageControl eventStop] (producer l)\<rparr>"

datatype orch_case = OrchDone | OrchProducer | OrchConsumer

definition orchestrateStep ::
  "orch_case \<Rightarrow> ('ev, 'ord, 'err, 'e) L1SyncOrchestration \<times> 'e orch_error option
     \<Rightarrow> ((('ev, 'ord, 'err, 'e) L1SyncOrchestration \<times> 'e orch_error option) \<times> bool) option" where
  "orchestrateStep c le =
     (case le of (l, err) \<Rightarrow>
        (case c of
           OrchDone \<Rightarrow> Some ((l, err), True)
         | OrchProducer \<Rightarrow>
             (case chProducer l of
                [] \<Rightarrow> None
              | e # es \<Rightarrow> Some ((StopAfterProcessChannelQueue (l\<lparr>chProducer := es\<rparr>), map_option producerError e), False))
         | OrchConsumer \<Rightarrow>
             (case chConsumer l of
                [] \<Rightarrow> None
              | e # es \<Rightarrow> Some ((l\<lparr>chConsumer := es\<rparr>, map_option consumerError e), True))))"

definition orchestrateResult ::
  "('ev, 'ord, 'err, 'e) L1SyncOrchestration \<times> 'e orch_error option
     \<Rightarrow> ('ev, 'ord, 'err, 'e) L1SyncOrchestration \<times> ('e orch_error + stateBlock)" where
  "orchestrateResult le =
     (case le of (l, err) \<Rightarrow>
        (l\<lparr>isRunning := False\<rparr>,
         case err of
           Some e \<Rightarrow> Inl e
         | None \<Rightarrow>
             (case GetLastEthBlockSynced (consumer l) of
                Some b \<Rightarrow> Inr b
              | None \<Rightarrow> Inl errMissingLastEthBlockSynced)))"

section \<open>Specification of the consumer\<close>

text \<open>What the synchronizer has to process for a result.\<close>

definition work_of ::
  "'ev \<Rightarrow> ('ev, 'ord) rollupInfoByBlockRangeResult \<Rightarrow> ('ev ethBlock list \<times> (hash32 \<times> 'ord list) list) option" where
  "work_of noEv r =
     (if resBlocks r \<noteq> [] then Some (resBlocks r, resOrder r)
      else map_option (\<lambda>b. ([convertL1BlockToEthBlock noEv b], resOrder r)) (lastBlockOfRange r))"

fun process_all :: "('ev, 'ord, 'e, 'w) processor \<Rightarrow> 'ev \<Rightarrow> 'w \<Rightarrow> ('ev, 'ord) rollupInfoByBlockRangeResult list \<Rightarrow> 'w" where
  "process_all P noEv w [] = w"
| "process_all P noEv w (r # rs) =
     process_all P noEv (case work_of noEv r of None \<Rightarrow> w | Some (bs, ord) \<Rightarrow> fst (P w bs ord)) rs"

lemma process_all_append: "process_all P noEv w (xs @ ys) = process_all P noEv (process_all P noEv w xs) ys"
  by (induction xs arbitrary: w) simp_all

lemma processUnsafe_spec:
  "fst (processUnsafe P noEv w r) = process_all P noEv w [r]"
  by (auto simp: processUnsafe_def work_of_def Let_def split: option.splits prod.splits)

text \<open>The next result of a chain is never ignored.\<close>

lemma processIncomming_next:
  assumes "processIncommingRollupInfoData P noEv ex r (c, w) = ((c', w'), None)"
    and "highestBlockProcessed c = 0 \<or> fromBlock (resBlockRange r) = highestBlockProcessed c + 1"
  shows "highestBlockProcessed c' = res_high r \<and> w' = process_all P noEv w [r]
    \<and> lastEthBlockReceived c' = getHighestBlockReceived r"
proof -
  obtain w1 u where u: "processUnsafe P noEv w r = (w1, u)" by fastforce
  with assms show ?thesis
    using processUnsafe_spec [of P noEv w r]
    by (auto simp: processIncommingRollupInfoData_def Let_def invalidBlockNumber_def split: if_splits option.splits sum.splits)
qed

section \<open>Control messages arrive when all is processed\<close>

text \<open>
  Along the channel a message that reports the producer as fully synchronized carries the last block
  of the results before it.
\<close>

fun ctrl_ok :: "uint64 \<Rightarrow> ('ev, 'ord) L1SyncMessage list \<Rightarrow> bool" where
  "ctrl_ok b [] \<longleftrightarrow> True"
| "ctrl_ok b (m # ms) \<longleftrightarrow>
     (if dataIsValid m then \<not> ctrlIsValid m \<and> ctrl_ok (next_last b (msgData m)) ms
      else (event (ctrl m) = eventProducerIsFullySynced \<longrightarrow> parameter (ctrl m) = b) \<and> ctrl_ok b ms)"

abbreviation results_of :: "('ev, 'ord) L1SyncMessage list \<Rightarrow> ('ev, 'ord) rollupInfoByBlockRangeResult list" where
  "results_of ms \<equiv> map msgData (filter dataIsValid ms)"

lemma ctrl_ok_append:
  "ctrl_ok b (xs @ ys) \<longleftrightarrow> ctrl_ok b xs \<and> ctrl_ok (foldl next_last b (results_of xs)) ys"
  by (induction xs arbitrary: b) auto

lemma ctrl_ok_data: "\<forall>m \<in> set ms. dataIsValid m \<and> \<not> ctrlIsValid m \<Longrightarrow> ctrl_ok b ms"
  by (induction ms arbitrary: b) auto

definition chan_ok :: "uint64 \<Rightarrow> ('ev, 'ord) L1SyncMessage list \<Rightarrow> ('ev, 'ord) L1SyncMessage list \<Rightarrow> ('ev, 'ord) orderFilter \<Rightarrow> bool" where
  "chan_ok start C ch f \<longleftrightarrow> ctrl_ok start (C @ ch) \<and> (\<forall>m \<in> set (pendingResults f). \<not> ctrlIsValid m)"

abbreviation chan_inv :: "uint64 \<Rightarrow> ('ev, 'ord) L1SyncMessage list \<Rightarrow> ('ev, 'ord, 'err) L1RollupInfoProducer \<Rightarrow> bool" where
  "chan_inv start C l \<equiv> chan_ok start C (outgoingChannel l) (pFilter l)"

lemma launchWork_chan:
  "launchWork now l = Some (l', n) \<Longrightarrow> outgoingChannel l' = outgoingChannel l \<and> pFilter l' = pFilter l"
  by (auto simp: launchWork_def split: option.splits)

lemma renew_chan:
  "renewLastBlockOnL1IfNeeded eth t now l = Some l' \<Longrightarrow> outgoingChannel l' = outgoingChannel l \<and> pFilter l' = pFilter l"
  by (auto simp: renewLastBlockOnL1IfNeeded_def onNewLastBlock_def Let_def split: if_splits option.splits sum.splits prod.splits)

lemma renewWhen_chan:
  "renewWhen b eth t now l = Some l' \<Longrightarrow> outgoingChannel l' = outgoingChannel l \<and> pFilter l' = pFilter l"
  using renew_chan by (fastforce simp: renewWhen_def split: if_splits)

lemma setStatus_chan: "st \<noteq> producerSynchronized \<Longrightarrow> outgoingChannel (p_setStatus st l) = outgoingChannel l"
  by (simp add: p_setStatus_def Let_def)

text \<open>When the status is fully synchronized nothing is kept back, so the message carries the right block.\<close>

lemma setSynchronized_chan:
  assumes inv: "prod_inv start C l" "chan_inv start C l" and full: "IsNodeFullySynchronizedWithL1 (pSyncStatus l)"
  shows "chan_inv start C (p_setStatus producerSynchronized l)"
proof -
  have ok: "parts_ok start (sent C l) (pSyncStatus l) (pFilter l)" using inv(1) by (simp add: prod_inv_def)
  have "live (pSyncStatus l) = {}" using full by (simp add: IsNodeFullySynchronizedWithL1_def lr_len_def)
  from parts_ok_complete [OF ok this] ok
  have last: "lastBlockStoreOnStateDB (pSyncStatus l) = foldl next_last start (sent C l)" by (auto simp: parts_ok_def)
  let ?m = "newL1SyncMessageControlWProducerIsFullySynced (GetHighestBlockReceived (pSyncStatus l))"
  have "ctrl_ok start ((C @ outgoingChannel l) @ [?m])"
    using inv(2) last
    by (simp add: ctrl_ok_append chan_ok_def newL1SyncMessageControlWProducerIsFullySynced_def GetHighestBlockReceived_def sent_def del: append_assoc)
  with inv(2) show ?thesis by (auto simp: p_setStatus_def Let_def sendPackages_def chan_ok_def)
qed

lemma Filter_ctrl:
  assumes "filter_ok s" and "\<forall>m \<in> set (pendingResults s). \<not> ctrlIsValid m" and "Filter s (data_msg r) = (s', outs)"
  shows "(\<forall>m \<in> set outs. \<not> ctrlIsValid m) \<and> (\<forall>m \<in> set (pendingResults s'). \<not> ctrlIsValid m)"
proof -
  let ?s = "addPendingResultUnsafe s (data_msg r)"
  have "data_only ?s" using assms(1) by (auto simp: filter_ok_def data_only_def addPendingResultUnsafe_def)
  from send_data [OF this assms(3) [unfolded Filter_def]] have "mset (pendingResults ?s) = mset (outs @ pendingResults s')" by auto
  from mset_eq_setD [OF this] have "set (pendingResults ?s) = set outs \<union> set (pendingResults s')" by simp
  moreover have "\<forall>m \<in> set (pendingResults ?s). \<not> ctrlIsValid m"
    using assms(2) by (auto simp: addPendingResultUnsafe_def data_msg_def newL1SyncMessageData_def)
  ultimately show ?thesis by blast
qed

lemma onResponse_chan:
  assumes inv: "prod_inv start C l" "chan_inv start C l" and run: "onResponseRollupInfo x l = Some l'"
  shows "chan_inv start C l'"
proof -
  have ok: "filter_ok (pFilter l)" using inv(1) by (auto simp: prod_inv_def parts_ok_def)
  have pend: "\<forall>m \<in> set (pendingResults (pFilter l)). \<not> ctrlIsValid m" using inv(2) by (simp add: chan_ok_def)
  consider (same) "outgoingChannel l' = outgoingChannel l" "pFilter l' = pFilter l"
    | (send) res f pkgs where "Filter (pFilter l) (data_msg res) = (f, pkgs)" "pFilter l' = f"
        "outgoingChannel l' = outgoingChannel l @ pkgs"
    using run
    by (auto simp: onResponseRollupInfo_def Let_def sendPackages_def data_msg_def newL1SyncMessageData_def
        split: if_splits option.splits prod.splits bool.splits)
  then show ?thesis
  proof cases
    case same
    with inv(2) show ?thesis by simp
  next
    case send
    note F = Filter_ctrl [OF ok pend send(1)] Filter_valid [OF ok send(1)]
    then have "ctrl_ok b pkgs" for b by (intro ctrl_ok_data) blast
    with inv(2) F(1) send show ?thesis by (simp add: chan_ok_def ctrl_ok_append flip: append_assoc)
  qed
qed

lemma p_select_chan:
  assumes inv: "prod_inv start C l" "chan_inv start C l" and run: "p_select now c l = Some (l', b)"
  shows "chan_inv start C l'"
proof (cases c)
  case SelCmd
  then obtain cmd cmds where cmds: "channelCmds l = cmd # cmds" using run by (auto simp: p_select_def split: list.splits)
  have "producerReset n \<notin> set (channelCmds l)" for n using inv(1) by (simp add: prod_inv_def)
  then have "cmd \<noteq> producerReset n" for n using cmds by auto
  then have "l' = l\<lparr>channelCmds := cmds\<rparr> \<or> l' = stopUnsafe (l\<lparr>channelCmds := cmds\<rparr>)"
    using run SelCmd cmds by (cases cmd) (auto simp: p_select_def executeCmd_def)
  then show ?thesis using inv(2) by (auto simp: stopUnsafe_def Let_def setStatus_chan)
next
  case SelResponse
  then obtain x xs where xs: "pResponses l = x # xs" "onResponseRollupInfo x (l\<lparr>pResponses := xs\<rparr>) = Some l'"
    using run by (auto simp: p_select_def split: list.splits)
  have "prod_inv start C (l\<lparr>pResponses := xs\<rparr>)" using inv(1) xs by (simp add: prod_inv_def sent_def)
  from onResponse_chan [OF this _ xs(2)] inv(2) show ?thesis by simp
qed (use inv(2) run in \<open>auto simp: p_select_def split: if_splits\<close>)

lemma stepWorking_chan:
  assumes inv: "prod_inv start C l" "chan_inv start C l" and eth: "eth_ok eth" and run: "stepWorking eth t now l = Some l'"
  shows "chan_inv start C l'"
proof -
  obtain l1 n where l1: "launchWork now l = Some (l1, n)" "prod_inv start C l1" using launchWork_ok [OF inv(1)] by blast
  obtain l2 where l2: "renewWhen (HaveRequiredAllBlocksToBeSynchronized (pSyncStatus l1)) eth t now l1 = Some l2"
    using run l1(1) by (auto simp: stepWorking_def split: option.splits)
  have p2: "prod_inv start C l2" using keeps_renewWhen [OF l1(2) eth, of "HaveRequiredAllBlocksToBeSynchronized (pSyncStatus l1)" t now]
    unfolding l2 by (simp add: keeps_def)
  obtain l3 where l3: "renewWhen (BlockNumberIsInsideUnsafeArea (pSyncStatus l2) invalidBlockNumber) eth (t + 1) now l2 = Some l3"
    using run l1(1) l2 by (auto simp: stepWorking_def split: option.splits)
  have p3: "prod_inv start C l3" using keeps_renewWhen [OF p2 eth, of "BlockNumberIsInsideUnsafeArea (pSyncStatus l2) invalidBlockNumber" "t + 1" now]
    unfolding l3 by (simp add: keeps_def)
  have c3: "chan_inv start C l3"
    using launchWork_chan [OF l1(1)] renewWhen_chan [OF l2] renewWhen_chan [OF l3] inv(2) by simp
  show ?thesis
  proof (cases "IsNodeFullySynchronizedWithL1 (pSyncStatus l3)")
    case True
    then have "l' = p_setStatus producerSynchronized l3" using run l1(1) l2 l3 by (simp add: stepWorking_def)
    with setSynchronized_chan [OF p3 c3 True] show ?thesis by (simp only:)
  next
    case False
    then obtain n where "launchWork now l3 = Some (l', n)" using run l1(1) l2 l3 by (auto simp: stepWorking_def)
    with launchWork_chan [OF this] c3 show ?thesis by simp
  qed
qed

lemma stepIdle_chan:
  "stepIdle eth t now l = Some l' \<Longrightarrow> outgoingChannel l' = outgoingChannel l \<and> pFilter l' = pFilter l"
  by (auto simp: stepIdle_def Let_def setStatus_chan dest!: renew_chan split: option.splits if_splits)

lemma stepSynchronized_chan:
  "stepSynchronized eth t now l = Some l' \<Longrightarrow> outgoingChannel l' = outgoingChannel l \<and> pFilter l' = pFilter l"
  by (auto simp: stepSynchronized_def setStatus_chan dest!: renew_chan launchWork_chan split: option.splits if_splits)

lemma p_step_chan:
  assumes inv: "prod_inv start C l0" "chan_inv start C l0" and eth: "eth_ok eth" and run: "p_step eth t now c l0 = Some (l', b)"
  shows "chan_inv start C l'"
proof -
  let ?l = "if pStatus l0 = producerNoRunning then l0\<lparr>pStatus := producerIdle\<rparr> else l0"
  have l: "prod_inv start C ?l" "chan_inv start C ?l" using inv by simp_all
  obtain l1 b1 where l1: "p_select now c ?l = Some (l1, b1)" using run by (cases "p_select now c ?l") (auto simp: p_step_def Let_def)
  have "select_ready c ?l" using l1 by (metis option.distinct(1) p_select_not_ready)
  then have p1: "prod_inv start C l1" using p_select_ok [OF l(1), of c now] l1 by auto
  have c1: "chan_inv start C l1" by (rule p_select_chan [OF l l1])
  show ?thesis
  proof (cases b1)
    case False
    then show ?thesis using run l1 c1 by (simp add: p_step_def Let_def)
  next
    case True
    let ?r = "case pStatus l1 of producerIdle \<Rightarrow> stepIdle eth t now l1 | producerWorking \<Rightarrow> stepWorking eth t now l1
      | producerSynchronized \<Rightarrow> stepSynchronized eth t now l1 | _ \<Rightarrow> Some l1"
    obtain l2 where l2: "?r = Some l2" using run l1 True by (cases ?r) (simp_all add: p_step_def Let_def)
    have "chan_inv start C l2"
    proof (cases "pStatus l1")
      case producerIdle
      then show ?thesis using l2 stepIdle_chan [of eth t now l1 l2] c1 by simp
    next
      case producerWorking
      then show ?thesis using l2 stepWorking_chan [OF p1 c1 eth] by simp
    next
      case producerSynchronized
      then show ?thesis using l2 stepSynchronized_chan [of eth t now l1 l2] c1 by simp
    qed (use l2 c1 in simp_all)
    moreover have "outgoingChannel l' = outgoingChannel l2 \<and> pFilter l' = pFilter l2"
      using run l1 True l2 by (auto simp: p_step_def Let_def split: if_splits)
    ultimately show ?thesis by simp
  qed
qed

lemma prod_reach_chan:
  assumes "prod_reach eth start C l" and "eth_ok eth"
  shows "chan_inv start C l"
  using assms
proof (induction rule: prod_reach.induct)
  case (pr_init cfg n cap now l now')
  have "outgoingChannel (resetUnsafe now' start l) = []" "pendingResults (pFilter (resetUnsafe now' start l)) = []"
    by (simp_all add: resetUnsafe_def Let_def p_setStatus_def emptyChannel_def sendPackages_def filter_Reset_def)
  then show ?case by (simp add: chan_ok_def)
next
  case (pr_step C l t now c l' b)
  then show ?case using p_step_chan prod_reach_inv by blast
qed (auto simp: chan_ok_def p_Stop_def)

section \<open>The consumer keeps step with the producer\<close>

lemma processIncomming_error:
  assumes "processIncommingRollupInfoData P noEv ex r (c, w) = ((c', w'), Some e)"
  shows "e \<noteq> errConsumerAndProducerDesynchronized \<and> (\<exists>k. w' = process_all P noEv w (take k [r]))"
proof -
  obtain w1 u where u: "processUnsafe P noEv w r = (w1, u)" by fastforce
  then have w1: "w1 = process_all P noEv w [r]" using processUnsafe_spec [of P noEv w r] by simp
  have "w' = w \<or> w' = w1" "e \<noteq> errConsumerAndProducerDesynchronized"
    using assms u
    by (auto simp: processIncommingRollupInfoData_def checkPreviousBlocks_def Let_def split: if_splits option.splits sum.splits)
  moreover have "w = process_all P noEv w (take 0 [r])" "process_all P noEv w [r] = process_all P noEv w (take 1 [r])" by simp_all
  ultimately show ?thesis unfolding w1 by metis
qed

text \<open>Messages with the moment, the processing time and the number of messages left behind them.\<close>

definition inputs ::
  "(int \<times> int \<times> nat) list \<Rightarrow> ('ev, 'ord) L1SyncMessage list \<Rightarrow> (int \<times> int \<times> ('ev, 'ord) received) list" where
  "inputs ts ms = map2 (\<lambda>(now, ex, items) m. (now, ex, Received m items)) ts ms"

lemma process_all_take: "process_all P noEv (process_all P noEv w [r]) (take k rs) = process_all P noEv w (take (Suc k) (r # rs))"
  by simp

definition in_step ::
  "('ev, 'ord, 'e, 'w) processor \<Rightarrow> 'ev \<Rightarrow> uint64 \<Rightarrow> 'w \<Rightarrow> ('ev, 'ord) rollupInfoByBlockRangeResult list
     \<Rightarrow> (l1RollupInfoConsumer \<times> 'w) \<times> 'e consumer_error option \<Rightarrow> bool" where
  "in_step P noEv h w rs out \<longleftrightarrow>
     (case out of ((c', w'), err) \<Rightarrow>
        err \<noteq> Some errConsumerAndProducerDesynchronized \<and> (\<exists>k. w' = process_all P noEv w (take k rs))
        \<and> (err = None \<longrightarrow> highestBlockProcessed c' = foldl next_last h rs \<and> w' = process_all P noEv w rs))"

lemma in_step_Cons:
  assumes "in_step P noEv (next_last h r) (process_all P noEv w [r]) rs out"
  shows "in_step P noEv h w (r # rs) out"
proof -
  obtain c' w' err where out: "out = ((c', w'), err)" by (metis surj_pair)
  obtain k where "w' = process_all P noEv (process_all P noEv w [r]) (take k rs)" using assms by (auto simp: in_step_def out)
  then have "w' = process_all P noEv w (take (Suc k) (r # rs))" by (simp only: process_all_take)
  with assms show ?thesis by (auto simp: in_step_def out simp del: take_Suc_Cons)
qed

lemma in_step_error:
  "err \<noteq> errConsumerAndProducerDesynchronized \<Longrightarrow> w' = process_all P noEv w (take k rs) \<Longrightarrow> in_step P noEv h w rs ((c', w'), Some err)"
  by (auto simp: in_step_def)

lemma c_loop_chain:
  assumes "chain h (results_of ms)" and "\<forall>r \<in> set (results_of ms). result_ok r" and "h \<noteq> latestBlockNumber"
    and "ctrl_ok h ms" and "highestBlockProcessed c = h" and "length ts = length ms"
  shows "in_step P noEv h w (results_of ms) (c_loop P noEv (inputs ts ms) (c, w))"
  using assms
proof (induction ms arbitrary: h c w ts)
  case Nil
  then show ?case by (simp add: in_step_def inputs_def)
next
  case (Cons m ms)
  obtain now ex items ts' where ts: "ts = (now, ex, items) # ts'" using Cons.prems(6) by (cases ts) auto
  let ?c = "c\<lparr>cStatistics := stat_onStartStep now (cStatistics c)\<rparr>" and ?r = "msgData m"
  have ins: "inputs ts (m # ms) = (now, ex, Received m items) # inputs ts' ms" by (simp add: inputs_def ts)
  have len: "length ts' = length ms" using Cons.prems(6) ts by simp
  show ?case
  proof (cases "dataIsValid m")
    case True
    then have noctrl: "\<not> ctrlIsValid m" "ctrl_ok (next_last h ?r) ms" using Cons.prems(4) by simp_all
    have r: "result_ok ?r" "res_from ?r = h + 1" "chain (next_last h ?r) (results_of ms)" using Cons.prems(1,2) True by simp_all
    obtain c1 w1 err where run: "processIncommingRollupInfoData P noEv ex ?r (?c, w) = ((c1, w1), err)" by (metis surj_pair)
    then have step: "c_step P noEv (now, ex, Received m items) (c, w) = ((c1, w1), err)" using True noctrl by (simp add: c_step_def)
    show ?thesis
    proof (cases err)
      case (Some e)
      obtain k where "e \<noteq> errConsumerAndProducerDesynchronized" "w1 = process_all P noEv w (take k [?r])"
        using processIncomming_error [OF run [unfolded Some]] by blast
      moreover have "take k [?r] = take (min k 1) (results_of (m # ms))" using True by (cases k) simp_all
      ultimately show ?thesis unfolding ins using step Some by (auto intro: in_step_error)
    next
      case None
      have "next_last h ?r = res_high ?r" "res_high ?r \<noteq> latestBlockNumber"
        using chain_next_last [OF r(1,2) Cons.prems(3)] r(1) by (simp_all add: result_ok_def)
      moreover have "highestBlockProcessed c1 = res_high ?r" "w1 = process_all P noEv w [?r]"
        using processIncomming_next [OF run [unfolded None]] Cons.prems(5) r(2) by auto
      ultimately have "in_step P noEv (next_last h ?r) (process_all P noEv w [?r]) (results_of ms) (c_loop P noEv (inputs ts' ms) (c1, w1))"
        using Cons.IH [of "next_last h ?r" c1 ts' w1] r(3) Cons.prems(2) noctrl(2) len True by simp
      from in_step_Cons [OF this] show ?thesis unfolding ins using step None True by simp
    qed
  next
    case False
    obtain err where step: "c_step P noEv (now, ex, Received m items) (c, w) = ((?c, w), err)"
      and err: "err \<noteq> Some errConsumerAndProducerDesynchronized"
      using Cons.prems(4,5) False by (cases "ctrlIsValid m") (auto simp: c_step_def processIncommingRollupControlData_def Let_def split: if_splits)
    show ?thesis
    proof (cases err)
      case (Some e)
      then show ?thesis unfolding ins using step err by (auto intro: in_step_error [where k = 0])
    next
      case None
      then show ?thesis unfolding ins using step False Cons.IH [of h ?c ts' w] Cons.prems len by simp
    qed
  qed
qed

section \<open>Reorganizations between requests\<close>

lemma executeRequest_last:
  assumes "executeRequestRollupInfoByBlockRange eth t q = (r, None)"
    and "requestLastBlockIfNoBlocksInAnswer q = requestLastBlockModeAlways" and "toBlock (reqBlockRange q) \<noteq> latestBlockNumber"
    and "EthBlockByNumber eth t (toBlock (reqBlockRange q)) = Inr b"
  shows "lastBlockOfRange r = Some b"
proof -
  let ?z = "zeroResult\<lparr>resBlockRange := reqBlockRange q\<rparr>"
  have 1: "fillLastBlock eth t q False ?z = (?z\<lparr>lastBlockOfRange := Some b\<rparr>, None)"
    using assms(2-4) by (simp add: fillLastBlock_def zeroResult_def mustRequestLastBlock_def)
  obtain r2 e2 where 2: "fillRollup eth (t + 1) q (?z\<lparr>lastBlockOfRange := Some b\<rparr>) = (r2, e2)" by fastforce
  obtain r3 e3 where 3: "fillLastBlock eth (t + 2) q True r2 = (r3, e3)" by fastforce
  have "lastBlockOfRange r3 = Some b" using fillRollup_frame [OF 2] fillLastBlock_frame [OF 3] by simp
  moreover have "fillPreviousBlock eth (t + 3) q r3 = (r, None)"
    using assms(1) 1 2 3 by (cases e2; cases e3) (simp_all add: executeRequestRollupInfoByBlockRange_def)
  ultimately show ?thesis by (auto simp: fillPreviousBlock_def split: if_splits sum.splits)
qed

lemma executeRequest_previous:
  assumes "executeRequestRollupInfoByBlockRange eth t q = (r, None)" and "requestPreviousBlock q" and "fromBlock (reqBlockRange q) > 2"
    and "EthBlockByNumber eth (t + 3) (fromBlock (reqBlockRange q) - 1) = Inr b"
  shows "previousBlockOfRange r = Some b"
proof -
  let ?z = "zeroResult\<lparr>resBlockRange := reqBlockRange q\<rparr>"
  obtain r1 e1 where 1: "fillLastBlock eth t q False ?z = (r1, e1)" by fastforce
  obtain r2 e2 where 2: "fillRollup eth (t + 1) q r1 = (r2, e2)" by fastforce
  obtain r3 e3 where 3: "fillLastBlock eth (t + 2) q True r2 = (r3, e3)" by fastforce
  have "fillPreviousBlock eth (t + 3) q r3 = (r, None)"
    using assms(1) 1 2 3 by (cases e1; cases e2; cases e3) (simp_all add: executeRequestRollupInfoByBlockRange_def)
  with assms(2-4) show ?thesis by (auto simp: fillPreviousBlock_def)
qed

section \<open>Properties\<close>


definition sample_consumer :: l1RollupInfoConsumer where
  "sample_consumer = c_begin 0 (Some \<lparr>sbBlockNumber = 10, sbBlockHash = [], sbParentHash = [], sbReceivedAt = 0, sbChecked = False\<rparr>)
     (NewL1RollupInfoConsumer \<lparr>ApplyAfterNumRollupReceived = 10, AceptableInacctivityTime = 5\<rparr> 0)"

definition count_blocks :: "(unit, unit, unit, nat) processor" where
  "count_blocks w bs ord = (w + length bs, None)"



text \<open>A client that sees another chain from the third moment on.\<close>

definition fork_eth :: "(unit, unit, unit) etherman" where
  "fork_eth = \<lparr>GetRollupInfoByBlockRange = (\<lambda>t f to. Inr ([], [])),
     EthBlockByNumber = (\<lambda>t n. Inr \<lparr>NumberU64 = n, HeaderHash = [if t < 5 then 1 else 2], HeaderParentHash = [], HeaderTime = 0\<rparr>),
     HeaderByNumber = (\<lambda>t. Inr 20)\<rparr>"

definition fork_result :: "nat \<Rightarrow> blockRange \<Rightarrow> (unit, unit) rollupInfoByBlockRangeResult" where
  "fork_result t br = fst (executeRequestRollupInfoByBlockRange fork_eth t (buildRequest (pSyncStatus sample_p1) br))"


end
