(* ===== verification/TxEncoding.thy ===== *)
theory TxEncoding
  imports Prelude "HOL-Library.Code_Target_Numeral"
begin

text \<open>
  Transactions as bytes: the encoding of legacy transactions in a batch and the decoding of a list of
  them (\<open>state/helper.go\<close>, \<open>RlpFieldsToLegacyTx\<close> of \<open>state/transaction.go\<close>, \<open>hex/hex.go\<close>).

  The RLP codec and the chain id of a signed transaction belong to the Ethereum library and are the
  parameter \<open>geth\<close>.  Integers are given to the codec as their big endian bytes without leading zeros,
  which is how it encodes them.  A byte slice has no spare capacity behind its length, so that slicing
  beyond the length panics.
\<close>

section \<open>Hexadecimal text\<close>

text \<open>A text of hexadecimal digits is the list of their values.\<close>

function hexDigits :: "nat \<Rightarrow> nat list" where
  "hexDigits n = (if n < 16 then [n] else hexDigits (n div 16) @ [n mod 16])"
  by pat_completeness auto
termination
  by (relation "measure id") auto

declare hexDigits.simps [simp del]

definition EncodeToString :: "bytes \<Rightarrow> nat list" where
  "EncodeToString bs = concat (map (\<lambda>b. [unat b div 16, unat b mod 16]) bs)"

fun DecodeString :: "nat list \<Rightarrow> bytes option" where
  "DecodeString [] = Some []"
| "DecodeString [a] = None"
| "DecodeString (a # b # ds) = map_option (\<lambda>bs. of_nat (16 * a + b) # bs) (DecodeString ds)"

definition DecodeHex :: "nat list \<Rightarrow> bytes option" where
  "DecodeHex ds = DecodeString (if length ds mod 2 \<noteq> 0 then 0 # ds else ds)"

text \<open>\<open>fmt.Sprintf\<close> with a width and a leading zero.\<close>

definition padZero :: "nat \<Rightarrow> nat list \<Rightarrow> nat list" where
  "padZero n ds = replicate (n - length ds) 0 @ ds"

section \<open>Big endian numbers\<close>

definition SetBytes :: "bytes \<Rightarrow> nat" where
  "SetBytes bs = foldl (\<lambda>n b. n * 256 + unat b) 0 bs"

function be_bytes :: "nat \<Rightarrow> bytes" where
  "be_bytes n = (if n = 0 then [] else be_bytes (n div 256) @ [of_nat (n mod 256)])"
  by pat_completeness auto
termination
  by (relation "measure id") auto

declare be_bytes.simps [simp del]

section \<open>Transactions\<close>

record LegacyTx =
  txNonce :: uint64
  txGasPrice :: nat
  txGas :: uint64
  txTo :: "bytes option"
  txValue :: nat
  txData :: bytes
  txV :: int
  txR :: nat
  txS :: nat

record geth =
  rlpEncode :: "bytes list \<Rightarrow> bytes"
  rlpDecode :: "bytes \<Rightarrow> bytes list option"
  chainIdOf :: "int \<Rightarrow> nat"

datatype tx_error =
    ErrInvalidData | ErrInvalidRLP | ErrInvalidBatchV2 | ErrBatchV2DontStartWithChangeL2Block
  | ErrTxTypeNotSupported | ErrHexText | ErrRlpLibrary | SlicePanic

definition ether155V :: nat where
  "ether155V = 27"

definition etherPre155V :: nat where
  "etherPre155V = 35"

definition headerByteLength :: uint64 where
  "headerByteLength = 1"

definition sLength :: uint64 where
  "sLength = 32"

definition rLength :: uint64 where
  "rLength = 32"

definition vLength :: uint64 where
  "vLength = 1"

definition c0 :: uint64 where
  "c0 = 192"

definition shortRlp :: uint64 where
  "shortRlp = 55"

definition f7 :: uint64 where
  "f7 = 247"

definition EfficiencyPercentageByteLength :: uint64 where
  "EfficiencyPercentageByteLength = 1"

definition MaxEffectivePercentage :: uint8 where
  "MaxEffectivePercentage = 255"

definition FORKID_DRAGONFRUIT :: uint64 where
  "FORKID_DRAGONFRUIT = 5"

definition FORKID_ETROG :: uint64 where
  "FORKID_ETROG = 7"

lemmas tx_consts = ether155V_def etherPre155V_def headerByteLength_def sLength_def rLength_def vLength_def c0_def shortRlp_def
  f7_def EfficiencyPercentageByteLength_def MaxEffectivePercentage_def FORKID_DRAGONFRUIT_def FORKID_ETROG_def

section \<open>Encoding\<close>

definition IsPreEIP155Tx :: "geth \<Rightarrow> LegacyTx \<Rightarrow> bool" where
  "IsPreEIP155Tx g tx \<longleftrightarrow>
     (of_nat (chainIdOf g (txV tx)) :: uint64) = 0 \<and> ((of_int (txV tx) :: uint64) = 27 \<or> (of_int (txV tx) :: uint64) = 28)"

definition rlpFieldsToEncode :: "geth \<Rightarrow> LegacyTx \<Rightarrow> bytes list" where
  "rlpFieldsToEncode g tx =
     [be_bytes (unat (txNonce tx)), be_bytes (txGasPrice tx), be_bytes (unat (txGas tx)),
      (case txTo tx of None \<Rightarrow> [] | Some a \<Rightarrow> a), be_bytes (txValue tx), txData tx]
     @ (if \<not> IsPreEIP155Tx g tx then [be_bytes (chainIdOf g (txV tx)), [], []] else [])"

definition signatureText :: "nat \<Rightarrow> nat \<Rightarrow> nat \<Rightarrow> nat list" where
  "signatureText newV r s = padZero 64 (hexDigits r) @ padZero 64 (hexDigits s) @ padZero 2 (hexDigits newV)"

definition prepareRPLTxData :: "geth \<Rightarrow> LegacyTx \<Rightarrow> tx_error + bytes" where
  "prepareRPLTxData g tx =
     (let sign = 1 - ((of_int (txV tx) :: uint64) AND 1);
          txCodedRlp = rlpEncode g (rlpFieldsToEncode g tx);
          newV = ether155V + unat sign
      in case DecodeString (EncodeToString txCodedRlp @ signatureText newV (txR tx) (txS tx)) of
           None \<Rightarrow> Inl ErrHexText
         | Some d \<Rightarrow> Inr d)"

text \<open>A percentage that is missing for a transaction makes the index panic.\<close>

fun encodeLoop :: "geth \<Rightarrow> uint64 \<Rightarrow> uint8 list \<Rightarrow> LegacyTx list \<Rightarrow> bytes \<Rightarrow> tx_error + bytes" where
  "encodeLoop g forkID pcts [] batchL2Data = Inr batchL2Data"
| "encodeLoop g forkID pcts (tx # txs) batchL2Data =
     (case prepareRPLTxData g tx of
        Inl e \<Rightarrow> Inl e
      | Inr d \<Rightarrow>
          if forkID \<ge> FORKID_DRAGONFRUIT then
            (case pcts of
               [] \<Rightarrow> Inl SlicePanic
             | p # ps \<Rightarrow>
                 (case DecodeHex (hexDigits (unat p)) of
                    None \<Rightarrow> Inl ErrHexText
                  | Some b \<Rightarrow> encodeLoop g forkID ps txs (batchL2Data @ d @ b)))
          else encodeLoop g forkID pcts txs (batchL2Data @ d))"

definition EncodeTransactions :: "geth \<Rightarrow> LegacyTx list \<Rightarrow> uint8 list \<Rightarrow> uint64 \<Rightarrow> tx_error + bytes" where
  "EncodeTransactions g txs pcts forkID = encodeLoop g forkID pcts txs []"

fun encodeWithoutLoop :: "geth \<Rightarrow> LegacyTx list \<Rightarrow> bytes \<Rightarrow> tx_error + bytes" where
  "encodeWithoutLoop g [] batchL2Data = Inr batchL2Data"
| "encodeWithoutLoop g (tx # txs) batchL2Data =
     (case prepareRPLTxData g tx of
        Inl e \<Rightarrow> Inl e
      | Inr d \<Rightarrow> encodeWithoutLoop g txs (batchL2Data @ d))"

definition EncodeTransactionsWithoutEffectivePercentage :: "geth \<Rightarrow> LegacyTx list \<Rightarrow> tx_error + bytes" where
  "EncodeTransactionsWithoutEffectivePercentage g txs = encodeWithoutLoop g txs []"

definition EncodeTransactionWithoutEffectivePercentage :: "geth \<Rightarrow> LegacyTx \<Rightarrow> tx_error + bytes" where
  "EncodeTransactionWithoutEffectivePercentage g tx = EncodeTransactionsWithoutEffectivePercentage g [tx]"

definition EncodeTransaction :: "geth \<Rightarrow> LegacyTx \<Rightarrow> uint8 \<Rightarrow> uint64 \<Rightarrow> tx_error + bytes" where
  "EncodeTransaction g tx pct forkID = EncodeTransactions g [tx] [pct] forkID"

definition EncodeUnsignedTransaction :: "geth \<Rightarrow> LegacyTx \<Rightarrow> uint64 \<Rightarrow> uint64 option \<Rightarrow> uint64 \<Rightarrow> tx_error + bytes" where
  "EncodeUnsignedTransaction g tx chainID forcedNonce forkID =
     (let v = 28 :: uint64;
          r = 74757518518951640188486530138138806143093519128138009216219168020217640908139 :: nat;
          s = 21088224366061055461606600471894826612396838168577846303105379284397149947934 :: nat;
          sign = 1 - (v AND 1);
          nonce = (case forcedNonce of Some n \<Rightarrow> n | None \<Rightarrow> txNonce tx);
          txCodedRlp = rlpEncode g
            [be_bytes (unat nonce), be_bytes (txGasPrice tx), be_bytes (unat (txGas tx)),
             (case txTo tx of None \<Rightarrow> [] | Some a \<Rightarrow> a), be_bytes (txValue tx), txData tx,
             be_bytes (unat chainID), [], []];
          newV = ether155V + unat sign;
          pct = (if forkID < FORKID_DRAGONFRUIT then [] else hexDigits (unat MaxEffectivePercentage))
      in case DecodeString (EncodeToString txCodedRlp @ signatureText newV r s @ pct) of
           None \<Rightarrow> Inl ErrHexText
         | Some d \<Rightarrow> Inr d)"

section \<open>Decoding\<close>

definition bytesToAddress :: "bytes \<Rightarrow> bytes" where
  "bytesToAddress b = (let c = drop (length b - 20) b in replicate (20 - length c) 0 @ c)"

definition RlpFieldsToLegacyTx :: "bytes list \<Rightarrow> bytes \<Rightarrow> bytes \<Rightarrow> bytes \<Rightarrow> tx_error + LegacyTx" where
  "RlpFieldsToLegacyTx flds v r s =
     (if length flds < 6 then Inl ErrTxTypeNotSupported
      else
        Inr \<lparr>txNonce = of_nat (SetBytes (flds ! 0)), txGasPrice = SetBytes (flds ! 1), txGas = of_nat (SetBytes (flds ! 2)),
             txTo = (if length (flds ! 3) \<noteq> 0 then Some (bytesToAddress (flds ! 3)) else None),
             txValue = SetBytes (flds ! 4), txData = flds ! 5,
             txV = (if length flds \<ge> 7
                    then (int (SetBytes v) - int ether155V) + (int (SetBytes (flds ! 6)) * 2 + int etherPre155V)
                    else int (SetBytes v)),
             txR = SetBytes r, txS = SetBytes s\<rparr>)"

text \<open>\<open>xs[a:b]\<close> with unsigned bounds.\<close>

definition slice :: "bytes \<Rightarrow> uint64 \<Rightarrow> uint64 \<Rightarrow> tx_error + bytes" where
  "slice xs a b =
     (if a \<le> b \<and> unat b \<le> length xs then Inr (take (unat b - unat a) (drop (unat a) xs)) else Inl SlicePanic)"

fun and_then :: "'e + 'a \<Rightarrow> ('a \<Rightarrow> 'e + 'b) \<Rightarrow> 'e + 'b" where
  "and_then (Inl e) f = Inl e"
| "and_then (Inr x) f = f x"

text \<open>
  The length of the transaction at \<open>pos\<close> as its header gives it.  When the length bytes are cut off
  the code returns the error variable, which is nil: \<open>Inl None\<close>.
\<close>

definition txLengthAt :: "bytes \<Rightarrow> uint64 \<Rightarrow> tx_error option + uint64" where
  "txLengthAt txsData pos =
     (let num = ucast (txsData ! unat pos) :: uint64; length1 = num - c0
      in if num < c0 then Inl (Some ErrInvalidData)
         else if length1 > shortRlp then
           (if pos + 1 + num - f7 > of_nat (length txsData) then Inl None
            else
              (case slice txsData (pos + 1) (pos + 1 + num - f7) of
                 Inl e \<Rightarrow> Inl (Some e)
               | Inr bs \<Rightarrow>
                   (let n = of_nat (SetBytes bs) :: uint64
                    in if n + num < f7 then Inl (Some ErrInvalidData) else Inr (n + num - f7))))
         else Inr length1)"

definition txEndPos :: "uint64 \<Rightarrow> uint64 \<Rightarrow> uint64 \<Rightarrow> uint64" where
  "txEndPos forkID pos len =
     (let endPos = pos + len + rLength + sLength + vLength + headerByteLength
      in if forkID \<ge> FORKID_DRAGONFRUIT then endPos + EfficiencyPercentageByteLength else endPos)"

definition decodeTxAt ::
  "geth \<Rightarrow> uint64 \<Rightarrow> bytes \<Rightarrow> uint64 \<Rightarrow> uint64 \<Rightarrow> tx_error + (LegacyTx \<times> uint8 list \<times> uint64)" where
  "decodeTxAt g forkID txsData pos len =
     (let endPos = txEndPos forkID pos len;
          dataStart = pos + len + headerByteLength
      in if endPos > of_nat (length txsData) then Inl ErrInvalidData
         else if endPos < pos then Inl ErrInvalidData
         else
           and_then (slice txsData pos endPos) (\<lambda>fullDataTx.
           and_then (slice txsData pos dataStart) (\<lambda>txInfo.
           and_then (slice txsData dataStart (dataStart + rLength)) (\<lambda>rData.
           and_then (slice txsData (dataStart + rLength) (dataStart + rLength + sLength)) (\<lambda>sData.
           and_then (slice txsData (dataStart + rLength + sLength) (dataStart + rLength + sLength + vLength)) (\<lambda>vData.
           and_then (if forkID \<ge> FORKID_DRAGONFRUIT
                     then and_then (slice txsData (dataStart + rLength + sLength + vLength) endPos)
                            (\<lambda>p. case p of [] \<Rightarrow> Inl SlicePanic | b # _ \<Rightarrow> Inr [b])
                     else Inr []) (\<lambda>pct.
             case rlpDecode g txInfo of
               None \<Rightarrow> Inl ErrInvalidData
             | Some rlpFields \<Rightarrow>
                 and_then (RlpFieldsToLegacyTx rlpFields vData rData sData) (\<lambda>tx. Inr (tx, pct, endPos)))))))))"

lemma unat_uint64_less: "unat (w :: uint64) < 18446744073709551616"
  by (rule order_less_le_trans [OF unsigned_less]) simp

lemma txLengthAt_bound:
  assumes "txLengthAt d pos = Inr l"
  shows "unat l + 247 < 2 ^ 64"
proof -
  have *: "unat (w - 247) < 18446744073709551369" if "\<not> w < 247" for w :: uint64
  proof -
    from that have "unat (w - 247) = unat w - 247" and "247 \<le> unat w"
      by (simp_all add: unat_sub word_le_nat_alt word_less_nat_alt)
    with unat_uint64_less [of w] show ?thesis by simp
  qed
  have **: "unat (w - 192) < 18446744073709551369" if "\<not> w - 192 > (55 :: uint64)" for w
    using that by (simp add: word_less_nat_alt)
  from assms show ?thesis
    by (auto simp: txLengthAt_def Let_def tx_consts intro: * ** split: if_splits sum.splits)
qed

lemma word_plus_past:
  fixes pos k :: uint64
  assumes "0 < k" "\<not> pos + k < pos"
  shows "pos < pos + k" "unat (pos + k) = unat pos + unat k"
proof -
  from assms(2) show u: "unat (pos + k) = unat pos + unat k"
    by (metis not_less unat_plus_simple)
  with assms(1) show "pos < pos + k"
    by (simp add: word_less_nat_alt)
qed

lemma and_then_Inr_iff [simp]: "and_then r f = Inr y \<longleftrightarrow> (\<exists>x. r = Inr x \<and> f x = Inr y)"
  by (cases r) auto

lemma and_then_Inl_iff: "and_then r f = Inl e \<longleftrightarrow> r = Inl e \<or> (\<exists>x. r = Inr x \<and> f x = Inl e)"
  by (cases r) auto

lemma txEndPos_sum: "txEndPos forkID pos len = pos + (len + (if forkID \<ge> FORKID_DRAGONFRUIT then 67 else 66))"
  by (simp add: txEndPos_def tx_consts)

text \<open>The end position that passes the checks lies beyond the start, however the additions wrap.\<close>

lemma txEndPos_past:
  assumes "unat len + 247 < 2 ^ 64" "\<not> txEndPos forkID pos len < pos"
  shows "pos < txEndPos forkID pos len"
    "unat (txEndPos forkID pos len) = unat pos + (unat len + (if forkID \<ge> FORKID_DRAGONFRUIT then 67 else 66))"
proof -
  define k where "k = len + (if forkID \<ge> FORKID_DRAGONFRUIT then 67 else 66)"
  have k: "unat k = unat len + (if forkID \<ge> FORKID_DRAGONFRUIT then 67 else 66)"
    using assms(1) by (simp add: k_def unat_word_ariths)
  then have "0 < k" by (simp add: word_less_nat_alt split: if_splits)
  from word_plus_past [OF this, of pos] assms(2) k [symmetric]
  show "pos < txEndPos forkID pos len"
    "unat (txEndPos forkID pos len) = unat pos + (unat len + (if forkID \<ge> FORKID_DRAGONFRUIT then 67 else 66))"
    by (simp_all add: txEndPos_sum k_def)
qed

lemma decodeTxAt_end:
  assumes "decodeTxAt g forkID d pos len = Inr (tx, pct, e)"
  shows "e = txEndPos forkID pos len" "\<not> e < pos"
  using assms by (auto simp: decodeTxAt_def Let_def split: if_splits option.splits)

function decodeTxsLoop ::
  "geth \<Rightarrow> uint64 \<Rightarrow> bytes \<Rightarrow> uint64 \<Rightarrow> LegacyTx list \<Rightarrow> uint8 list \<Rightarrow> tx_error + (LegacyTx list \<times> uint8 list)" where
  "decodeTxsLoop g forkID txsData pos txs pcts =
     (if pos < of_nat (length txsData) then
        (case txLengthAt txsData pos of
           Inl None \<Rightarrow> Inr ([], [])
         | Inl (Some e) \<Rightarrow> Inl e
         | Inr len \<Rightarrow>
             (case decodeTxAt g forkID txsData pos len of
                Inl e \<Rightarrow> Inl e
              | Inr (tx, pct, endPos) \<Rightarrow> decodeTxsLoop g forkID txsData endPos (txs @ [tx]) (pcts @ pct)))
      else Inr (txs, pcts))"
  by pat_completeness auto
termination
proof (relation "measure (\<lambda>(g, forkID, d, pos, txs, pcts). 2 ^ 64 - unat pos)", goal_cases)
  case 1
  then show ?case by simp
next
  case (2 g forkID d pos txs pcts len r tx pr pct endPos)
  have "decodeTxAt g forkID d pos len = Inr (tx, pct, endPos)"
    using 2 by simp
  note e = decodeTxAt_end [OF this]
  with txEndPos_past(1) [OF txLengthAt_bound [OF 2(2)]] have "unat pos < unat endPos"
    by (simp add: word_less_nat_alt)
  with unat_uint64_less [of endPos] show ?case by simp
qed

declare decodeTxsLoop.simps [simp del]

definition DecodeTxs :: "geth \<Rightarrow> bytes \<Rightarrow> uint64 \<Rightarrow> tx_error + (LegacyTx list \<times> uint8 list)" where
  "DecodeTxs g txsData forkID =
     (if length txsData = 0 then Inr ([], []) else decodeTxsLoop g forkID txsData 0 [] [])"

section \<open>Slices and numbers\<close>

lemma SetBytes_snoc [simp]: "SetBytes (bs @ [b]) = SetBytes bs * 256 + unat b"
  by (simp add: SetBytes_def)

lemma SetBytes_Nil [simp]: "SetBytes [] = 0"
  by (simp add: SetBytes_def)

lemma unat_byte_less: "unat (b :: byte) < 256"
  by (rule order_less_le_trans [OF unsigned_less]) simp

lemma SetBytes_less: "SetBytes bs < 256 ^ length bs"
proof (induction bs rule: rev_induct)
  case (snoc b bs)
  have "SetBytes bs * 256 + unat b < (SetBytes bs + 1) * 256"
    using unat_byte_less [of b] by simp
  also have "\<dots> \<le> 256 ^ length bs * 256"
    using snoc by (intro mult_right_mono) auto
  finally show ?case by (simp add: mult.commute)
qed simp

lemma unat_of_nat64: "n < 2 ^ 64 \<Longrightarrow> unat (of_nat n :: uint64) = n"
  by (simp add: unat_of_nat_less)

lemma take_1_drop: "n < length d \<Longrightarrow> take 1 (drop n d) = [d ! n]"
  by (simp add: Cons_nth_drop_Suc [symmetric])

lemma of_nat_unat_id: "of_nat (unat w) = (w :: uint64)"
  by simp

lemma slice_of_nat:
  assumes "a \<le> b" "b \<le> length d" "length d < 2 ^ 63"
  shows "slice d (of_nat a) (of_nat b) = Inr (take (b - a) (drop a d))"
  using assms by (simp add: slice_def word_le_nat_alt unat_of_nat64)

lemma bytesToAddress_length [simp]: "length (bytesToAddress b) = 20"
  by (simp add: bytesToAddress_def Let_def)

section \<open>One transaction\<close>

definition txTail :: "uint64 \<Rightarrow> nat" where
  "txTail forkID = (if forkID \<ge> FORKID_DRAGONFRUIT then 67 else 66)"

lemma txEndPos_of_nat: "txEndPos forkID (of_nat p) (of_nat l) = of_nat (p + l + txTail forkID)"
  by (simp add: txEndPos_sum txTail_def)

lemma decodeTxAt_inside:
  assumes "p + l + txTail forkID \<le> length d" "length d < 2 ^ 63"
  shows "decodeTxAt g forkID d (of_nat p) (of_nat l) =
    (case rlpDecode g (take (l + 1) (drop p d)) of
       None \<Rightarrow> Inl ErrInvalidData
     | Some rlpFields \<Rightarrow>
         and_then (RlpFieldsToLegacyTx rlpFields (take 1 (drop (p + l + 65) d)) (take 32 (drop (p + l + 1) d))
                    (take 32 (drop (p + l + 33) d)))
           (\<lambda>tx. Inr (tx, (if forkID \<ge> FORKID_DRAGONFRUIT then [d ! (p + l + 66)] else []),
                  of_nat (p + l + txTail forkID))))"
proof -
  let ?n = "of_nat :: nat \<Rightarrow> uint64"
  have pos: "?n p + ?n l + headerByteLength = ?n (p + l + 1)" "?n (p + l + 1) + rLength = ?n (p + l + 33)"
    "?n (p + l + 33) + sLength = ?n (p + l + 65)" "?n (p + l + 65) + vLength = ?n (p + l + 66)"
    by (simp_all add: tx_consts)
  have tail: "66 \<le> txTail forkID" by (simp add: txTail_def)
  have cmp: "\<not> ?n (length d) < ?n (p + l + txTail forkID)" "\<not> ?n (p + l + txTail forkID) < ?n p"
    using assms by (simp_all add: word_less_nat_alt unat_of_nat64 del: of_nat_add of_nat_Suc)
  have s1: "slice d (?n p) (?n (p + l + txTail forkID)) = Inr (take (l + txTail forkID) (drop p d))"
    "slice d (?n p) (?n (p + l + 1)) = Inr (take (l + 1) (drop p d))"
    "slice d (?n (p + l + 1)) (?n (p + l + 33)) = Inr (take 32 (drop (p + l + 1) d))"
    "slice d (?n (p + l + 33)) (?n (p + l + 65)) = Inr (take 32 (drop (p + l + 33) d))"
    "slice d (?n (p + l + 65)) (?n (p + l + 66)) = Inr (take 1 (drop (p + l + 65) d))"
    using assms tail by (simp_all add: slice_of_nat del: of_nat_add of_nat_Suc)
  have s2: "slice d (?n (p + l + 66)) (?n (p + l + txTail forkID)) = Inr [d ! (p + l + 66)]"
    if "forkID \<ge> FORKID_DRAGONFRUIT"
    using assms that slice_of_nat [of "p + l + 66" "p + l + 67" d] take_1_drop [of "p + l + 66" d]
    by (simp add: txTail_def del: of_nat_add of_nat_Suc)
  show ?thesis
    unfolding decodeTxAt_def Let_def txEndPos_of_nat pos s1
    by (simp add: cmp s2 del: of_nat_add of_nat_Suc split: option.split)
qed

lemma decodeTxAt_outside:
  assumes "\<not> unat pos + unat l + txTail forkID \<le> length d" "unat l + 247 < 2 ^ 64" "length d < 2 ^ 63"
  shows "decodeTxAt g forkID d pos l = Inl ErrInvalidData"
proof (cases "txEndPos forkID pos l < pos")
  case True
  then show ?thesis by (simp add: decodeTxAt_def Let_def)
next
  case False
  from txEndPos_past(2) [OF assms(2) this] assms have "of_nat (length d) < txEndPos forkID pos l"
    by (simp add: word_less_nat_alt unat_of_nat64 txTail_def)
  then show ?thesis by (simp add: decodeTxAt_def Let_def)
qed

lemma txLengthAt_error:
  assumes "p < length d" "length d < 2 ^ 63" "txLengthAt d (of_nat p) = Inl (Some e)"
  shows "e = ErrInvalidData"
proof (rule ccontr)
  let ?n = "of_nat :: nat \<Rightarrow> uint64" and ?m = "unat (d ! p)"
  assume "e \<noteq> ErrInvalidData"
  with assms have big: "\<not> ?n ?m < 192" "55 < ?n ?m - 192" and fits: "\<not> ?n (length d) < ?n p + 1 + ?n ?m - 247"
    and panic: "slice d (?n p + 1) (?n p + 1 + ?n ?m - 247) = Inl e"
    by (auto simp: txLengthAt_def Let_def tx_consts unat_of_nat64 of_nat_unat split: if_splits sum.splits)
  from big have m: "247 < ?m"
    using unat_byte_less [of "d ! p"]
    by (simp add: word_less_nat_alt unat_of_nat64 unat_sub word_le_nat_alt del: of_nat_unat)
  then have eq: "?n p + 1 + ?n ?m - 247 = ?n (p + 1 + (?m - 247))" "?n p + 1 = ?n (p + 1)"
    by (simp_all add: of_nat_diff del: of_nat_unat)
  have "p + 1 + (?m - 247) \<le> length d"
    using fits [unfolded eq(1)] assms unat_byte_less [of "d ! p"]
    by (simp add: word_less_nat_alt unat_of_nat64 del: of_nat_add of_nat_unat of_nat_Suc)
  with panic [unfolded eq(1), unfolded eq(2)] slice_of_nat [of "p + 1" "p + 1 + (?m - 247)" d] assms show False
    by simp
qed

section \<open>What is decoded is well formed\<close>

definition tx_wf :: "LegacyTx \<Rightarrow> bool" where
  "tx_wf tx \<longleftrightarrow> txR tx < 2 ^ 256 \<and> txS tx < 2 ^ 256 \<and> 0 \<le> txV tx
     \<and> (case txTo tx of None \<Rightarrow> True | Some a \<Rightarrow> length a = 20)"

lemma SetBytes_32: "length bs \<le> 32 \<Longrightarrow> SetBytes bs < 2 ^ 256"
  using SetBytes_less [of bs] power_increasing [of "length bs" 32 "256 :: nat"] by simp

lemma RlpFieldsToLegacyTx_wf:
  assumes "RlpFieldsToLegacyTx flds v r s = Inr tx" "length r \<le> 32" "length s \<le> 32"
  shows "tx_wf tx"
  using assms SetBytes_32 [of r] SetBytes_32 [of s]
  by (auto simp: RlpFieldsToLegacyTx_def tx_wf_def tx_consts split: if_splits)

lemma RlpFieldsToLegacyTx_error: "RlpFieldsToLegacyTx flds v r s = Inl e \<Longrightarrow> e = ErrTxTypeNotSupported"
  by (simp add: RlpFieldsToLegacyTx_def split: if_splits)

lemma decodeTxAt_cases:
  assumes "unat l + 247 < 2 ^ 64" "length d < 2 ^ 63"
  obtains e where "decodeTxAt g forkID d pos l = Inl e" "e \<in> {ErrInvalidData, ErrTxTypeNotSupported}"
  | tx pct where "decodeTxAt g forkID d pos l = Inr (tx, pct, of_nat (unat pos + unat l + txTail forkID))"
      "unat pos + unat l + txTail forkID \<le> length d" "tx_wf tx"
      "length pct = (if forkID \<ge> FORKID_DRAGONFRUIT then 1 else 0)"
proof (cases "unat pos + unat l + txTail forkID \<le> length d")
  case False
  with decodeTxAt_outside [OF False assms, of g] that(1) show ?thesis by simp
next
  case True
  note eq = decodeTxAt_inside [OF True assms(2), of g, unfolded of_nat_unat_id]
  let ?r = "\<lambda>f. RlpFieldsToLegacyTx f (take 1 (drop (unat pos + unat l + 65) d))
    (take 32 (drop (unat pos + unat l + 1) d)) (take 32 (drop (unat pos + unat l + 33) d))"
  show ?thesis
  proof (cases "rlpDecode g (take (unat l + 1) (drop (unat pos) d))")
    case None
    with eq that(1) show ?thesis by simp
  next
    case (Some f)
    show ?thesis
    proof (cases "?r f")
      case (Inl e)
      with eq Some that(1) RlpFieldsToLegacyTx_error [OF Inl] show ?thesis by simp
    next
      case (Inr tx)
      from RlpFieldsToLegacyTx_wf [OF Inr] have "tx_wf tx" by simp
      with eq Some Inr True that(2) show ?thesis by simp
    qed
  qed
qed

definition decoded_ok :: "uint64 \<Rightarrow> tx_error + (LegacyTx list \<times> uint8 list) \<Rightarrow> bool" where
  "decoded_ok forkID r \<longleftrightarrow>
     (case r of
        Inl e \<Rightarrow> e \<in> {ErrInvalidData, ErrTxTypeNotSupported}
      | Inr (txs, pcts) \<Rightarrow>
          list_all tx_wf txs \<and> length pcts = (if forkID \<ge> FORKID_DRAGONFRUIT then length txs else 0))"

lemma decodeTxsLoop_ok:
  assumes "length d < 2 ^ 63" "decoded_ok forkID (Inr (txs, pcts))"
  shows "decoded_ok forkID (decodeTxsLoop g forkID d pos txs pcts)"
  using assms
proof (induction g forkID d pos txs pcts rule: decodeTxsLoop.induct)
  case (1 g forkID d pos txs pcts)
  show ?case
  proof (cases "pos < of_nat (length d)")
    case False
    with 1(3) show ?thesis by (simp add: decodeTxsLoop.simps)
  next
    case inside: True
    then have p: "unat pos < length d"
      using 1(2) by (simp add: word_less_nat_alt unat_of_nat64)
    show ?thesis
    proof (cases "txLengthAt d pos")
      case (Inl r)
      with inside txLengthAt_error [OF p 1(2), unfolded of_nat_unat_id] show ?thesis
        by (cases r) (simp_all add: decodeTxsLoop.simps decoded_ok_def)
    next
      case (Inr l)
      show ?thesis
      proof (rule decodeTxAt_cases [OF txLengthAt_bound [OF Inr] 1(2), of g forkID pos])
        fix e
        assume "decodeTxAt g forkID d pos l = Inl e" "e \<in> {ErrInvalidData, ErrTxTypeNotSupported}"
        with inside Inr show ?thesis by (simp add: decodeTxsLoop.simps decoded_ok_def)
      next
        fix tx pct
        assume d: "decodeTxAt g forkID d pos l = Inr (tx, pct, of_nat (unat pos + unat l + txTail forkID))"
          and "tx_wf tx" "length pct = (if forkID \<ge> FORKID_DRAGONFRUIT then 1 else 0)"
        with 1(3) have "decoded_ok forkID (Inr (txs @ [tx], pcts @ pct))"
          by (simp add: decoded_ok_def)
        from 1(1) [OF inside Inr d refl refl 1(2) this] show ?thesis
          by (subst decodeTxsLoop.simps) (simp add: inside Inr d)
      qed
    qed
  qed
qed

lemma DecodeTxs_ok: "length d < 2 ^ 63 \<Longrightarrow> decoded_ok forkID (DecodeTxs g d forkID)"
  using decodeTxsLoop_ok [of d forkID "[]" "[]" g 0] by (simp add: DecodeTxs_def decoded_ok_def)

section \<open>Encoding and decoding one transaction\<close>

definition hexVal :: "nat list \<Rightarrow> nat" where
  "hexVal ds = foldl (\<lambda>n d. n * 16 + d) 0 ds"

lemma foldl_digits: "foldl (\<lambda>n d. n * k + f d) a ds = a * k ^ length ds + foldl (\<lambda>n d. n * k + f d) (0 :: nat) ds"
proof (induction ds arbitrary: a)
  case (Cons d ds)
  show ?case
    using Cons [of "a * k + f d"] Cons [of "f d"] by (simp add: add_mult_distrib)
qed simp

lemma hexVal_simps [simp]: "hexVal [] = 0" "hexVal (d # ds) = d * 16 ^ length ds + hexVal ds"
  using foldl_digits [where k = 16 and f = id and a = d and ds = ds] by (simp_all add: hexVal_def)

lemma hexVal_append: "hexVal (ds @ es) = hexVal ds * 16 ^ length es + hexVal es"
  by (induction ds) (simp_all add: algebra_simps power_add)

lemma SetBytes_Cons: "SetBytes (b # bs) = unat b * 256 ^ length bs + SetBytes bs"
  using foldl_digits [where k = 256 and f = unat and a = "unat b" and ds = bs] by (simp add: SetBytes_def)

lemma hexDigits_val [simp]: "hexVal (hexDigits n) = n"
  by (induction n rule: hexDigits.induct) (subst hexDigits.simps, simp add: hexVal_append)

lemma hexDigits_small: "list_all (\<lambda>d. d < 16) (hexDigits n)"
  by (induction n rule: hexDigits.induct) (subst hexDigits.simps, simp)

lemma hexDigits_length: "n < 16 ^ k \<Longrightarrow> 0 < k \<Longrightarrow> length (hexDigits n) \<le> k"
proof (induction n arbitrary: k rule: hexDigits.induct)
  case (1 n)
  show ?case
  proof (cases "n < 16")
    case True
    with 1(3) show ?thesis by (subst hexDigits.simps) simp
  next
    case False
    with 1 obtain j where j: "k = Suc j" "0 < j"
      by (cases k; cases "k - 1") auto
    with 1(2) have "n div 16 < 16 ^ j" by (simp add: less_mult_imp_div_less mult.commute)
    from 1(1) [OF False this j(2)] False j show ?thesis by (subst hexDigits.simps) simp
  qed
qed

lemma padZero_hex:
  assumes "n < 16 ^ k" "0 < k"
  shows "length (padZero k (hexDigits n)) = k" "hexVal (padZero k (hexDigits n)) = n"
    "list_all (\<lambda>d. d < 16) (padZero k (hexDigits n))"
proof -
  have z: "hexVal (replicate m 0) = 0" for m
    by (induction m) simp_all
  show "length (padZero k (hexDigits n)) = k" "hexVal (padZero k (hexDigits n)) = n"
    "list_all (\<lambda>d. d < 16) (padZero k (hexDigits n))"
    using hexDigits_length [OF assms] hexDigits_small [of n]
    by (auto simp: padZero_def hexVal_append z list_all_iff)
qed

lemma DecodeString_digits:
  "even (length ds) \<Longrightarrow> list_all (\<lambda>d. d < 16) ds \<Longrightarrow>
     \<exists>bs. DecodeString ds = Some bs \<and> 2 * length bs = length ds \<and> SetBytes bs = hexVal ds"
proof (induction ds rule: DecodeString.induct)
  case (3 a b ds)
  then obtain bs where bs: "DecodeString ds = Some bs" "2 * length bs = length ds" "SetBytes bs = hexVal ds"
    by auto
  have "unat (of_nat (16 * a + b) :: byte) = 16 * a + b"
    using 3(3) by (intro unat_of_nat_less) simp
  moreover have "(16 :: nat) ^ length ds = 256 ^ length bs"
    by (simp add: bs(2) [symmetric] power_mult)
  ultimately show ?case
    using bs by (simp add: SetBytes_Cons algebra_simps)
qed simp_all

lemma DecodeString_append:
  "even (length ds) \<Longrightarrow> DecodeString (ds @ es) =
     (case DecodeString ds of None \<Rightarrow> None | Some bs \<Rightarrow> map_option (\<lambda>x. bs @ x) (DecodeString es))"
  by (induction ds rule: DecodeString.induct; cases "DecodeString es") (auto split: option.split)

lemma DecodeString_padZero:
  assumes "n < 16 ^ (2 * k)" "0 < k"
  obtains bs where "\<And>es. DecodeString (padZero (2 * k) (hexDigits n) @ es) = map_option (\<lambda>x. bs @ x) (DecodeString es)"
    "length bs = k" "SetBytes bs = n"
proof -
  note p = padZero_hex [of n "2 * k"]
  from DecodeString_digits [of "padZero (2 * k) (hexDigits n)"] p assms
  obtain bs where "DecodeString (padZero (2 * k) (hexDigits n)) = Some bs" "length bs = k" "SetBytes bs = n"
    by auto
  with that show ?thesis
    using p assms by (simp add: DecodeString_append)
qed

lemma DecodeString_EncodeToString: "DecodeString (EncodeToString bs @ es) = map_option (\<lambda>x. bs @ x) (DecodeString es)"
proof (induction bs)
  case (Cons b bs)
  have "(of_nat (16 * (unat b div 16) + unat b mod 16) :: byte) = b"
    by (simp only: mult_div_mod_eq of_nat_unat ucast_id)
  with Cons show ?case
    by (cases "DecodeString es") (simp_all add: EncodeToString_def)
qed (cases "DecodeString es"; simp add: EncodeToString_def)

definition newVOf :: "LegacyTx \<Rightarrow> nat" where
  "newVOf tx = (if even (txV tx) then 28 else 27)"

lemma sign_word: "1 - ((of_int v :: uint64) AND 1) = (if even v then 1 else 0)"
proof -
  have "even (of_int v :: uint64) \<longleftrightarrow> even v"
    using bit_word_of_int_iff [of v 0, where 'a = 64] by (simp add: bit_0)
  then show ?thesis by (simp add: and_one_eq mod2_eq_if)
qed

lemma prepareRPLTxData_shape:
  assumes "tx_wf tx"
  obtains rb sb vb where
    "prepareRPLTxData g tx = Inr (rlpEncode g (rlpFieldsToEncode g tx) @ rb @ sb @ [vb])"
    "length rb = 32" "SetBytes rb = txR tx" "length sb = 32" "SetBytes sb = txS tx" "SetBytes [vb] = newVOf tx"
proof -
  obtain rb where r: "\<And>es. DecodeString (padZero 64 (hexDigits (txR tx)) @ es) = map_option (\<lambda>x. rb @ x) (DecodeString es)"
    "length rb = 32" "SetBytes rb = txR tx"
    using DecodeString_padZero [of "txR tx" 32] assms by (auto simp: tx_wf_def)
  obtain sb where s: "\<And>es. DecodeString (padZero 64 (hexDigits (txS tx)) @ es) = map_option (\<lambda>x. sb @ x) (DecodeString es)"
    "length sb = 32" "SetBytes sb = txS tx"
    using DecodeString_padZero [of "txS tx" 32] assms by (auto simp: tx_wf_def)
  have small: "newVOf tx < 16 ^ (2 * 1)"
    by (simp add: newVOf_def)
  obtain vb where v: "\<And>es. DecodeString (padZero 2 (hexDigits (newVOf tx)) @ es) = map_option (\<lambda>x. vb @ x) (DecodeString es)"
    "length vb = 1" "SetBytes vb = newVOf tx"
    by (rule DecodeString_padZero [OF small]) simp_all
  from v(2) obtain b where b: "vb = [b]" by (cases vb) auto
  have newV: "ether155V + unat (1 - ((of_int (txV tx) :: uint64) AND 1)) = newVOf tx"
    by (simp add: sign_word newVOf_def tx_consts)
  have "DecodeString (padZero 2 (hexDigits (newVOf tx))) = Some [b]"
    using v(1) [of "[]"] b by simp
  then have "prepareRPLTxData g tx = Inr (rlpEncode g (rlpFieldsToEncode g tx) @ rb @ sb @ [b])"
    by (simp add: prepareRPLTxData_def Let_def newV signatureText_def DecodeString_EncodeToString r(1) s(1))
  with that r s v b show ?thesis by simp
qed

lemma SetBytes_be_bytes [simp]: "SetBytes (be_bytes n) = n"
proof (induction n rule: be_bytes.induct)
  case (1 n)
  have "unat (of_nat (n mod 256) :: byte) = n mod 256"
    by (rule unat_of_nat_less) simp
  with 1 show ?case by (subst be_bytes.simps) simp
qed

lemma be_bytes_length: "n < 256 ^ k \<Longrightarrow> length (be_bytes n) \<le> k"
proof (induction n arbitrary: k rule: be_bytes.induct)
  case (1 n)
  show ?case
  proof (cases "n = 0")
    case False
    with 1 obtain j where j: "k = Suc j" by (cases k) auto
    with 1(2) have "n div 256 < 256 ^ j" by (simp add: less_mult_imp_div_less mult.commute)
    from 1(1) [OF False this] False j show ?thesis by (subst be_bytes.simps) simp
  qed (simp add: be_bytes.simps)
qed

lemma be_bytes_pos: "0 < n \<Longrightarrow> 0 < length (be_bytes n)"
  by (subst be_bytes.simps) simp

text \<open>
  What the code relies on in the Ethereum library, for one transaction: the chain id of a protected
  signature and of an unprotected one, that the RLP text of the fields is decoded to them, and that it
  is the list header of the RLP specification followed by as many bytes as the header says.
\<close>

definition rlpHeader :: "nat \<Rightarrow> bytes" where
  "rlpHeader l = (if l \<le> 55 then [of_nat (192 + l)] else of_nat (247 + length (be_bytes l)) # be_bytes l)"

definition chainId_ok :: "geth \<Rightarrow> bool" where
  "chainId_ok g \<longleftrightarrow> chainIdOf g 27 = 0 \<and> chainIdOf g 28 = 0 \<and> (\<forall>v\<ge>35. chainIdOf g v = nat ((v - 35) div 2))"

definition rlp_ok :: "geth \<Rightarrow> bytes list \<Rightarrow> bool" where
  "rlp_ok g flds \<longleftrightarrow> rlpDecode g (rlpEncode g flds) = Some flds
     \<and> (\<exists>payload. rlpEncode g flds = rlpHeader (length payload) @ payload)"

text \<open>A transaction with a signature that the network accepts.\<close>

definition tx_signed :: "LegacyTx \<Rightarrow> bool" where
  "tx_signed tx \<longleftrightarrow> tx_wf tx \<and> (txV tx = 27 \<or> txV tx = 28 \<or> 35 \<le> txV tx \<and> txV tx < 2 ^ 64)"

lemma IsPreEIP155Tx_iff:
  assumes "tx_signed tx" "chainId_ok g"
  shows "IsPreEIP155Tx g tx \<longleftrightarrow> txV tx = 27 \<or> txV tx = 28"
proof -
  have "(of_int (txV tx) :: uint64) = of_int k \<longleftrightarrow> txV tx = k" if "0 \<le> k" "k < 2 ^ 64" for k
    using assms(1) that by (auto simp: tx_signed_def word_of_int_eq_iff take_bit_int_eq_self_iff take_bit_int_eq_self)
  from this [of 27] this [of 28] assms show ?thesis
    by (auto simp: IsPreEIP155Tx_def chainId_ok_def)
qed

lemma bytesToAddress_20 [simp]: "length a = 20 \<Longrightarrow> bytesToAddress a = a"
  by (simp add: bytesToAddress_def)

lemma RlpFieldsToLegacyTx_inverse:
  assumes "tx_signed tx" "chainId_ok g" "SetBytes v = newVOf tx" "SetBytes r = txR tx" "SetBytes s = txS tx"
  shows "RlpFieldsToLegacyTx (rlpFieldsToEncode g tx) v r s = Inr tx"
proof -
  have v: "txV tx = int (newVOf tx)" if "txV tx = 27 \<or> txV tx = 28"
    using that by (auto simp: newVOf_def)
  have w: "txV tx = int (newVOf tx) - 27 + (int (chainIdOf g (txV tx)) * 2 + 35)" if "35 \<le> txV tx"
  proof -
    have "int (chainIdOf g (txV tx)) = (txV tx - 35) div 2"
      using that assms(2) by (simp add: chainId_ok_def)
    moreover have "int (newVOf tx) - 27 = (if even (txV tx) then 1 else 0)"
      by (simp add: newVOf_def)
    ultimately show ?thesis by presburger
  qed
  have "(if length (rlpFieldsToEncode g tx) \<ge> 7
         then (int (SetBytes v) - int ether155V) + (int (SetBytes (rlpFieldsToEncode g tx ! 6)) * 2 + int etherPre155V)
         else int (SetBytes v)) = txV tx"
    using assms v w by (auto simp: rlpFieldsToEncode_def IsPreEIP155Tx_iff tx_consts tx_signed_def)
  moreover have "length (rlpFieldsToEncode g tx) \<ge> 6"
    "(if length (rlpFieldsToEncode g tx ! 3) \<noteq> 0 then Some (bytesToAddress (rlpFieldsToEncode g tx ! 3)) else None) = txTo tx"
    using assms(1) by (auto simp: rlpFieldsToEncode_def tx_signed_def tx_wf_def split: option.splits)
  ultimately show ?thesis
    using assms(3-5) by (simp add: RlpFieldsToLegacyTx_def) (simp add: rlpFieldsToEncode_def)
qed

section \<open>Log order\<close>

text \<open>The index of each log; equal indices need no further order, as only indices are compared.\<close>

definition CheckLogOrder :: "nat list \<Rightarrow> bool" where
  "CheckLogOrder logs =
     (let logsAux = sort logs
      in length logs = length logsAux \<and> list_all (\<lambda>i. logsAux ! i = logs ! i) [0..<length logs])"

lemma CheckLogOrder_sorted: "CheckLogOrder logs \<longleftrightarrow> sorted logs"
proof
  assume "CheckLogOrder logs"
  then have "sort logs = logs"
    by (intro nth_equalityI) (auto simp: CheckLogOrder_def Let_def list_all_iff)
  then show "sorted logs" by (metis sorted_sort)
qed (simp add: CheckLogOrder_def Let_def list_all_iff sorted_sort_id)

section \<open>A codec that meets the requirements\<close>

text \<open>
  The RLP of lists of byte strings, as its specification has it, with the chain id of the library: the
  parameter for the concrete runs below.
\<close>

definition rlpString :: "bytes \<Rightarrow> bytes" where
  "rlpString s =
     (if length s = 1 \<and> unat (s ! 0) < 128 then s
      else if length s \<le> 55 then of_nat (128 + length s) # s
      else (let l = be_bytes (length s) in of_nat (183 + length l) # l @ s))"

fun rlpItems :: "nat \<Rightarrow> bytes \<Rightarrow> bytes list option" where
  "rlpItems fuel [] = Some []"
| "rlpItems 0 (b # bs) = None"
| "rlpItems (Suc fuel) (b # bs) =
     (let k = unat b
      in if k < 128 then map_option ((#) [b]) (rlpItems fuel bs)
         else if k < 184 then
           (if length bs < k - 128 then None
            else map_option ((#) (take (k - 128) bs)) (rlpItems fuel (drop (k - 128) bs)))
         else if k < 192 then
           (let n = SetBytes (take (k - 183) bs); rest = drop (k - 183) bs
            in if length rest < n then None else map_option ((#) (take n rest)) (rlpItems fuel (drop n rest)))
         else None)"

definition plainGeth :: geth where
  "plainGeth =
     \<lparr>rlpEncode = (\<lambda>flds. let payload = concat (map rlpString flds) in rlpHeader (length payload) @ payload),
      rlpDecode = (\<lambda>bs. case bs of
          [] \<Rightarrow> None
        | b # rest \<Rightarrow>
            if unat b < 192 then None
            else (let payload = (if unat b \<le> 247 then rest else drop (unat b - 247) rest)
                  in rlpItems (length payload) payload)),
      chainIdOf = (\<lambda>v. if v = 27 \<or> v = 28 then 0 else nat ((v - 35) div 2))\<rparr>"

definition sampleTx :: LegacyTx where
  "sampleTx = \<lparr>txNonce = 3, txGasPrice = 1000, txGas = 21000, txTo = Some (replicate 20 7), txValue = 5, txData = [1, 2, 200],
     txV = 2037, txR = 303, txS = 9\<rparr>"

lemma plainGeth_chainId [simp]: "chainId_ok plainGeth"
  by (simp add: chainId_ok_def plainGeth_def)

text \<open>The bytes of the transaction above with its effective percentage.\<close>

definition sampleTxData :: bytes where
  "sampleTxData = [230, 3, 130, 3, 232, 130, 82, 8, 148] @ replicate 20 7 @ [5, 131, 1, 2, 200, 130, 3, 233, 128, 128]
     @ replicate 30 0 @ [1, 47] @ replicate 31 0 @ [9] @ [27, 255]"

lemma sampleTx_rlp: "rlp_ok plainGeth (rlpFieldsToEncode plainGeth sampleTx)"
  unfolding rlp_ok_def
proof
  show "rlpDecode plainGeth (rlpEncode plainGeth (rlpFieldsToEncode plainGeth sampleTx)) = Some (rlpFieldsToEncode plainGeth sampleTx)"
    by code_simp
  show "\<exists>payload. rlpEncode plainGeth (rlpFieldsToEncode plainGeth sampleTx) = rlpHeader (length payload) @ payload"
    by (auto simp: plainGeth_def Let_def)
qed

lemma sampleTx_signed: "tx_signed sampleTx"
  by (simp add: tx_signed_def tx_wf_def sampleTx_def)

lemma sampleTxData_length: "length sampleTxData = 105"
  by (simp add: sampleTxData_def)

lemma sampleTxData_decoded: "DecodeTxs plainGeth sampleTxData 7 = Inr ([sampleTx], [255])"
  by code_simp

section \<open>Decoding never panics\<close>

text \<open>
  C37: for every byte string that fits in memory, every fork and every RLP library, \<open>DecodeTxs\<close> returns
  and never slices out of range, although its positions are unsigned 64 bit numbers computed from
  length bytes the sender chose.  It reports invalid data or a transaction with too few fields, or it
  returns well formed transactions (32 byte signature values, a recipient of 20 bytes or none, a
  recovery value that is not negative) with exactly one percentage for each of them from the
  Dragonfruit fork on and none before.
\<close>

theorem DecodeTxs_well_typed:
  assumes "length txsData < 2 ^ 63"
  shows "case DecodeTxs g txsData forkID of
           Inl e \<Rightarrow> e \<in> {ErrInvalidData, ErrTxTypeNotSupported}
         | Inr (txs, pcts) \<Rightarrow>
             list_all tx_wf txs \<and> length pcts = (if forkID \<ge> FORKID_DRAGONFRUIT then length txs else 0)"
  using DecodeTxs_ok [OF assms] by (simp add: decoded_ok_def)

theorem DecodeTxs_well_typed_witness:
  "DecodeTxs plainGeth sampleTxData 7 = Inr ([sampleTx], [255]) \<and> tx_wf sampleTx"
  using DecodeTxs_well_typed [of sampleTxData 7 plainGeth] by (simp add: sampleTxData_decoded sampleTxData_length)

end
