(* ===== verification/BatchV2.thy ===== *)
theory BatchV2
  imports TxEncoding
begin

text \<open>
  The batch format of the Etrog fork (\<open>state/encoding_batch_v2.go\<close>): L2 block headers and their
  transactions as one byte string, its decoding, and the decoding of forced batches.
\<close>

section \<open>Data\<close>

record L2TxRaw =
  rawTx :: LegacyTx
  EfficiencyPercentage :: uint8

record L2BlockRaw =
  DeltaTimestamp :: uint32
  IndexL1InfoTree :: uint32
  Transactions :: "L2TxRaw list"

record BatchRawV2 =
  Blocks :: "L2BlockRaw list"

record ForcedBatchRawV2 =
  forcedTransactions :: "L2TxRaw list"

definition changeL2Block :: uint8 where
  "changeL2Block = 11"

section \<open>Encoding\<close>

definition serializeUint32 :: "uint32 \<Rightarrow> bytes" where
  "serializeUint32 value =
     [ucast (drop_bit 24 value), ucast (drop_bit 16 value), ucast (drop_bit 8 value), ucast value]"

definition EncodeBlockHeaderV2 :: "bytes \<Rightarrow> L2BlockRaw \<Rightarrow> bytes" where
  "EncodeBlockHeaderV2 batchData block =
     batchData @ [changeL2Block] @ serializeUint32 (DeltaTimestamp block) @ serializeUint32 (IndexL1InfoTree block)"

definition encodeTxRLP :: "geth \<Rightarrow> bytes \<Rightarrow> L2TxRaw \<Rightarrow> tx_error + bytes" where
  "encodeTxRLP g batchData tx =
     (case prepareRPLTxData g (rawTx tx) of
        Inl e \<Rightarrow> Inl e
      | Inr rlpTx \<Rightarrow> Inr (batchData @ rlpTx @ [EfficiencyPercentage tx]))"

fun encodeTxsV2 :: "geth \<Rightarrow> bytes \<Rightarrow> L2TxRaw list \<Rightarrow> tx_error + bytes" where
  "encodeTxsV2 g batchData [] = Inr batchData"
| "encodeTxsV2 g batchData (tx # txs) = and_then (encodeTxRLP g batchData tx) (\<lambda>batchData. encodeTxsV2 g batchData txs)"

fun encodeBlocksV2 :: "geth \<Rightarrow> bytes \<Rightarrow> L2BlockRaw list \<Rightarrow> tx_error + bytes" where
  "encodeBlocksV2 g batchData [] = Inr batchData"
| "encodeBlocksV2 g batchData (block # blocks) =
     and_then (encodeTxsV2 g (EncodeBlockHeaderV2 batchData block) (Transactions block))
       (\<lambda>batchData. encodeBlocksV2 g batchData blocks)"

definition EncodeBatchV2 :: "geth \<Rightarrow> BatchRawV2 option \<Rightarrow> tx_error + bytes" where
  "EncodeBatchV2 g batch =
     (case batch of
        None \<Rightarrow> Inl ErrInvalidBatchV2
      | Some b \<Rightarrow> if length (Blocks b) = 0 then Inl ErrInvalidBatchV2 else encodeBlocksV2 g [] (Blocks b))"

section \<open>Decoding\<close>

definition deserializeUint32 :: "bytes \<Rightarrow> nat \<Rightarrow> tx_error + (nat \<times> uint32)" where
  "deserializeUint32 txsData pos =
     (if int (length txsData) - int pos < 4 then Inl ErrInvalidBatchV2
      else Inr (pos + 4,
        push_bit 24 (ucast (txsData ! pos)) OR push_bit 16 (ucast (txsData ! (pos + 1)))
        OR push_bit 8 (ucast (txsData ! (pos + 2))) OR ucast (txsData ! (pos + 3))))"

definition decodeBlockHeader :: "bytes \<Rightarrow> nat \<Rightarrow> tx_error + (nat \<times> L2BlockRaw)" where
  "decodeBlockHeader txsData pos =
     and_then (deserializeUint32 txsData pos) (\<lambda>(pos, deltaTimestamp).
     and_then (deserializeUint32 txsData pos) (\<lambda>(pos, indexL1InfoTree).
       Inr (pos, \<lparr>DeltaTimestamp = deltaTimestamp, IndexL1InfoTree = indexL1InfoTree, Transactions = []\<rparr>)))"

text \<open>The callers give an offset inside the data.\<close>

definition decodeRLPListLengthFromOffset :: "bytes \<Rightarrow> nat \<Rightarrow> tx_error + uint64" where
  "decodeRLPListLengthFromOffset txsData offset =
     (let txDataLength = of_nat (length txsData) :: uint64; num = ucast (txsData ! offset) :: uint64; length1 = num - c0
      in if num < c0 then Inl ErrInvalidRLP
         else if length1 > shortRlp then
           (let pos64 = of_nat offset :: uint64; lengthInByteOfSize = num - f7
            in if pos64 + headerByteLength + lengthInByteOfSize > txDataLength then Inl ErrInvalidRLP
               else
                 and_then (slice txsData (pos64 + 1) (pos64 + 1 + lengthInByteOfSize)) (\<lambda>bs.
                   Inr (of_nat (SetBytes bs) + num - f7 + headerByteLength)))
         else Inr (length1 + headerByteLength))"

definition index64 :: "bytes \<Rightarrow> uint64 \<Rightarrow> tx_error + byte" where
  "index64 xs i = (if unat i < length xs then Inr (xs ! unat i) else Inl SlicePanic)"

definition decodeTxRLP :: "geth \<Rightarrow> bytes \<Rightarrow> nat \<Rightarrow> tx_error + (nat \<times> L2TxRaw)" where
  "decodeTxRLP g txsData offset =
     and_then (decodeRLPListLengthFromOffset txsData offset) (\<lambda>len.
       let off = of_nat offset :: uint64;
           endPos = off + len + rLength + sLength + vLength + EfficiencyPercentageByteLength;
           dataStart = off + len
       in if endPos > of_nat (length txsData) then Inl ErrInvalidBatchV2
          else
            and_then (slice txsData off endPos) (\<lambda>fullDataTx.
            and_then (slice txsData off dataStart) (\<lambda>txInfo.
            and_then (slice txsData dataStart (dataStart + rLength)) (\<lambda>rData.
            and_then (slice txsData (dataStart + rLength) (dataStart + rLength + sLength)) (\<lambda>sData.
            and_then (slice txsData (dataStart + rLength + sLength) (dataStart + rLength + sLength + vLength)) (\<lambda>vData.
            and_then (index64 txsData (dataStart + rLength + sLength + vLength)) (\<lambda>efficiencyPercentage.
              case rlpDecode g txInfo of
                None \<Rightarrow> Inl ErrRlpLibrary
              | Some rlpFields \<Rightarrow>
                  and_then (RlpFieldsToLegacyTx rlpFields vData rData sData) (\<lambda>tx.
                    Inr (unat endPos, \<lparr>rawTx = tx, EfficiencyPercentage = efficiencyPercentage\<rparr>)))))))))"

definition flushBlock :: "L2BlockRaw list \<Rightarrow> L2BlockRaw option \<Rightarrow> L2BlockRaw list" where
  "flushBlock blocks currentBlock = (case currentBlock of None \<Rightarrow> blocks | Some b \<Rightarrow> blocks @ [b])"

partial_function (option) decodeBatchLoop ::
  "geth \<Rightarrow> bytes \<Rightarrow> nat \<Rightarrow> L2BlockRaw option \<Rightarrow> L2BlockRaw list \<Rightarrow> (tx_error + BatchRawV2) option" where
  "decodeBatchLoop g txsData pos currentBlock blocks =
     (if pos < length txsData then
        (if txsData ! pos = changeL2Block then
           (case decodeBlockHeader txsData (pos + 1) of
              Inl e \<Rightarrow> Some (Inl e)
            | Inr (pos, block) \<Rightarrow> decodeBatchLoop g txsData pos (Some block) (flushBlock blocks currentBlock))
         else
           (case currentBlock of
              None \<Rightarrow>
                (case decodeTxRLP g txsData pos of
                   Inr _ \<Rightarrow> Some (Inl ErrBatchV2DontStartWithChangeL2Block)
                 | Inl e \<Rightarrow> Some (Inl (if e = SlicePanic then SlicePanic else ErrInvalidBatchV2)))
            | Some block \<Rightarrow>
                (case decodeTxRLP g txsData pos of
                   Inl e \<Rightarrow> Some (Inl e)
                 | Inr (pos, tx) \<Rightarrow>
                     decodeBatchLoop g txsData pos (Some (block\<lparr>Transactions := Transactions block @ [tx]\<rparr>)) blocks)))
      else Some (Inr \<lparr>Blocks = flushBlock blocks currentBlock\<rparr>))"

declare decodeBatchLoop.simps [code]

definition DecodeBatchV2 :: "geth \<Rightarrow> bytes \<Rightarrow> (tx_error + BatchRawV2) option" where
  "DecodeBatchV2 g txsData = decodeBatchLoop g txsData 0 None []"

definition DecodeForcedBatchV2 :: "geth \<Rightarrow> bytes \<Rightarrow> tx_error + ForcedBatchRawV2" where
  "DecodeForcedBatchV2 g txsData =
     and_then (DecodeTxs g txsData FORKID_ETROG) (\<lambda>(txs, efficiencyPercentages).
       if length efficiencyPercentages \<noteq> length txs then Inl ErrInvalidRLP
       else Inr \<lparr>forcedTransactions = map (\<lambda>(tx, p). \<lparr>rawTx = tx, EfficiencyPercentage = p\<rparr>) (zip txs efficiencyPercentages)\<rparr>)"

section \<open>Decoding one transaction\<close>

lemma decodeTxRLP_inside:
  assumes "decodeRLPListLengthFromOffset d p = Inr (of_nat l)" "p + l + 66 \<le> length d" "length d < 2 ^ 63"
  shows "decodeTxRLP g d p =
    (case rlpDecode g (take l (drop p d)) of
       None \<Rightarrow> Inl ErrRlpLibrary
     | Some rlpFields \<Rightarrow>
         and_then (RlpFieldsToLegacyTx rlpFields (take 1 (drop (p + l + 64) d)) (take 32 (drop (p + l) d))
                    (take 32 (drop (p + l + 32) d)))
           (\<lambda>tx. Inr (p + l + 66, \<lparr>rawTx = tx, EfficiencyPercentage = d ! (p + l + 65)\<rparr>)))"
proof -
  let ?n = "of_nat :: nat \<Rightarrow> uint64"
  have pos: "?n p + ?n l = ?n (p + l)" "?n (p + l) + rLength = ?n (p + l + 32)"
    "?n (p + l + 32) + sLength = ?n (p + l + 64)" "?n (p + l + 64) + vLength = ?n (p + l + 65)"
    "?n (p + l + 65) + EfficiencyPercentageByteLength = ?n (p + l + 66)"
    by (simp_all add: tx_consts)
  have cmp: "\<not> ?n (length d) < ?n (p + l + 66)"
    using assms by (simp add: word_less_nat_alt unat_of_nat64 del: of_nat_add of_nat_Suc)
  have fin: "unat (?n (p + l + 66)) = p + l + 66"
    using assms by (simp add: unat_of_nat64 del: of_nat_add of_nat_Suc)
  have s: "slice d (?n p) (?n (p + l + 66)) = Inr (take (l + 66) (drop p d))"
    "slice d (?n p) (?n (p + l)) = Inr (take l (drop p d))"
    "slice d (?n (p + l)) (?n (p + l + 32)) = Inr (take 32 (drop (p + l) d))"
    "slice d (?n (p + l + 32)) (?n (p + l + 64)) = Inr (take 32 (drop (p + l + 32) d))"
    "slice d (?n (p + l + 64)) (?n (p + l + 65)) = Inr (take 1 (drop (p + l + 64) d))"
    "index64 d (?n (p + l + 65)) = Inr (d ! (p + l + 65))"
    using assms by (simp_all add: slice_of_nat index64_def unat_of_nat64 del: of_nat_add of_nat_Suc)
  show ?thesis
    unfolding decodeTxRLP_def Let_def assms(1) and_then.simps pos s
    by (simp add: cmp fin del: of_nat_add of_nat_Suc split: option.split)
qed

lemma rlpHeader_first: "l < 2 ^ 63 \<Longrightarrow> 192 \<le> unat (rlpHeader l ! 0)"
proof -
  assume l: "l < 2 ^ 63"
  have "length (be_bytes l) \<le> 8" using l by (intro be_bytes_length) simp
  then have "unat (of_nat (247 + length (be_bytes l)) :: byte) = 247 + length (be_bytes l)"
    by (intro unat_of_nat_less) simp
  moreover have "unat (of_nat (192 + l) :: byte) = 192 + l" if "l \<le> 55"
    using that by (intro unat_of_nat_less) simp
  ultimately show ?thesis by (simp add: rlpHeader_def del: of_nat_add)
qed

lemma decodeRLPListLength_header:
  assumes "d = pre @ rlpHeader (length payload) @ payload @ post" "length d < 2 ^ 63"
  shows "decodeRLPListLengthFromOffset d (length pre) = Inr (of_nat (length (rlpHeader (length payload)) + length payload))"
proof (cases "length payload \<le> 55")
  case True
  then have "ucast (of_nat (192 + length payload) :: byte) = (of_nat (192 + length payload) :: uint64)"
    by (subst of_nat_unat [symmetric]) (simp add: unat_of_nat_less del: of_nat_add of_nat_unat)
  moreover have "d ! length pre = of_nat (192 + length payload)"
    using True by (simp add: assms(1) rlpHeader_def)
  ultimately have num: "ucast (d ! length pre) = (of_nat (192 + length payload) :: uint64)" by simp
  have "\<not> (of_nat (192 + length payload) :: uint64) < c0"
    using True by (simp add: tx_consts word_less_nat_alt unat_of_nat64 del: of_nat_add)
  moreover have "(of_nat (192 + length payload) :: uint64) - c0 = of_nat (length payload)"
    by (simp add: tx_consts)
  moreover have "\<not> (of_nat (length payload) :: uint64) > shortRlp"
    using True by (simp add: tx_consts word_less_nat_alt unat_of_nat64)
  ultimately show ?thesis
    unfolding decodeRLPListLengthFromOffset_def Let_def num
    using True by (simp add: rlpHeader_def headerByteLength_def)
next
  case False
  let ?k = "length (be_bytes (length payload))" and ?n = "of_nat :: nat \<Rightarrow> uint64"
  have "0 < length payload" using False by linarith
  note k = be_bytes_pos [OF this]
  have k8: "?k \<le> 8"
    using assms by (intro be_bytes_length) simp
  then have "ucast (of_nat (247 + ?k) :: byte) = ?n (247 + ?k)"
    by (subst of_nat_unat [symmetric]) (simp add: unat_of_nat_less del: of_nat_add of_nat_unat)
  moreover have "d ! length pre = of_nat (247 + ?k)"
    using False by (simp add: assms(1) rlpHeader_def)
  ultimately have num: "ucast (d ! length pre) = ?n (247 + ?k)" by simp
  have s: "slice d (?n (length pre + 1)) (?n (length pre + 1 + ?k)) = Inr (be_bytes (length payload))"
    using assms False slice_of_nat [of "length pre + 1" "length pre + 1 + ?k" d] by (simp add: rlpHeader_def)
  have g: "\<not> ?n (247 + ?k) < c0" "?n (247 + ?k) - c0 > shortRlp"
    "\<not> ?n (length d) < ?n (length pre + 1 + ?k)"
    using k k8 assms False
    by (simp_all add: tx_consts word_less_nat_alt unat_of_nat64 unat_sub word_le_nat_alt rlpHeader_def del: of_nat_add of_nat_Suc)
  have e: "?n (length pre) + headerByteLength + (?n (247 + ?k) - f7) = ?n (length pre + 1 + ?k)"
    "?n (length pre) + 1 + (?n (247 + ?k) - f7) = ?n (length pre + 1 + ?k)" "?n (length pre) + 1 = ?n (length pre + 1)"
    by (simp_all add: tx_consts)
  show ?thesis
    unfolding decodeRLPListLengthFromOffset_def Let_def num e(1,2) unfolding e(3) s
    using g False by (simp add: rlpHeader_def tx_consts)
qed

definition rawTx_ok :: "geth \<Rightarrow> L2TxRaw \<Rightarrow> bool" where
  "rawTx_ok g tx \<longleftrightarrow> tx_signed (rawTx tx) \<and> rlp_ok g (rlpFieldsToEncode g (rawTx tx))"

lemma encodeTxRLP_decode:
  assumes "rawTx_ok g tx" "chainId_ok g"
  obtains b where "\<And>pre. encodeTxRLP g pre tx = Inr (pre @ b)"
    "\<And>pre post. length (pre @ b @ post) < 2 ^ 63 \<Longrightarrow>
       decodeTxRLP g (pre @ b @ post) (length pre) = Inr (length (pre @ b), tx) \<and> (pre @ b @ post) ! length pre \<noteq> changeL2Block"
    "b \<noteq> []"
proof -
  let ?e = "rlpEncode g (rlpFieldsToEncode g (rawTx tx))"
  from assms(1) have "tx_wf (rawTx tx)" by (simp add: rawTx_ok_def tx_signed_def)
  then obtain rb sb vb where prep: "prepareRPLTxData g (rawTx tx) = Inr (?e @ rb @ sb @ [vb])"
    and r: "length rb = 32" "SetBytes rb = txR (rawTx tx)" and s: "length sb = 32" "SetBytes sb = txS (rawTx tx)"
    and v: "SetBytes [vb] = newVOf (rawTx tx)"
    by (rule prepareRPLTxData_shape)
  obtain payload where e: "?e = rlpHeader (length payload) @ payload"
    using assms(1) by (auto simp: rawTx_ok_def rlp_ok_def)
  have hd: "rlpHeader (length payload) \<noteq> []" by (simp add: rlpHeader_def)
  define b where "b = ?e @ rb @ sb @ [vb, EfficiencyPercentage tx]"
  have dec: "decodeTxRLP g (pre @ b @ post) (length pre) = Inr (length (pre @ b), tx)"
    if len: "length (pre @ b @ post) < 2 ^ 63" for pre post
  proof -
    let ?d = "pre @ b @ post"
    have "decodeRLPListLengthFromOffset ?d (length pre) = Inr (of_nat (length ?e))"
      using decodeRLPListLength_header [of ?d pre payload "rb @ sb @ [vb, EfficiencyPercentage tx] @ post"] len
      by (simp add: b_def e)
    from decodeTxRLP_inside [OF this _ len, of g] RlpFieldsToLegacyTx_inverse [OF _ assms(2) v r(2) s(2)] assms(1) r(1) s(1)
    show ?thesis
      by (simp add: b_def nth_append rawTx_ok_def rlp_ok_def)
  qed
  have first: "(pre @ b @ post) ! length pre \<noteq> changeL2Block" if len: "length (pre @ b @ post) < 2 ^ 63" for pre post
  proof -
    have "(pre @ b @ post) ! length pre = rlpHeader (length payload) ! 0"
      using hd by (simp add: b_def e nth_append)
    moreover have "length payload < 2 ^ 63" using len by (simp add: b_def e)
    ultimately show ?thesis
      using rlpHeader_first [of "length payload"] by (auto simp: changeL2Block_def)
  qed
  show ?thesis
    by (rule that [of b]) (simp_all add: encodeTxRLP_def prep dec first, simp_all add: b_def)
qed

section \<open>Decoding a batch\<close>

lemma encodeTxsV2_extends: "encodeTxsV2 g pre txs = Inr d \<Longrightarrow> \<exists>post. d = pre @ post"
proof (induction txs arbitrary: pre)
  case (Cons tx txs)
  then obtain d1 where d1: "encodeTxRLP g pre tx = Inr d1" "encodeTxsV2 g d1 txs = Inr d" by auto
  from d1(1) have "\<exists>b. d1 = pre @ b" by (auto simp: encodeTxRLP_def split: sum.splits)
  with Cons.IH [OF d1(2)] show ?case by auto
qed simp

lemma encodeBlocksV2_extends: "encodeBlocksV2 g pre blocks = Inr d \<Longrightarrow> \<exists>post. d = pre @ post"
proof (induction blocks arbitrary: pre)
  case (Cons block blocks)
  then obtain d1 where d1: "encodeTxsV2 g (EncodeBlockHeaderV2 pre block) (Transactions block) = Inr d1"
    "encodeBlocksV2 g d1 blocks = Inr d" by auto
  from encodeTxsV2_extends [OF d1(1)] Cons.IH [OF d1(2)] show ?case
    by (auto simp: EncodeBlockHeaderV2_def)
qed simp

lemma decodeBatchLoop_txs:
  assumes "list_all (rawTx_ok g) txs" "chainId_ok g" "encodeTxsV2 g pre txs = Inr d" "length (d @ post) < 2 ^ 63"
  shows "decodeBatchLoop g (d @ post) (length pre) (Some block) blocks =
    decodeBatchLoop g (d @ post) (length d) (Some (block\<lparr>Transactions := Transactions block @ txs\<rparr>)) blocks"
  using assms(1,3)
proof (induction txs arbitrary: pre block)
  case (Cons tx txs)
  have ok: "rawTx_ok g tx" using Cons.prems(1) by simp
  obtain b where b: "\<And>pre. encodeTxRLP g pre tx = Inr (pre @ b)"
    "\<And>pre post. length (pre @ b @ post) < 2 ^ 63 \<Longrightarrow>
       decodeTxRLP g (pre @ b @ post) (length pre) = Inr (length (pre @ b), tx) \<and> (pre @ b @ post) ! length pre \<noteq> changeL2Block"
    "b \<noteq> []"
    by (rule encodeTxRLP_decode [OF ok assms(2)]) blast
  from Cons.prems(2) b(1) have enc: "encodeTxsV2 g (pre @ b) txs = Inr d" by simp
  from encodeTxsV2_extends [OF this] obtain rest where d: "d = pre @ b @ rest" by auto
  have "decodeTxRLP g (d @ post) (length pre) = Inr (length (pre @ b), tx)" "(d @ post) ! length pre \<noteq> changeL2Block"
    using b(2) [of pre "rest @ post"] assms(4) by (simp_all add: d)
  then have "decodeBatchLoop g (d @ post) (length pre) (Some block) blocks =
      decodeBatchLoop g (d @ post) (length (pre @ b)) (Some (block\<lparr>Transactions := Transactions block @ [tx]\<rparr>)) blocks"
    using b(3) by (subst decodeBatchLoop.simps) (simp add: d)
  also have "\<dots> = decodeBatchLoop g (d @ post) (length d)
      (Some (block\<lparr>Transactions := Transactions block @ tx # txs\<rparr>)) blocks"
    using Cons.IH [OF _ enc, of "block\<lparr>Transactions := Transactions block @ [tx]\<rparr>"] Cons.prems(1) by simp
  finally show ?case .
qed simp

lemma serialize_deserialize: "deserializeUint32 (pre @ serializeUint32 v @ post) (length pre) = Inr (length pre + 4, v)"
proof -
  have "(push_bit 24 (ucast (ucast (drop_bit 24 v) :: byte)) OR push_bit 16 (ucast (ucast (drop_bit 16 v) :: byte))
    OR push_bit 8 (ucast (ucast (drop_bit 8 v) :: byte)) OR ucast (ucast v :: byte) :: uint32) = v"
  proof (rule bit_word_eqI, goal_cases)
    case (1 n)
    then consider "n < 8" | "8 \<le> n" "n < 16" | "16 \<le> n" "n < 24" | "24 \<le> n" "n < 32" by fastforce
    then show ?case by cases (auto simp: bit_simps)
  qed
  then show ?thesis
    by (simp add: deserializeUint32_def serializeUint32_def nth_append)
qed

lemma serializeUint32_length [simp]: "length (serializeUint32 v) = 4"
  by (simp add: serializeUint32_def)

lemma decodeBlockHeader_encode:
  "decodeBlockHeader (EncodeBlockHeaderV2 pre block @ post) (length pre + 1) =
     Inr (length (EncodeBlockHeaderV2 pre block), block\<lparr>Transactions := []\<rparr>)"
  using serialize_deserialize [of "pre @ [changeL2Block]" "DeltaTimestamp block" "serializeUint32 (IndexL1InfoTree block) @ post"]
    serialize_deserialize [of "pre @ [changeL2Block] @ serializeUint32 (DeltaTimestamp block)" "IndexL1InfoTree block" post]
  by (cases block) (simp add: decodeBlockHeader_def EncodeBlockHeaderV2_def add.commute)

lemma decodeBatchLoop_blocks:
  assumes "list_all (\<lambda>b. list_all (rawTx_ok g) (Transactions b)) bs" "chainId_ok g" "encodeBlocksV2 g pre bs = Inr d" "length d < 2 ^ 63"
  shows "decodeBatchLoop g d (length pre) currentBlock blocks = Some (Inr \<lparr>Blocks = flushBlock blocks currentBlock @ bs\<rparr>)"
  using assms(1,3)
proof (induction bs arbitrary: pre currentBlock blocks)
  case Nil
  then show ?case by (subst decodeBatchLoop.simps) simp
next
  case (Cons block bs)
  let ?h = "EncodeBlockHeaderV2 pre block"
  from Cons.prems obtain d1 where d1: "encodeTxsV2 g ?h (Transactions block) = Inr d1" "encodeBlocksV2 g d1 bs = Inr d"
    by auto
  from encodeTxsV2_extends [OF d1(1)] encodeBlocksV2_extends [OF d1(2)]
  obtain r1 r2 where r: "d1 = ?h @ r1" "d = d1 @ r2" by auto
  have "d ! length pre = changeL2Block" "length pre < length d"
    by (simp_all add: r EncodeBlockHeaderV2_def nth_append)
  then have "decodeBatchLoop g d (length pre) currentBlock blocks =
      decodeBatchLoop g d (length ?h) (Some (block\<lparr>Transactions := []\<rparr>)) (flushBlock blocks currentBlock)"
    using decodeBlockHeader_encode [of pre block "r1 @ r2"] by (subst decodeBatchLoop.simps) (simp add: r)
  also have "\<dots> = decodeBatchLoop g d (length d1) (Some block) (flushBlock blocks currentBlock)"
    using decodeBatchLoop_txs [OF _ assms(2) d1(1), of r2 "block\<lparr>Transactions := []\<rparr>"] Cons.prems assms(4) by (simp add: r)
  also have "\<dots> = Some (Inr \<lparr>Blocks = flushBlock (flushBlock blocks currentBlock) (Some block) @ bs\<rparr>)"
    using Cons.IH [OF _ d1(2)] Cons.prems by simp
  finally show ?case by (simp add: flushBlock_def)
qed

lemma encodeTxsV2_total:
  assumes "list_all (rawTx_ok g) txs" "chainId_ok g"
  shows "\<exists>d. encodeTxsV2 g pre txs = Inr d"
  using assms(1)
proof (induction txs arbitrary: pre)
  case (Cons tx txs)
  have ok: "rawTx_ok g tx" using Cons.prems by simp
  obtain b where "\<And>pre. encodeTxRLP g pre tx = Inr (pre @ b)"
    by (rule encodeTxRLP_decode [OF ok assms(2)]) blast
  with Cons show ?case by simp
qed simp

lemma encodeBlocksV2_total:
  assumes "list_all (\<lambda>b. list_all (rawTx_ok g) (Transactions b)) bs" "chainId_ok g"
  shows "\<exists>d. encodeBlocksV2 g pre bs = Inr d"
  using assms(1)
proof (induction bs arbitrary: pre)
  case (Cons b bs)
  with encodeTxsV2_total [OF _ assms(2), of "Transactions b" "EncodeBlockHeaderV2 pre b"]
  obtain d where "encodeTxsV2 g (EncodeBlockHeaderV2 pre b) (Transactions b) = Inr d" by auto
  with Cons show ?case by simp
qed simp

section \<open>The decoder returns\<close>

lemma slice_Inr: "slice d a b = Inr x \<Longrightarrow> unat a \<le> unat b \<and> unat b \<le> length d"
  by (simp add: slice_def word_le_nat_alt split: if_splits)

lemma decodeTxRLP_advances:
  assumes "decodeTxRLP g d p = Inr (p', tx)" "p < length d" "length d < 2 ^ 63"
  shows "p < p'"
proof -
  from assms(1) obtain len :: uint64 where
    "\<exists>x. slice d (of_nat p) (of_nat p + len) = Inr x"
    "\<exists>x. slice d (of_nat p + len) (of_nat p + len + 32) = Inr x"
    "\<exists>x. slice d (of_nat p + len + 32) (of_nat p + len + 32 + 32) = Inr x"
    "\<exists>x. slice d (of_nat p + len + 32 + 32) (of_nat p + len + 32 + 32 + 1) = Inr x"
    and e: "p' = unat (of_nat p + len + 32 + 32 + 1 + 1)"
    by (auto simp: decodeTxRLP_def Let_def tx_consts split: if_splits option.splits)
  then have "p \<le> unat (of_nat p + len + 32 + 32 + 1)" "unat (of_nat p + len + 32 + 32 + 1) < 2 ^ 63"
    using assms(2,3) by (auto dest!: slice_Inr simp: unat_of_nat64)
  moreover have "q < unat (w + 1)" if "q \<le> unat w" "unat w < 2 ^ 63" for w :: uint64 and q
    using that by (simp add: unat_word_ariths)
  ultimately show ?thesis unfolding e by blast
qed

lemma decodeBlockHeader_advances: "decodeBlockHeader d p = Inr (p', b) \<Longrightarrow> p < p'"
  by (auto simp: decodeBlockHeader_def deserializeUint32_def split: if_splits)

lemma decodeBatchLoop_returns:
  assumes "length d < 2 ^ 63"
  shows "\<exists>r. decodeBatchLoop g d p currentBlock blocks = Some r"
proof (induction "length d - p" arbitrary: p currentBlock blocks rule: less_induct)
  case less
  show ?case
  proof (cases "p < length d")
    case True
    have "\<exists>r. decodeBatchLoop g d p' (Some b) bs = Some r" if "p < p'" for p' b bs
      by (rule less) (use that True in simp)
    with True decodeBlockHeader_advances [of d "p + 1"] decodeTxRLP_advances [of g d p] assms show ?thesis
      by (subst decodeBatchLoop.simps) (auto split: sum.split option.split)
  qed (subst decodeBatchLoop.simps, simp)
qed

lemma DecodeBatchV2_returns: "length d < 2 ^ 63 \<Longrightarrow> \<exists>r. DecodeBatchV2 g d = Some r"
  by (simp add: DecodeBatchV2_def decodeBatchLoop_returns)

section \<open>A length that wraps\<close>

definition wrappingLength :: bytes where
  "wrappingLength = [255, 255, 255, 255, 255, 255, 255, 255, 238]"

lemma of_nat_not_less: "k \<le> n \<Longrightarrow> n < 2 ^ 63 \<Longrightarrow> \<not> (of_nat n :: uint64) < of_nat k"
  by (simp add: word_less_nat_alt unat_of_nat64)

lemma wrappingLength_decode:
  assumes "length pre = 9" "length (pre @ wrappingLength @ rest) < 2 ^ 63"
  shows "decodeRLPListLengthFromOffset (pre @ wrappingLength @ rest) 9 = Inr (- 9)"
proof -
  let ?d = "pre @ wrappingLength @ rest"
  have s: "slice ?d 10 18 = Inr (drop 1 wrappingLength)"
    using slice_of_nat [of 10 18 ?d] assms by (simp add: wrappingLength_def)
  have n: "of_nat (SetBytes (drop 1 wrappingLength)) = (- 18 :: uint64)"
    by (simp add: SetBytes_def wrappingLength_def)
  have f: "ucast (?d ! 9) = (255 :: uint64)"
    using assms(1) by (simp add: nth_append wrappingLength_def)
  have l: "\<not> (of_nat (length ?d) :: uint64) < of_nat 18"
    using assms by (intro of_nat_not_less) (simp_all add: wrappingLength_def)
  show ?thesis
    unfolding decodeRLPListLengthFromOffset_def Let_def f using l s n
    by (simp add: tx_consts del: append_assoc)
qed

lemma wrappingLength_panics:
  assumes "length pre = 9" "length (pre @ wrappingLength @ rest) < 2 ^ 63" "48 \<le> length rest"
  shows "decodeTxRLP g (pre @ wrappingLength @ rest) 9 = Inl SlicePanic"
proof -
  let ?d = "pre @ wrappingLength @ rest"
  have l: "\<not> (of_nat (length ?d) :: uint64) < of_nat 66"
    using assms by (intro of_nat_not_less) (simp_all add: wrappingLength_def)
  have "slice ?d 9 66 = Inr (take 57 (drop 9 ?d))"
    using slice_of_nat [of 9 66 ?d] assms by (simp add: wrappingLength_def)
  with l show ?thesis
    unfolding decodeTxRLP_def wrappingLength_decode [OF assms(1,2)] and_then.simps
    by (simp add: tx_consts slice_def word_le_nat_alt)
qed

section \<open>Forced batches\<close>

text \<open>The check of the numbers of transactions and percentages never fails.\<close>

lemma DecodeForcedBatchV2_errors:
  assumes "length d < 2 ^ 63" "DecodeForcedBatchV2 g d = Inl e"
  shows "e = ErrInvalidData \<or> e = ErrTxTypeNotSupported"
  using DecodeTxs_ok [OF assms(1), of FORKID_ETROG g] assms(2)
  by (auto simp: DecodeForcedBatchV2_def and_then_Inl_iff decoded_ok_def tx_consts split: if_splits)

section \<open>Properties\<close>

definition sampleBatch :: BatchRawV2 where
  "sampleBatch = \<lparr>Blocks =
     [\<lparr>DeltaTimestamp = 1944498031, IndexL1InfoTree = 18,
       Transactions = [\<lparr>rawTx = sampleTx, EfficiencyPercentage = 255\<rparr>]\<rparr>,
      \<lparr>DeltaTimestamp = 3, IndexL1InfoTree = 0, Transactions = []\<rparr>]\<rparr>"

text \<open>
  C38: a batch with at least one block, whose transactions carry signatures the network accepts, is
  always encoded, and decoding the bytes gives back the batch: every block with its timestamp and L1
  info tree index, every transaction with all its fields and its percentage, in order.  This covers
  transactions with and without a chain id and RLP lists with short and long headers.  The Ethereum
  library is assumed to derive the chain id as documented and to produce, for the transactions of
  the batch, RLP lists that it can decode.
\<close>

theorem DecodeBatchV2_inverts_EncodeBatchV2:
  assumes "chainId_ok g"
    and "list_all (\<lambda>b. list_all (rawTx_ok g) (Transactions b)) (Blocks batch)"
    and "Blocks batch \<noteq> []"
    and "length (projr (EncodeBatchV2 g (Some batch))) < 2 ^ 63"
  shows "\<exists>d. EncodeBatchV2 g (Some batch) = Inr d \<and> DecodeBatchV2 g d = Some (Inr batch)"
proof -
  obtain d where d: "encodeBlocksV2 g [] (Blocks batch) = Inr d"
    using encodeBlocksV2_total [OF assms(2,1), of "[]"] by auto
  with assms(3) have e: "EncodeBatchV2 g (Some batch) = Inr d" by (simp add: EncodeBatchV2_def)
  with assms(4) have "length d < 2 ^ 63" by simp
  from decodeBatchLoop_blocks [OF assms(2,1) d this, of None "[]"] e show ?thesis
    by (simp add: DecodeBatchV2_def flushBlock_def)
qed

lemma sampleBatch_ok: "list_all (\<lambda>b. list_all (rawTx_ok plainGeth) (Transactions b)) (Blocks sampleBatch)"
  by (simp add: sampleBatch_def rawTx_ok_def sampleTx_signed sampleTx_rlp)

lemma sampleBatch_length: "length (projr (EncodeBatchV2 plainGeth (Some sampleBatch))) = 123"
  by code_simp

theorem DecodeBatchV2_inverts_EncodeBatchV2_witness:
  "\<exists>d. EncodeBatchV2 plainGeth (Some sampleBatch) = Inr d \<and> DecodeBatchV2 plainGeth d = Some (Inr sampleBatch)"
  by (rule DecodeBatchV2_inverts_EncodeBatchV2)
    (simp_all add: sampleBatch_ok sampleBatch_length, simp add: sampleBatch_def)

text \<open>
  C39: \<open>DecodeBatchV2\<close> panics on bytes that the data of a batch may hold: after a block header, a
  transaction whose RLP header announces a list of \<open>2 ^ 64 - 18\<close> bytes.  The end of the transaction is
  computed in 64 bits and wraps to position 66, which passes the only check, and the start of the
  signature wraps to 0, in front of the transaction.
\<close>

theorem DecodeBatchV2_panics_on_wrapping_length:
  assumes "48 \<le> length rest" "length rest < 2 ^ 62"
  shows "DecodeBatchV2 g (EncodeBlockHeaderV2 [] block @ wrappingLength @ rest) = Some (Inl SlicePanic)"
proof -
  let ?h = "EncodeBlockHeaderV2 [] block"
  let ?d = "?h @ wrappingLength @ rest"
  have h: "length ?h = 9" "?d ! 0 = changeL2Block" by (simp_all add: EncodeBlockHeaderV2_def)
  have len: "9 < length ?d" "length ?d < 2 ^ 63"
    using assms h(1) by (simp_all add: wrappingLength_def)
  have "?d ! 9 = 255" using h(1) by (simp add: nth_append wrappingLength_def)
  then have tx: "?d ! 9 \<noteq> changeL2Block" by (simp add: changeL2Block_def)
  have "DecodeBatchV2 g ?d = decodeBatchLoop g ?d 9 (Some (block\<lparr>Transactions := []\<rparr>)) []"
    unfolding DecodeBatchV2_def using decodeBlockHeader_encode [of "[]" block "wrappingLength @ rest"] h
    by (subst decodeBatchLoop.simps) (simp add: flushBlock_def)
  also have "\<dots> = Some (Inl SlicePanic)"
    using wrappingLength_panics [OF h(1) len(2) assms(1), of g] len tx by (subst decodeBatchLoop.simps) simp
  finally show ?thesis .
qed

theorem DecodeBatchV2_panics_on_wrapping_length_witness:
  "DecodeBatchV2 plainGeth
     (EncodeBlockHeaderV2 [] \<lparr>DeltaTimestamp = 3, IndexL1InfoTree = 1, Transactions = []\<rparr> @ wrappingLength @ replicate 48 0)
   = Some (Inl SlicePanic)"
  by (rule DecodeBatchV2_panics_on_wrapping_length) simp_all

end
