(* ===== verification/EffectiveGasPrice.thy ===== *)
theory EffectiveGasPrice
  imports Prelude
begin

text \<open>
  The effective gas price percentage (\<open>state/effectivegasprice.go\<close>): one byte that says which share of
  the signed gas price a transaction pays, the price charged being \<open>(percentage + 1) / 256\<close> of it.
  Prices are natural numbers; a nil pointer is \<open>None\<close>.
\<close>

datatype egp_error = ErrEffectiveGasPriceEmpty

definition CalculateEffectiveGasPricePercentage :: "nat option \<Rightarrow> nat option \<Rightarrow> egp_error + uint8" where
  "CalculateEffectiveGasPricePercentage gasPrice effectiveGasPrice =
     (case (effectiveGasPrice, gasPrice) of
        (Some e, Some g) \<Rightarrow>
          if g = 0 \<or> e = 0 then Inl ErrEffectiveGasPriceEmpty
          else if g \<le> e then Inr 255
          else
            (let b = int e * 256; b = b + int g; b = b - 1; b = b div int g; b = b - 1
             in Inr (of_int b))
      | _ \<Rightarrow> Inl ErrEffectiveGasPriceEmpty)"

text \<open>The ceiling of \<open>256 * e / g\<close> is between 1 and 256, so that one less fits a byte.\<close>

lemma ceiling_share:
  fixes e g :: int
  assumes "0 < e" "e < g"
  defines "c \<equiv> (e * 256 + g - 1) div g"
  shows "1 \<le> c" "c \<le> 256" "256 * e \<le> c * g" "(c - 1) * g < 256 * e"
proof -
  let ?n = "e * 256 + g - 1"
  have n: "c * g + ?n mod g = ?n" by (simp add: c_def)
  have m: "0 \<le> ?n mod g" "?n mod g < g" using assms(1,2) by simp_all
  from n m show lower: "256 * e \<le> c * g" and upper: "(c - 1) * g < 256 * e"
    by (simp_all add: algebra_simps)
  have "0 < c * g" using lower assms(1) by linarith
  with assms(1,2) show "1 \<le> c" by (simp add: zero_less_mult_iff)
  have "(c - 1) * g < 256 * g" using upper assms(2) by linarith
  then have "c - 1 < 256" using assms(1,2) by (simp add: mult_less_cancel_right)
  then show "c \<le> 256" by simp
qed

text \<open>
  C40: for two given prices, the percentage is refused exactly when one of them is zero; it is 255, the whole gas
  price, when the effective price is not below the gas price.  Otherwise the division never leaves
  the range of a byte, the price recomputed from the percentage is at least the effective price, and
  no smaller percentage would do.
\<close>

theorem CalculateEffectiveGasPricePercentage_exact:
  "case CalculateEffectiveGasPricePercentage (Some g) (Some e) of
     Inl err \<Rightarrow> g = 0 \<or> e = 0
   | Inr p \<Rightarrow> g \<noteq> 0 \<and> e \<noteq> 0
       \<and> (if g \<le> e then p = 255
          else 256 * e \<le> (unat p + 1) * g \<and> unat p * g < 256 * e)"
proof (cases "g = 0 \<or> e = 0 \<or> g \<le> e")
  case True
  then show ?thesis by (auto simp: CalculateEffectiveGasPricePercentage_def)
next
  case False
  define c where "c = (int e * 256 + int g - 1) div int g"
  note c = ceiling_share [of "int e" "int g", folded c_def]
  define k where "k = nat (c - 1)"
  have k: "c - 1 = int k" "k < 256" using c(1,2) False by (simp_all add: k_def)
  then have "unat (of_int (c - 1) :: uint8) = k" by (simp add: unat_of_nat_less)
  moreover have "256 * e \<le> (k + 1) * g"
  proof -
    have "int (256 * e) \<le> int ((k + 1) * g)" using c(3) k(1) False by (simp add: algebra_simps)
    then show ?thesis by (simp only: of_nat_le_iff)
  qed
  moreover have "k * g < 256 * e"
  proof -
    have "int (k * g) < int (256 * e)" using c(4) k(1) False by simp
    then show ?thesis by (simp only: of_nat_less_iff)
  qed
  ultimately show ?thesis
    using False by (simp add: CalculateEffectiveGasPricePercentage_def Let_def c_def del: of_int_diff)
qed

end
