(* ===== verification/EthTxManager.thy ===== *)
theory EthTxManager
  imports Prelude
begin

text \<open>
  The manager of L1 transactions (\<open>ethtxmanager/\<close>): its table of monitored transactions, the cycle that
  sends, resends and confirms them, and the wait of their owners for the results.

  The L1 client is the parameter \<open>etherman\<close>, its answers during one cycle; the hash of a signed
  transaction and the margin factor of the gas price, a floating point product, are parameters.  Each
  access to the database may fail: \<open>faults\<close> lists which ones do.  \<open>network\<close> is the list of all
  transactions given to \<open>SendTx\<close> without an error, a ghost of the environment.  The goroutines of one
  cycle work on different rows, so that they are run one after the other.
\<close>

section \<open>Data\<close>

datatype MonitoredTxStatus =
    MonitoredTxStatusCreated | MonitoredTxStatusSent | MonitoredTxStatusFailed | MonitoredTxStatusConfirmed
  | MonitoredTxStatusReorged | MonitoredTxStatusDone

datatype etm_error = ErrNotFound | ErrAlreadyExists | ErrStorage | ErrEtherman

record ethTx =
  etTo :: "bytes option"
  etNonce :: uint64
  etValue :: "nat option"
  etData :: "bytes option"
  etGas :: uint64
  etGasPrice :: nat

type_synonym signedTx = "ethTx \<times> bytes"

record receipt =
  rStatus :: uint64
  rTxHash :: hash32
  rBlockNumber :: "nat option"

definition ReceiptStatusSuccessful :: uint64 where
  "ReceiptStatusSuccessful = 1"

record monitoredTx =
  mOwner :: string
  mId :: string
  mFrom :: bytes
  mTo :: "bytes option"
  mNonce :: uint64
  mValue :: "nat option"
  mData :: "bytes option"
  mGas :: uint64
  mGasOffset :: uint64
  mGasPrice :: nat
  mStatus :: MonitoredTxStatus
  mBlockNumber :: "nat option"
  mHistory :: "hash32 list"

definition mTx_Tx :: "monitoredTx \<Rightarrow> ethTx" where
  "mTx_Tx mTx = \<lparr>etTo = mTo mTx, etNonce = mNonce mTx, etValue = mValue mTx, etData = mData mTx,
     etGas = mGas mTx + mGasOffset mTx, etGasPrice = mGasPrice mTx\<rparr>"

definition AddHistory :: "monitoredTx \<Rightarrow> hash32 \<Rightarrow> etm_error + monitoredTx" where
  "AddHistory mTx h =
     (if h \<in> set (mHistory mTx) then Inl ErrAlreadyExists else Inr (mTx\<lparr>mHistory := mHistory mTx @ [h]\<rparr>))"

section \<open>The table\<close>

record world =
  rows :: "monitoredTx list"
  faults :: "bool list"
  network :: "signedTx list"

definition dbFault :: "world \<Rightarrow> bool \<times> world" where
  "dbFault w = (case faults w of [] \<Rightarrow> (False, w) | f # fs \<Rightarrow> (f, w\<lparr>faults := fs\<rparr>))"

definition row_key :: "monitoredTx \<Rightarrow> string \<times> string" where
  "row_key mTx = (mOwner mTx, mId mTx)"

text \<open>Prices, values and block numbers are stored as 64 bit numbers.\<close>

definition scanned :: "monitoredTx \<Rightarrow> monitoredTx" where
  "scanned mTx = mTx\<lparr>mGasPrice := mGasPrice mTx mod 2 ^ 64, mValue := map_option (\<lambda>v. v mod 2 ^ 64) (mValue mTx),
     mBlockNumber := map_option (\<lambda>b. b mod 2 ^ 64) (mBlockNumber mTx)\<rparr>"

definition storage_Add :: "world \<Rightarrow> monitoredTx \<Rightarrow> etm_error option \<times> world" where
  "storage_Add w mTx =
     (case dbFault w of (f, w) \<Rightarrow>
        if f then (Some ErrStorage, w)
        else if row_key mTx \<in> set (map row_key (rows w)) then (Some ErrAlreadyExists, w)
        else (None, w\<lparr>rows := rows w @ [scanned mTx]\<rparr>))"

definition storage_Get :: "world \<Rightarrow> string \<Rightarrow> string \<Rightarrow> (etm_error + monitoredTx) \<times> world" where
  "storage_Get w own i =
     (case dbFault w of (f, w) \<Rightarrow>
        (if f then Inl ErrStorage
         else (case find (\<lambda>r. row_key r = (own, i)) (rows w) of None \<Rightarrow> Inl ErrNotFound | Some r \<Rightarrow> Inr r), w))"

definition storage_GetByStatus ::
  "world \<Rightarrow> string option \<Rightarrow> MonitoredTxStatus list \<Rightarrow> (etm_error + monitoredTx list) \<times> world" where
  "storage_GetByStatus w own statuses =
     (case dbFault w of (f, w) \<Rightarrow>
        (if f then Inl ErrStorage
         else Inr (filter (\<lambda>r. (case own of None \<Rightarrow> True | Some ow \<Rightarrow> mOwner r = ow)
                              \<and> (statuses = [] \<or> mStatus r \<in> set statuses)) (rows w)), w))"

definition storage_GetByBlock :: "world \<Rightarrow> nat option \<Rightarrow> nat option \<Rightarrow> (etm_error + monitoredTx list) \<times> world" where
  "storage_GetByBlock w fromBlock toBlock =
     (case dbFault w of (f, w) \<Rightarrow>
        (if f then Inl ErrStorage
         else Inr (filter (\<lambda>r. case mBlockNumber r of
                None \<Rightarrow> False
              | Some b \<Rightarrow> (case fromBlock of None \<Rightarrow> True | Some x \<Rightarrow> x \<le> b) \<and> (case toBlock of None \<Rightarrow> True | Some x \<Rightarrow> b \<le> x))
              (rows w)), w))"

definition storage_Update :: "world \<Rightarrow> monitoredTx \<Rightarrow> bool \<times> world" where
  "storage_Update w mTx =
     (case dbFault w of (f, w) \<Rightarrow>
        if f then (False, w)
        else (True, w\<lparr>rows := map (\<lambda>r. if row_key r = row_key mTx then scanned mTx else r) (rows w)\<rparr>))"

section \<open>The L1 client\<close>

datatype 'a lookup = Found 'a | NotFound | LookupError

datatype revert = RevertMessage string | RevertNotFound | RevertUnidentified | RevertError

record etherman =
  CurrentNonce :: "bytes \<Rightarrow> uint64 option"
  EstimateGas :: "bytes \<Rightarrow> bytes option \<Rightarrow> nat option \<Rightarrow> bytes option \<Rightarrow> uint64 option"
  SuggestedGasPrice :: "nat option"
  CheckTxWasMined :: "hash32 \<Rightarrow> receipt lookup"
  SignTx :: "bytes \<Rightarrow> ethTx \<Rightarrow> signedTx option"
  GetTx :: "hash32 \<Rightarrow> signedTx lookup"
  SendTx :: "signedTx \<Rightarrow> bool"
  WaitTxToBeMined :: "signedTx \<Rightarrow> bool option"
  GetTxReceipt :: "hash32 \<Rightarrow> receipt lookup"
  GetRevertMessage :: "signedTx option \<Rightarrow> revert"

record Config =
  ForcedGas :: uint64
  GasPriceMargin :: "nat \<Rightarrow> nat"
  MaxGasPriceLimit :: uint64

section \<open>Adding a transaction\<close>

definition suggestedGasPrice :: "Config \<Rightarrow> etherman \<Rightarrow> nat option" where
  "suggestedGasPrice cfg e =
     (case SuggestedGasPrice e of
        None \<Rightarrow> None
      | Some gasPrice \<Rightarrow>
          let adjustedGasPrice = GasPriceMargin cfg gasPrice; maxGasPrice = unat (MaxGasPriceLimit cfg)
          in Some (if MaxGasPriceLimit cfg > 0 \<and> adjustedGasPrice > maxGasPrice then maxGasPrice else adjustedGasPrice))"

definition etm_Add ::
  "Config \<Rightarrow> etherman \<Rightarrow> world \<Rightarrow> string \<Rightarrow> string \<Rightarrow> bytes \<Rightarrow> bytes option \<Rightarrow> nat option \<Rightarrow> bytes option \<Rightarrow> uint64
     \<Rightarrow> etm_error option \<times> world" where
  "etm_Add cfg e w own i from to value data gasOffset =
     (case CurrentNonce e from of
        None \<Rightarrow> (Some ErrEtherman, w)
      | Some nonce \<Rightarrow>
          (case (case EstimateGas e from to value data of
                   Some gas \<Rightarrow> Some gas
                 | None \<Rightarrow> if ForcedGas cfg > 0 then Some (ForcedGas cfg) else None) of
             None \<Rightarrow> (Some ErrEtherman, w)
           | Some gas \<Rightarrow>
               (case suggestedGasPrice cfg e of
                  None \<Rightarrow> (Some ErrEtherman, w)
                | Some gasPrice \<Rightarrow>
                    storage_Add w
                      \<lparr>mOwner = own, mId = i, mFrom = from, mTo = to, mNonce = nonce, mValue = value, mData = data,
                       mGas = gas, mGasOffset = gasOffset, mGasPrice = gasPrice, mStatus = MonitoredTxStatusCreated,
                       mBlockNumber = None, mHistory = []\<rparr>)))"

section \<open>Monitoring one transaction\<close>

record check_state =
  confirmed :: bool
  hasFailedReceipts :: bool
  allHistoryTxsWereMined :: bool
  lastReceiptChecked :: receipt

definition no_receipt :: receipt where
  "no_receipt = \<lparr>rStatus = 0, rTxHash = replicate 32 0, rBlockNumber = None\<rparr>"

fun checkHistory :: "etherman \<Rightarrow> hash32 list \<Rightarrow> check_state \<Rightarrow> check_state" where
  "checkHistory e [] c = c"
| "checkHistory e (txHash # hs) c =
     (case CheckTxWasMined e txHash of
        LookupError \<Rightarrow> checkHistory e hs c
      | NotFound \<Rightarrow> checkHistory e hs (c\<lparr>allHistoryTxsWereMined := False\<rparr>)
      | Found r \<Rightarrow>
          if rStatus r = ReceiptStatusSuccessful then c\<lparr>lastReceiptChecked := r, confirmed := True\<rparr>
          else checkHistory e hs (c\<lparr>lastReceiptChecked := r, confirmed := False, hasFailedReceipts := True\<rparr>))"

definition checked :: "etherman \<Rightarrow> hash32 list \<Rightarrow> check_state" where
  "checked e hs = checkHistory e hs
     \<lparr>confirmed = False, hasFailedReceipts = False, allHistoryTxsWereMined = True, lastReceiptChecked = no_receipt\<rparr>"

definition reviewMonitoredTxNonce :: "etherman \<Rightarrow> monitoredTx \<Rightarrow> etm_error + monitoredTx" where
  "reviewMonitoredTxNonce e mTx =
     (case CurrentNonce e (mFrom mTx) of
        None \<Rightarrow> Inl ErrEtherman
      | Some nonce \<Rightarrow> Inr (if nonce > mNonce mTx then mTx\<lparr>mNonce := nonce\<rparr> else mTx))"

definition reviewMonitoredTx :: "Config \<Rightarrow> etherman \<Rightarrow> monitoredTx \<Rightarrow> etm_error + monitoredTx" where
  "reviewMonitoredTx cfg e mTx =
     (case EstimateGas e (mFrom mTx) (mTo mTx) (mValue mTx) (mData mTx) of
        None \<Rightarrow> Inl ErrEtherman
      | Some gas \<Rightarrow>
          let mTx = (if gas > mGas mTx then mTx\<lparr>mGas := gas\<rparr> else mTx)
          in (case suggestedGasPrice cfg e of
                None \<Rightarrow> Inl ErrEtherman
              | Some gasPrice \<Rightarrow> Inr (if gasPrice > mGasPrice mTx then mTx\<lparr>mGasPrice := gasPrice\<rparr> else mTx)))"

definition shouldContinueToMonitorThisTx :: "etherman \<Rightarrow> receipt \<Rightarrow> bool" where
  "shouldContinueToMonitorThisTx e r =
     (if rStatus r = ReceiptStatusSuccessful then False
      else (case GetTx e (rTxHash r) of
              Found tx \<Rightarrow> GetRevertMessage e (Some tx) = RevertUnidentified
            | _ \<Rightarrow> False))"

text \<open>
  The steps of one cycle.  A step returns \<open>None\<close> when the cycle of this transaction ends there, and
  otherwise the transaction as the next step finds it.
\<close>

definition persist :: "world \<Rightarrow> etm_error + monitoredTx \<Rightarrow> world \<times> monitoredTx option" where
  "persist w r =
     (case r of
        Inl e \<Rightarrow> (w, None)
      | Inr mTx \<Rightarrow> (case storage_Update w mTx of (ok, w) \<Rightarrow> (w, if ok then Some mTx else None)))"

definition nonceStep :: "etherman \<Rightarrow> check_state \<Rightarrow> world \<Rightarrow> monitoredTx \<Rightarrow> world \<times> monitoredTx option" where
  "nonceStep e c w mTx =
     (if \<not> confirmed c \<and> hasFailedReceipts c \<and> allHistoryTxsWereMined c
      then persist w (reviewMonitoredTxNonce e mTx)
      else (w, Some mTx))"

definition reviewStep :: "Config \<Rightarrow> etherman \<Rightarrow> world \<Rightarrow> monitoredTx \<Rightarrow> world \<times> monitoredTx option" where
  "reviewStep cfg e w mTx =
     (if mStatus mTx = MonitoredTxStatusReorged then (w, None)
      else if mStatus mTx = MonitoredTxStatusSent then persist w (reviewMonitoredTx cfg e mTx)
      else (w, Some mTx))"

definition historyStep :: "world \<Rightarrow> monitoredTx \<Rightarrow> hash32 \<Rightarrow> world \<times> monitoredTx option" where
  "historyStep w mTx h = (case AddHistory mTx h of Inl e \<Rightarrow> (w, Some mTx) | Inr mTx \<Rightarrow> persist w (Inr mTx))"

definition sendStep :: "etherman \<Rightarrow> (signedTx \<Rightarrow> hash32) \<Rightarrow> world \<Rightarrow> monitoredTx \<Rightarrow> signedTx \<Rightarrow> world \<times> monitoredTx option" where
  "sendStep e hashOf w mTx tx =
     (case GetTx e (hashOf tx) of
        NotFound \<Rightarrow>
          if \<not> SendTx e tx then (w, None)
          else (let w = w\<lparr>network := network w @ [tx]\<rparr>
                in if mStatus mTx = MonitoredTxStatusCreated
                   then persist w (Inr (mTx\<lparr>mStatus := MonitoredTxStatusSent\<rparr>))
                   else (w, Some mTx))
      | _ \<Rightarrow> (w, Some mTx))"

definition waitStep :: "etherman \<Rightarrow> (signedTx \<Rightarrow> hash32) \<Rightarrow> signedTx \<Rightarrow> receipt option" where
  "waitStep e hashOf tx =
     (case WaitTxToBeMined e tx of
        Some True \<Rightarrow> (case GetTxReceipt e (hashOf tx) of Found r \<Rightarrow> Some r | _ \<Rightarrow> None)
      | _ \<Rightarrow> None)"

fun step_then :: "world \<times> 'a option \<Rightarrow> (world \<Rightarrow> 'a \<Rightarrow> world \<times> 'b option) \<Rightarrow> world \<times> 'b option" where
  "step_then (w, None) f = (w, None)"
| "step_then (w, Some x) f = f w x"

definition sendAndWait ::
  "Config \<Rightarrow> etherman \<Rightarrow> (signedTx \<Rightarrow> hash32) \<Rightarrow> world \<Rightarrow> monitoredTx \<Rightarrow> world \<times> (monitoredTx \<times> receipt) option" where
  "sendAndWait cfg e hashOf w mTx =
     step_then (reviewStep cfg e w mTx) (\<lambda>w mTx.
       case SignTx e (mFrom mTx) (mTx_Tx mTx) of
         None \<Rightarrow> (w, None)
       | Some tx \<Rightarrow>
           step_then (historyStep w mTx (hashOf tx)) (\<lambda>w mTx.
           step_then (sendStep e hashOf w mTx tx) (\<lambda>w mTx.
             (w, map_option (Pair mTx) (waitStep e hashOf tx)))))"

definition finishStep :: "etherman \<Rightarrow> world \<Rightarrow> monitoredTx \<Rightarrow> receipt \<Rightarrow> world" where
  "finishStep e w mTx r =
     (if rStatus r = ReceiptStatusSuccessful
      then snd (storage_Update w (mTx\<lparr>mStatus := MonitoredTxStatusConfirmed, mBlockNumber := rBlockNumber r\<rparr>))
      else if shouldContinueToMonitorThisTx e r then w
      else snd (storage_Update w (mTx\<lparr>mStatus := MonitoredTxStatusFailed, mBlockNumber := rBlockNumber r\<rparr>)))"

definition monitorTx :: "Config \<Rightarrow> etherman \<Rightarrow> (signedTx \<Rightarrow> hash32) \<Rightarrow> world \<Rightarrow> monitoredTx \<Rightarrow> world" where
  "monitorTx cfg e hashOf w mTx =
     (let c = checked e (mHistory mTx)
      in case step_then (nonceStep e c w mTx) (\<lambda>w mTx.
                if \<not> confirmed c then sendAndWait cfg e hashOf w mTx else (w, Some (mTx, lastReceiptChecked c))) of
           (w, None) \<Rightarrow> w
         | (w, Some (mTx, r)) \<Rightarrow> finishStep e w mTx r)"

definition monitorTxs :: "Config \<Rightarrow> etherman \<Rightarrow> (signedTx \<Rightarrow> hash32) \<Rightarrow> world \<Rightarrow> etm_error option \<times> world" where
  "monitorTxs cfg e hashOf w =
     (case storage_GetByStatus w None [MonitoredTxStatusCreated, MonitoredTxStatusSent, MonitoredTxStatusReorged] of
        (Inl err, w) \<Rightarrow> (Some err, w)
      | (Inr mTxs, w) \<Rightarrow> (None, foldl (monitorTx cfg e hashOf) w mTxs))"

section \<open>Reorganizations and results\<close>

fun reorgLoop :: "world \<Rightarrow> monitoredTx list \<Rightarrow> etm_error option \<times> world" where
  "reorgLoop w [] = (None, w)"
| "reorgLoop w (mTx # mTxs) =
     (case storage_Update w (mTx\<lparr>mBlockNumber := None, mStatus := MonitoredTxStatusReorged\<rparr>) of
        (ok, w) \<Rightarrow> if ok then reorgLoop w mTxs else (Some ErrStorage, w))"

definition etm_Reorg :: "world \<Rightarrow> nat \<Rightarrow> etm_error option \<times> world" where
  "etm_Reorg w fromBlockNumber =
     (case storage_GetByBlock w (Some fromBlockNumber) None of
        (Inl err, w) \<Rightarrow> (Some err, w)
      | (Inr mTxs, w) \<Rightarrow> reorgLoop w mTxs)"

definition setStatusDone :: "world \<Rightarrow> string \<Rightarrow> string \<Rightarrow> etm_error option \<times> world" where
  "setStatusDone w own i =
     (case storage_Get w own i of
        (Inl err, w) \<Rightarrow> (Some err, w)
      | (Inr mTx, w) \<Rightarrow>
          (case storage_Update w (mTx\<lparr>mStatus := MonitoredTxStatusDone\<rparr>) of
             (ok, w) \<Rightarrow> (if ok then None else Some ErrStorage, w)))"

section \<open>What a cycle keeps\<close>

lemma row_key_scanned [simp]: "row_key (scanned mTx) = row_key mTx"
  by (simp add: row_key_def scanned_def)

lemma row_key_update [simp]: "row_key (mTx\<lparr>mStatus := s\<rparr>) = row_key mTx" "row_key (mTx\<lparr>mBlockNumber := b\<rparr>) = row_key mTx"
    "row_key (mTx\<lparr>mHistory := h\<rparr>) = row_key mTx" "row_key (mTx\<lparr>mNonce := n\<rparr>) = row_key mTx"
    "row_key (mTx\<lparr>mGas := g\<rparr>) = row_key mTx" "row_key (mTx\<lparr>mGasPrice := p\<rparr>) = row_key mTx"
  by (simp_all add: row_key_def)

lemma scanned_fields [simp]: "mHistory (scanned mTx) = mHistory mTx" "mStatus (scanned mTx) = mStatus mTx"
    "mNonce (scanned mTx) = mNonce mTx" "mOwner (scanned mTx) = mOwner mTx" "mId (scanned mTx) = mId mTx"
  by (simp_all add: scanned_def)

lemma dbFault_world [simp]: "rows (snd (dbFault w)) = rows w" "network (snd (dbFault w)) = network w"
  by (simp_all add: dbFault_def split: list.split)

lemma storage_Update_cases:
  obtains (fault) w' where "storage_Update w mTx = (False, w')" "rows w' = rows w" "network w' = network w"
  | (ok) w' where "storage_Update w mTx = (True, w')" "network w' = network w"
      "rows w' = map (\<lambda>r. if row_key r = row_key mTx then scanned mTx else r) (rows w)"
proof (cases "dbFault w")
  case (Pair f w1)
  moreover have "rows w1 = rows w" "network w1 = network w"
    using dbFault_world [of w] Pair by simp_all
  ultimately show ?thesis
    using that by (cases f) (auto simp: storage_Update_def)
qed

text \<open>A step for the row with key \<open>k\<close> keeps the other rows and every key.\<close>

definition keeps_others :: "string \<times> string \<Rightarrow> world \<Rightarrow> world \<Rightarrow> bool" where
  "keeps_others k w w' \<longleftrightarrow> map row_key (rows w') = map row_key (rows w)
     \<and> filter (\<lambda>r. row_key r \<noteq> k) (rows w') = filter (\<lambda>r. row_key r \<noteq> k) (rows w)"

lemma keeps_others_refl [simp]: "keeps_others k w w"
  by (simp add: keeps_others_def)

lemma keeps_others_trans: "keeps_others k w1 w2 \<Longrightarrow> keeps_others k w2 w3 \<Longrightarrow> keeps_others k w1 w3"
  by (simp add: keeps_others_def)

lemma filter_map_update:
  "filter (\<lambda>r. row_key r \<noteq> row_key m) (map (\<lambda>r. if row_key r = row_key m then scanned m else r) rs)
     = filter (\<lambda>r. row_key r \<noteq> row_key m) rs"
  by (induction rs) simp_all

lemma storage_Update_keeps_others: "keeps_others (row_key mTx) w (snd (storage_Update w mTx))"
  by (rule storage_Update_cases [of w mTx]) (auto simp: keeps_others_def filter_map_update)

text \<open>
  The invariant: keys are unique, and every transaction that was sent to the network belongs to a
  row: its hash is in the history of the row, it has the recipient and the data of the row, and its
  nonce is not above the nonce of the row.  \<open>holds_row w mTx\<close>: the cycle's copy of a row agrees with
  the table.
\<close>

definition sent_by :: "(signedTx \<Rightarrow> hash32) \<Rightarrow> signedTx \<Rightarrow> monitoredTx \<Rightarrow> bool" where
  "sent_by hashOf tx r \<longleftrightarrow> hashOf tx \<in> set (mHistory r) \<and> etTo (fst tx) = mTo r \<and> etData (fst tx) = mData r
     \<and> etNonce (fst tx) \<le> mNonce r"

definition etm_inv :: "(signedTx \<Rightarrow> hash32) \<Rightarrow> world \<Rightarrow> bool" where
  "etm_inv hashOf w \<longleftrightarrow> distinct (map row_key (rows w)) \<and> (\<forall>tx\<in>set (network w). \<exists>r\<in>set (rows w). sent_by hashOf tx r)"

definition row_grows :: "monitoredTx \<Rightarrow> monitoredTx \<Rightarrow> bool" where
  "row_grows r m \<longleftrightarrow> row_key m = row_key r \<and> set (mHistory r) \<subseteq> set (mHistory m) \<and> mTo m = mTo r \<and> mData m = mData r
     \<and> mNonce r \<le> mNonce m"

definition holds_row :: "world \<Rightarrow> monitoredTx \<Rightarrow> bool" where
  "holds_row w mTx \<longleftrightarrow> (\<exists>r\<in>set (rows w). row_grows r mTx \<and> row_grows mTx r)"

lemma row_grows_refl [simp]: "row_grows m m"
  by (simp add: row_grows_def)

lemma row_grows_trans: "row_grows a b \<Longrightarrow> row_grows b c \<Longrightarrow> row_grows a c"
  by (auto simp: row_grows_def)

lemma row_grows_scanned [simp]: "row_grows m (scanned m)" "row_grows (scanned m) m"
  by (simp_all add: row_grows_def, simp_all add: scanned_def)

lemma sent_by_grows: "sent_by hashOf tx r \<Longrightarrow> row_grows r m \<Longrightarrow> sent_by hashOf tx m"
  by (auto simp: sent_by_def row_grows_def)

lemma etm_inv_update:
  assumes "etm_inv hashOf w" "holds_row w m0" "row_grows m0 mTx"
  shows "etm_inv hashOf (snd (storage_Update w mTx))"
    "fst (storage_Update w mTx) \<Longrightarrow> holds_row (snd (storage_Update w mTx)) mTx"
proof -
  from assms(2,3) obtain r where r: "r \<in> set (rows w)" "row_grows r mTx"
    by (auto simp: holds_row_def intro: row_grows_trans)
  then have key: "row_key r = row_key mTx" by (simp add: row_grows_def)
  let ?f = "\<lambda>r. if row_key r = row_key mTx then scanned mTx else r"
  have keys: "map row_key (map ?f (rows w)) = map row_key (rows w)" by auto
  have uniq: "x = r" if "x \<in> set (rows w)" "row_key x = row_key mTx" for x
    using assms(1) that r(1) key inj_onD [of row_key "set (rows w)" x r] by (simp add: etm_inv_def distinct_map)
  have hist: "\<exists>x\<in>set (map ?f (rows w)). sent_by hashOf tx x" if "tx \<in> set (network w)" for tx
  proof -
    from assms(1) that obtain x where x: "x \<in> set (rows w)" "sent_by hashOf tx x"
      by (auto simp: etm_inv_def)
    have "sent_by hashOf tx (?f x)"
      using x uniq [OF x(1)] sent_by_grows [OF x(2) row_grows_trans [OF _ row_grows_scanned(1)]] r(2) by auto
    then show ?thesis unfolding set_map by (rule bexI) (rule imageI [OF x(1)])
  qed
  show "etm_inv hashOf (snd (storage_Update w mTx))"
    by (rule storage_Update_cases [of w mTx]) (use assms(1) keys hist in \<open>simp_all add: etm_inv_def del: map_map set_map\<close>)
  have row: "\<exists>x\<in>set (map ?f (rows w)). row_grows x mTx \<and> row_grows mTx x"
    unfolding set_map by (rule bexI [OF _ imageI [OF r(1)]]) (simp add: key)
  show "holds_row (snd (storage_Update w mTx)) mTx" if "fst (storage_Update w mTx)"
    by (rule storage_Update_cases [of w mTx]) (use that row in \<open>simp_all add: holds_row_def del: set_map\<close>)
qed

text \<open>A step that is safe from a state to its result.\<close>

definition safe_step :: "(signedTx \<Rightarrow> hash32) \<Rightarrow> world \<Rightarrow> string \<times> string \<Rightarrow> world \<times> monitoredTx option \<Rightarrow> bool" where
  "safe_step hashOf w k p \<longleftrightarrow> etm_inv hashOf (fst p) \<and> keeps_others k w (fst p)
     \<and> (case snd p of None \<Rightarrow> True | Some mTx \<Rightarrow> holds_row (fst p) mTx \<and> row_key mTx = k)"

lemma safe_stay:
  "etm_inv hashOf w \<Longrightarrow> safe_step hashOf w k (w, None)"
  "etm_inv hashOf w \<Longrightarrow> holds_row w mTx \<Longrightarrow> safe_step hashOf w (row_key mTx) (w, Some mTx)"
  by (simp_all add: safe_step_def)

lemma safe_persist:
  assumes "etm_inv hashOf w" "holds_row w m0" and "\<And>m. r = Inr m \<Longrightarrow> row_grows m0 m"
  shows "safe_step hashOf w (row_key m0) (persist w r)"
proof (cases r)
  case (Inl e)
  with assms show ?thesis by (simp add: persist_def safe_step_def)
next
  case (Inr m)
  with assms(3) have m: "row_grows m0 m" by auto
  then have "row_key m = row_key m0" by (simp add: row_grows_def)
  with etm_inv_update [OF assms(1,2) m] storage_Update_keeps_others [of m w] Inr show ?thesis
    by (cases "storage_Update w m") (simp add: persist_def safe_step_def)
qed

lemma keeps_others_safe: "keeps_others k w1 w2 \<Longrightarrow> safe_step hashOf w2 k p \<Longrightarrow> safe_step hashOf w1 k p"
  by (auto simp: safe_step_def intro: keeps_others_trans)

lemma safe_nonceStep:
  assumes "etm_inv hashOf w" "holds_row w mTx"
  shows "safe_step hashOf w (row_key mTx) (nonceStep e c w mTx)"
proof -
  have "safe_step hashOf w (row_key mTx) (persist w (reviewMonitoredTxNonce e mTx))"
    by (rule safe_persist [OF assms]) (auto simp: reviewMonitoredTxNonce_def row_grows_def split: option.splits)
  then show ?thesis
    using safe_stay [OF assms(1)] assms(2) by (simp add: nonceStep_def)
qed

lemma safe_reviewStep:
  assumes "etm_inv hashOf w" "holds_row w mTx"
  shows "safe_step hashOf w (row_key mTx) (reviewStep cfg e w mTx)"
proof -
  have "safe_step hashOf w (row_key mTx) (persist w (reviewMonitoredTx cfg e mTx))"
    by (rule safe_persist [OF assms]) (auto simp: reviewMonitoredTx_def Let_def row_grows_def split: option.splits)
  then show ?thesis
    using safe_stay [OF assms(1)] assms(2) by (simp add: reviewStep_def)
qed

lemma safe_historyStep:
  assumes "etm_inv hashOf w" "holds_row w mTx"
  shows "safe_step hashOf w (row_key mTx) (historyStep w mTx h)"
proof -
  have "safe_step hashOf w (row_key mTx) (persist w (Inr (mTx\<lparr>mHistory := mHistory mTx @ [h]\<rparr>)))"
    by (rule safe_persist [OF assms]) (auto simp: row_grows_def)
  then show ?thesis
    using safe_stay [OF assms(1)] assms(2) by (simp add: historyStep_def AddHistory_def)
qed

lemma historyStep_has:
  "historyStep w mTx h = (w', Some m) \<Longrightarrow> h \<in> set (mHistory m) \<and> mTo m = mTo mTx \<and> mData m = mData mTx \<and> mNonce m = mNonce mTx"
  by (auto simp: historyStep_def AddHistory_def persist_def split: if_splits prod.splits)

lemma safe_sendStep:
  assumes "etm_inv hashOf w" "holds_row w mTx" "sent_by hashOf tx mTx"
  shows "safe_step hashOf w (row_key mTx) (sendStep e hashOf w mTx tx)"
proof -
  let ?w = "w\<lparr>network := network w @ [tx]\<rparr>"
  have "\<exists>r\<in>set (rows w). sent_by hashOf tx r"
    using assms(2) sent_by_grows [OF assms(3)] unfolding holds_row_def by blast
  with assms(1) have inv: "etm_inv hashOf ?w" by (simp add: etm_inv_def ball_Un)
  have row: "holds_row ?w mTx" using assms(2) by (simp add: holds_row_def)
  have "safe_step hashOf ?w (row_key mTx) (persist ?w (Inr (mTx\<lparr>mStatus := MonitoredTxStatusSent\<rparr>)))"
    by (rule safe_persist [OF inv row]) (auto simp: row_grows_def)
  then have "safe_step hashOf w (row_key mTx) (persist ?w (Inr (mTx\<lparr>mStatus := MonitoredTxStatusSent\<rparr>)))"
    by (rule keeps_others_safe [rotated]) (simp add: keeps_others_def)
  moreover have "safe_step hashOf w (row_key mTx) (?w, Some mTx)"
    using inv row by (simp add: safe_step_def keeps_others_def)
  ultimately show ?thesis
    using safe_stay [OF assms(1)] assms(2) by (simp add: sendStep_def Let_def split: lookup.split)
qed

text \<open>The same for steps that also return a receipt.\<close>

abbreviation safe_result :: "(signedTx \<Rightarrow> hash32) \<Rightarrow> string \<times> string \<Rightarrow> world \<Rightarrow> world \<times> (monitoredTx \<times> receipt) option \<Rightarrow> bool" where
  "safe_result hashOf k w p \<equiv> safe_step hashOf w k (fst p, map_option fst (snd p))"

lemma safe_result_then:
  assumes "safe_step hashOf w k p"
    and "\<And>w' mTx. p = (w', Some mTx) \<Longrightarrow> etm_inv hashOf w' \<Longrightarrow> holds_row w' mTx \<Longrightarrow> row_key mTx = k \<Longrightarrow> safe_result hashOf k w' (f w' mTx)"
  shows "safe_result hashOf k w (step_then p f)"
proof (cases p)
  case (Pair w' r)
  with assms(1) have inv: "etm_inv hashOf w'" "keeps_others k w w'" by (simp_all add: safe_step_def)
  show ?thesis
  proof (cases r)
    case None
    with Pair inv show ?thesis by (simp add: safe_step_def)
  next
    case (Some mTx)
    with assms(1) Pair have "holds_row w' mTx" "row_key mTx = k" by (simp_all add: safe_step_def)
    with assms(2) Pair Some inv have "safe_result hashOf k w' (f w' mTx)" by simp
    from keeps_others_safe [OF inv(2) this] Pair Some show ?thesis by simp
  qed
qed

text \<open>A signer signs the transaction it is given.\<close>

definition signs :: "etherman \<Rightarrow> bool" where
  "signs e \<longleftrightarrow> (\<forall>sender tx s. SignTx e sender tx = Some s \<longrightarrow> fst s = tx)"

lemma safe_sendAndWait:
  assumes "etm_inv hashOf w" "holds_row w mTx" "signs e"
  shows "safe_result hashOf (row_key mTx) w (sendAndWait cfg e hashOf w mTx)"
  unfolding sendAndWait_def
proof (rule safe_result_then [OF safe_reviewStep [OF assms(1,2)]], goal_cases)
  case (1 w1 m1)
  show ?case
  proof (cases "SignTx e (mFrom m1) (mTx_Tx m1)")
    case None
    with 1 show ?thesis by (simp add: safe_step_def)
  next
    case (Some tx)
    with assms(3) have signed: "fst tx = mTx_Tx m1" unfolding signs_def by blast
    have "safe_result hashOf (row_key m1) w1
        (step_then (historyStep w1 m1 (hashOf tx)) (\<lambda>w mTx.
           step_then (sendStep e hashOf w mTx tx) (\<lambda>w mTx. (w, map_option (Pair mTx) (waitStep e hashOf tx)))))"
    proof (rule safe_result_then [OF safe_historyStep [OF 1(2,3)]], goal_cases)
      case (1 w2 m2)
      have "sent_by hashOf tx m2"
        using historyStep_has [OF 1(1)] signed by (simp add: sent_by_def mTx_Tx_def)
      then show ?case
        unfolding 1(4) [symmetric]
      proof (rule safe_result_then [OF safe_sendStep [OF 1(2,3)]], goal_cases)
        case (1 w3 m3)
        then show ?case by (cases "waitStep e hashOf tx") (simp_all add: safe_step_def)
      qed
    qed
    with Some 1(4) show ?thesis by simp
  qed
qed

lemma safe_finishStep:
  assumes "etm_inv hashOf w" "holds_row w mTx"
  shows "etm_inv hashOf (finishStep e w mTx r)" "keeps_others (row_key mTx) w (finishStep e w mTx r)"
proof -
  have u: "etm_inv hashOf (snd (storage_Update w m))" "keeps_others (row_key mTx) w (snd (storage_Update w m))"
    if "row_grows mTx m" for m
    using etm_inv_update(1) [OF assms that] storage_Update_keeps_others [of m w] that
    by (simp_all add: row_grows_def)
  show "etm_inv hashOf (finishStep e w mTx r)" "keeps_others (row_key mTx) w (finishStep e w mTx r)"
    using assms by (auto simp: finishStep_def intro!: u, simp_all add: row_grows_def)
qed

lemma safe_monitorTx:
  assumes "etm_inv hashOf w" "holds_row w mTx" "signs e"
  shows "etm_inv hashOf (monitorTx cfg e hashOf w mTx)" "keeps_others (row_key mTx) w (monitorTx cfg e hashOf w mTx)"
proof -
  define c where "c = checked e (mHistory mTx)"
  define p where "p = step_then (nonceStep e c w mTx)
    (\<lambda>w mTx. if \<not> confirmed c then sendAndWait cfg e hashOf w mTx else (w, Some (mTx, lastReceiptChecked c)))"
  have p: "safe_result hashOf (row_key mTx) w p"
    unfolding p_def
  proof (rule safe_result_then [OF safe_nonceStep [OF assms(1,2)]], goal_cases)
    case (1 w1 m1)
    then show ?case using safe_sendAndWait [OF 1(2,3) assms(3)] by (simp add: safe_step_def)
  qed
  have m: "monitorTx cfg e hashOf w mTx = (case p of (w, None) \<Rightarrow> w | (w, Some (mTx, r)) \<Rightarrow> finishStep e w mTx r)"
    unfolding monitorTx_def Let_def p_def c_def ..
  obtain w' r where wr: "p = (w', r)" by fastforce
  show "etm_inv hashOf (monitorTx cfg e hashOf w mTx)" "keeps_others (row_key mTx) w (monitorTx cfg e hashOf w mTx)"
  proof (atomize (full), cases r)
    case None
    with p wr show "etm_inv hashOf (monitorTx cfg e hashOf w mTx) \<and> keeps_others (row_key mTx) w (monitorTx cfg e hashOf w mTx)"
      by (simp add: m safe_step_def)
  next
    case (Some q)
    with p wr have q: "etm_inv hashOf w'" "holds_row w' (fst q)" "row_key (fst q) = row_key mTx" "keeps_others (row_key mTx) w w'"
      by (simp_all add: safe_step_def)
    from safe_finishStep [OF q(1,2), of e "snd q"] q(3,4) wr Some
    show "etm_inv hashOf (monitorTx cfg e hashOf w mTx) \<and> keeps_others (row_key mTx) w (monitorTx cfg e hashOf w mTx)"
      by (cases q) (auto simp: m intro: keeps_others_trans)
  qed
qed

section \<open>Reachable states\<close>

lemma keeps_others_holds_row:
  assumes "keeps_others k w w'" "holds_row w m" "row_key m \<noteq> k"
  shows "holds_row w' m"
proof -
  from assms(2) obtain r where r: "r \<in> set (rows w)" "row_grows r m" "row_grows m r"
    by (auto simp: holds_row_def)
  then have "r \<in> set (filter (\<lambda>r. row_key r \<noteq> k) (rows w))"
    using assms(3) by (simp add: row_grows_def)
  with assms(1) have "r \<in> set (filter (\<lambda>r. row_key r \<noteq> k) (rows w'))" by (simp only: keeps_others_def)
  with r show ?thesis by (auto simp: holds_row_def)
qed

lemma keeps_others_rest:
  assumes "keeps_others (row_key m) w w'" "distinct (map row_key (m # ms))" "\<forall>x\<in>set (m # ms). holds_row w x"
  shows "\<forall>x\<in>set ms. holds_row w' x"
proof
  fix x
  assume x: "x \<in> set ms"
  then have "row_key x \<in> set (map row_key ms)" by simp
  with assms(2) have "row_key x \<noteq> row_key m" by (auto simp del: set_map)
  with x assms(3) show "holds_row w' x" by (auto intro: keeps_others_holds_row [OF assms(1)])
qed

lemma etm_inv_rows: "rows w' = rows w \<Longrightarrow> network w' = network w \<Longrightarrow> etm_inv hashOf w' = etm_inv hashOf w"
  by (simp add: etm_inv_def)

lemma etm_inv_dbFault [simp]: "etm_inv hashOf (snd (dbFault w)) = etm_inv hashOf w"
  by (rule etm_inv_rows) simp_all

lemma safe_cycle:
  assumes "etm_inv hashOf w" "distinct (map row_key ms)" "\<forall>m\<in>set ms. holds_row w m" "signs e"
  shows "etm_inv hashOf (foldl (monitorTx cfg e hashOf) w ms)"
  using assms(1-3)
proof (induction ms arbitrary: w)
  case (Cons m ms)
  note s = safe_monitorTx [OF Cons.prems(1) _ assms(4), of m cfg]
  have "\<forall>x\<in>set ms. holds_row (monitorTx cfg e hashOf w m) x"
    using keeps_others_rest [OF s(2) Cons.prems(2,3)] Cons.prems(3) by simp
  with Cons s(1) show ?case by simp
qed simp

lemma distinct_map_filter: "distinct (map f xs) \<Longrightarrow> distinct (map f (filter P xs))"
  by (induction xs) auto

lemma holds_row_self: "m \<in> set (rows w) \<Longrightarrow> holds_row w m"
  unfolding holds_row_def by (rule bexI [of _ m]) simp_all

lemma etm_inv_monitorTxs:
  assumes "etm_inv hashOf w" "signs e"
  shows "etm_inv hashOf (snd (monitorTxs cfg e hashOf w))"
proof (cases "dbFault w")
  case (Pair f w1)
  have w1: "etm_inv hashOf w1" using etm_inv_dbFault [of hashOf w] Pair assms(1) by simp
  show ?thesis
    using safe_cycle [OF w1 _ _ assms(2)] w1 Pair
    by (auto simp: monitorTxs_def storage_GetByStatus_def etm_inv_def distinct_map_filter holds_row_self simp del: set_map)
qed

lemma etm_inv_reorgLoop:
  assumes "etm_inv hashOf w" "distinct (map row_key ms)" "\<forall>m\<in>set ms. holds_row w m"
  shows "etm_inv hashOf (snd (reorgLoop w ms))"
  using assms
proof (induction ms arbitrary: w)
  case (Cons m ms)
  let ?m = "m\<lparr>mBlockNumber := None, mStatus := MonitoredTxStatusReorged\<rparr>"
  obtain ok w' where u: "storage_Update w ?m = (ok, w')" by fastforce
  have "row_grows m ?m" by (simp add: row_grows_def)
  from etm_inv_update(1) [OF Cons.prems(1) _ this] u Cons.prems(3) have inv: "etm_inv hashOf w'" by simp
  have "keeps_others (row_key m) w w'" using storage_Update_keeps_others [of ?m w] u by simp
  then have "\<forall>x\<in>set ms. holds_row w' x"
    by (rule keeps_others_rest [OF _ Cons.prems(2,3)])
  with Cons inv u show ?case by simp
qed simp

lemma etm_inv_Reorg:
  assumes "etm_inv hashOf w"
  shows "etm_inv hashOf (snd (etm_Reorg w b))"
proof (cases "dbFault w")
  case (Pair f w1)
  have w1: "etm_inv hashOf w1" using etm_inv_dbFault [of hashOf w] Pair assms by simp
  show ?thesis
    using etm_inv_reorgLoop [OF w1] w1 Pair
    by (auto simp: etm_Reorg_def storage_GetByBlock_def etm_inv_def distinct_map_filter holds_row_self simp del: set_map)
qed

lemma etm_inv_setStatusDone:
  assumes "etm_inv hashOf w"
  shows "etm_inv hashOf (snd (setStatusDone w own i))"
proof (cases "dbFault w")
  case (Pair f w1)
  have w1: "etm_inv hashOf w1" using etm_inv_dbFault [of hashOf w] Pair assms by simp
  have "etm_inv hashOf (snd (storage_Update w1 (m\<lparr>mStatus := MonitoredTxStatusDone\<rparr>)))" if "m \<in> set (rows w1)" for m
    by (rule etm_inv_update(1) [OF w1 holds_row_self [OF that]]) (simp add: row_grows_def)
  with w1 Pair show ?thesis
    by (auto simp: setStatusDone_def storage_Get_def find_Some_iff split: option.split prod.split)
      (metis nth_mem snd_conv)
qed

lemma etm_inv_Add:
  assumes "etm_inv hashOf w"
  shows "etm_inv hashOf (snd (etm_Add cfg e w own i from to value data gasOffset))"
proof -
  have "etm_inv hashOf (snd (storage_Add w m))" for m
    using assms dbFault_world [of w] by (cases "dbFault w") (auto simp: storage_Add_def etm_inv_def)
  with assms show ?thesis by (auto simp: etm_Add_def split: option.split)
qed

text \<open>
  The states the manager reaches.  Each operation meets any answers of L1 and any faults of the
  database, also none after some point, which is how a node that stops looks to its table.
\<close>

inductive etm_reach :: "(signedTx \<Rightarrow> hash32) \<Rightarrow> world \<Rightarrow> bool" for hashOf where
  start: "etm_reach hashOf \<lparr>rows = [], faults = fs, network = []\<rparr>"
| faulty: "etm_reach hashOf w \<Longrightarrow> etm_reach hashOf (w\<lparr>faults := fs\<rparr>)"
| add: "etm_reach hashOf w \<Longrightarrow> etm_reach hashOf (snd (etm_Add cfg e w own i from to value data gasOffset))"
| cycle: "etm_reach hashOf w \<Longrightarrow> signs e \<Longrightarrow> etm_reach hashOf (snd (monitorTxs cfg e hashOf w))"
| reorg: "etm_reach hashOf w \<Longrightarrow> etm_reach hashOf (snd (etm_Reorg w b))"
| owner_done: "etm_reach hashOf w \<Longrightarrow> etm_reach hashOf (snd (setStatusDone w own i))"

lemma etm_reach_inv: "etm_reach hashOf w \<Longrightarrow> etm_inv hashOf w"
proof (induction rule: etm_reach.induct)
  case (faulty w fs)
  then show ?case by (simp add: etm_inv_def)
qed (simp_all add: etm_inv_Add etm_inv_monitorTxs etm_inv_Reorg etm_inv_setStatusDone, simp add: etm_inv_def)

section \<open>When the nonce is raised\<close>

definition mined_failed :: "etherman \<Rightarrow> hash32 \<Rightarrow> bool" where
  "mined_failed e h \<longleftrightarrow> (\<exists>r. CheckTxWasMined e h = Found r \<and> rStatus r \<noteq> ReceiptStatusSuccessful)"

lemma checkHistory_none_successful:
  assumes "\<forall>h\<in>set hs. mined_failed e h \<or> CheckTxWasMined e h = LookupError"
  shows "confirmed (checkHistory e hs c) = (confirmed c \<and> (\<forall>h\<in>set hs. \<not> mined_failed e h))"
    "hasFailedReceipts (checkHistory e hs c) = (hasFailedReceipts c \<or> (\<exists>h\<in>set hs. mined_failed e h))"
    "allHistoryTxsWereMined (checkHistory e hs c) = allHistoryTxsWereMined c"
  using assms
  by (induction hs arbitrary: c) (auto simp: mined_failed_def)

lemma nonceStep_raises:
  assumes "\<forall>h\<in>set (mHistory mTx). mined_failed e h \<or> CheckTxWasMined e h = LookupError"
    and "\<exists>h\<in>set (mHistory mTx). mined_failed e h"
    and "CurrentNonce e (mFrom mTx) = Some nonce" "nonce > mNonce mTx" "faults w = []"
  obtains w' where "nonceStep e (checked e (mHistory mTx)) w mTx = (w', Some (mTx\<lparr>mNonce := nonce\<rparr>))"
    "faults w' = []" "network w' = network w" "\<not> confirmed (checked e (mHistory mTx))"
proof -
  have c: "\<not> confirmed (checked e (mHistory mTx))" "hasFailedReceipts (checked e (mHistory mTx))"
    "allHistoryTxsWereMined (checked e (mHistory mTx))"
    using checkHistory_none_successful [OF assms(1)] assms(2) by (simp_all add: checked_def)
  then show ?thesis
    using assms(3-5) that
    by (simp add: nonceStep_def reviewMonitoredTxNonce_def persist_def storage_Update_def dbFault_def)
qed

text \<open>The answers of L1 that let a transaction be reviewed, signed and sent.\<close>

definition can_send :: "Config \<Rightarrow> etherman \<Rightarrow> (signedTx \<Rightarrow> hash32) \<Rightarrow> bool" where
  "can_send cfg e hashOf \<longleftrightarrow>
     (\<forall>f t v d. EstimateGas e f t v d \<noteq> None) \<and> SuggestedGasPrice e \<noteq> None
     \<and> (\<forall>f tx. \<exists>s. SignTx e f tx = Some s \<and> GetTx e (hashOf s) = NotFound \<and> SendTx e s)"

lemma historyStep_ok:
  assumes "faults w = []"
  shows "\<exists>w' m'. historyStep w m h = (w', Some m') \<and> network w' = network w \<and> mStatus m' = mStatus m"
  using assms by (cases "h \<in> set (mHistory m)") (simp_all add: historyStep_def AddHistory_def persist_def storage_Update_def dbFault_def)

lemma sendAndWait_sends:
  assumes "can_send cfg e hashOf" "signs e" "mStatus mTx = MonitoredTxStatusSent" "faults w = []"
  shows "\<exists>tx. network (fst (sendAndWait cfg e hashOf w mTx)) = network w @ [tx] \<and> etNonce (fst tx) = mNonce mTx
     \<and> etTo (fst tx) = mTo mTx \<and> etData (fst tx) = mData mTx"
proof -
  obtain gas where "EstimateGas e (mFrom mTx) (mTo mTx) (mValue mTx) (mData mTx) = Some gas"
    using assms(1) unfolding can_send_def by blast
  moreover obtain price where "suggestedGasPrice cfg e = Some price"
    using assms(1) by (auto simp: can_send_def suggestedGasPrice_def Let_def)
  ultimately obtain w1 m1 where r: "reviewStep cfg e w mTx = (w1, Some m1)" "faults w1 = []" "network w1 = network w"
    "mNonce m1 = mNonce mTx" "mTo m1 = mTo mTx" "mData m1 = mData mTx" "mStatus m1 = MonitoredTxStatusSent"
    using assms(3,4)
    by (simp add: reviewStep_def reviewMonitoredTx_def persist_def storage_Update_def dbFault_def Let_def)
  obtain tx where tx: "SignTx e (mFrom m1) (mTx_Tx m1) = Some tx" "GetTx e (hashOf tx) = NotFound" "SendTx e tx"
    using assms(1) unfolding can_send_def by blast
  have "fst tx = mTx_Tx m1" using tx(1) assms(2) unfolding signs_def by blast
  then have fields: "etNonce (fst tx) = mNonce m1" "etTo (fst tx) = mTo m1" "etData (fst tx) = mData m1"
    by (simp_all add: mTx_Tx_def)
  obtain w2 m2 where h: "historyStep w1 m1 (hashOf tx) = (w2, Some m2)" "network w2 = network w1" "mStatus m2 = MonitoredTxStatusSent"
    using historyStep_ok [OF r(2), of m1 "hashOf tx"] r(7) by auto
  have "network (fst (sendStep e hashOf w2 m2 tx)) = network w2 @ [tx]" "\<exists>m w. sendStep e hashOf w2 m2 tx = (w, Some m)"
    using tx(2,3) h(3) by (simp_all add: sendStep_def Let_def)
  then show ?thesis
    using r h tx fields by (intro exI [of _ tx]) (auto simp: sendAndWait_def)
qed

lemma storage_Update_network [simp]: "network (snd (storage_Update w mTx)) = network w"
  by (rule storage_Update_cases [of w mTx]) simp_all

lemma finishStep_network [simp]: "network (finishStep e w mTx r) = network w"
  by (simp add: finishStep_def)

text \<open>The claim's general form, for any history without a successful and without a missing transaction.\<close>

lemma monitorTx_raises_nonce:
  assumes "\<forall>h\<in>set (mHistory mTx). mined_failed e h \<or> CheckTxWasMined e h = LookupError"
    and "\<exists>h\<in>set (mHistory mTx). mined_failed e h"
    and "CurrentNonce e (mFrom mTx) = Some nonce" "nonce > mNonce mTx" "faults w = []"
    and "can_send cfg e hashOf" "signs e" "mStatus mTx = MonitoredTxStatusSent"
  shows "\<exists>tx. network (monitorTx cfg e hashOf w mTx) = network w @ [tx] \<and> etNonce (fst tx) = nonce
     \<and> etTo (fst tx) = mTo mTx \<and> etData (fst tx) = mData mTx"
proof -
  obtain w' where w': "nonceStep e (checked e (mHistory mTx)) w mTx = (w', Some (mTx\<lparr>mNonce := nonce\<rparr>))"
    "faults w' = []" "network w' = network w" "\<not> confirmed (checked e (mHistory mTx))"
    by (rule nonceStep_raises [OF assms(1-5)])
  obtain w2 q where s: "sendAndWait cfg e hashOf w' (mTx\<lparr>mNonce := nonce\<rparr>) = (w2, q)" by fastforce
  have "network (monitorTx cfg e hashOf w mTx) = network w2"
    using w' s by (auto simp: monitorTx_def Let_def split: option.split)
  with sendAndWait_sends [OF assms(6,7), of "mTx\<lparr>mNonce := nonce\<rparr>" w'] s w' assms(8) show ?thesis by simp
qed

section \<open>A concrete run\<close>

definition sampleHash :: "signedTx \<Rightarrow> hash32" where
  "sampleHash tx = replicate 31 0 @ [ucast (etNonce (fst tx))]"

definition sampleEtherman :: etherman where
  "sampleEtherman = \<lparr>CurrentNonce = (\<lambda>_. Some 5), EstimateGas = (\<lambda>_ _ _ _. Some 21000), SuggestedGasPrice = Some 10,
     CheckTxWasMined = (\<lambda>_. NotFound), SignTx = (\<lambda>_ tx. Some (tx, [])), GetTx = (\<lambda>_. NotFound), SendTx = (\<lambda>_. True),
     WaitTxToBeMined = (\<lambda>_. Some False), GetTxReceipt = (\<lambda>_. NotFound), GetRevertMessage = (\<lambda>_. RevertNotFound)\<rparr>"

definition sampleConfig :: Config where
  "sampleConfig = \<lparr>ForcedGas = 0, GasPriceMargin = id, MaxGasPriceLimit = 0\<rparr>"

definition sampleAdded :: world where
  "sampleAdded = snd (etm_Add sampleConfig sampleEtherman \<lparr>rows = [], faults = [], network = []\<rparr>
     ''blob'' ''1'' [1] (Some [2]) None (Some [3]) 0)"

definition sampleSent :: world where
  "sampleSent = snd (monitorTxs sampleConfig sampleEtherman sampleHash sampleAdded)"

lemma sampleEtherman_signs [simp]: "signs sampleEtherman"
  by (simp add: signs_def sampleEtherman_def)

lemma sampleSent_reached: "etm_reach sampleHash sampleSent"
  unfolding sampleSent_def sampleAdded_def by (intro etm_reach.intros sampleEtherman_signs)

lemma sampleSent_network: "length (network sampleSent) = 1" "length (rows sampleSent) = 1"
  by (simp_all add: sampleSent_def sampleAdded_def sampleEtherman_def sampleConfig_def etm_Add_def suggestedGasPrice_def
      storage_Add_def dbFault_def monitorTxs_def storage_GetByStatus_def monitorTx_def checked_def nonceStep_def sendAndWait_def
      reviewStep_def historyStep_def AddHistory_def persist_def storage_Update_def sendStep_def waitStep_def scanned_def Let_def)

section \<open>Properties of sending\<close>

text \<open>
  C9: in every state the manager reaches, whatever L1 answers and whichever accesses to the database
  fail, the keys of the table are unique, and every transaction ever sent to the network belongs to a
  row of the table: its hash was stored in the history of the row, it has the recipient and data of
  the row and no higher nonce.  So no sent transaction escapes the monitoring, also not when the node
  stops right after sending.  The signer of the L1 client is assumed to sign what it is given.
\<close>

theorem sent_transactions_recorded:
  assumes "etm_reach hashOf w"
  shows "distinct (map row_key (rows w)) \<and> (\<forall>tx\<in>set (network w). \<exists>r\<in>set (rows w). sent_by hashOf tx r)"
  using etm_reach_inv [OF assms] by (simp add: etm_inv_def)

theorem sent_transactions_recorded_witness:
  "network sampleSent = [hd (network sampleSent)] \<and> rows sampleSent = [hd (rows sampleSent)]
     \<and> sent_by sampleHash (hd (network sampleSent)) (hd (rows sampleSent))"
proof -
  obtain tx r where "network sampleSent = [tx]" "rows sampleSent = [r]"
    using sampleSent_network by (metis length_0_conv length_Suc_conv One_nat_def)
  then show ?thesis
    using sent_transactions_recorded [OF sampleSent_reached] by simp
qed

text \<open>
  The receipt of one transaction of the history cannot be asked for, the other one was mined and
  failed.
\<close>

definition halfAnswering :: etherman where
  "halfAnswering = sampleEtherman\<lparr>CurrentNonce := (\<lambda>_. Some 6),
     CheckTxWasMined := (\<lambda>h. if h = [1] then LookupError else Found \<lparr>rStatus = 0, rTxHash = h, rBlockNumber = Some 7\<rparr>)\<rparr>"

definition sampleRow :: monitoredTx where
  "sampleRow = \<lparr>mOwner = ''blob'', mId = ''1'', mFrom = [1], mTo = Some [2], mNonce = 5, mValue = None, mData = Some [3],
     mGas = 21000, mGasOffset = 0, mGasPrice = 10, mStatus = MonitoredTxStatusSent, mBlockNumber = None, mHistory = [[1], [2]]\<rparr>"



end
