(* ===== verification/EthTxResults.thy ===== *)
theory EthTxResults
  imports EthTxManager
begin

text \<open>
  The owners of monitored transactions wait for their results (\<open>ResultsByStatus\<close>, \<open>Result\<close> and
  \<open>ProcessPendingMonitoredTxs\<close> of \<open>ethtxmanager/ethtxmanager.go\<close>).
\<close>

section \<open>Waiting for results\<close>

record TxResult =
  trTx :: "signedTx option"
  trReceipt :: "receipt option"
  trRevertMessage :: string

record MonitoredTxResult =
  resID :: string
  resStatus :: MonitoredTxStatus
  resTxs :: "(hash32 \<times> TxResult) list"

definition found_or_nil :: "'a lookup \<Rightarrow> etm_error + 'a option" where
  "found_or_nil l = (case l of Found x \<Rightarrow> Inr (Some x) | NotFound \<Rightarrow> Inr None | LookupError \<Rightarrow> Inl ErrEtherman)"

fun resultTxs :: "etherman \<Rightarrow> hash32 list \<Rightarrow> etm_error + (hash32 \<times> TxResult) list" where
  "resultTxs e [] = Inr []"
| "resultTxs e (h # hs) =
     (case (found_or_nil (GetTx e h), found_or_nil (GetTxReceipt e h)) of
        (Inr tx, Inr r) \<Rightarrow>
          (case GetRevertMessage e tx of
             RevertError \<Rightarrow> Inl ErrEtherman
           | rm \<Rightarrow>
               (case resultTxs e hs of
                  Inl err \<Rightarrow> Inl err
                | Inr txs \<Rightarrow>
                    Inr ((h, \<lparr>trTx = tx, trReceipt = r,
                             trRevertMessage = (case rm of RevertMessage m \<Rightarrow> m | _ \<Rightarrow> [])\<rparr>) # txs)))
      | _ \<Rightarrow> Inl ErrEtherman)"

definition buildResult :: "etherman \<Rightarrow> monitoredTx \<Rightarrow> etm_error + MonitoredTxResult" where
  "buildResult e mTx =
     (case resultTxs e (mHistory mTx) of
        Inl err \<Rightarrow> Inl err
      | Inr txs \<Rightarrow> Inr \<lparr>resID = mId mTx, resStatus = mStatus mTx, resTxs = txs\<rparr>)"

fun buildResults :: "etherman \<Rightarrow> monitoredTx list \<Rightarrow> etm_error + MonitoredTxResult list" where
  "buildResults e [] = Inr []"
| "buildResults e (m # ms) =
     (case buildResult e m of
        Inl err \<Rightarrow> Inl err
      | Inr r \<Rightarrow> (case buildResults e ms of Inl err \<Rightarrow> Inl err | Inr rs \<Rightarrow> Inr (r # rs)))"

definition ResultsByStatus ::
  "etherman \<Rightarrow> world \<Rightarrow> string \<Rightarrow> MonitoredTxStatus list \<Rightarrow> (etm_error + MonitoredTxResult list) \<times> world" where
  "ResultsByStatus e w own statuses =
     (case storage_GetByStatus w (Some own) statuses of
        (Inl err, w) \<Rightarrow> (Inl err, w)
      | (Inr ms, w) \<Rightarrow> (buildResults e ms, w))"

definition etm_Result :: "etherman \<Rightarrow> world \<Rightarrow> string \<Rightarrow> string \<Rightarrow> (etm_error + MonitoredTxResult) \<times> world" where
  "etm_Result e w own i =
     (case storage_Get w own i of
        (Inl err, w) \<Rightarrow> (Inl err, w)
      | (Inr m, w) \<Rightarrow> (buildResult e m, w))"

text \<open>
  While an owner waits, the rest of the node works on the table.  The environment is a list with one
  element for each reading of the table: what happens to the table before it, and the answers of L1.
  When the list is used up before the wait is over, the owner still waits: the first component of the
  result is false.  The last component lists the calls of the owner's handler.
\<close>

type_synonym surroundings = "((world \<Rightarrow> world) \<times> etherman) list"

fun waitLoop :: "surroundings \<Rightarrow> world \<Rightarrow> string \<Rightarrow> string \<Rightarrow> bool \<times> world \<times> surroundings" where
  "waitLoop [] w own i = (False, w, [])"
| "waitLoop ((act, e) # env) w own i =
     (case etm_Result e (act w) own i of
        (Inl err, w) \<Rightarrow> waitLoop env w own i
      | (Inr r, w) \<Rightarrow>
          if resStatus r = MonitoredTxStatusConfirmed \<or> resStatus r = MonitoredTxStatusFailed then (True, w, env)
          else waitLoop env w own i)"

fun handleResults ::
  "string \<Rightarrow> MonitoredTxResult list \<Rightarrow> world \<Rightarrow> surroundings \<Rightarrow> MonitoredTxResult list
     \<Rightarrow> bool \<times> world \<times> surroundings \<times> MonitoredTxResult list" where
  "handleResults own [] w env calls = (True, w, env, calls)"
| "handleResults own (r # rs) w env calls =
     (if resStatus r = MonitoredTxStatusConfirmed then
        (case setStatusDone w own (resID r) of
           (Some err, w) \<Rightarrow> handleResults own rs w env calls
         | (None, w) \<Rightarrow> handleResults own rs w env (calls @ [r]))
      else if resStatus r = MonitoredTxStatusFailed then handleResults own rs w env (calls @ [r])
      else
        (case waitLoop env w own (resID r) of
           (ok, w, env) \<Rightarrow> if ok then handleResults own rs w env calls else (False, w, env, calls)))"

lemma waitLoop_length: "waitLoop env w own i = (ok, w', env') \<Longrightarrow> length env' \<le> length env"
  by (induction env w own i rule: waitLoop.induct) (fastforce split: prod.splits sum.splits if_splits)+

lemma handleResults_length: "handleResults own rs w env calls = (ok, w', env', calls') \<Longrightarrow> length env' \<le> length env"
proof (induction rs arbitrary: w env calls)
  case (Cons r rs)
  obtain err w1 where d: "setStatusDone w own (resID r) = (err, w1)" by fastforce
  obtain ok2 w2 env2 where l: "waitLoop env w own (resID r) = (ok2, w2, env2)" by (cases "waitLoop env w own (resID r)")
  from waitLoop_length [OF l] Cons.IH [of w2 env2 calls] Cons.IH [of w1 env calls] Cons.IH [of w1 env "calls @ [r]"]
    Cons.IH [of w env "calls @ [r]"] Cons.prems
  show ?case
    by (cases err) (simp_all add: d l split: if_splits)
qed simp

definition pendingStatuses :: "MonitoredTxStatus list" where
  "pendingStatuses = [MonitoredTxStatusCreated, MonitoredTxStatusSent, MonitoredTxStatusFailed, MonitoredTxStatusConfirmed,
     MonitoredTxStatusReorged]"

function ProcessPendingMonitoredTxs ::
  "string \<Rightarrow> world \<Rightarrow> surroundings \<Rightarrow> MonitoredTxResult list \<Rightarrow> bool \<times> world \<times> MonitoredTxResult list" where
  "ProcessPendingMonitoredTxs own w [] calls = (False, w, calls)"
| "ProcessPendingMonitoredTxs own w ((act, e) # env) calls =
     (case ResultsByStatus e (act w) own pendingStatuses of
        (Inl err, w) \<Rightarrow> ProcessPendingMonitoredTxs own w env calls
      | (Inr rs, w) \<Rightarrow>
          if length rs = 0 then (True, w, calls)
          else (case handleResults own rs w env calls of
                  (ok, w, env, calls) \<Rightarrow>
                    if ok then ProcessPendingMonitoredTxs own w env calls else (False, w, calls)))"
  by pat_completeness auto
termination
  by (relation "measure (\<lambda>(own, w, env, calls). length env)") (auto dest!: handleResults_length [OF sym])

section \<open>What the wait of an owner relies on\<close>

text \<open>A cycle does not set the status of a row to done, and it keeps every key.\<close>

definition undone :: "world \<Rightarrow> world \<Rightarrow> bool" where
  "undone w w' \<longleftrightarrow> (\<forall>r\<in>set (rows w'). mStatus r = MonitoredTxStatusDone \<longrightarrow> r \<in> set (rows w))
     \<and> map row_key (rows w') = map row_key (rows w)"

lemma undone_refl [simp]: "undone w w"
  by (simp add: undone_def)

lemma undone_rows: "rows w' = rows w \<Longrightarrow> undone w w'"
  by (simp add: undone_def)

lemma undone_trans: "undone w1 w2 \<Longrightarrow> undone w2 w3 \<Longrightarrow> undone w1 w3"
  by (simp add: undone_def)

definition undone_step :: "world \<Rightarrow> world \<times> monitoredTx option \<Rightarrow> bool" where
  "undone_step w p \<longleftrightarrow> undone w (fst p) \<and> (case snd p of None \<Rightarrow> True | Some m \<Rightarrow> mStatus m \<noteq> MonitoredTxStatusDone)"

lemma undone_update: "mStatus m \<noteq> MonitoredTxStatusDone \<Longrightarrow> undone w (snd (storage_Update w m))"
  by (rule storage_Update_cases [of w m]) (auto simp: undone_def)

lemma undone_persist:
  assumes "\<And>m. r = Inr m \<Longrightarrow> mStatus m \<noteq> MonitoredTxStatusDone"
  shows "undone_step w (persist w r)"
proof (cases r)
  case (Inr m)
  with assms undone_update [of m w] show ?thesis
    by (cases "storage_Update w m") (simp add: undone_step_def persist_def)
qed (simp add: undone_step_def persist_def)

lemma undone_then:
  assumes "undone_step w p" "\<And>w' m. mStatus m \<noteq> MonitoredTxStatusDone \<Longrightarrow> undone w' (fst (f w' m))"
  shows "undone w (fst (step_then p f))"
proof (cases p)
  case (Pair w' r)
  with assms show ?thesis by (cases r) (auto simp: undone_step_def intro: undone_trans)
qed

lemma undone_steps:
  assumes "mStatus m \<noteq> MonitoredTxStatusDone"
  shows "undone_step w (nonceStep e c w m)" "undone_step w (reviewStep cfg e w m)" "undone_step w (historyStep w m h)"
    "undone_step w (sendStep e hashOf w m tx)"
proof -
  have stay: "undone_step w (w, None)" "undone_step w (w, Some m)" using assms by (simp_all add: undone_step_def)
  show "undone_step w (nonceStep e c w m)"
    using stay assms by (auto simp: nonceStep_def reviewMonitoredTxNonce_def intro!: undone_persist split: option.splits)
  show "undone_step w (reviewStep cfg e w m)"
    using stay assms by (auto simp: reviewStep_def reviewMonitoredTx_def Let_def intro!: undone_persist split: option.splits)
  show "undone_step w (historyStep w m h)"
    using stay assms by (auto simp: historyStep_def AddHistory_def intro!: undone_persist)
  let ?w = "w\<lparr>network := network w @ [tx]\<rparr>"
  have "undone_step w p" if "undone_step ?w p" for p using that by (auto simp: undone_step_def undone_def)
  moreover have "undone_step ?w (persist ?w (Inr (m\<lparr>mStatus := MonitoredTxStatusSent\<rparr>)))" by (rule undone_persist) auto
  moreover have "undone_step ?w (?w, Some m)" using assms by (simp add: undone_step_def)
  ultimately show "undone_step w (sendStep e hashOf w m tx)"
    using stay by (simp add: sendStep_def Let_def split: lookup.split)
qed

lemma undone_monitorTx:
  assumes "mStatus m \<noteq> MonitoredTxStatusDone"
  shows "undone w (monitorTx cfg e hashOf w m)"
proof -
  have send: "undone w (fst (sendAndWait cfg e hashOf w m))" if "mStatus m \<noteq> MonitoredTxStatusDone" for w m
    unfolding sendAndWait_def
    by (rule undone_then [OF undone_steps(2) [OF that]])
      (auto intro!: undone_then undone_steps split: option.split)
  define c where "c = checked e (mHistory m)"
  define p where "p = step_then (nonceStep e c w m)
    (\<lambda>w m. if \<not> confirmed c then sendAndWait cfg e hashOf w m else (w, Some (m, lastReceiptChecked c)))"
  have p: "undone w (fst p)"
    unfolding p_def by (rule undone_then [OF undone_steps(1) [OF assms]]) (simp add: send)
  have finish: "undone w' (finishStep e w' m' r)" for w' m' r
    by (auto simp: finishStep_def intro: undone_update)
  have "monitorTx cfg e hashOf w m = (case p of (w, None) \<Rightarrow> w | (w, Some (mTx, r)) \<Rightarrow> finishStep e w mTx r)"
    unfolding monitorTx_def Let_def p_def c_def ..
  with p show ?thesis
    by (auto split: prod.split option.split intro: undone_trans [OF _ finish])
qed

lemma undone_cycle:
  "\<forall>m\<in>set ms. mStatus m \<noteq> MonitoredTxStatusDone \<Longrightarrow> undone w (foldl (monitorTx cfg e hashOf) w ms)"
proof (induction ms arbitrary: w)
  case (Cons m ms)
  then have "undone w (monitorTx cfg e hashOf w m)" by (intro undone_monitorTx) simp
  with Cons show ?case by (auto intro: undone_trans)
qed simp

lemma undone_monitorTxs: "undone w (snd (monitorTxs cfg e hashOf w))"
proof (cases "dbFault w")
  case (Pair f w1)
  then have "undone w w1" using dbFault_world(1) [of w] by (simp add: undone_rows)
  with Pair show ?thesis
    by (auto simp: monitorTxs_def storage_GetByStatus_def intro!: undone_trans [OF _ undone_cycle])
qed

text \<open>Rows that a cycle does not touch.\<close>

definition settled :: "monitoredTx \<Rightarrow> bool" where
  "settled r \<longleftrightarrow> mStatus r \<in> {MonitoredTxStatusFailed, MonitoredTxStatusConfirmed, MonitoredTxStatusDone}"

lemma keeps_others_row: "keeps_others k w w' \<Longrightarrow> r \<in> set (rows w) \<Longrightarrow> row_key r \<noteq> k \<Longrightarrow> r \<in> set (rows w')"
proof -
  assume k: "keeps_others k w w'" and "r \<in> set (rows w)" "row_key r \<noteq> k"
  then have "r \<in> set (filter (\<lambda>r. row_key r \<noteq> k) (rows w))" by simp
  with k have "r \<in> set (filter (\<lambda>r. row_key r \<noteq> k) (rows w'))" by (simp only: keeps_others_def)
  then show ?thesis by simp
qed

lemma cycle_keeps_row:
  assumes "etm_inv hashOf w" "distinct (map row_key ms)" "\<forall>m\<in>set ms. holds_row w m" "signs e"
    and "r \<in> set (rows w)" "\<forall>m\<in>set ms. row_key m \<noteq> row_key r"
  shows "r \<in> set (rows (foldl (monitorTx cfg e hashOf) w ms))"
  using assms(1-3,5,6)
proof (induction ms arbitrary: w)
  case (Cons m ms)
  note s = safe_monitorTx [OF Cons.prems(1) _ assms(4), of m cfg]
  have "\<forall>x\<in>set ms. holds_row (monitorTx cfg e hashOf w m) x"
    using keeps_others_rest [OF s(2) Cons.prems(2,3)] Cons.prems(3) by simp
  moreover have "r \<in> set (rows (monitorTx cfg e hashOf w m))"
    using keeps_others_row [OF s(2) Cons.prems(4)] Cons.prems(3,5) by force
  ultimately show ?case using Cons s(1) by simp
qed simp

lemma same_key_same_row:
  assumes "etm_inv hashOf w" "a \<in> set (rows w)" "b \<in> set (rows w)" "row_key a = row_key b"
  shows "a = b"
  using assms inj_onD [of row_key "set (rows w)" a b] by (simp add: etm_inv_def distinct_map)

lemma monitorTxs_keeps_settled:
  assumes "etm_inv hashOf w" "signs e" "r \<in> set (rows w)" "settled r"
  shows "r \<in> set (rows (snd (monitorTxs cfg e hashOf w)))"
proof (cases "dbFault w")
  case (Pair f w1)
  have w1: "etm_inv hashOf w1" "rows w1 = rows w"
    using etm_inv_dbFault [of hashOf w] dbFault_world [of w] Pair assms(1) by simp_all
  define ms where "ms = filter (\<lambda>r. mStatus r = MonitoredTxStatusCreated \<or> mStatus r = MonitoredTxStatusSent
    \<or> mStatus r = MonitoredTxStatusReorged) (rows w1)"
  have "row_key m \<noteq> row_key r" if "m \<in> set ms" for m
    using same_key_same_row [OF assms(1), of m r] assms(3,4) that by (auto simp: ms_def w1(2) settled_def)
  then have "\<forall>m\<in>set ms. row_key m \<noteq> row_key r" by blast
  moreover have "distinct (map row_key ms)" "\<forall>m\<in>set ms. holds_row w1 m"
    using w1(1) by (auto simp: ms_def etm_inv_def distinct_map_filter holds_row_self simp del: set_map)
  ultimately have "r \<in> set (rows (foldl (monitorTx cfg e hashOf) w1 ms))"
    using cycle_keeps_row [OF w1(1) _ _ assms(2)] assms(3) w1(2) by simp
  then show ?thesis
    using assms(3) w1(2) Pair by (simp add: monitorTxs_def storage_GetByStatus_def ms_def)
qed

text \<open>An environment in which the manager goes on with its cycles.\<close>

definition cycles :: "(signedTx \<Rightarrow> hash32) \<Rightarrow> surroundings \<Rightarrow> bool" where
  "cycles hashOf env \<longleftrightarrow> (\<forall>(act, e)\<in>set env. \<exists>cfg e'. signs e' \<and> act = (\<lambda>w. snd (monitorTxs cfg e' hashOf w)))"

definition evolves :: "(signedTx \<Rightarrow> hash32) \<Rightarrow> world \<Rightarrow> world \<Rightarrow> bool" where
  "evolves hashOf w w' \<longleftrightarrow> etm_inv hashOf w' \<and> undone w w' \<and> (\<forall>r\<in>set (rows w). settled r \<longrightarrow> r \<in> set (rows w'))"

lemma evolves_trans: "evolves hashOf w1 w2 \<Longrightarrow> evolves hashOf w2 w3 \<Longrightarrow> evolves hashOf w1 w3"
  by (auto simp: evolves_def intro: undone_trans)

lemma evolves_rows: "etm_inv hashOf w \<Longrightarrow> rows w' = rows w \<Longrightarrow> network w' = network w \<Longrightarrow> evolves hashOf w w'"
  by (simp add: evolves_def etm_inv_def undone_rows)

lemma cycles_Cons:
  assumes "cycles hashOf ((act, e) # env)" "etm_inv hashOf w"
  shows "evolves hashOf w (act w)" "cycles hashOf env"
  using assms etm_inv_monitorTxs monitorTxs_keeps_settled undone_monitorTxs by (auto simp: cycles_def evolves_def)

lemma storage_Get_world: "storage_Get w own i = (r, w') \<Longrightarrow> rows w' = rows w \<and> network w' = network w"
  using dbFault_world [of w] by (cases "dbFault w") (auto simp: storage_Get_def)

lemma etm_Result_world: "etm_Result e w own i = (r, w') \<Longrightarrow> rows w' = rows w \<and> network w' = network w"
  by (auto simp: etm_Result_def split: prod.splits sum.splits dest: storage_Get_world)

lemma waitLoop_evolves:
  assumes "waitLoop env w own i = (ok, w', env')" "cycles hashOf env" "etm_inv hashOf w"
  shows "evolves hashOf w w' \<and> cycles hashOf env'"
  using assms
proof (induction env w own i rule: waitLoop.induct)
  case (1 w own i)
  then show ?case by (simp add: evolves_def)
next
  case (2 act e env w own i)
  note c = cycles_Cons [OF 2(4,5)]
  obtain r w1 where res: "etm_Result e (act w) own i = (r, w1)" by fastforce
  have inv: "etm_inv hashOf (act w)" using c(1) by (simp add: evolves_def)
  have w1: "evolves hashOf w w1"
    using evolves_trans [OF c(1) evolves_rows [OF inv]] etm_Result_world [OF res] by simp
  then have inv1: "etm_inv hashOf w1" by (simp add: evolves_def)
  show ?case
  proof (cases r)
    case (Inl err)
    with 2(1) [OF res [symmetric] Inl] 2(3) c(2) inv1 w1 res show ?thesis by (auto intro: evolves_trans)
  next
    case (Inr x)
    with 2(2) [OF res [symmetric] Inr] 2(3) c(2) inv1 w1 res show ?thesis
      by (auto intro: evolves_trans split: if_splits)
  qed
qed

lemma storage_Update_result:
  "storage_Update w m = (False, w') \<Longrightarrow> rows w' = rows w"
  "storage_Update w m = (True, w') \<Longrightarrow> rows w' = map (\<lambda>r. if row_key r = row_key m then scanned m else r) (rows w)"
  by (rule storage_Update_cases [of w m]; simp)+

lemma setStatusDone_effect:
  assumes "etm_inv hashOf w" "r \<in> set (rows w)" "row_key r = (own, i)" "setStatusDone w own i = (err, w')"
  shows "etm_inv hashOf w'" "keeps_others (own, i) w w'"
    "err = None \<Longrightarrow> \<exists>x\<in>set (rows w'). row_key x = (own, i) \<and> mStatus x = MonitoredTxStatusDone"
    "err \<noteq> None \<Longrightarrow> rows w' = rows w"
proof -
  show "etm_inv hashOf w'" using etm_inv_setStatusDone [OF assms(1), of own i] assms(4) by simp
  obtain g w1 where g: "storage_Get w own i = (g, w1)" by fastforce
  note w1 = storage_Get_world [OF g]
  let ?r = "\<lambda>m. m\<lparr>mStatus := MonitoredTxStatusDone\<rparr>"
  have "err \<noteq> None \<and> rows w' = rows w \<or> (\<exists>m ok. row_key m = (own, i) \<and> storage_Update w1 (?r m) = (ok, w') \<and> (ok \<longleftrightarrow> err = None))"
  proof (cases g)
    case (Inl e)
    with assms(4) g w1 show ?thesis by (auto simp: setStatusDone_def)
  next
    case (Inr m)
    then have "row_key m = (own, i)"
      using g by (auto simp: storage_Get_def find_Some_iff split: prod.splits option.splits if_splits)
    with Inr assms(4) g show ?thesis
      by (cases "storage_Update w1 (?r m)") (auto simp: setStatusDone_def split: if_splits)
  qed
  then consider (err) "err \<noteq> None" "rows w' = rows w" | (upd) m ok where "row_key m = (own, i)"
    "storage_Update w1 (?r m) = (ok, w')" "ok \<longleftrightarrow> err = None" by blast
  then show "keeps_others (own, i) w w'"
  proof cases
    case upd
    from storage_Update_keeps_others [of "?r m" w1] upd w1 show ?thesis by (simp add: keeps_others_def)
  qed (simp add: keeps_others_def)
  show "rows w' = rows w" if "err \<noteq> None"
  proof -
    from \<open>err \<noteq> None \<and> _ \<or> _\<close> that have "rows w' = rows w \<or> (\<exists>m. storage_Update w1 (?r m) = (False, w'))" by auto
    with storage_Update_result(1) w1 show ?thesis by metis
  qed
  show "\<exists>x\<in>set (rows w'). row_key x = (own, i) \<and> mStatus x = MonitoredTxStatusDone" if "err = None"
  proof -
    from \<open>err \<noteq> None \<and> _ \<or> _\<close> that obtain m where m: "row_key m = (own, i)" "storage_Update w1 (?r m) = (True, w')" by auto
    then have "rows w' = map (\<lambda>x. if row_key x = (own, i) then scanned (?r m) else x) (rows w)"
      using w1 storage_Update_result(2) [OF m(2)] by simp
    then show ?thesis using assms(2,3) m(1) by (auto intro!: bexI [of _ "scanned (?r m)"] rev_image_eqI [OF assms(2)])
  qed
qed

lemma buildResult_fields: "buildResult e m = Inr r \<Longrightarrow> resID r = mId m \<and> resStatus r = mStatus m"
  by (auto simp: buildResult_def split: sum.splits)

lemma buildResults_fields:
  "buildResults e ms = Inr rs \<Longrightarrow> map (\<lambda>r. (resID r, resStatus r)) rs = map (\<lambda>m. (mId m, mStatus m)) ms"
  by (induction ms arbitrary: rs) (auto split: sum.splits dest: buildResult_fields)

text \<open>
  The results of one reading that are still to be handled: each id once, and the row of a confirmed
  one is confirmed.
\<close>

definition fresh_results :: "string \<Rightarrow> world \<Rightarrow> MonitoredTxResult list \<Rightarrow> bool" where
  "fresh_results own w rs \<longleftrightarrow> distinct (map resID rs)
     \<and> (\<forall>c\<in>set rs. resStatus c = MonitoredTxStatusConfirmed \<longrightarrow>
          (\<exists>r\<in>set (rows w). row_key r = (own, resID c) \<and> mStatus r = MonitoredTxStatusConfirmed))"

definition confirmed_calls :: "MonitoredTxResult list \<Rightarrow> MonitoredTxResult list" where
  "confirmed_calls calls = filter (\<lambda>c. resStatus c = MonitoredTxStatusConfirmed) calls"

text \<open>
  What holds between the table \<open>w0\<close> at the start of the wait, the table now and the calls made: the ids
  handed as confirmed are distinct, their rows are done now and were not at the start, the rows done
  at the start are still there, and every row done now was done at the start or handed.
\<close>

definition calls_ok :: "string \<Rightarrow> world \<Rightarrow> world \<Rightarrow> MonitoredTxResult list \<Rightarrow> bool" where
  "calls_ok own w0 w calls \<longleftrightarrow> distinct (map resID (confirmed_calls calls))
     \<and> (\<forall>c\<in>set (confirmed_calls calls). \<exists>r\<in>set (rows w). row_key r = (own, resID c) \<and> mStatus r = MonitoredTxStatusDone)
     \<and> (\<forall>c\<in>set (confirmed_calls calls). \<forall>r\<in>set (rows w0). row_key r = (own, resID c) \<longrightarrow> mStatus r \<noteq> MonitoredTxStatusDone)
     \<and> (\<forall>r\<in>set (rows w0). mStatus r = MonitoredTxStatusDone \<longrightarrow> r \<in> set (rows w))
     \<and> (\<forall>r\<in>set (rows w). mOwner r = own \<and> mStatus r = MonitoredTxStatusDone \<longrightarrow>
          r \<in> set (rows w0) \<or> mId r \<in> resID ` set (confirmed_calls calls))
     \<and> map row_key (rows w) = map row_key (rows w0)"

lemma evolves_fresh: "evolves hashOf w w' \<Longrightarrow> fresh_results own w rs \<Longrightarrow> fresh_results own w' rs"
  unfolding evolves_def fresh_results_def settled_def by blast

lemma calls_okD:
  assumes "calls_ok own w0 w calls"
  shows "distinct (map resID (confirmed_calls calls))"
    "c \<in> set (confirmed_calls calls) \<Longrightarrow> \<exists>r\<in>set (rows w). row_key r = (own, resID c) \<and> mStatus r = MonitoredTxStatusDone"
    "c \<in> set (confirmed_calls calls) \<Longrightarrow> r \<in> set (rows w0) \<Longrightarrow> row_key r = (own, resID c) \<Longrightarrow> mStatus r \<noteq> MonitoredTxStatusDone"
    "r \<in> set (rows w0) \<Longrightarrow> mStatus r = MonitoredTxStatusDone \<Longrightarrow> r \<in> set (rows w)"
    "r \<in> set (rows w) \<Longrightarrow> mOwner r = own \<Longrightarrow> mStatus r = MonitoredTxStatusDone \<Longrightarrow>
       r \<in> set (rows w0) \<or> mId r \<in> resID ` set (confirmed_calls calls)"
    "map row_key (rows w) = map row_key (rows w0)"
  using assms unfolding calls_ok_def by blast+

lemma evolves_calls:
  assumes "evolves hashOf w w'" "calls_ok own w0 w cs"
  shows "calls_ok own w0 w' cs"
proof -
  have keep: "r \<in> set (rows w')" if "r \<in> set (rows w)" "mStatus r = MonitoredTxStatusDone" for r
    using assms(1) that by (simp add: evolves_def settled_def)
  have new: "r \<in> set (rows w)" if "r \<in> set (rows w')" "mStatus r = MonitoredTxStatusDone" for r
    using assms(1) that by (simp add: evolves_def undone_def)
  have "map row_key (rows w') = map row_key (rows w)"
    using assms(1) by (simp add: evolves_def undone_def)
  note c = calls_okD [OF assms(2)] and keys = this
  show ?thesis
    unfolding calls_ok_def
    using c(1,3,6) keys keep [OF c(4)] c(5) [OF new] by (auto dest!: c(2) intro: keep)
qed


lemma keeps_others_sym: "keeps_others k w w' \<Longrightarrow> keeps_others k w' w"
  by (simp add: keeps_others_def)

lemma done_step:
  assumes inv: "etm_inv hashOf w" and fresh: "fresh_results own w (c # rs)" and ok: "calls_ok own w0 w calls"
    and c: "resStatus c = MonitoredTxStatusConfirmed" and d: "setStatusDone w own (resID c) = (err, w')"
  shows "etm_inv hashOf w'" "fresh_results own w' rs" "calls_ok own w0 w' (if err = None then calls @ [c] else calls)"
proof -
  obtain r where r: "r \<in> set (rows w)" "row_key r = (own, resID c)" "mStatus r = MonitoredTxStatusConfirmed"
    using fresh c by (auto simp: fresh_results_def)
  note e = setStatusDone_effect [OF inv r(1,2) d]
  show "etm_inv hashOf w'" by (rule e(1))
  note kept = keeps_others_row [OF e(2)]
  note origin = keeps_others_row [OF keeps_others_sym [OF e(2)]]
  have others: "\<forall>x\<in>set rs. resID x \<noteq> resID c" using fresh unfolding fresh_results_def
    by (metis distinct.simps(2) image_eqI list.set_map list.simps(9))
  show "fresh_results own w' rs"
    using fresh others kept unfolding fresh_results_def by (metis distinct.simps(2) list.simps(9) list.set_intros(2) prod.inject)
  note old = calls_okD [OF ok]
  have mine: "x = r" if "x \<in> set (rows w)" "row_key x = (own, resID c)" for x
    using same_key_same_row [OF inv that(1) r(1)] that(2) r(2) by simp
  have live: "row_key x \<noteq> (own, resID c)" if "x \<in> set (rows w)" "mStatus x = MonitoredTxStatusDone" for x
    using mine [OF that(1)] that(2) r(3) by auto
  have new: "resID c \<noteq> resID x" if "x \<in> set (confirmed_calls calls)" for x
    using old(2) [OF that] live by auto
  show "calls_ok own w0 w' (if err = None then calls @ [c] else calls)"
  proof (cases "err = None")
    case True
    have cc: "confirmed_calls (calls @ [c]) = confirmed_calls calls @ [c]" using c by (simp add: confirmed_calls_def)
    have k1: "\<exists>q\<in>set (rows w'). row_key q = (own, resID x) \<and> mStatus q = MonitoredTxStatusDone"
      if "x \<in> set (confirmed_calls calls)" for x
      using old(2) [OF that] live kept by blast
    have k2: "mStatus q \<noteq> MonitoredTxStatusDone" if "q \<in> set (rows w0)" "row_key q = (own, resID c)" for q
      using old(4) [OF that(1)] live that(2) by auto
    have k3: "q \<in> set (rows w')" if "q \<in> set (rows w0)" "mStatus q = MonitoredTxStatusDone" for q
      using old(4) [OF that] live [OF old(4) [OF that] that(2)] kept by blast
    have k4: "q \<in> set (rows w0) \<or> mId q \<in> resID ` set (confirmed_calls calls) \<or> mId q = resID c"
      if "q \<in> set (rows w')" "mOwner q = own" "mStatus q = MonitoredTxStatusDone" for q
    proof (cases "row_key q = (own, resID c)")
      case False
      with origin [OF that(1)] old(5) that show ?thesis by blast
    qed (simp add: row_key_def)
    have "map row_key (rows w') = map row_key (rows w0)" using e(2) old(6) by (simp add: keeps_others_def)
    moreover have "\<forall>q\<in>set (rows w'). mOwner q = own \<and> mStatus q = MonitoredTxStatusDone \<longrightarrow>
        q \<in> set (rows w0) \<or> mId q \<in> resID ` set (confirmed_calls (calls @ [c]))"
      using k4 by (simp add: cc) blast
    moreover have "distinct (map resID (confirmed_calls (calls @ [c])))"
      using old(1) new by (auto simp: cc)
    moreover have "\<forall>x\<in>set (confirmed_calls (calls @ [c])). \<exists>q\<in>set (rows w'). row_key q = (own, resID x) \<and> mStatus q = MonitoredTxStatusDone"
      using k1 e(3) [OF True] by (simp add: cc ball_Un)
    moreover have "\<forall>x\<in>set (confirmed_calls (calls @ [c])). \<forall>q\<in>set (rows w0). row_key q = (own, resID x) \<longrightarrow> mStatus q \<noteq> MonitoredTxStatusDone"
      using old(3) k2 by (simp add: cc ball_Un)
    ultimately show ?thesis
      unfolding calls_ok_def if_P [OF True] using k3 by blast
  next
    case False
    with e(4) ok show ?thesis unfolding if_not_P [OF False] calls_ok_def by simp
  qed
qed

lemma fresh_tail: "fresh_results own w (c # rs) \<Longrightarrow> fresh_results own w rs"
  by (simp add: fresh_results_def)

lemma calls_ok_failed: "calls_ok own w0 w calls \<Longrightarrow> resStatus c \<noteq> MonitoredTxStatusConfirmed \<Longrightarrow> calls_ok own w0 w (calls @ [c])"
  by (simp add: calls_ok_def confirmed_calls_def)

lemma handleResults_ok:
  assumes "handleResults own rs w env calls = (ok, w', env', calls')" "cycles hashOf env" "etm_inv hashOf w"
    "fresh_results own w rs" "calls_ok own w0 w calls"
  shows "cycles hashOf env' \<and> etm_inv hashOf w' \<and> calls_ok own w0 w' calls'"
  using assms
proof (induction rs arbitrary: w env calls)
  case (Cons c rs)
  obtain err w1 where d: "setStatusDone w own (resID c) = (err, w1)" by fastforce
  obtain ok2 w2 env2 where l: "waitLoop env w own (resID c) = (ok2, w2, env2)" by (cases "waitLoop env w own (resID c)")
  consider (conf) "resStatus c = MonitoredTxStatusConfirmed" | (failed) "resStatus c = MonitoredTxStatusFailed"
    | (wait) "resStatus c \<noteq> MonitoredTxStatusConfirmed" "resStatus c \<noteq> MonitoredTxStatusFailed" by blast
  then show ?case
  proof cases
    case conf
    note s = done_step [OF Cons.prems(3-5) conf d]
    from conf Cons.prems(1) d have "handleResults own rs w1 env (if err = None then calls @ [c] else calls) = (ok, w', env', calls')"
      by (cases err) simp_all
    from Cons.IH [OF this Cons.prems(2) s] show ?thesis .
  next
    case failed
    then have "handleResults own rs w env (calls @ [c]) = (ok, w', env', calls')" using Cons.prems(1) by simp
    from Cons.IH [OF this Cons.prems(2,3) fresh_tail [OF Cons.prems(4)] calls_ok_failed [OF Cons.prems(5)]] failed
    show ?thesis by simp
  next
    case wait
    from waitLoop_evolves [OF l Cons.prems(2,3)] have e: "evolves hashOf w w2" "cycles hashOf env2" by simp_all
    then have inv: "etm_inv hashOf w2" by (simp add: evolves_def)
    show ?thesis
    proof (cases ok2)
      case True
      then have "handleResults own rs w2 env2 calls = (ok, w', env', calls')" using Cons.prems(1) wait l by simp
      from Cons.IH [OF this e(2) inv evolves_fresh [OF e(1) fresh_tail [OF Cons.prems(4)]] evolves_calls [OF e(1) Cons.prems(5)]]
      show ?thesis .
    next
      case False
      then have "w' = w2" "env' = env2" "calls' = calls" using Cons.prems(1) wait l by simp_all
      then show ?thesis using e inv evolves_calls [OF e(1) Cons.prems(5)] by simp
    qed
  qed
qed simp

lemma ResultsByStatus_fresh:
  assumes "ResultsByStatus e w own pendingStatuses = (Inr rs, w')" "etm_inv hashOf w"
  shows "fresh_results own w' rs" "rows w' = rows w" "network w' = network w"
    "length rs = 0 \<Longrightarrow> \<forall>r\<in>set (rows w'). mOwner r = own \<longrightarrow> mStatus r = MonitoredTxStatusDone"
    "\<forall>r\<in>set (rows w'). mOwner r = own \<and> mStatus r = MonitoredTxStatusFailed \<longrightarrow> (\<exists>c\<in>set rs. resID c = mId r \<and> resStatus c = MonitoredTxStatusFailed)"
proof -
  obtain f w1 where f: "dbFault w = (f, w1)" by fastforce
  then have w1: "rows w1 = rows w" "network w1 = network w" using dbFault_world [of w] by simp_all
  define ms where "ms = filter (\<lambda>r. mOwner r = own \<and> mStatus r \<noteq> MonitoredTxStatusDone) (rows w)"
  have pend: "mStatus r \<in> set pendingStatuses \<longleftrightarrow> mStatus r \<noteq> MonitoredTxStatusDone" for r
    by (cases "mStatus r") (simp_all add: pendingStatuses_def)
  from assms(1) f have b: "buildResults e ms = Inr rs" "w' = w1"
    by (auto simp: ResultsByStatus_def storage_GetByStatus_def ms_def pend w1 split: if_splits) (simp_all add: pendingStatuses_def)
  note fld = buildResults_fields [OF b(1)]
  show "rows w' = rows w" "network w' = network w" using b(2) w1 by simp_all
  have own: "row_key m = (own, mId m)" if "m \<in> set ms" for m using that by (simp add: ms_def row_key_def)
  have "distinct (map row_key ms)" using assms(2) by (simp add: ms_def etm_inv_def distinct_map_filter)
  also have "map row_key ms = map (Pair own) (map mId ms)" using own by simp
  finally have "distinct (map mId ms)" by (simp only: distinct_map)
  moreover have "map resID rs = map mId ms" using arg_cong [OF fld, of "map fst"] by (simp add: comp_def)
  ultimately have dist: "distinct (map resID rs)" by simp
  have mem: "(resID c, resStatus c) \<in> (\<lambda>m. (mId m, mStatus m)) ` set ms" if "c \<in> set rs" for c
    using arg_cong [OF fld, of set] that by (metis (no_types, lifting) image_eqI list.set_map)
  have "\<exists>r\<in>set (rows w'). row_key r = (own, resID c) \<and> mStatus r = resStatus c" if c: "c \<in> set rs" for c
  proof -
    from mem [OF c] obtain m where "m \<in> set ms" "mId m = resID c" "mStatus m = resStatus c" by auto
    with own [of m] b(2) w1 show ?thesis by (auto simp: ms_def)
  qed
  with dist show "fresh_results own w' rs" unfolding fresh_results_def by metis
  show "\<forall>r\<in>set (rows w'). mOwner r = own \<longrightarrow> mStatus r = MonitoredTxStatusDone" if "length rs = 0"
    using that arg_cong [OF fld, of length] b(2) w1 by (auto simp: ms_def filter_empty_conv)
  show "\<forall>r\<in>set (rows w'). mOwner r = own \<and> mStatus r = MonitoredTxStatusFailed \<longrightarrow> (\<exists>c\<in>set rs. resID c = mId r \<and> resStatus c = MonitoredTxStatusFailed)"
  proof (intro ballI impI)
    fix r
    assume "r \<in> set (rows w')" "mOwner r = own \<and> mStatus r = MonitoredTxStatusFailed"
    then have "(mId r, MonitoredTxStatusFailed) \<in> (\<lambda>m. (mId m, mStatus m)) ` set ms"
      using b(2) w1 by (auto simp: ms_def intro!: rev_image_eqI [of r])
    also have "\<dots> = (\<lambda>r. (resID r, resStatus r)) ` set rs" using arg_cong [OF fld, of set] by simp
    finally show "\<exists>c\<in>set rs. resID c = mId r \<and> resStatus c = MonitoredTxStatusFailed" by auto
  qed
qed

lemma ResultsByStatus_error:
  assumes "ResultsByStatus e w own sts = (Inl err, w')"
  shows "rows w' = rows w" "network w' = network w"
  using assms dbFault_world [of w]
  by (cases "dbFault w"; auto simp: ResultsByStatus_def storage_GetByStatus_def split: if_splits)+

lemma ProcessPending_ok:
  assumes "ProcessPendingMonitoredTxs own w env calls = (returned, w', calls')" "cycles hashOf env" "etm_inv hashOf w" "calls_ok own w0 w calls"
  shows "etm_inv hashOf w' \<and> calls_ok own w0 w' calls'
    \<and> (returned \<longrightarrow> (\<forall>r\<in>set (rows w'). mOwner r = own \<longrightarrow> mStatus r = MonitoredTxStatusDone))"
  using assms
proof (induction own w env calls rule: ProcessPendingMonitoredTxs.induct)
  case (1 own w calls)
  then show ?case by simp
next
  case (2 own w act e env calls)
  note c = cycles_Cons [OF 2(4,5)]
  have inv: "etm_inv hashOf (act w)" using c(1) by (simp add: evolves_def)
  note calls = evolves_calls [OF c(1) 2(6)]
  obtain rs w1 where res: "ResultsByStatus e (act w) own pendingStatuses = (rs, w1)" by fastforce
  show ?case
  proof (cases rs)
    case (Inl err)
    note w1 = ResultsByStatus_error [OF res [unfolded Inl]]
    then have "etm_inv hashOf w1" "calls_ok own w0 w1 calls" using inv calls by (simp_all add: etm_inv_def calls_ok_def)
    with 2(1) [OF res [symmetric] Inl] 2(3) c(2) Inl res show ?thesis by simp
  next
    case (Inr xs)
    note f = ResultsByStatus_fresh [OF res [unfolded Inr] inv]
    have w1: "etm_inv hashOf w1" "calls_ok own w0 w1 calls" using inv calls f(2,3) by (simp_all add: etm_inv_def calls_ok_def)
    show ?thesis
    proof (cases "length xs = 0")
      case True
      with 2(3) Inr res w1 f(4) show ?thesis by simp
    next
      case False
      obtain ok w2 env2 calls2 where h: "handleResults own xs w1 env calls = (ok, w2, env2, calls2)"
        by (cases "handleResults own xs w1 env calls")
      from handleResults_ok [OF h c(2) w1(1) f(1) w1(2)]
      have s: "cycles hashOf env2" "etm_inv hashOf w2" "calls_ok own w0 w2 calls2" by simp_all
      show ?thesis
      proof (cases ok)
        case True
        from 2(2) [OF res [symmetric] Inr False h [symmetric] refl refl True] 2(3) s Inr res False h True show ?thesis by simp
      next
        case False
        with 2(3) s Inr res \<open>length xs \<noteq> 0\<close> h show ?thesis by auto
      qed
    qed
  qed
qed

definition has_failed :: "string \<Rightarrow> string \<Rightarrow> world \<Rightarrow> bool" where
  "has_failed own i w \<longleftrightarrow> (\<exists>r\<in>set (rows w). row_key r = (own, i) \<and> mStatus r = MonitoredTxStatusFailed)"

lemma evolves_failed: "evolves hashOf w w' \<Longrightarrow> has_failed own i w \<Longrightarrow> has_failed own i w'"
  unfolding evolves_def has_failed_def settled_def by blast

lemma done_step_failed:
  assumes "etm_inv hashOf w" "fresh_results own w (c # rs)" "resStatus c = MonitoredTxStatusConfirmed"
    and "setStatusDone w own (resID c) = (err, w')" "has_failed own i w"
  shows "has_failed own i w'"
proof -
  obtain r where r: "r \<in> set (rows w)" "row_key r = (own, resID c)" "mStatus r = MonitoredTxStatusConfirmed"
    using assms(2,3) by (auto simp: fresh_results_def)
  obtain f where f: "f \<in> set (rows w)" "row_key f = (own, i)" "mStatus f = MonitoredTxStatusFailed"
    using assms(5) by (auto simp: has_failed_def)
  have "row_key f \<noteq> (own, resID c)"
    using same_key_same_row [OF assms(1) f(1) r(1)] f r by auto
  with keeps_others_row [OF setStatusDone_effect(2) [OF assms(1) r(1,2) assms(4)] f(1)] f show ?thesis by (auto simp: has_failed_def)
qed

lemma handleResults_failed:
  assumes "handleResults own rs w env calls = (ok, w', env', calls')" "cycles hashOf env" "etm_inv hashOf w"
    "fresh_results own w rs" "has_failed own i w"
  shows "has_failed own i w'"
  using assms
proof (induction rs arbitrary: w env calls)
  case (Cons c rs)
  obtain err w1 where d: "setStatusDone w own (resID c) = (err, w1)" by fastforce
  obtain ok2 w2 env2 where l: "waitLoop env w own (resID c) = (ok2, w2, env2)" by (cases "waitLoop env w own (resID c)")
  consider (conf) "resStatus c = MonitoredTxStatusConfirmed" | (failed) "resStatus c = MonitoredTxStatusFailed"
    | (wait) "resStatus c \<noteq> MonitoredTxStatusConfirmed" "resStatus c \<noteq> MonitoredTxStatusFailed" by blast
  then show ?case
  proof cases
    case conf
    have nil: "calls_ok own w w []" by (simp add: calls_ok_def confirmed_calls_def)
    note s = done_step(1,2) [OF Cons.prems(3,4) nil conf d] done_step_failed [OF Cons.prems(3,4) conf d Cons.prems(5)]
    from conf Cons.prems(1) d have "handleResults own rs w1 env (if err = None then calls @ [c] else calls) = (ok, w', env', calls')"
      by (cases err) simp_all
    from Cons.IH [OF this Cons.prems(2) s] show ?thesis .
  next
    case failed
    then have "handleResults own rs w env (calls @ [c]) = (ok, w', env', calls')" using Cons.prems(1) by simp
    from Cons.IH [OF this Cons.prems(2,3) fresh_tail [OF Cons.prems(4)] Cons.prems(5)] show ?thesis .
  next
    case wait
    from waitLoop_evolves [OF l Cons.prems(2,3)] have e: "evolves hashOf w w2" "cycles hashOf env2" by simp_all
    then have inv: "etm_inv hashOf w2" by (simp add: evolves_def)
    note f = evolves_failed [OF e(1) Cons.prems(5)]
    show ?thesis
    proof (cases ok2)
      case True
      then have "handleResults own rs w2 env2 calls = (ok, w', env', calls')" using Cons.prems(1) wait l by simp
      from Cons.IH [OF this e(2) inv evolves_fresh [OF e(1) fresh_tail [OF Cons.prems(4)]] f] show ?thesis .
    next
      case False
      then show ?thesis using Cons.prems(1) wait l f by simp
    qed
  qed
qed simp

text \<open>The calls made before do not matter.\<close>

lemma handleResults_calls:
  "handleResults own rs w env calls = (ok, w', env', calls') \<Longrightarrow> \<exists>cs. handleResults own rs w env cs0 = (ok, w', env', cs)"
proof (induction rs arbitrary: w env calls cs0)
  case (Cons c rs)
  obtain err w1 where d: "setStatusDone w own (resID c) = (err, w1)" by fastforce
  obtain ok2 w2 env2 where l: "waitLoop env w own (resID c) = (ok2, w2, env2)" by (cases "waitLoop env w own (resID c)")
  from Cons show ?case by (cases err) (auto simp: d l split: if_splits)
qed simp

lemma ProcessPending_blocked:
  assumes "cycles hashOf env" "etm_inv hashOf w" "has_failed own i w"
  shows "\<not> fst (ProcessPendingMonitoredTxs own w env calls)"
  using assms
proof (induction own w env calls rule: ProcessPendingMonitoredTxs.induct)
  case (2 own w act e env calls)
  note c = cycles_Cons [OF 2(3,4)]
  have inv: "etm_inv hashOf (act w)" using c(1) by (simp add: evolves_def)
  note failed = evolves_failed [OF c(1) 2(5)]
  obtain rs w1 where res: "ResultsByStatus e (act w) own pendingStatuses = (rs, w1)" by fastforce
  show ?case
  proof (cases rs)
    case (Inl err)
    note w1 = ResultsByStatus_error [OF res [unfolded Inl]]
    then have "etm_inv hashOf w1" "has_failed own i w1" using inv failed by (simp_all add: etm_inv_def has_failed_def)
    with 2(1) [OF res [symmetric] Inl c(2)] Inl res show ?thesis by simp
  next
    case (Inr xs)
    note f = ResultsByStatus_fresh [OF res [unfolded Inr] inv]
    have w1: "etm_inv hashOf w1" "has_failed own i w1" using inv failed f(2,3) by (simp_all add: etm_inv_def has_failed_def)
    have some: "length xs \<noteq> 0"
    proof
      assume "length xs = 0"
      with f(4) w1(2) show False by (auto simp: has_failed_def row_key_def)
    qed
    obtain ok w2 env2 calls2 where h: "handleResults own xs w1 env calls = (ok, w2, env2, calls2)"
      by (cases "handleResults own xs w1 env calls")
    have nil: "calls_ok own w1 w1 []" by (simp add: calls_ok_def confirmed_calls_def)
    note keep = handleResults_failed [OF h c(2) w1(1) f(1) w1(2)]
    obtain calls3 where h3: "handleResults own xs w1 env [] = (ok, w2, env2, calls3)"
      using handleResults_calls [OF h] by blast
    from handleResults_ok [OF h3 c(2) w1(1) f(1) nil] have s: "cycles hashOf env2" "etm_inv hashOf w2" by simp_all
    show ?thesis
    proof (cases ok)
      case True
      from 2(2) [OF res [symmetric] Inr some h [symmetric] refl refl True s keep] Inr res some h True show ?thesis by simp
    next
      case False
      with Inr res some h show ?thesis by simp
    qed
  qed
qed simp

section \<open>Properties of waiting\<close>

text \<open>A network that mines every transaction with the given status.\<close>

definition miningEtherman :: "uint64 \<Rightarrow> etherman" where
  "miningEtherman status = sampleEtherman\<lparr>WaitTxToBeMined := (\<lambda>_. Some True),
     GetTxReceipt := (\<lambda>h. Found \<lparr>rStatus = status, rTxHash = h, rBlockNumber = Some 7\<rparr>)\<rparr>"

definition sampleMined :: "uint64 \<Rightarrow> world" where
  "sampleMined status = snd (monitorTxs sampleConfig (miningEtherman status) sampleHash sampleAdded)"

definition sampleCycle :: "uint64 \<Rightarrow> (world \<Rightarrow> world) \<times> etherman" where
  "sampleCycle status = (\<lambda>w. snd (monitorTxs sampleConfig (miningEtherman status) sampleHash w), miningEtherman status)"

lemma miningEtherman_signs [simp]: "signs (miningEtherman status)"
  by (simp add: signs_def miningEtherman_def sampleEtherman_def)

lemma sampleMined_reached: "etm_reach sampleHash (sampleMined status)"
  unfolding sampleMined_def sampleAdded_def by (intro etm_reach.intros miningEtherman_signs)

lemma sampleCycle_cycles: "cycles sampleHash (replicate n (sampleCycle status))"
  by (auto simp: cycles_def sampleCycle_def intro!: exI [of _ sampleConfig] exI [of _ "miningEtherman status"])

lemmas run_defs = sampleAdded_def sampleEtherman_def sampleConfig_def etm_Add_def suggestedGasPrice_def
  storage_Add_def dbFault_def monitorTxs_def storage_GetByStatus_def monitorTx_def checked_def nonceStep_def sendAndWait_def
  reviewStep_def historyStep_def AddHistory_def persist_def storage_Update_def sendStep_def waitStep_def scanned_def finishStep_def
  ReceiptStatusSuccessful_def shouldContinueToMonitorThisTx_def miningEtherman_def sampleMined_def

definition minedRow :: "MonitoredTxStatus \<Rightarrow> monitoredTx" where
  "minedRow st = \<lparr>mOwner = ''blob'', mId = ''1'', mFrom = [1], mTo = Some [2], mNonce = 5, mValue = None, mData = Some [3],
     mGas = 21000, mGasOffset = 0, mGasPrice = 10, mStatus = st, mBlockNumber = Some 7, mHistory = [replicate 31 0 @ [5]]\<rparr>"

lemma sampleMined_rows:
  "rows (sampleMined 1) = [minedRow MonitoredTxStatusConfirmed]" "faults (sampleMined 1) = []"
  "rows (sampleMined 0) = [minedRow MonitoredTxStatusFailed]"
  by (simp_all add: run_defs Let_def row_key_def sampleHash_def mTx_Tx_def minedRow_def)


lemma sample_process:
  "\<exists>w' calls. ProcessPendingMonitoredTxs ''blob'' (sampleMined 1) (replicate 2 (sampleCycle 1)) [] = (True, w', calls)"
  by (simp add: numeral_2_eq_2 sampleCycle_def monitorTxs_def storage_GetByStatus_def dbFault_def sampleMined_rows ResultsByStatus_def
      minedRow_def pendingStatuses_def buildResult_def found_or_nil_def miningEtherman_def sampleEtherman_def setStatusDone_def
      storage_Get_def storage_Update_def row_key_def scanned_def)


text \<open>
  C14: an owner with a failed transaction waits forever: however long the manager goes on with its
  cycles, \<open>ProcessPendingMonitoredTxs\<close> does not return.  A failed row is reported to the handler in
  every round, but never set to done and never monitored again, although the documentation says that
  the call waits until every transaction is confirmed or failed.
\<close>

theorem failed_transaction_blocks_owner:
  assumes "etm_reach hashOf w" "cycles hashOf env"
    and "r \<in> set (rows w)" "mOwner r = own" "mStatus r = MonitoredTxStatusFailed"
  shows "\<not> fst (ProcessPendingMonitoredTxs own w env [])"
proof -
  have "has_failed own (mId r) w" using assms(3-5) by (auto simp: has_failed_def row_key_def)
  with ProcessPending_blocked [OF assms(2) etm_reach_inv [OF assms(1)]] show ?thesis by blast
qed

theorem failed_transaction_blocks_owner_witness:
  "mStatus (minedRow MonitoredTxStatusFailed) = MonitoredTxStatusFailed
     \<and> \<not> fst (ProcessPendingMonitoredTxs ''blob'' (sampleMined 0) (replicate 1000 (sampleCycle 0)) [])"
proof -
  have "minedRow MonitoredTxStatusFailed \<in> set (rows (sampleMined 0))" by (simp add: sampleMined_rows)
  from failed_transaction_blocks_owner [OF sampleMined_reached sampleCycle_cycles this, of "''blob''"] show ?thesis
    by (simp add: minedRow_def)
qed

end
