(* ===== verification/ZkBlobSender.thy ===== *)
theory ZkBlobSender
  imports BatchV2 EthTxResults
begin

text \<open>
  The blob sender (\<open>blob/zkblobsender/queue.go\<close>, \<open>service.go\<close>, \<open>HandleSequenceToZkBlob\<close> of
  \<open>zkblob_eth_client.go\<close>) with its record of sent sequences (the table \<open>blobs\<close> of \<open>blob/db/sqlite.go\<close>).

  One iteration of the sender meets the answers \<open>iter\<close>: the results the transaction manager hands to
  the sender, the sequences and batches of the state database, and whether building and adding the
  transaction succeed.  Accesses to the table of the sender may fail, as \<open>dbFaults\<close> lists.  \<open>posted\<close> is
  a ghost: the sequences for which a transaction was given to the manager.  The result \<open>None\<close> is the end
  of the process, by \<open>log.Fatal\<close> or by a panic of the batch decoder.
\<close>

section \<open>The queue\<close>

record BlobSequence =
  seqFrom :: nat
  seqTo :: nat

type_synonym SequenceQueue = "BlobSequence list"

definition NewSequenceQueue :: SequenceQueue where
  "NewSequenceQueue = []"

definition sq_IsEmpty :: "SequenceQueue \<Rightarrow> bool" where
  "sq_IsEmpty sq \<longleftrightarrow> length sq = 0"

definition sq_Front :: "SequenceQueue \<Rightarrow> BlobSequence option" where
  "sq_Front sq = (if sq_IsEmpty sq then None else Some (hd sq))"

definition sq_Enqueue :: "SequenceQueue \<Rightarrow> BlobSequence \<Rightarrow> SequenceQueue" where
  "sq_Enqueue sq s = sq @ [s]"

definition sq_Dequeue :: "SequenceQueue \<Rightarrow> BlobSequence option \<times> SequenceQueue" where
  "sq_Dequeue sq = (if sq_IsEmpty sq then (None, sq) else (Some (hd sq), tl sq))"

fun sq_Has :: "SequenceQueue \<Rightarrow> nat \<Rightarrow> bool" where
  "sq_Has [] from = False"
| "sq_Has (s # sq) from = (if seqFrom s = from then True else sq_Has sq from)"

definition sq_Back :: "SequenceQueue \<Rightarrow> BlobSequence option" where
  "sq_Back sq = (if sq_IsEmpty sq then None else Some (last sq))"

section \<open>State\<close>

record ZkblobSender =
  seqQueue :: SequenceQueue
  lastSequenceInitialBatch :: nat
  lastSequenceEndBatch :: nat
  blobs :: "(nat \<times> nat) list"
  dbFaults :: "bool list"
  posted :: "BlobSequence list"

definition NewZkblobSender :: "(nat \<times> nat) list \<Rightarrow> bool list \<Rightarrow> BlobSequence list \<Rightarrow> ZkblobSender" where
  "NewZkblobSender bs fs ps = \<lparr>seqQueue = NewSequenceQueue, lastSequenceInitialBatch = 0, lastSequenceEndBatch = 0,
     blobs = bs, dbFaults = fs, posted = ps\<rparr>"

definition blobFault :: "ZkblobSender \<Rightarrow> bool \<times> ZkblobSender" where
  "blobFault s = (case dbFaults s of [] \<Rightarrow> (False, s) | f # fs \<Rightarrow> (f, s\<lparr>dbFaults := fs\<rparr>))"

definition GetLatestZkBlob :: "ZkblobSender \<Rightarrow> (nat \<times> nat) option \<times> ZkblobSender" where
  "GetLatestZkBlob s =
     (case blobFault s of (f, s) \<Rightarrow>
        (if f then None
         else if blobs s = [] then Some (0, 0)
         else find (\<lambda>b. fst b = Max (fst ` set (blobs s))) (blobs s), s))"

definition HasFrom :: "ZkblobSender \<Rightarrow> nat \<Rightarrow> bool option \<times> ZkblobSender" where
  "HasFrom s from = (case blobFault s of (f, s) \<Rightarrow> (if f then None else Some (from \<in> fst ` set (blobs s)), s))"

definition AddZkBlob :: "ZkblobSender \<Rightarrow> nat \<Rightarrow> nat \<Rightarrow> bool \<times> ZkblobSender" where
  "AddZkBlob s from to =
     (case blobFault s of (f, s) \<Rightarrow>
        if f \<or> from \<in> fst ` set (blobs s) then (False, s) else (True, s\<lparr>blobs := blobs s @ [(from, to)]\<rparr>))"

definition currentSequenceDone :: "ZkblobSender \<Rightarrow> ZkblobSender" where
  "currentSequenceDone s = s\<lparr>seqQueue := snd (sq_Dequeue (seqQueue s))\<rparr>"

record iter =
  results :: "MonitoredTxStatus list"
  stateSequences :: "(nat \<times> nat) list option"
  GetBatchByNumber :: "nat \<Rightarrow> bytes option"
  zkBlobDeployed :: bool
  BuildPostZkBlobTxData :: "nat list \<Rightarrow> hash32 list list \<Rightarrow> bytes option"
  ethTxManagerAdd :: "nat \<Rightarrow> nat \<Rightarrow> bytes \<Rightarrow> bool"

section \<open>Collecting sequences\<close>

definition initialSequenceFromBatchNumber :: nat where
  "initialSequenceFromBatchNumber = 1"

fun enqueueLoop :: "nat \<Rightarrow> SequenceQueue \<Rightarrow> (nat \<times> nat) list \<Rightarrow> SequenceQueue" where
  "enqueueLoop lastInitial sq [] = sq"
| "enqueueLoop lastInitial sq ((from, to) # seqs) =
     (if (case sq_Back sq of
            None \<Rightarrow> True
          | Some prevLastOne \<Rightarrow> from > seqTo prevLastOne \<and> \<not> sq_Has sq from \<and> from \<noteq> lastInitial)
      then enqueueLoop lastInitial (sq_Enqueue sq \<lparr>seqFrom = from, seqTo = to\<rparr>) seqs
      else enqueueLoop lastInitial sq seqs)"

definition getSequenceBlobsToSend :: "iter \<Rightarrow> ZkblobSender \<Rightarrow> ZkblobSender" where
  "getSequenceBlobsToSend it s =
     (case GetLatestZkBlob s of
        (None, s) \<Rightarrow> s
      | (Some (fromBatchNum, toBatchNum), s) \<Rightarrow>
          (let lastFromNumber = (if fromBatchNum > 0 then fromBatchNum else initialSequenceFromBatchNumber)
           in case stateSequences it of
                None \<Rightarrow> s
              | Some all \<Rightarrow>
                  (let seqs = filter (\<lambda>q. fst q \<ge> lastFromNumber) all
                   in if length seqs = 0 then s
                      else s\<lparr>seqQueue := enqueueLoop (lastSequenceInitialBatch s) (seqQueue s) (tl seqs)\<rparr>)))"

section \<open>Sending a sequence\<close>

datatype send_result = Posted | NoZkBlobsToSend | SendFailed

text \<open>The batches with at least one transaction; a batch that cannot be decoded is left out.\<close>

fun batchHashes :: "geth \<Rightarrow> (LegacyTx \<Rightarrow> hash32) \<Rightarrow> (nat \<times> bytes) list \<Rightarrow> (nat \<times> hash32 list) list option" where
  "batchHashes g txHash [] = Some []"
| "batchHashes g txHash ((n, d) # seqs) =
     (case DecodeBatchV2 g d of
        None \<Rightarrow> None
      | Some (Inl e) \<Rightarrow> if e = SlicePanic then None else batchHashes g txHash seqs
      | Some (Inr brb) \<Rightarrow>
          (let hashes = concat (map (\<lambda>b. map (\<lambda>tx. txHash (rawTx tx)) (Transactions b)) (Blocks brb))
           in case batchHashes g txHash seqs of
                None \<Rightarrow> None
              | Some rest \<Rightarrow> Some (if length hashes = 0 then rest else (n, hashes) # rest)))"

definition disableZkBlob :: bool where
  [simp]: "disableZkBlob = False"

definition HandleSequenceToZkBlob ::
  "geth \<Rightarrow> (LegacyTx \<Rightarrow> hash32) \<Rightarrow> iter \<Rightarrow> (nat \<times> bytes) list \<Rightarrow> send_result option" where
  "HandleSequenceToZkBlob g txHash it sequences =
     (if disableZkBlob then Some Posted
      else if \<not> zkBlobDeployed it then Some SendFailed
      else if length sequences = 0 then Some Posted
      else
        (case batchHashes g txHash sequences of
           None \<Rightarrow> None
         | Some bhs \<Rightarrow>
             if length bhs > 0 then
               (case BuildPostZkBlobTxData it (map fst bhs) (map snd bhs) of
                  None \<Rightarrow> Some SendFailed
                | Some data \<Rightarrow>
                    Some (if ethTxManagerAdd it (fst (hd bhs)) (fst (last bhs)) data then Posted else SendFailed))
             else Some NoZkBlobsToSend))"

fun loadBatches :: "iter \<Rightarrow> nat list \<Rightarrow> (nat \<times> bytes) list option" where
  "loadBatches it [] = Some []"
| "loadBatches it (i # is) =
     (case GetBatchByNumber it i of
        None \<Rightarrow> None
      | Some d \<Rightarrow> map_option ((#) (i, d)) (loadBatches it is))"

definition sendZkblob ::
  "geth \<Rightarrow> (LegacyTx \<Rightarrow> hash32) \<Rightarrow> iter \<Rightarrow> ZkblobSender \<Rightarrow> BlobSequence \<Rightarrow> send_result option \<times> ZkblobSender" where
  "sendZkblob g txHash it s bSeq =
     (let s = s\<lparr>lastSequenceInitialBatch := seqFrom bSeq, lastSequenceEndBatch := seqTo bSeq\<rparr>
      in case loadBatches it [seqFrom bSeq..<Suc (seqTo bSeq)] of
           None \<Rightarrow> (Some SendFailed, s)
         | Some sequences \<Rightarrow>
             (case HandleSequenceToZkBlob g txHash it sequences of
                Some Posted \<Rightarrow> (Some Posted, if length sequences = 0 then s else s\<lparr>posted := posted s @ [bSeq]\<rparr>)
              | r \<Rightarrow> (r, s)))"

section \<open>One iteration\<close>

definition recordAndMove :: "ZkblobSender \<Rightarrow> ZkblobSender option" where
  "recordAndMove s =
     (case AddZkBlob s (lastSequenceInitialBatch s) (lastSequenceEndBatch s) of
        (False, s) \<Rightarrow> None
      | (True, s) \<Rightarrow> Some (currentSequenceDone s))"

definition onResult :: "MonitoredTxStatus \<Rightarrow> bool \<times> ZkblobSender \<Rightarrow> (bool \<times> ZkblobSender) option" where
  "onResult st rs =
     (case rs of (retry, s) \<Rightarrow>
        if st = MonitoredTxStatusConfirmed then
          (case HasFrom s (lastSequenceInitialBatch s) of
             (Some True, s) \<Rightarrow> Some (retry, s)
           | (h, s) \<Rightarrow> map_option (Pair (retry \<or> h = None)) (recordAndMove s))
        else Some (True, s))"

fun handleAll :: "MonitoredTxStatus list \<Rightarrow> bool \<times> ZkblobSender \<Rightarrow> (bool \<times> ZkblobSender) option" where
  "handleAll [] rs = Some rs"
| "handleAll (st # sts) rs = (case onResult st rs of None \<Rightarrow> None | Some rs \<Rightarrow> handleAll sts rs)"

definition sendCurrent :: "geth \<Rightarrow> (LegacyTx \<Rightarrow> hash32) \<Rightarrow> iter \<Rightarrow> ZkblobSender \<Rightarrow> ZkblobSender option" where
  "sendCurrent g txHash it s =
     (case sq_Front (seqQueue s) of
        None \<Rightarrow> Some s
      | Some currentSeq \<Rightarrow>
          (case HasFrom s (seqFrom currentSeq) of
             (None, s) \<Rightarrow> None
           | (Some True, s) \<Rightarrow> Some (currentSequenceDone s)
           | (Some False, s) \<Rightarrow>
               (case sendZkblob g txHash it s currentSeq of
                  (None, s) \<Rightarrow> None
                | (Some NoZkBlobsToSend, s) \<Rightarrow> recordAndMove s
                | (Some r, s) \<Rightarrow> Some s)))"

definition tryToSendZkblob :: "geth \<Rightarrow> (LegacyTx \<Rightarrow> hash32) \<Rightarrow> iter \<Rightarrow> ZkblobSender \<Rightarrow> ZkblobSender option" where
  "tryToSendZkblob g txHash it s =
     (case handleAll (results it) (False, s) of
        None \<Rightarrow> None
      | Some (retry, s) \<Rightarrow> if retry then Some s else sendCurrent g txHash it (getSequenceBlobsToSend it s))"

section \<open>The sequences of the state\<close>

definition seqs_ok :: "(nat \<times> nat) list \<Rightarrow> bool" where
  "seqs_ok S \<longleftrightarrow> sorted_wrt (\<lambda>a b. snd a < fst b) S \<and> (\<forall>x\<in>set S. 0 < fst x \<and> fst x \<le> snd x)"

abbreviation mkSeq :: "nat \<times> nat \<Rightarrow> BlobSequence" where
  "mkSeq x \<equiv> \<lparr>seqFrom = fst x, seqTo = snd x\<rparr>"

lemma seqs_ok_append:
  "seqs_ok (xs @ ys) \<longleftrightarrow> seqs_ok xs \<and> seqs_ok ys \<and> (\<forall>x\<in>set xs. \<forall>y\<in>set ys. snd x < fst y)"
  by (auto simp: seqs_ok_def sorted_wrt_append)

lemma seqs_okD: "seqs_ok S \<Longrightarrow> x \<in> set S \<Longrightarrow> 0 < fst x \<and> fst x \<le> snd x"
  by (simp add: seqs_ok_def)

lemma seqs_ok_take: "seqs_ok S \<Longrightarrow> seqs_ok (take k S)"
  by (auto simp: seqs_ok_def sorted_wrt_take dest: in_set_takeD)

lemma seqs_ok_tl: "seqs_ok S \<Longrightarrow> seqs_ok (tl S)"
  by (cases S) (auto simp: seqs_ok_def)

lemma sq_Has_iff: "sq_Has sq from \<longleftrightarrow> from \<in> seqFrom ` set sq"
  by (induction sq) auto

lemma sq_Back_map: "Q \<noteq> [] \<Longrightarrow> sq_Back (map mkSeq Q) = Some (mkSeq (last Q))"
  by (simp add: sq_Back_def sq_IsEmpty_def last_map)

lemma enqueueLoop_append: "enqueueLoop l sq (xs @ ys) = enqueueLoop l (enqueueLoop l sq xs) ys"
  by (induction l sq xs rule: enqueueLoop.induct) (simp_all split: option.split)

lemma enqueueLoop_known:
  "Q \<noteq> [] \<Longrightarrow> \<forall>x\<in>set xs. fst x \<le> snd (last Q) \<Longrightarrow> enqueueLoop l (map mkSeq Q) xs = map mkSeq Q"
  by (induction xs) (auto simp: sq_Back_map)

lemma enqueueLoop_new:
  "Q \<noteq> [] \<Longrightarrow> seqs_ok (Q @ xs) \<Longrightarrow> l \<notin> fst ` set xs \<Longrightarrow> enqueueLoop l (map mkSeq Q) xs = map mkSeq (Q @ xs)"
proof (induction xs arbitrary: Q)
  case (Cons x xs)
  have "snd (last Q) < fst x" using Cons.prems(1,2) by (simp add: seqs_ok_append)
  moreover have "\<forall>q\<in>set Q. fst q \<noteq> fst x"
  proof
    fix q
    assume "q \<in> set Q"
    then have "snd q < fst x" "fst q \<le> snd q" using Cons.prems(2) seqs_okD [of Q q] by (simp_all add: seqs_ok_append)
    then show "fst q \<noteq> fst x" by simp
  qed
  ultimately have "enqueueLoop l (map mkSeq Q) (x # xs) = enqueueLoop l (map mkSeq (Q @ [x])) xs"
    using Cons.prems(1,3) by (cases x) (auto simp: sq_Back_map sq_Has_iff sq_Enqueue_def image_iff)
  with Cons.IH [of "Q @ [x]"] Cons.prems show ?case by simp
qed simp

text \<open>
  Whatever part of the sequences behind the recorded ones the database returns, the queue stays a
  part of them and is only extended at its end.
\<close>

lemma enqueueLoop_part:
  assumes "seqs_ok (Q @ rest)" "l \<notin> fst ` set (if Q = [] then Q @ rest else tl (Q @ rest))"
  shows "\<exists>Q' rest'. Q @ rest = Q' @ rest' \<and> enqueueLoop l (map mkSeq Q) (take j (Q @ rest)) = map mkSeq Q' \<and> (Q = [] \<or> Q' \<noteq> [] \<and> hd Q' = hd Q)"
proof (cases "Q = []")
  case True
  show ?thesis
  proof (cases "take j rest")
    case Nil
    have "enqueueLoop l [] (take j rest) = []" unfolding Nil by simp
    with True show ?thesis by (intro exI [of _ "[]"] exI [of _ rest]) simp
  next
    case (Cons x xs)
    have r: "rest = x # xs @ drop j rest" using Cons append_take_drop_id [of j rest] by simp
    have ok: "seqs_ok ([x] @ xs)" using assms(1) True Cons seqs_ok_take [of rest j] by simp
    have "l \<notin> fst ` set xs" using assms(2) True arg_cong [OF r, of set] by auto
    from enqueueLoop_new [OF _ ok this] have "enqueueLoop l [] (x # xs) = map mkSeq (x # xs)"
      by (cases x) (simp add: sq_Back_def sq_IsEmpty_def sq_Enqueue_def)
    with Cons have "enqueueLoop l [] (take j rest) = map mkSeq (x # xs)" by simp
    with True r show ?thesis by (intro exI [of _ "x # xs"] exI [of _ "drop j rest"]) simp
  qed
next
  case False
  have t: "take j (Q @ rest) = take j Q @ take (j - length Q) rest" by simp
  have le: "fst x \<le> snd (last Q)" if "x \<in> set (take j Q)" for x
  proof -
    have x: "x \<in> set Q" using that by (rule in_set_takeD)
    have Q: "Q = butlast Q @ [last Q]" using False by simp
    have "seqs_ok Q" using assms(1) by (simp add: seqs_ok_append)
    then have "\<forall>y\<in>set (butlast Q). snd y < fst (last Q)" and ok: "seqs_ok Q"
      using Q seqs_ok_append [of "butlast Q" "[last Q]"] by auto
    moreover have "x \<in> set (butlast Q) \<or> x = last Q" using x Q by (metis in_set_conv_decomp Un_iff set_append set_ConsD empty_iff list.set(1))
    ultimately show ?thesis
      using seqs_okD [OF ok x] seqs_okD [OF ok last_in_set [OF False]] by fastforce
  qed
  have known: "enqueueLoop l (map mkSeq Q) (take j Q) = map mkSeq Q"
    using enqueueLoop_known [OF False] le by blast
  let ?n = "take (j - length Q) rest"
  have "seqs_ok (Q @ ?n)" using seqs_ok_take [OF assms(1), of "length Q + (j - length Q)"] by simp
  moreover have "l \<notin> fst ` set ?n" using assms(2) False by (auto dest: in_set_takeD)
  ultimately have "enqueueLoop l (map mkSeq Q) ?n = map mkSeq (Q @ ?n)" by (rule enqueueLoop_new [OF False])
  with known t False show ?thesis
    by (intro exI [of _ "Q @ ?n"] exI [of _ "drop (j - length Q) rest"]) (simp add: enqueueLoop_append)
qed

section \<open>Runs of the sender\<close>

text \<open>The batches of a sequence, and that none of them has a transaction.\<close>

definition no_transactions :: "geth \<Rightarrow> (LegacyTx \<Rightarrow> hash32) \<Rightarrow> (nat \<Rightarrow> bytes) \<Rightarrow> nat \<times> nat \<Rightarrow> bool" where
  "no_transactions g txHash data b \<longleftrightarrow> batchHashes g txHash (map (\<lambda>i. (i, data i)) [fst b..<Suc (snd b)]) = Some []"

definition lastSeq :: "ZkblobSender \<Rightarrow> nat \<times> nat" where
  "lastSeq s = (lastSequenceInitialBatch s, lastSequenceEndBatch s)"

definition pairOf :: "BlobSequence \<Rightarrow> nat \<times> nat" where
  "pairOf p = (seqFrom p, seqTo p)"

lemma pairOf_mkSeq [simp]: "pairOf (mkSeq b) = b" "mkSeq (pairOf p) = p"
  by (simp_all add: pairOf_def)

definition sender_inv ::
  "geth \<Rightarrow> (LegacyTx \<Rightarrow> hash32) \<Rightarrow> (nat \<Rightarrow> bytes) \<Rightarrow> (nat \<times> nat) list \<Rightarrow> ZkblobSender \<Rightarrow> (nat \<times> nat) list \<Rightarrow> bool" where
  "sender_inv g txHash data S s Q \<longleftrightarrow>
     (\<exists>rest. tl S = blobs s @ Q @ rest) \<and> seqQueue s = map mkSeq Q
     \<and> (lastSequenceInitialBatch s = 0 \<or> lastSeq s \<in> set (blobs s) \<or> Q \<noteq> [] \<and> lastSeq s = hd Q)
     \<and> distinct (posted s)
     \<and> (\<forall>p\<in>set (posted s). pairOf p \<in> set (blobs s) \<or> Q \<noteq> [] \<and> pairOf p = hd Q \<and> lastSeq s = hd Q)
     \<and> (\<forall>b\<in>set (blobs s). mkSeq b \<in> set (posted s) \<or> no_transactions g txHash data b)"

definition outstanding :: "ZkblobSender \<Rightarrow> bool" where
  "outstanding s \<longleftrightarrow> list_ex (\<lambda>p. pairOf p \<notin> set (blobs s)) (posted s)"

lemma blobFault_fields:
  assumes "blobFault s = (f, s')"
  shows "blobs s' = blobs s" "seqQueue s' = seqQueue s" "posted s' = posted s" "lastSeq s' = lastSeq s"
    "lastSequenceInitialBatch s' = lastSequenceInitialBatch s" "lastSequenceEndBatch s' = lastSequenceEndBatch s"
  using assms by (auto simp: blobFault_def lastSeq_def split: list.splits)

lemma sender_inv_cong:
  assumes "blobs s' = blobs s" "seqQueue s' = seqQueue s" "posted s' = posted s" "lastSequenceInitialBatch s' = lastSequenceInitialBatch s"
    "lastSequenceEndBatch s' = lastSequenceEndBatch s"
  shows "sender_inv g txHash data S s' Q = sender_inv g txHash data S s Q" "outstanding s' = outstanding s"
  using assms by (simp_all add: sender_inv_def outstanding_def lastSeq_def)

lemma sender_inv_fresh:
  assumes "seqs_ok S" "sender_inv g txHash data S s Q" "Q \<noteq> []"
  shows "fst (hd Q) \<notin> fst ` set (blobs s)" "0 < fst (hd Q)" "fst (hd Q) \<le> snd (hd Q)"
proof -
  obtain rest where t: "tl S = blobs s @ Q @ rest" using assms(2) by (auto simp: sender_inv_def)
  then have ok: "seqs_ok (blobs s @ Q @ rest)" using seqs_ok_tl [OF assms(1)] by simp
  then have lt: "\<forall>b\<in>set (blobs s). snd b < fst (hd Q)" using assms(3) by (simp add: seqs_ok_append)
  have "fst b < fst (hd Q)" if "b \<in> set (blobs s)" for b
    using lt that seqs_okD [OF ok, of b] by fastforce
  then show "fst (hd Q) \<notin> fst ` set (blobs s)" by (metis image_iff less_irrefl)
  show "0 < fst (hd Q)" "fst (hd Q) \<le> snd (hd Q)" using seqs_okD [OF ok, of "hd Q"] assms(3) by simp_all
qed

text \<open>Recording the front of the queue.\<close>

lemma recordAndMove_inv:
  assumes "seqs_ok S" "sender_inv g txHash data S s Q" "Q \<noteq> []" "lastSeq s = hd Q"
    and "mkSeq (hd Q) \<in> set (posted s) \<or> no_transactions g txHash data (hd Q)" "recordAndMove s = Some s'"
  shows "sender_inv g txHash data S s' (tl Q) \<and> \<not> outstanding s'"
proof -
  obtain f s1 where f: "blobFault s = (f, s1)" by fastforce
  note ff = blobFault_fields [OF f]
  have s': "blobs s' = blobs s @ [hd Q]" "seqQueue s' = tl (seqQueue s)" "posted s' = posted s" "lastSeq s' = lastSeq s"
    "lastSequenceInitialBatch s' = lastSequenceInitialBatch s"
    using assms(3,4,6) f ff assms(2)
    by (auto simp: recordAndMove_def AddZkBlob_def currentSequenceDone_def sq_Dequeue_def sq_IsEmpty_def lastSeq_def sender_inv_def
        split: if_splits)
  obtain q Q' where Q: "Q = q # Q'" using assms(3) by (cases Q) auto
  have posted: "\<forall>p\<in>set (posted s). pairOf p \<in> set (blobs s) \<or> pairOf p = q" using assms(2) Q by (auto simp: sender_inv_def)
  show ?thesis
    using assms(2,4,5) posted unfolding sender_inv_def outstanding_def s' Q list_ex_iff
    by (auto simp: map_tl)
qed

lemma handle_confirmed_inv:
  assumes "seqs_ok S" "sender_inv g txHash data S s Q" "results it = (if outstanding s then [MonitoredTxStatusConfirmed] else [])"
    and "handleAll (results it) (False, s) = Some (retry, s')"
  shows "\<exists>Q'. sender_inv g txHash data S s' Q' \<and> \<not> outstanding s'"
proof (cases "outstanding s")
  case False
  with assms show ?thesis by auto
next
  case True
  then obtain p where p: "p \<in> set (posted s)" "pairOf p \<notin> set (blobs s)" by (auto simp: outstanding_def list_ex_iff)
  with assms(2) have Q: "Q \<noteq> []" "pairOf p = hd Q" "lastSeq s = hd Q" by (auto simp: sender_inv_def)
  obtain h s1 where h: "HasFrom s (lastSequenceInitialBatch s) = (h, s1)" by fastforce
  obtain f where f: "blobFault s = (f, s1)" using h by (auto simp: HasFrom_def split: prod.splits)
  note ff = blobFault_fields [OF f]
  have "lastSequenceInitialBatch s = fst (hd Q)" using Q(3) by (simp add: lastSeq_def prod_eq_iff)
  then have "h \<noteq> Some True" using sender_inv_fresh(1) [OF assms(1,2) Q(1)] h f ff(1) by (auto simp: HasFrom_def split: if_splits)
  with assms(3,4) True h have r: "recordAndMove s1 = Some s'"
    by (auto simp: onResult_def split: option.splits bool.splits)
  have inv1: "sender_inv g txHash data S s1 Q" using sender_inv_cong(1) [OF ff(1,2,3,5,6)] assms(2) by simp
  have "mkSeq (hd Q) \<in> set (posted s1)" using p(1) Q(2) ff(3) by (metis pairOf_mkSeq(2))
  with recordAndMove_inv [OF assms(1) inv1 Q(1) _ _ r] Q(3) ff(4) show ?thesis by auto
qed

lemma seqs_ok_before:
  assumes "seqs_ok (xs @ ys)" "x \<in> set xs" "y \<in> set ys"
  shows "fst x < fst y"
proof -
  have "snd x < fst y" "fst x \<le> snd x" using assms seqs_okD [OF assms(1), of x] by (simp_all add: seqs_ok_append)
  then show ?thesis by simp
qed

lemma find_latest:
  assumes "seqs_ok (B @ [b])"
  shows "find (\<lambda>x. fst x = Max (fst ` set (B @ [b]))) (B @ [b]) = Some b"
proof -
  have lt: "fst x < fst b" if "x \<in> set B" for x
    using seqs_ok_before [OF assms that] by simp
  have "Max (fst ` set (B @ [b])) = fst b"
    by (rule Max_eqI) (auto dest!: lt)
  moreover have "find (\<lambda>x. fst x = fst b) (B @ [b]) = Some b"
    using lt by (induction B) (auto dest: less_imp_neq)
  ultimately show ?thesis by simp
qed

lemma find_latest_last:
  "seqs_ok B \<Longrightarrow> B \<noteq> [] \<Longrightarrow> find (\<lambda>x. fst x = Max (fst ` set B)) B = Some (last B)"
  by (cases B rule: rev_cases) (simp_all add: find_latest del: set_append)

text \<open>The part of a view of the sequences behind the latest recorded one.\<close>

lemma view_behind:
  assumes "seqs_ok S" "tl S = B @ Q @ rest"
    and "l = (if B = [] then initialSequenceFromBatchNumber else fst (last B))"
  shows "\<exists>j. tl (filter (\<lambda>q. fst q \<ge> l) (take k S)) = take j (Q @ rest)"
proof (cases "B = []")
  case True
  have "filter (\<lambda>q. fst q \<ge> l) (take k S) = take k S"
    using assms(1,3) True by (auto simp: filter_id_conv initialSequenceFromBatchNumber_def Suc_le_eq dest!: in_set_takeD seqs_okD)
  then show ?thesis using assms(2) True by (metis append_Nil tl_take)
next
  case False
  have S: "S = (hd S # butlast B) @ [last B] @ (Q @ rest)"
  proof -
    have "S = hd S # tl S" using assms(2) False by (cases S) auto
    also have "\<dots> = hd S # (butlast B @ [last B]) @ Q @ rest" using assms(2) False by simp
    finally show ?thesis by simp
  qed
  define A where "A = hd S # butlast B"
  have S': "S = A @ [last B] @ (Q @ rest)" using S by (simp add: A_def)
  have ok: "seqs_ok (A @ [last B] @ (Q @ rest))" using assms(1) S' by simp
  have small: "\<not> fst x \<ge> l" if "x \<in> set A" for x
    using seqs_ok_before [OF ok that, of "last B"] assms(3) False by simp
  have big: "fst x \<ge> l" if "x \<in> set ([last B] @ (Q @ rest))" for x
  proof (cases "x = last B")
    case True
    then show ?thesis using assms(3) False by simp
  next
    case other: False
    then have "x \<in> set (Q @ rest)" using that by auto
    then have "snd (last B) < fst x" using ok by (auto simp: seqs_ok_def sorted_wrt_append)
    then show ?thesis using seqs_okD [OF ok, of "last B"] assms(3) False by simp
  qed
  have none: "filter (\<lambda>q. fst q \<ge> l) (take k A) = []" using small by (auto simp: filter_empty_conv dest: in_set_takeD)
  have all: "filter (\<lambda>q. fst q \<ge> l) (take m ([last B] @ (Q @ rest))) = take m ([last B] @ (Q @ rest))" for m
    unfolding filter_id_conv using big by (blast dest: in_set_takeD)
  have "tl (filter (\<lambda>q. fst q \<ge> l) (take k S)) = tl (take (k - length A) ([last B] @ (Q @ rest)))"
    unfolding S' take_append [of k A] filter_append none append_Nil all ..
  also have "\<dots> = take (k - length A - 1) (Q @ rest)" by (simp add: tl_take)
  finally show ?thesis by blast
qed

lemma sender_last_behind:
  assumes "seqs_ok (blobs s @ Q @ rest)" "sender_inv g txHash data S s Q" "x \<in> set (if Q = [] then Q @ rest else tl (Q @ rest))"
  shows "fst x \<noteq> lastSequenceInitialBatch s"
proof -
  have x: "x \<in> set (Q @ rest)" using assms(3) by (cases Q) auto
  have pos: "0 < fst x" using seqs_okD [OF assms(1), of x] x by auto
  have old: "fst b < fst x" if "b \<in> set (blobs s)" for b
    using seqs_ok_before [OF assms(1) that x] .
  have hd: "fst (hd Q) < fst x" if "Q \<noteq> []"
  proof -
    have "blobs s @ Q @ rest = (blobs s @ [hd Q]) @ tl Q @ rest" using that by simp
    with assms(1) have "seqs_ok ((blobs s @ [hd Q]) @ tl Q @ rest)" by simp
    from seqs_ok_before [OF this, of "hd Q" x] assms(3) that show ?thesis by (cases Q) simp_all
  qed
  from assms(2) consider "lastSequenceInitialBatch s = 0" | "lastSeq s \<in> set (blobs s)" | "Q \<noteq> []" "lastSeq s = hd Q"
    by (auto simp: sender_inv_def)
  then show ?thesis
    using pos old [of "lastSeq s"] hd by cases (auto simp: lastSeq_def dest: arg_cong [of _ _ fst])
qed

lemma getSequenceBlobsToSend_inv:
  assumes "seqs_ok S" "sender_inv g txHash data S s Q" "\<not> outstanding s"
    and "stateSequences it = None \<or> (\<exists>k. stateSequences it = Some (take k S))"
  shows "\<exists>Q'. sender_inv g txHash data S (getSequenceBlobsToSend it s) Q' \<and> \<not> outstanding (getSequenceBlobsToSend it s)"
proof -
  obtain f s1 where f: "blobFault s = (f, s1)" by fastforce
  note ff = blobFault_fields [OF f]
  have inv1: "sender_inv g txHash data S s1 Q" "\<not> outstanding s1" using sender_inv_cong [OF ff(1,2,3,5,6)] assms(2,3) by simp_all
  show ?thesis
  proof (cases "f \<or> stateSequences it = None")
    case True
    then have "getSequenceBlobsToSend it s = s1"
      using f by (auto simp: getSequenceBlobsToSend_def GetLatestZkBlob_def Let_def split: option.splits prod.splits)
    with inv1 show ?thesis by auto
  next
    case False
    then obtain k where k: "stateSequences it = Some (take k S)" using assms(4) by auto
    obtain rest where t: "tl S = blobs s1 @ Q @ rest" using inv1(1) by (auto simp: sender_inv_def)
    have okT: "seqs_ok (blobs s1 @ Q @ rest)" using seqs_ok_tl [OF assms(1)] t by simp
    define l where "l = (if blobs s1 = [] then initialSequenceFromBatchNumber else fst (last (blobs s1)))"
    obtain a b where latest: "GetLatestZkBlob s = (Some (a, b), s1)" "(if a > 0 then a else initialSequenceFromBatchNumber) = l"
    proof (cases "blobs s1 = []")
      case True
      then show ?thesis using f False that by (simp add: GetLatestZkBlob_def l_def)
    next
      case ne: False
      have ok: "seqs_ok (blobs s1)" using okT by (simp add: seqs_ok_append)
      have "0 < fst (last (blobs s1))" using seqs_okD [OF ok last_in_set [OF ne]] by simp
      with find_latest_last [OF ok ne] ne f False that [of "fst (last (blobs s1))" "snd (last (blobs s1))"] show ?thesis
        by (simp add: GetLatestZkBlob_def l_def)
    qed
    from view_behind [OF assms(1) t l_def, of k] obtain j where j: "tl (filter (\<lambda>q. fst q \<ge> l) (take k S)) = take j (Q @ rest)" by blast
    have behind: "fst x \<noteq> lastSequenceInitialBatch s1" if "x \<in> set (if Q = [] then Q @ rest else tl (Q @ rest))" for x
      using sender_last_behind [OF okT inv1(1) that] .
    have "lastSequenceInitialBatch s1 \<notin> fst ` set (if Q = [] then Q @ rest else tl (Q @ rest))" using behind by (metis imageE)
    moreover have "seqs_ok (Q @ rest)" using okT by (simp add: seqs_ok_append)
    ultimately obtain Q' rest' where Q': "Q @ rest = Q' @ rest'"
      "enqueueLoop (lastSequenceInitialBatch s1) (map mkSeq Q) (take j (Q @ rest)) = map mkSeq Q'" "Q = [] \<or> Q' \<noteq> [] \<and> hd Q' = hd Q"
      using enqueueLoop_part by blast
    let ?s = "getSequenceBlobsToSend it s"
    have new: "?s = s1 \<or> ?s = s1\<lparr>seqQueue := map mkSeq Q'\<rparr>"
      using latest k j Q'(2) inv1(1) by (auto simp: getSequenceBlobsToSend_def Let_def sender_inv_def)
    have "sender_inv g txHash data S (s1\<lparr>seqQueue := map mkSeq Q'\<rparr>) Q'"
      using inv1(1) t Q'(1,3) by (auto simp: sender_inv_def lastSeq_def)
    moreover have "\<not> outstanding (s1\<lparr>seqQueue := map mkSeq Q'\<rparr>)" using inv1(2) by (simp add: outstanding_def)
    ultimately show ?thesis using new inv1 by auto
  qed
qed

text \<open>Sending the front of the queue.\<close>

lemma loadBatches_data:
  assumes "\<forall>i. GetBatchByNumber it i = None \<or> GetBatchByNumber it i = Some (data i)" "loadBatches it is = Some bs"
  shows "bs = map (\<lambda>i. (i, data i)) is"
  using assms(2)
proof (induction "is" arbitrary: bs)
  case (Cons i "is")
  then show ?case using assms(1) [rule_format, of i] by (auto split: option.splits)
qed simp

lemma NoZkBlobsToSend_cause:
  "HandleSequenceToZkBlob g txHash it bs = Some NoZkBlobsToSend \<Longrightarrow> batchHashes g txHash bs = Some []"
  by (auto simp: HandleSequenceToZkBlob_def split: if_splits option.splits)

lemma sendZkblob_fields:
  assumes "sendZkblob g txHash it s (mkSeq q) = (r, s')" "fst q \<le> snd q"
    and "\<forall>i. GetBatchByNumber it i = None \<or> GetBatchByNumber it i = Some (data i)"
  shows "blobs s' = blobs s" "seqQueue s' = seqQueue s" "lastSeq s' = q"
    "posted s' = (if r = Some Posted then posted s @ [mkSeq q] else posted s)"
    "r = Some NoZkBlobsToSend \<longrightarrow> no_transactions g txHash data q"
proof -
  have ne: "length sequences \<noteq> 0" if "loadBatches it [fst q..<Suc (snd q)] = Some sequences" for sequences
    using loadBatches_data [OF assms(3) that] assms(2) by simp
  have seqs: "no_transactions g txHash data q"
    if "loadBatches it [fst q..<Suc (snd q)] = Some sequences" "HandleSequenceToZkBlob g txHash it sequences = Some NoZkBlobsToSend"
    for sequences
    using NoZkBlobsToSend_cause [OF that(2)] loadBatches_data [OF assms(3) that(1)] by (simp add: no_transactions_def)
  show "blobs s' = blobs s" "seqQueue s' = seqQueue s" "lastSeq s' = q"
    "posted s' = (if r = Some Posted then posted s @ [mkSeq q] else posted s)"
    using assms(1) ne by (auto simp: sendZkblob_def lastSeq_def Let_def split: option.splits send_result.splits if_splits)
  show "r = Some NoZkBlobsToSend \<longrightarrow> no_transactions g txHash data q"
    using assms(1) seqs by (auto simp: sendZkblob_def Let_def split: option.splits send_result.splits if_splits)
qed

lemma sent_inv:
  assumes "seqs_ok S" "sender_inv g txHash data S s Q" "\<not> outstanding s" "Q \<noteq> []"
    and "blobs s' = blobs s" "seqQueue s' = seqQueue s" "lastSeq s' = hd Q"
    and "posted s' = posted s \<or> posted s' = posted s @ [mkSeq (hd Q)]"
  shows "sender_inv g txHash data S s' Q"
proof -
  have old: "pairOf p \<in> set (blobs s)" if "p \<in> set (posted s)" for p
    using assms(3) that by (auto simp: outstanding_def list_ex_iff)
  have "hd Q \<notin> set (blobs s)" using sender_inv_fresh(1) [OF assms(1,2,4)] by blast
  then have "mkSeq (hd Q) \<notin> set (posted s)" using old pairOf_mkSeq(1) by metis
  with assms(2,4,5-8) old show ?thesis by (auto simp: sender_inv_def)
qed

lemma sendCurrent_inv:
  assumes "seqs_ok S" "sender_inv g txHash data S s Q" "\<not> outstanding s"
    and "\<forall>i. GetBatchByNumber it i = None \<or> GetBatchByNumber it i = Some (data i)"
    and "sendCurrent g txHash it s = Some s'"
  shows "\<exists>Q'. sender_inv g txHash data S s' Q'"
proof (cases "Q = []")
  case True
  then have "s' = s" using assms(2,5) by (simp add: sendCurrent_def sq_Front_def sq_IsEmpty_def sender_inv_def)
  with assms(2) show ?thesis by auto
next
  case False
  then have front: "sq_Front (seqQueue s) = Some (mkSeq (hd Q))"
    using assms(2) by (simp add: sq_Front_def sq_IsEmpty_def sender_inv_def hd_map)
  obtain h s1 where h: "HasFrom s (fst (hd Q)) = (h, s1)" by fastforce
  obtain f where f: "blobFault s = (f, s1)" using h by (auto simp: HasFrom_def split: prod.splits)
  note ff = blobFault_fields [OF f]
  have "h \<noteq> Some True" using sender_inv_fresh(1) [OF assms(1,2) False] h f ff(1) by (auto simp: HasFrom_def split: if_splits)
  with assms(5) front h have h': "h = Some False" by (auto simp: sendCurrent_def split: option.splits)
  have inv1: "sender_inv g txHash data S s1 Q" "\<not> outstanding s1" using sender_inv_cong [OF ff(1,2,3,5,6)] assms(2,3) by simp_all
  obtain r s2 where z: "sendZkblob g txHash it s1 (mkSeq (hd Q)) = (r, s2)" by fastforce
  note zf = sendZkblob_fields [OF z sender_inv_fresh(3) [OF assms(1,2) False] assms(4)]
  have inv2: "sender_inv g txHash data S s2 Q"
    by (rule sent_inv [OF assms(1) inv1 False zf(1-3)]) (use zf(4) in auto)
  from assms(5) front h h' z consider "s' = s2" | "r = Some NoZkBlobsToSend" "recordAndMove s2 = Some s'"
    by (auto simp: sendCurrent_def split: option.splits send_result.splits)
  then show ?thesis
  proof cases
    case 2
    with zf(5) recordAndMove_inv [OF assms(1) inv2 False zf(3) _ 2(2)] show ?thesis by auto
  qed (use inv2 in auto)
qed

section \<open>Reachable states of the sender\<close>

text \<open>What an iteration meets: the transaction manager reports the posted sequence confirmed, the state holds the first \<open>k\<close>
  of the sequences \<open>S\<close> or cannot be read, a batch is read as \<open>data\<close> gives it or cannot be read.\<close>

definition honest :: "(nat \<Rightarrow> bytes) \<Rightarrow> (nat \<times> nat) list \<Rightarrow> ZkblobSender \<Rightarrow> iter \<Rightarrow> bool" where
  "honest data S s it \<longleftrightarrow>
     results it = (if outstanding s then [MonitoredTxStatusConfirmed] else [])
     \<and> (stateSequences it = None \<or> (\<exists>k. stateSequences it = Some (take k S)))
     \<and> (\<forall>i. GetBatchByNumber it i = None \<or> GetBatchByNumber it i = Some (data i))"

inductive sender_reach ::
  "geth \<Rightarrow> (LegacyTx \<Rightarrow> hash32) \<Rightarrow> (nat \<Rightarrow> bytes) \<Rightarrow> (nat \<times> nat) list \<Rightarrow> ZkblobSender \<Rightarrow> bool"
  for g txHash data S where
  started: "sender_reach g txHash data S (NewZkblobSender [] fs [])"
| faults: "sender_reach g txHash data S s \<Longrightarrow> sender_reach g txHash data S (s\<lparr>dbFaults := fs\<rparr>)"
| iterated: "sender_reach g txHash data S s \<Longrightarrow> honest data S s it \<Longrightarrow> tryToSendZkblob g txHash it s = Some s'
     \<Longrightarrow> sender_reach g txHash data S s'"

lemma tryToSendZkblob_inv:
  assumes "seqs_ok S" "sender_inv g txHash data S s Q" "honest data S s it" "tryToSendZkblob g txHash it s = Some s'"
  shows "\<exists>Q'. sender_inv g txHash data S s' Q'"
proof -
  from assms(4) obtain retry s1 where h: "handleAll (results it) (False, s) = Some (retry, s1)"
    by (auto simp: tryToSendZkblob_def split: option.splits)
  obtain Q1 where inv1: "sender_inv g txHash data S s1 Q1" "\<not> outstanding s1"
    using handle_confirmed_inv [OF assms(1,2) _ h] assms(3) by (auto simp: honest_def)
  show ?thesis
  proof (cases retry)
    case True
    with assms(4) h inv1 show ?thesis by (auto simp: tryToSendZkblob_def)
  next
    case False
    obtain Q2 where inv2: "sender_inv g txHash data S (getSequenceBlobsToSend it s1) Q2" "\<not> outstanding (getSequenceBlobsToSend it s1)"
      using getSequenceBlobsToSend_inv [OF assms(1) inv1, of it] assms(3) unfolding honest_def by blast
    show ?thesis
      by (rule sendCurrent_inv [OF assms(1) inv2]) (use assms(3,4) h False in \<open>auto simp: honest_def tryToSendZkblob_def\<close>)
  qed
qed

lemma sender_reach_inv:
  assumes "seqs_ok S" "sender_reach g txHash data S s"
  shows "\<exists>Q. sender_inv g txHash data S s Q"
  using assms(2)
proof induction
  case (started fs)
  have "sender_inv g txHash data S (NewZkblobSender [] fs []) []"
    by (simp add: sender_inv_def NewZkblobSender_def NewSequenceQueue_def)
  then show ?case ..
next
  case (faults s fs)
  then show ?case using sender_inv_cong(1) [of "s\<lparr>dbFaults := fs\<rparr>" s] by simp
next
  case (iterated s it s')
  then show ?case using tryToSendZkblob_inv [OF assms(1)] by blast
qed

section \<open>A restart with a pending transaction\<close>

text \<open>\<open>Start\<close> repeats the iterations; here for given surroundings.\<close>

fun zk_Start :: "geth \<Rightarrow> (LegacyTx \<Rightarrow> hash32) \<Rightarrow> iter list \<Rightarrow> ZkblobSender \<Rightarrow> ZkblobSender option" where
  "zk_Start g txHash [] s = Some s"
| "zk_Start g txHash (it # its) s =
     (case tryToSendZkblob g txHash it s of None \<Rightarrow> None | Some s \<Rightarrow> zk_Start g txHash its s)"

text \<open>Whether the transaction manager in the state \<open>w\<close> takes the transaction.\<close>

definition managerAdd ::
  "Config \<Rightarrow> etherman \<Rightarrow> world \<Rightarrow> (nat \<Rightarrow> nat \<Rightarrow> string) \<Rightarrow> bytes \<Rightarrow> bytes option \<Rightarrow> uint64 \<Rightarrow> nat \<Rightarrow> nat \<Rightarrow> bytes \<Rightarrow> bool" where
  "managerAdd cfg e w monitoredTxID sender to gasOffset a b data \<longleftrightarrow>
     fst (etm_Add cfg e w ''zkblob'' (monitoredTxID a b) sender to None (Some data) gasOffset) = None"

lemma storage_Add_known: "row_key mTx \<in> row_key ` set (rows w) \<Longrightarrow> \<exists>err. fst (storage_Add w mTx) = Some err"
  by (auto simp: storage_Add_def dbFault_def split: list.splits)

lemma managerAdd_known:
  "(''zkblob'', monitoredTxID a b) \<in> row_key ` set (rows w) \<Longrightarrow> \<not> managerAdd cfg e w monitoredTxID sender to gasOffset a b data"
  unfolding managerAdd_def etm_Add_def
  by (auto simp: row_key_def image_iff intro!: storage_Add_known split: option.splits)

definition row_kept :: "(nat \<Rightarrow> nat \<Rightarrow> string) \<Rightarrow> nat \<Rightarrow> nat \<Rightarrow> iter \<Rightarrow> bool" where
  "row_kept monitoredTxID a b it \<longleftrightarrow>
     (\<exists>cfg e w sender to gasOffset. (''zkblob'', monitoredTxID a b) \<in> row_key ` set (rows w)
        \<and> ethTxManagerAdd it = managerAdd cfg e w monitoredTxID sender to gasOffset)"

definition stalled :: "(nat \<times> nat) list \<Rightarrow> nat \<times> nat \<Rightarrow> (nat \<times> nat) list \<Rightarrow> BlobSequence list \<Rightarrow> ZkblobSender \<Rightarrow> bool" where
  "stalled B q rest ps s \<longleftrightarrow> blobs s = B @ [(0, 0)] \<and> dbFaults s = [] \<and> posted s = ps \<and> lastSequenceInitialBatch s \<in> {0, fst q}
     \<and> (\<exists>Q r. q # rest = Q @ r \<and> seqQueue s = map mkSeq Q)"

lemma latest_with_zero:
  assumes "seqs_ok B" "B \<noteq> []"
  shows "find (\<lambda>x. fst x = Max (fst ` set (B @ [(0, 0)]))) (B @ [(0, 0)]) = Some (last B)"
proof -
  have "Max (insert 0 (fst ` set B)) = Max (fst ` set B)" using assms(2) by simp
  moreover have "find P (B @ [x]) = Some y" if "find P B = Some y" for P x y using that by (induction B) (auto split: if_splits)
  ultimately show ?thesis using find_latest_last [OF assms] by simp
qed

lemma getSequenceBlobsToSend_stalled:
  assumes "seqs_ok S" "tl S = B @ q # rest" "stalled B q rest ps s" "stateSequences it = Some (take k S)"
  shows "stalled B q rest ps (getSequenceBlobsToSend it s)"
proof -
  define l where "l = (if B = [] then initialSequenceFromBatchNumber else fst (last B))"
  from assms(3) obtain Q r where Q: "q # rest = Q @ r" "seqQueue s = map mkSeq Q" by (auto simp: stalled_def)
  have okT: "seqs_ok (B @ Q @ r)" using seqs_ok_tl [OF assms(1)] assms(2) Q(1) by simp
  obtain a b where latest: "GetLatestZkBlob s = (Some (a, b), s)" "(if a > 0 then a else initialSequenceFromBatchNumber) = l"
  proof (cases "B = []")
    case True
    then show ?thesis using assms(3) that by (simp add: GetLatestZkBlob_def blobFault_def stalled_def l_def)
  next
    case ne: False
    have ok: "seqs_ok B" using okT by (simp add: seqs_ok_append)
    have "0 < fst (last B)" using seqs_okD [OF ok last_in_set [OF ne]] by simp
    with latest_with_zero [OF ok ne] ne assms(3) that [of "fst (last B)" "snd (last B)"] show ?thesis
      by (simp add: GetLatestZkBlob_def blobFault_def stalled_def l_def del: set_append)
  qed
  from assms(2) Q(1) have "tl S = B @ Q @ r" by simp
  from view_behind [OF assms(1) this l_def, of k] obtain j
    where j: "tl (filter (\<lambda>x. fst x \<ge> l) (take k S)) = take j (Q @ r)" by blast
  have late: "lastSequenceInitialBatch s \<noteq> fst x" if "x \<in> set rest" for x
  proof -
    have "seqs_ok ((B @ [q]) @ rest)" using seqs_ok_tl [OF assms(1)] assms(2) by simp
    from seqs_ok_before [OF this, of q x] that assms(3) show ?thesis by (auto simp: stalled_def)
  qed
  show ?thesis
  proof (cases Q)
    case Nil
    have "\<exists>Q' r'. q # rest = Q' @ r' \<and> enqueueLoop (lastSequenceInitialBatch s) [] (take j (q # rest)) = map mkSeq Q'"
    proof (cases j)
      case (Suc i)
      have ok: "seqs_ok ([q] @ take i rest)"
        using seqs_ok_take [of "q # rest" "Suc i"] seqs_ok_tl [OF assms(1)] assms(2) by (simp add: seqs_ok_append)
      have "lastSequenceInitialBatch s \<notin> fst ` set (take i rest)" using late by (auto dest!: in_set_takeD)
      from enqueueLoop_new [OF _ ok this] Suc show ?thesis
        by (intro exI [of _ "take j (q # rest)"] exI [of _ "drop j (q # rest)"], cases q)
          (simp add: sq_Back_def sq_IsEmpty_def sq_Enqueue_def)
    qed simp
    with latest assms(3,4) j Q Nil show ?thesis
      by (auto simp: getSequenceBlobsToSend_def stalled_def Let_def)
  next
    case (Cons q' Q')
    have "seqs_ok (Q @ r)" using okT by (simp add: seqs_ok_append)
    moreover have "lastSequenceInitialBatch s \<notin> fst ` set (if Q = [] then Q @ r else tl (Q @ r))"
      using late Q(1) Cons by auto
    ultimately obtain Q2 r2 where Q2: "Q @ r = Q2 @ r2"
      "enqueueLoop (lastSequenceInitialBatch s) (map mkSeq Q) (take j (Q @ r)) = map mkSeq Q2"
      using enqueueLoop_part by blast
    with latest assms(3,4) j Q show ?thesis
      by (auto simp: getSequenceBlobsToSend_def stalled_def Let_def)
  qed
qed

text \<open>Every further iteration tries to send the sequence again and is refused.\<close>

lemma tryToSendZkblob_stalled:
  assumes "seqs_ok S" "tl S = B @ q # rest" "stalled B q rest ps s"
    and "batchHashes g txHash (map (\<lambda>i. (i, data i)) [fst q..<Suc (snd q)]) = Some bhs" "bhs \<noteq> []"
    and "stateSequences it = Some (take k S)" "results it = []"
    and "\<forall>i. GetBatchByNumber it i = None \<or> GetBatchByNumber it i = Some (data i)"
    and "row_kept monitoredTxID (fst (hd bhs)) (fst (last bhs)) it"
  shows "\<exists>s'. tryToSendZkblob g txHash it s = Some s' \<and> stalled B q rest ps s'"
proof -
  let ?s = "getSequenceBlobsToSend it s"
  have st: "stalled B q rest ps ?s" by (rule getSequenceBlobsToSend_stalled [OF assms(1,2,3,6)])
  then obtain Q r where Q: "q # rest = Q @ r" "seqQueue ?s = map mkSeq Q" by (auto simp: stalled_def)
  have ok: "seqs_ok (B @ q # rest)" using seqs_ok_tl [OF assms(1)] assms(2) by simp
  have q: "fst q \<notin> fst ` set B" "0 < fst q" "fst q \<le> snd q"
    using seqs_ok_before [OF ok, of _ q] seqs_okD [OF ok, of q] by force+
  have refused: "\<not> ethTxManagerAdd it (fst (hd bhs)) (fst (last bhs)) d" for d
    using assms(9) by (auto simp: row_kept_def managerAdd_known)
  have H: "HandleSequenceToZkBlob g txHash it (map (\<lambda>i. (i, data i)) [fst q..<Suc (snd q)]) = Some SendFailed"
    using assms(4,5) refused q(3) by (auto simp: HandleSequenceToZkBlob_def split: option.splits)
  have send: "sendZkblob g txHash it ?s (mkSeq q)
      = (Some SendFailed, ?s\<lparr>lastSequenceInitialBatch := fst q, lastSequenceEndBatch := snd q\<rparr>)"
    using H loadBatches_data [OF assms(8), of "[fst q..<Suc (snd q)]"]
    by (auto simp: sendZkblob_def Let_def simp del: upt_Suc split: option.splits)
  have has: "HasFrom ?s (fst q) = (Some False, ?s)"
    using st q(1,2) by (simp add: HasFrom_def blobFault_def stalled_def)
  have run: "tryToSendZkblob g txHash it s = sendCurrent g txHash it ?s" using assms(7) by (simp add: tryToSendZkblob_def)
  show ?thesis
  proof (cases Q)
    case Nil
    with Q(2) st show ?thesis unfolding run by (simp add: sendCurrent_def sq_Front_def sq_IsEmpty_def)
  next
    case (Cons x Q')
    with Q have "sq_Front (seqQueue ?s) = Some (mkSeq q)" by (simp add: sq_Front_def sq_IsEmpty_def)
    with has send have "sendCurrent g txHash it ?s = Some (?s\<lparr>lastSequenceInitialBatch := fst q, lastSequenceEndBatch := snd q\<rparr>)"
      by (simp add: sendCurrent_def)
    moreover have "stalled B q rest ps (?s\<lparr>lastSequenceInitialBatch := fst q, lastSequenceEndBatch := snd q\<rparr>)"
      using st by (auto simp: stalled_def)
    ultimately show ?thesis unfolding run by blast
  qed
qed

text \<open>The first iteration after the restart.\<close>

lemma restart_records_zero:
  assumes "0 \<notin> fst ` set B" "results it = [MonitoredTxStatusConfirmed]"
  shows "tryToSendZkblob g txHash it (NewZkblobSender B [] ps)
    = tryToSendZkblob g txHash (it\<lparr>results := []\<rparr>) (NewZkblobSender (B @ [(0, 0)]) [] ps)"
proof -
  have f: "stateSequences (it\<lparr>results := []\<rparr>) = stateSequences it" "zkBlobDeployed (it\<lparr>results := []\<rparr>) = zkBlobDeployed it"
    "BuildPostZkBlobTxData (it\<lparr>results := []\<rparr>) = BuildPostZkBlobTxData it"
    "ethTxManagerAdd (it\<lparr>results := []\<rparr>) = ethTxManagerAdd it"
    by simp_all
  have g: "getSequenceBlobsToSend (it\<lparr>results := []\<rparr>) s = getSequenceBlobsToSend it s" for s
    unfolding getSequenceBlobsToSend_def f ..
  have l: "loadBatches (it\<lparr>results := []\<rparr>) is = loadBatches it is" for "is" by (induction "is") (simp_all split: option.split)
  have "sendCurrent g txHash (it\<lparr>results := []\<rparr>) s = sendCurrent g txHash it s" for s
    unfolding sendCurrent_def sendZkblob_def HandleSequenceToZkBlob_def l f ..
  with g assms show ?thesis
    by (simp add: tryToSendZkblob_def onResult_def HasFrom_def blobFault_def recordAndMove_def AddZkBlob_def
        currentSequenceDone_def NewZkblobSender_def NewSequenceQueue_def sq_Dequeue_def sq_IsEmpty_def)
qed

lemma zk_Start_stalled:
  assumes "seqs_ok S" "tl S = B @ q # rest"
    and "batchHashes g txHash (map (\<lambda>i. (i, data i)) [fst q..<Suc (snd q)]) = Some bhs" "bhs \<noteq> []"
    and "\<forall>it\<in>set its. results it = [] \<and> (\<exists>k. stateSequences it = Some (take k S))
       \<and> (\<forall>i. GetBatchByNumber it i = None \<or> GetBatchByNumber it i = Some (data i))
       \<and> row_kept monitoredTxID (fst (hd bhs)) (fst (last bhs)) it"
    and "stalled B q rest ps s"
  shows "\<exists>s'. zk_Start g txHash its s = Some s' \<and> stalled B q rest ps s'"
  using assms(5,6)
proof (induction its arbitrary: s)
  case (Cons it its)
  then obtain k where "stateSequences it = Some (take k S)" by auto
  with tryToSendZkblob_stalled [OF assms(1,2) Cons.prems(2) assms(3,4) this, of monitoredTxID] Cons.prems(1)
  obtain s' where "tryToSendZkblob g txHash it s = Some s'" "stalled B q rest ps s'" by auto
  with Cons.IH [of s'] Cons.prems(1) show ?case by auto
qed simp

section \<open>A concrete run of the sender\<close>

definition sampleSequences :: "(nat \<times> nat) list" where
  "sampleSequences = [(1, 1), (2, 2), (3, 3)]"

definition sampleData :: "nat \<Rightarrow> bytes" where
  "sampleData n = (if n = 2 then projr (EncodeBatchV2 plainGeth (Some sampleBatch)) else [])"

definition sampleTxHash :: "LegacyTx \<Rightarrow> hash32" where
  "sampleTxHash tx = replicate 32 7"

definition sampleIter :: "MonitoredTxStatus list \<Rightarrow> (nat \<Rightarrow> nat \<Rightarrow> bytes \<Rightarrow> bool) \<Rightarrow> iter" where
  "sampleIter rs add = \<lparr>results = rs, stateSequences = Some sampleSequences, GetBatchByNumber = (\<lambda>n. Some (sampleData n)),
     zkBlobDeployed = True, BuildPostZkBlobTxData = (\<lambda>ns hs. Some []), ethTxManagerAdd = add\<rparr>"

lemma sampleSequences_ok [simp]: "seqs_ok sampleSequences"
  by (simp add: sampleSequences_def seqs_ok_def)

lemma sampleIter_fields:
  "results (sampleIter rs add) = rs" "\<exists>k. stateSequences (sampleIter rs add) = Some (take k sampleSequences)"
  "GetBatchByNumber (sampleIter rs add) i = Some (sampleData i)"
  by (auto simp: sampleIter_def intro: exI [of _ "length sampleSequences"])

lemma sampleIter_honest:
  "rs = (if outstanding s then [MonitoredTxStatusConfirmed] else []) \<Longrightarrow> honest sampleData sampleSequences s (sampleIter rs add)"
  by (auto simp: honest_def sampleIter_fields)

lemma sampleData_decodes: "DecodeBatchV2 plainGeth (sampleData 2) = Some (Inr sampleBatch)"
proof -
  obtain d where d: "encodeBlocksV2 plainGeth [] (Blocks sampleBatch) = Inr d"
    using encodeBlocksV2_total [OF sampleBatch_ok, of "[]"] by auto
  then have e: "EncodeBatchV2 plainGeth (Some sampleBatch) = Inr d" by (simp add: EncodeBatchV2_def sampleBatch_def)
  then have "length d < 2 ^ 63" using sampleBatch_length by simp
  from decodeBatchLoop_blocks [OF sampleBatch_ok _ d this, of None "[]"] e show ?thesis
    by (simp add: DecodeBatchV2_def flushBlock_def sampleData_def)
qed

lemma sampleData_hashes:
  "batchHashes plainGeth sampleTxHash [(2, sampleData 2)] = Some [(2, [replicate 32 7])]"
  "batchHashes plainGeth sampleTxHash [(3, sampleData 3)] = Some []"
proof -
  show "batchHashes plainGeth sampleTxHash [(2, sampleData 2)] = Some [(2, [replicate 32 7])]"
    by (simp add: sampleData_decodes) (simp add: sampleBatch_def sampleTxHash_def)
  have "DecodeBatchV2 plainGeth [] = Some (Inr \<lparr>Blocks = []\<rparr>)"
    unfolding DecodeBatchV2_def by (subst decodeBatchLoop.simps) (simp add: flushBlock_def)
  then show "batchHashes plainGeth sampleTxHash [(3, sampleData 3)] = Some []"
    by (simp add: sampleData_def)
qed

definition samplePosted :: ZkblobSender where
  "samplePosted = \<lparr>seqQueue = [mkSeq (2, 2), mkSeq (3, 3)], lastSequenceInitialBatch = 2, lastSequenceEndBatch = 2, blobs = [],
     dbFaults = [], posted = [mkSeq (2, 2)]\<rparr>"

definition sampleRecorded :: ZkblobSender where
  "sampleRecorded = \<lparr>seqQueue = [], lastSequenceInitialBatch = 3, lastSequenceEndBatch = 3, blobs = [(2, 2), (3, 3)],
     dbFaults = [], posted = [mkSeq (2, 2)]\<rparr>"

lemmas sender_defs = tryToSendZkblob_def getSequenceBlobsToSend_def GetLatestZkBlob_def blobFault_def sendCurrent_def HasFrom_def
  sendZkblob_def HandleSequenceToZkBlob_def recordAndMove_def AddZkBlob_def onResult_def currentSequenceDone_def
  NewZkblobSender_def NewSequenceQueue_def sq_Front_def sq_IsEmpty_def sq_Back_def sq_Enqueue_def sq_Dequeue_def
  initialSequenceFromBatchNumber_def

lemma sampleRun:
  "tryToSendZkblob plainGeth sampleTxHash (sampleIter [] (\<lambda>_ _ _. True)) (NewZkblobSender [] [] []) = Some samplePosted"
  "tryToSendZkblob plainGeth sampleTxHash (sampleIter [MonitoredTxStatusConfirmed] (\<lambda>_ _ _. True)) samplePosted = Some sampleRecorded"
  by (simp_all add: sender_defs sampleIter_def sampleSequences_def samplePosted_def sampleRecorded_def sampleData_hashes
      Let_def upt_rec del: batchHashes.simps)

lemma sampleRecorded_reached: "sender_reach plainGeth sampleTxHash sampleData sampleSequences sampleRecorded"
proof -
  have "sender_reach plainGeth sampleTxHash sampleData sampleSequences samplePosted"
    by (rule sender_reach.iterated [OF sender_reach.started sampleIter_honest sampleRun(1)])
      (simp add: outstanding_def NewZkblobSender_def)
  then show ?thesis
    by (rule sender_reach.iterated [OF _ sampleIter_honest sampleRun(2)]) (simp add: outstanding_def samplePosted_def)
qed

section \<open>Properties of the sender\<close>

text \<open>
  C13: in every run in which posted sequences are confirmed, whichever accesses to the databases fail
  and however much of the sequences the state holds at each moment, the table of the sender follows the
  sequences of the state from the second one on, in order and without gaps; no sequence is posted twice;
  a posted sequence is one of the state, and either recorded or the front of the queue; and every
  recorded sequence was posted, unless none of its batches holds a transaction.  The sequences of the
  state are assumed to be ascending and disjoint.
\<close>

theorem sender_follows_sequences:
  assumes "seqs_ok S" "sender_reach g txHash data S s"
  shows "blobs s = take (length (blobs s)) (tl S) \<and> distinct (posted s)
    \<and> (\<forall>p\<in>set (posted s). pairOf p \<in> set (tl S) \<and> (pairOf p \<in> set (blobs s) \<or> sq_Front (seqQueue s) = Some p))
    \<and> (\<forall>b\<in>set (blobs s). mkSeq b \<in> set (posted s) \<or> no_transactions g txHash data b)"
proof -
  obtain Q where inv: "sender_inv g txHash data S s Q" using sender_reach_inv [OF assms] by blast
  then obtain rest where t: "tl S = blobs s @ Q @ rest" by (auto simp: sender_inv_def)
  have "pairOf p \<in> set (tl S) \<and> (pairOf p \<in> set (blobs s) \<or> sq_Front (seqQueue s) = Some p)" if "p \<in> set (posted s)" for p
  proof -
    from inv that consider "pairOf p \<in> set (blobs s)" | "Q \<noteq> []" "pairOf p = hd Q" by (auto simp: sender_inv_def)
    then show ?thesis
    proof cases
      case 2
      then have "mkSeq (hd Q) = p" by (metis pairOf_mkSeq(2))
      with 2 inv t show ?thesis by (simp add: sq_Front_def sq_IsEmpty_def sender_inv_def hd_map)
    qed (simp add: t)
  qed
  with inv t show ?thesis by (auto simp: sender_inv_def)
qed

theorem sender_follows_sequences_witness:
  "blobs sampleRecorded = tl sampleSequences \<and> posted sampleRecorded = [mkSeq (2, 2)]
     \<and> no_transactions plainGeth sampleTxHash sampleData (3, 3)"
  using sender_follows_sequences [OF sampleSequences_ok sampleRecorded_reached]
  by (simp add: sampleRecorded_def sampleSequences_def)

definition sampleTxID :: "nat \<Rightarrow> nat \<Rightarrow> string" where
  "sampleTxID a b = replicate a CHR ''a'' @ ''-'' @ replicate b CHR ''b''"

definition sampleKept :: "nat \<Rightarrow> nat \<Rightarrow> bytes \<Rightarrow> bool" where
  "sampleKept = managerAdd sampleConfig sampleEtherman
     \<lparr>rows = [sampleRow\<lparr>mOwner := ''zkblob'', mId := sampleTxID 2 2, mStatus := MonitoredTxStatusDone\<rparr>], faults = [], network = []\<rparr>
     sampleTxID [1] (Some [2]) 0"

lemma sampleKept_kept: "row_kept sampleTxID 2 2 (sampleIter rs sampleKept)"
  unfolding row_kept_def sampleIter_def sampleKept_def iter.simps
  by (rule exI, rule exI, rule exI, rule exI, rule exI, rule exI, rule conjI [OF _ refl]) (simp add: row_key_def)

text \<open>
  C11: the sender that was restarted while a transaction of its own was pending never sends a further
  sequence.  It does not know which sequence the transaction belongs to and takes the confirmation for
  one of the sequence from 0 to 0, which it records; the pending sequence stays unrecorded, so it is
  sent again in every iteration, and the transaction manager, whose table keeps the finished
  transaction, refuses the same id every time.  The hypothesis on the manager is about its table only;
  that it refuses follows from the model of the manager.
\<close>

theorem restarted_sender_stalls:
  assumes "seqs_ok S" "tl S = B @ q # rest"
    and "batchHashes g txHash (map (\<lambda>i. (i, data i)) [fst q..<Suc (snd q)]) = Some bhs" "bhs \<noteq> []"
    and "\<forall>it\<in>set (it # its). (\<exists>k. stateSequences it = Some (take k S))
       \<and> (\<forall>i. GetBatchByNumber it i = None \<or> GetBatchByNumber it i = Some (data i))
       \<and> row_kept monitoredTxID (fst (hd bhs)) (fst (last bhs)) it"
    and "results it = [MonitoredTxStatusConfirmed]" "\<forall>it\<in>set its. results it = []"
  shows "\<exists>s. zk_Start g txHash (it # its) (NewZkblobSender B [] ps) = Some s \<and> blobs s = B @ [(0, 0)] \<and> posted s = ps"
proof -
  have ok: "seqs_ok (B @ q # rest)" using seqs_ok_tl [OF assms(1)] assms(2) by simp
  have "0 \<notin> fst ` set B" using seqs_okD [OF ok] by force
  then have first: "zk_Start g txHash (it # its) (NewZkblobSender B [] ps)
      = zk_Start g txHash (it\<lparr>results := []\<rparr> # its) (NewZkblobSender (B @ [(0, 0)]) [] ps)"
    by (simp add: restart_records_zero [OF _ assms(6)])
  have kept: "row_kept monitoredTxID a b (it\<lparr>results := []\<rparr>) = row_kept monitoredTxID a b it" for a b
    by (simp add: row_kept_def)
  have "stalled B q rest ps (NewZkblobSender (B @ [(0, 0)]) [] ps)"
    by (simp add: stalled_def NewZkblobSender_def NewSequenceQueue_def)
  from zk_Start_stalled [OF assms(1-4) _ this, of "it\<lparr>results := []\<rparr> # its" monitoredTxID] assms(5,7) kept
  show ?thesis unfolding first by (auto simp: stalled_def)
qed

theorem restarted_sender_stalls_witness:
  "\<exists>s. zk_Start plainGeth sampleTxHash
        [sampleIter [MonitoredTxStatusConfirmed] sampleKept, sampleIter [] sampleKept, sampleIter [] sampleKept]
        (NewZkblobSender [] [] [mkSeq (2, 2)]) = Some s
     \<and> blobs s = [(0, 0)] \<and> posted s = [mkSeq (2, 2)]"
proof -
  have b: "batchHashes plainGeth sampleTxHash (map (\<lambda>i. (i, sampleData i)) [fst (2, 2)..<Suc (snd (2 :: nat, 2))])
      = Some [(2, [replicate 32 7])]"
    using sampleData_hashes(1) by (simp add: upt_rec)
  have t: "tl sampleSequences = [] @ (2, 2) # [(3, 3)]" by (simp add: sampleSequences_def)
  have "\<exists>s. zk_Start plainGeth sampleTxHash
        [sampleIter [MonitoredTxStatusConfirmed] sampleKept, sampleIter [] sampleKept, sampleIter [] sampleKept]
        (NewZkblobSender [] [] [mkSeq (2, 2)]) = Some s
     \<and> blobs s = [] @ [(0, 0)] \<and> posted s = [mkSeq (2, 2)]"
    by (rule restarted_sender_stalls [OF sampleSequences_ok t b, where monitoredTxID = sampleTxID])
      (simp_all add: sampleIter_fields sampleKept_kept)
  then show ?thesis by (simp only: append_Nil)
qed

end
