(* ===== verification/SequenceSender.thy ===== *)
theory SequenceSender
  imports EthTxResults
begin

text \<open>
  The sequence sender (\<open>sequencesender/sequencesender.go\<close>): it waits for its pending transactions, checks
  that L1 and the node agree, collects closed batches and posts them on L1.

  The state database, the contract, L1 headers and the clock are answers in \<open>seqEnv\<close>; the lists are
  consumed in the order of the calls, and the result \<open>None\<close> means that the sender still waits when
  they end.  Times are seconds; 64 bit integers with a sign are words read with \<open>sint\<close>.
\<close>

section \<open>Configuration, state and surroundings\<close>

type_synonym int64 = "64 word"

record seqCfg =
  ForkUpgradeBatchNumber :: uint64
  MaxBatchesForL1 :: uint64
  SequenceL1BlockConfirmations :: uint64
  L1BlockTimestampMargin :: int64
  LastBatchVirtualizationTimeMaxWaitPeriod :: int

record SequenceSender =
  senderInitialBatch :: uint64
  senderEndBatch :: uint64

definition NewSequenceSender :: SequenceSender where
  "NewSequenceSender = \<lparr>senderInitialBatch = 0, senderEndBatch = 0\<rparr>"

record stateBatch =
  sbBatchNumber :: uint64
  sbBatchL2Data :: bytes
  sbForcedBatchNum :: "uint64 option"

record ForcedBatch =
  fbGlobalExitRoot :: hash32
  fbForcedAt :: int
  fbBlockNumber :: uint64

record L1Sequence =
  lsBatchNumber :: uint64
  lsBatchL2Data :: bytes
  lsGlobalExitRoot :: hash32
  lsForcedBatchTimestamp :: int
  lsPrevBlockHash :: hash32
  lsLastL2BLockTimestamp :: int

record seqState =
  seqGetBatch :: "uint64 \<Rightarrow> stateBatch lookup"
  seqIsChecked :: "uint64 \<Rightarrow> bool option"
  seqForcedBatch :: "uint64 \<Rightarrow> ForcedBatch option"
  seqBlockParent :: "uint64 \<Rightarrow> hash32 option"
  seqLastL2Block :: "uint64 \<Rightarrow> int option option"
  seqVirtualizationTime :: "int lookup"
  seqLastVirtual :: "uint64 lookup"
  seqLastClosed :: "uint64 lookup"

record seqEnv =
  seqResults :: "MonitoredTxResult list"
  l1Headers :: "(uint64 \<times> uint64) option list"
  scBatches :: "uint64 option list"
  clocks :: "uint64 list"
  seqStateNow :: seqState
  timeNow :: int
  PostSequence :: "L1Sequence list \<Rightarrow> bytes option"
  BuildSequenceBatchesTxData :: "L1Sequence list \<Rightarrow> uint64 \<Rightarrow> uint64 \<Rightarrow> bytes \<Rightarrow> bytes option"
  seqAddTx :: "uint64 \<Rightarrow> uint64 \<Rightarrow> bytes \<Rightarrow> bool"

section \<open>Time\<close>

definition marginTimeElapsed :: "uint64 \<Rightarrow> uint64 \<Rightarrow> int64 \<Rightarrow> bool \<times> int64" where
  "marginTimeElapsed l2BlockTimestamp currentTime timeMargin =
     (let timeDiff = (if l2BlockTimestamp \<ge> currentTime then - (l2BlockTimestamp - currentTime) else currentTime - l2BlockTimestamp)
      in if sint timeDiff < sint timeMargin
         then (False, if sint timeDiff < 0 then timeMargin + (- timeDiff) else timeMargin - timeDiff)
         else (True, 0))"

text \<open>The waiting loops; an error of the header ends the attempt.\<close>

fun waitHeader :: "uint64 \<Rightarrow> int64 \<Rightarrow> (uint64 \<times> uint64) option list \<Rightarrow> (bool \<times> (uint64 \<times> uint64) option list) option" where
  "waitHeader ts margin [] = None"
| "waitHeader ts margin (None # hs) = Some (False, hs)"
| "waitHeader ts margin (Some (n, t) # hs) = (if fst (marginTimeElapsed ts t margin) then Some (True, hs) else waitHeader ts margin hs)"

fun waitClock :: "uint64 \<Rightarrow> int64 \<Rightarrow> uint64 list \<Rightarrow> uint64 list option" where
  "waitClock ts margin [] = None"
| "waitClock ts margin (t # cs) = (if fst (marginTimeElapsed ts t margin) then Some cs else waitClock ts margin cs)"

fun waitConfirmations :: "uint64 \<Rightarrow> (uint64 \<times> uint64) option list \<Rightarrow> (uint64 \<times> uint64) option list option" where
  "waitConfirmations target [] = None"
| "waitConfirmations target (None # hs) = waitConfirmations target hs"
| "waitConfirmations target (Some (n, t) # hs) = (if n \<ge> target then Some hs else waitConfirmations target hs)"

section \<open>Results of earlier transactions\<close>

datatype handler_outcome = HandlerOk | HandlerRetry | HandlerHalt | HandlerPanic

definition onSeqResult :: "seqCfg \<Rightarrow> SequenceSender \<Rightarrow> MonitoredTxResult \<Rightarrow> seqEnv \<Rightarrow> (handler_outcome \<times> seqEnv) option" where
  "onSeqResult c s result env =
     (if resStatus result = MonitoredTxStatusConfirmed then
        (if length (resTxs result) > 0 then
           (case find (\<lambda>tx. trReceipt (snd tx) \<noteq> None) (resTxs result) of
              None \<Rightarrow> Some (HandlerHalt, env)
            | Some (h, tx) \<Rightarrow>
                (case (trTx tx, rBlockNumber (the (trReceipt tx))) of
                   (Some _, Some txL1BlockNumber) \<Rightarrow>
                     (case waitConfirmations (of_nat txL1BlockNumber + SequenceL1BlockConfirmations c) (l1Headers env) of
                        None \<Rightarrow> None
                      | Some hs \<Rightarrow>
                          (case scBatches env of
                             [] \<Rightarrow> None
                           | sc # scs \<Rightarrow>
                               Some (case sc of
                                       None \<Rightarrow> HandlerOk
                                     | Some lastSCBatchNum \<Rightarrow>
                                         if senderEndBatch s \<noteq> 0 \<and> lastSCBatchNum \<noteq> senderEndBatch s then HandlerHalt else HandlerOk,
                                     env\<lparr>l1Headers := hs, scBatches := scs\<rparr>)))
                 | _ \<Rightarrow> Some (HandlerPanic, env)))
         else Some (HandlerHalt, env))
      else Some (HandlerRetry, env))"

text \<open>All results; a halt or panic ends the sender, a failed one is remembered.\<close>

fun onSeqResults :: "seqCfg \<Rightarrow> SequenceSender \<Rightarrow> MonitoredTxResult list \<Rightarrow> seqEnv \<Rightarrow> (handler_outcome \<times> seqEnv) option" where
  "onSeqResults c s [] env = Some (HandlerOk, env)"
| "onSeqResults c s (r # rs) env =
     (case onSeqResult c s r env of
        None \<Rightarrow> None
      | Some (HandlerHalt, env) \<Rightarrow> Some (HandlerHalt, env)
      | Some (HandlerPanic, env) \<Rightarrow> Some (HandlerPanic, env)
      | Some (HandlerOk, env) \<Rightarrow> onSeqResults c s rs env
      | Some (HandlerRetry, env) \<Rightarrow>
          map_option (\<lambda>(out, env). (if out = HandlerOk then HandlerRetry else out, env)) (onSeqResults c s rs env))"

section \<open>Sanity check\<close>

datatype sanity = SanityOk | SanityUnknown | SanityError | SanityPanic

definition retriesSanityCheck :: nat where
  "retriesSanityCheck = 8"

fun sanityRetries :: "nat \<Rightarrow> uint64 \<Rightarrow> uint64 option list \<Rightarrow> (sanity \<times> uint64 option list) option" where
  "sanityRetries 0 v scs = Some (SanityOk, scs)"
| "sanityRetries (Suc n) v [] = None"
| "sanityRetries (Suc n) v (None # scs) = Some (SanityUnknown, scs)"
| "sanityRetries (Suc n) v (Some sc # scs) =
     (if v = sc then Some (SanityOk, scs) else if n = 0 then Some (SanityError, scs) else sanityRetries n v scs)"

definition sanityCheck :: "seqState \<Rightarrow> uint64 option list \<Rightarrow> (sanity \<times> uint64 option list) option" where
  "sanityCheck st scs =
     (if seqLastVirtual st = LookupError \<or> seqLastClosed st = LookupError then Some (SanityUnknown, scs)
      else
        (let v = (case seqLastVirtual st of Found v \<Rightarrow> v | _ \<Rightarrow> 0)
         in case scs of
              [] \<Rightarrow> None
            | None # scs \<Rightarrow> Some (SanityUnknown, scs)
            | Some sc # scs \<Rightarrow>
                (case (if v > sc then sanityRetries retriesSanityCheck v scs else Some (SanityOk, scs)) of
                   Some (SanityOk, scs) \<Rightarrow>
                     Some (case seqLastClosed st of
                             Found closed \<Rightarrow> if closed < v then SanityError else SanityOk
                           | _ \<Rightarrow> SanityPanic, scs)
                 | r \<Rightarrow> r)))"

section \<open>Collecting batches\<close>

datatype seq_error = SCUnavailable | ForkUpgradeReached | StateUnavailable

definition sequenceOf :: "seqState \<Rightarrow> uint64 \<Rightarrow> stateBatch \<Rightarrow> L1Sequence option" where
  "sequenceOf st n batch =
     (let sq = \<lparr>lsBatchNumber = sbBatchNumber batch, lsBatchL2Data = sbBatchL2Data batch, lsGlobalExitRoot = zero_hash, lsForcedBatchTimestamp = 0,
                lsPrevBlockHash = zero_hash, lsLastL2BLockTimestamp = 0\<rparr>
      in case sbForcedBatchNum batch of
           Some f \<Rightarrow>
             (case seqForcedBatch st f of
                None \<Rightarrow> None
              | Some forcedBatch \<Rightarrow>
                  map_option (\<lambda>parent. sq\<lparr>lsGlobalExitRoot := fbGlobalExitRoot forcedBatch, lsForcedBatchTimestamp := fbForcedAt forcedBatch,
                                lsPrevBlockHash := parent, lsLastL2BLockTimestamp := fbForcedAt forcedBatch\<rparr>)
                    (seqBlockParent st (fbBlockNumber forcedBatch)))
         | None \<Rightarrow>
             (case seqLastL2Block st n of
                Some (Some received) \<Rightarrow> Some (sq\<lparr>lsLastL2BLockTimestamp := received\<rparr>)
              | _ \<Rightarrow> None))"

text \<open>The flag tells that the limit of batches was reached.\<close>

partial_function (option) sequenceLoop ::
  "seqCfg \<Rightarrow> seqState \<Rightarrow> uint64 \<Rightarrow> L1Sequence list \<Rightarrow> (seq_error + bool \<times> L1Sequence list) option" where
  "sequenceLoop c st n sequences =
     (if ForkUpgradeBatchNumber c \<noteq> 0 \<and> n = ForkUpgradeBatchNumber c + 1 then Some (Inl ForkUpgradeReached)
      else
        (case seqGetBatch st n of
           NotFound \<Rightarrow> Some (Inr (False, sequences))
         | LookupError \<Rightarrow> Some (Inl StateUnavailable)
         | Found batch \<Rightarrow>
             (case seqIsChecked st n of
                None \<Rightarrow> Some (Inl StateUnavailable)
              | Some isChecked \<Rightarrow>
                  if \<not> isChecked then Some (Inr (False, sequences))
                  else
                    (case sequenceOf st n batch of
                       None \<Rightarrow> Some (Inl StateUnavailable)
                     | Some sq \<Rightarrow>
                         if int (length (sequences @ [sq])) = sint (MaxBatchesForL1 c) then Some (Inr (True, sequences @ [sq]))
                         else sequenceLoop c st (n + 1) (sequences @ [sq])))))"

text \<open>The zero time of Go, the first of January of the year 1.\<close>

definition zeroTime :: int where
  "zeroTime = - 62135596800"

definition getSequencesToSend :: "seqCfg \<Rightarrow> seqState \<Rightarrow> uint64 option \<Rightarrow> int \<Rightarrow> (seq_error + L1Sequence list) option" where
  "getSequencesToSend c st sc now =
     (case sc of
        None \<Rightarrow> Some (Inl SCUnavailable)
      | Some lastVirtualBatchNum \<Rightarrow>
          (case sequenceLoop c st (lastVirtualBatchNum + 1) [] of
             None \<Rightarrow> None
           | Some (Inl err) \<Rightarrow> Some (Inl err)
           | Some (Inr (full, sequences)) \<Rightarrow>
               Some (Inr (if full then sequences
                          else if length sequences = 0 then []
                          else
                            (case seqVirtualizationTime st of
                               LookupError \<Rightarrow> sequences
                             | found \<Rightarrow>
                                 if (case found of Found t \<Rightarrow> t | _ \<Rightarrow> zeroTime) < now - LastBatchVirtualizationTimeMaxWaitPeriod c
                                 then sequences else [])))))"

section \<open>One attempt\<close>

datatype seq_outcome = NothingSent | SenderHalted | SenderPanic | SequencesSent "L1Sequence list"

definition postSequences :: "seqCfg \<Rightarrow> SequenceSender \<Rightarrow> L1Sequence list \<Rightarrow> seqEnv \<Rightarrow> (seq_outcome \<times> SequenceSender \<times> seqEnv) option" where
  "postSequences c s sequences env =
     (let lastSequence = last sequences; firstSequence = hd sequences;
          lastL2BlockTimestamp = of_int (lsLastL2BLockTimestamp lastSequence) :: uint64;
          timeMargin = L1BlockTimestampMargin c
      in case waitHeader lastL2BlockTimestamp timeMargin (l1Headers env) of
           None \<Rightarrow> None
         | Some (False, hs) \<Rightarrow> Some (NothingSent, s, env\<lparr>l1Headers := hs\<rparr>)
         | Some (True, hs) \<Rightarrow>
             (case waitClock lastL2BlockTimestamp timeMargin (clocks env) of
                None \<Rightarrow> None
              | Some cs \<Rightarrow>
                  (let env = env\<lparr>l1Headers := hs, clocks := cs\<rparr>
                   in case PostSequence env sequences of
                        None \<Rightarrow> Some (NothingSent, s, env)
                      | Some message \<Rightarrow>
                          (case BuildSequenceBatchesTxData env sequences lastL2BlockTimestamp (lsBatchNumber firstSequence - 1) message of
                             None \<Rightarrow> Some (NothingSent, s, env)
                           | Some d \<Rightarrow>
                               if seqAddTx env (lsBatchNumber firstSequence) (lsBatchNumber lastSequence) d
                               then Some (SequencesSent sequences,
                                          s\<lparr>senderInitialBatch := lsBatchNumber firstSequence, senderEndBatch := lsBatchNumber lastSequence\<rparr>, env)
                               else Some (NothingSent, s, env)))))"

definition collectAndPost :: "seqCfg \<Rightarrow> SequenceSender \<Rightarrow> seqEnv \<Rightarrow> (seq_outcome \<times> SequenceSender \<times> seqEnv) option" where
  "collectAndPost c s env =
     (case scBatches env of
        [] \<Rightarrow> None
      | sc # scs \<Rightarrow>
          (let env = env\<lparr>scBatches := scs\<rparr>
           in case getSequencesToSend c (seqStateNow env) sc (timeNow env) of
                None \<Rightarrow> None
              | Some (Inl err) \<Rightarrow> Some (NothingSent, s, env)
              | Some (Inr sequences) \<Rightarrow>
                  if length sequences = 0 then Some (NothingSent, s, env)
                  else
                    (case scBatches env of
                       [] \<Rightarrow> None
                     | None # scs \<Rightarrow> Some (NothingSent, s, env\<lparr>scBatches := scs\<rparr>)
                     | Some _ # scs \<Rightarrow> postSequences c s sequences (env\<lparr>scBatches := scs\<rparr>))))"

definition tryToSendSequence :: "seqCfg \<Rightarrow> SequenceSender \<Rightarrow> seqEnv \<Rightarrow> (seq_outcome \<times> SequenceSender \<times> seqEnv) option" where
  "tryToSendSequence c s env =
     (case onSeqResults c s (seqResults env) env of
        None \<Rightarrow> None
      | Some (HandlerHalt, env) \<Rightarrow> Some (SenderHalted, s, env)
      | Some (HandlerPanic, env) \<Rightarrow> Some (SenderPanic, s, env)
      | Some (HandlerRetry, env) \<Rightarrow> Some (NothingSent, s, env)
      | Some (HandlerOk, env) \<Rightarrow>
          (case sanityCheck (seqStateNow env) (scBatches env) of
             None \<Rightarrow> None
           | Some (SanityError, scs) \<Rightarrow> Some (SenderHalted, s, env\<lparr>scBatches := scs\<rparr>)
           | Some (SanityPanic, scs) \<Rightarrow> Some (SenderPanic, s, env\<lparr>scBatches := scs\<rparr>)
           | Some (SanityUnknown, scs) \<Rightarrow> Some (NothingSent, s, env\<lparr>scBatches := scs\<rparr>)
           | Some (SanityOk, scs) \<Rightarrow> collectAndPost c s (env\<lparr>scBatches := scs\<rparr>)))"

section \<open>Collected batches\<close>

text \<open>The state answers with the batch that was asked for.\<close>

definition numbered :: "seqState \<Rightarrow> bool" where
  "numbered st \<longleftrightarrow> (\<forall>n batch. seqGetBatch st n = Found batch \<longrightarrow> sbBatchNumber batch = n)"

lemma sequenceOf_number: "sequenceOf st n batch = Some sq \<Longrightarrow> lsBatchNumber sq = sbBatchNumber batch"
  by (auto simp: sequenceOf_def Let_def split: option.splits)

text \<open>Consecutive checked batches from the number \<open>n\<close> on, none behind the upgrade of the fork.\<close>

fun run_from :: "seqCfg \<Rightarrow> seqState \<Rightarrow> uint64 \<Rightarrow> L1Sequence list \<Rightarrow> bool" where
  "run_from c st n [] \<longleftrightarrow> True"
| "run_from c st n (sq # sqs) \<longleftrightarrow> lsBatchNumber sq = n \<and> seqIsChecked st n = Some True
     \<and> \<not> (ForkUpgradeBatchNumber c \<noteq> 0 \<and> n = ForkUpgradeBatchNumber c + 1) \<and> run_from c st (n + 1) sqs"

lemma run_from_snoc:
  "run_from c st n (sqs @ [sq]) \<longleftrightarrow> run_from c st n sqs \<and> run_from c st (n + of_nat (length sqs)) [sq]"
  by (induction sqs arbitrary: n) (auto simp: add.assoc)

definition within :: "seqCfg \<Rightarrow> nat \<Rightarrow> bool" where
  "within c k \<longleftrightarrow> (0 < sint (MaxBatchesForL1 c) \<longrightarrow> int k \<le> sint (MaxBatchesForL1 c))"

definition loop_ok :: "seqCfg \<Rightarrow> seqState \<Rightarrow> uint64 \<Rightarrow> L1Sequence list \<Rightarrow> seq_error + bool \<times> L1Sequence list \<Rightarrow> bool" where
  "loop_ok c st n sequences r \<longleftrightarrow>
     (\<forall>n0 full sqs. numbered st \<and> run_from c st n0 sequences \<and> n = n0 + of_nat (length sequences) \<and> within c (Suc (length sequences))
        \<and> r = Inr (full, sqs) \<longrightarrow> run_from c st n0 sqs \<and> within c (length sqs))"

lemma sequenceLoop_ok:
  assumes "sequenceLoop c st n sequences = Some r"
  shows "loop_ok c st n sequences r"
proof (rule sequenceLoop.raw_induct [OF _ assms, where P = loop_ok], goal_cases)
  case (1 loop c st n sequences r)
  show ?case
    unfolding loop_ok_def
  proof (intro allI impI, elim conjE)
    fix n0 full sqs
    assume st: "numbered st" "run_from c st n0 sequences" "n = n0 + of_nat (length sequences)" "within c (Suc (length sequences))"
      and r: "r = Inr (full, sqs)"
    have w: "within c (length sequences)" using st(4) by (auto simp: within_def)
    show "run_from c st n0 sqs \<and> within c (length sqs)"
    proof (cases "sqs = sequences")
      case True
      with st w show ?thesis by simp
    next
      case False
      with 1(2) r obtain batch sq where b: "seqGetBatch st n = Found batch" "seqIsChecked st n = Some True" "sequenceOf st n batch = Some sq"
        and f: "\<not> (ForkUpgradeBatchNumber c \<noteq> 0 \<and> n = ForkUpgradeBatchNumber c + 1)"
        and step: "sqs = sequences @ [sq] \<or> int (length (sequences @ [sq])) \<noteq> sint (MaxBatchesForL1 c) \<and> loop c st (n + 1) (sequences @ [sq]) = Some r"
        by (auto split: if_splits lookup.splits option.splits)
      have "lsBatchNumber sq = n" using sequenceOf_number [OF b(3)] st(1) b(1) by (simp add: numbered_def)
      then have run: "run_from c st n0 (sequences @ [sq])" using st(2,3) b(2) f by (simp add: run_from_snoc)
      from step show ?thesis
      proof
        assume "sqs = sequences @ [sq]"
        with run st(4) show ?thesis by simp
      next
        assume l: "int (length (sequences @ [sq])) \<noteq> sint (MaxBatchesForL1 c) \<and> loop c st (n + 1) (sequences @ [sq]) = Some r"
        then have "within c (Suc (length (sequences @ [sq])))" using st(4) by (auto simp: within_def)
        moreover have "n + 1 = n0 + of_nat (length (sequences @ [sq]))" using st(3) by simp
        moreover have "loop_ok c st (n + 1) (sequences @ [sq]) r" using 1(1) l by blast
        ultimately show ?thesis using st(1) run r unfolding loop_ok_def by blast
      qed
    qed
  qed
qed

text \<open>The loop ends when the state has no batch behind the ones it reads.\<close>

lemma sequenceLoop_returns:
  "seqGetBatch st (n + of_nat k) = NotFound \<Longrightarrow> \<exists>r. sequenceLoop c st n sequences = Some r"
proof (induction k arbitrary: n sequences)
  case 0
  then show ?case by (subst sequenceLoop.simps) simp
next
  case (Suc k)
  then have "\<exists>r. sequenceLoop c st (n + 1) sqs = Some r" for sqs by (simp add: add.assoc)
  then show ?case by (subst sequenceLoop.simps) (auto split: lookup.split option.split)
qed

section \<open>The upgrade of the fork\<close>

text \<open>
  A batch that can be sent: it is stored, closed and checked, and its sequence can be formed.
\<close>

definition sendable :: "seqState \<Rightarrow> uint64 \<Rightarrow> bool" where
  "sendable st n \<longleftrightarrow> (\<exists>batch sq. seqGetBatch st n = Found batch \<and> seqIsChecked st n = Some True \<and> sequenceOf st n batch = Some sq)"

lemma sequenceLoop_aborts:
  assumes "ForkUpgradeBatchNumber c \<noteq> 0" "\<And>i. i < k \<Longrightarrow> sendable st (n + of_nat i)" "n + of_nat k = ForkUpgradeBatchNumber c + 1"
    and "\<And>i. i < k \<Longrightarrow> int (Suc (length sequences + i)) \<noteq> sint (MaxBatchesForL1 c)"
    and "\<And>i. i < k \<Longrightarrow> n + of_nat i \<noteq> ForkUpgradeBatchNumber c + 1"
  shows "sequenceLoop c st n sequences = Some (Inl ForkUpgradeReached)"
  using assms(2-5)
proof (induction k arbitrary: n sequences)
  case 0
  then show ?case using assms(1) by (subst sequenceLoop.simps) simp
next
  case (Suc k)
  from Suc.prems(1) [of 0] obtain batch sq where b: "seqGetBatch st n = Found batch" "seqIsChecked st n = Some True" "sequenceOf st n batch = Some sq"
    by (auto simp: sendable_def)
  have "sequenceLoop c st (n + 1) (sequences @ [sq]) = Some (Inl ForkUpgradeReached)"
  proof (rule Suc.IH)
    show "sendable st (n + 1 + of_nat i)" if "i < k" for i using Suc.prems(1) [of "Suc i"] that by (simp add: add.assoc)
    show "n + 1 + of_nat k = ForkUpgradeBatchNumber c + 1" using Suc.prems(2) by (simp add: add.assoc)
    show "int (Suc (length (sequences @ [sq]) + i)) \<noteq> sint (MaxBatchesForL1 c)" if "i < k" for i using Suc.prems(3) [of "Suc i"] that by simp
    show "n + 1 + of_nat i \<noteq> ForkUpgradeBatchNumber c + 1" if "i < k" for i using Suc.prems(4) [of "Suc i"] that by (simp add: add.assoc)
  qed
  with b Suc.prems(3) [of 0] Suc.prems(4) [of 0] show ?case by (subst sequenceLoop.simps) simp
qed

text \<open>
  The batches in front of an upgrade of the fork are not sent: when fewer of them are left than one
  transaction takes, the search reaches the first batch behind the upgrade and gives up all of them,
  in every attempt.
\<close>

lemma upgrade_blocks_last_batches:
  assumes "unat lastVirtual < unat (ForkUpgradeBatchNumber c)" "unat (ForkUpgradeBatchNumber c) + 1 < 2 ^ 64"
    and "\<And>n. lastVirtual < n \<Longrightarrow> n \<le> ForkUpgradeBatchNumber c \<Longrightarrow> sendable st n"
    and "int (unat (ForkUpgradeBatchNumber c)) - int (unat lastVirtual) < sint (MaxBatchesForL1 c)"
  shows "getSequencesToSend c st (Some lastVirtual) now = Some (Inl ForkUpgradeReached)"
proof -
  define k where "k = unat (ForkUpgradeBatchNumber c) - unat lastVirtual"
  have num: "lastVirtual + 1 + of_nat i = of_nat (unat lastVirtual + 1 + i)" for i by simp
  have val: "unat (lastVirtual + 1 + of_nat i) = unat lastVirtual + 1 + i" if "i \<le> k" for i
    unfolding num using assms(1,2) that by (intro unat_of_nat_less) (simp add: k_def)
  have fork: "unat (ForkUpgradeBatchNumber c + 1) = unat (ForkUpgradeBatchNumber c) + 1" using assms(2) by (intro unat_plus_one) simp
  have lim: "int k < sint (MaxBatchesForL1 c)" using assms(1,4) by (simp only: k_def of_nat_diff less_imp_le)
  have "sequenceLoop c st (lastVirtual + 1) [] = Some (Inl ForkUpgradeReached)"
  proof (rule sequenceLoop_aborts)
    show "ForkUpgradeBatchNumber c \<noteq> 0" using assms(1) by auto
    show "sendable st (lastVirtual + 1 + of_nat i)" if "i < k" for i
      by (rule assms(3)) (use val [of i] that in \<open>simp_all add: word_less_nat_alt word_le_nat_alt k_def\<close>)
    show "lastVirtual + 1 + of_nat k = ForkUpgradeBatchNumber c + 1"
      using val [of k] fork assms(1) by (simp add: word_unat_eq_iff k_def)
    show "int (Suc (length [] + i)) \<noteq> sint (MaxBatchesForL1 c)" if "i < k" for i using that lim by simp
    show "lastVirtual + 1 + of_nat i \<noteq> ForkUpgradeBatchNumber c + 1" if "i < k" for i
    proof
      assume "lastVirtual + 1 + of_nat i = ForkUpgradeBatchNumber c + 1"
      then have "unat (lastVirtual + 1 + of_nat i) = unat (ForkUpgradeBatchNumber c + 1)" by (rule arg_cong)
      then have "unat lastVirtual + 1 + i = unat (ForkUpgradeBatchNumber c) + 1" unfolding fork using val [of i] that by simp
      with that show False by (simp add: k_def)
    qed
  qed
  then show ?thesis by (simp add: getSequencesToSend_def)
qed

section \<open>The margin of time\<close>

lemma sint_small_neg: "- (2 ^ 63) \<le> v \<Longrightarrow> v < 2 ^ 63 \<Longrightarrow> sint (of_int v :: int64) = v"
  by (simp add: sint_sbintrunc' signed_take_bit_int_eq_self)

text \<open>For real times the difference does not overflow, and the wait is what is left of the margin.\<close>

lemma marginTimeElapsed_exact:
  assumes "unat l2 < 2 ^ 61" "unat now < 2 ^ 61" "0 \<le> sint margin" "sint margin < 2 ^ 61"
  shows "fst (marginTimeElapsed l2 now margin) \<longleftrightarrow> int (unat l2) + sint margin \<le> int (unat now)"
    "\<not> fst (marginTimeElapsed l2 now margin) \<Longrightarrow>
       sint (snd (marginTimeElapsed l2 now margin)) = int (unat l2) + sint margin - int (unat now)"
proof -
  define d where "d = (if l2 \<ge> now then - (l2 - now) else now - l2)"
  define a b where "a = int (unat l2)" and "b = int (unat now)"
  have ab: "0 \<le> a" "a < 2 ^ 61" "0 \<le> b" "b < 2 ^ 61"
    using assms(1,2) unfolding a_def b_def by (metis of_nat_0_le_iff of_nat_less_iff of_nat_numeral of_nat_power)+
  have "d = of_int (b - a)" by (simp add: d_def a_def b_def)
  moreover have "sint (of_int (b - a) :: int64) = b - a" using ab by (intro sint_small_neg) simp_all
  ultimately have sd: "sint d = b - a" by simp
  have "margin - d = of_int (sint margin - sint d)" by simp
  moreover have "sint (of_int (sint margin - sint d) :: int64) = sint margin - sint d"
    using ab assms(3,4) sd by (intro sint_small_neg) simp_all
  ultimately have w: "sint (margin - d) = sint margin - sint d" by metis
  have mt: "marginTimeElapsed l2 now margin = (if sint d < sint margin then (False, margin - d) else (True, 0))"
    unfolding marginTimeElapsed_def Let_def d_def [symmetric] by simp
  show "fst (marginTimeElapsed l2 now margin) \<longleftrightarrow> int (unat l2) + sint margin \<le> int (unat now)"
    unfolding mt sd a_def [symmetric] b_def [symmetric] by auto
  show "sint (snd (marginTimeElapsed l2 now margin)) = int (unat l2) + sint margin - int (unat now)"
    if "\<not> fst (marginTimeElapsed l2 now margin)"
    using that w sd unfolding mt a_def [symmetric] b_def [symmetric] by (auto split: if_splits)
qed

lemma waitHeader_elapsed: "waitHeader ts margin hs = Some (True, hs') \<Longrightarrow> \<exists>n t. Some (n, t) \<in> set hs \<and> fst (marginTimeElapsed ts t margin)"
  by (induction ts margin hs rule: waitHeader.induct) (auto split: if_splits)

lemma waitClock_elapsed: "waitClock ts margin cs = Some cs' \<Longrightarrow> \<exists>t\<in>set cs. fst (marginTimeElapsed ts t margin)"
  by (induction ts margin cs rule: waitClock.induct) (auto split: if_splits)

section \<open>What an attempt consumes\<close>

lemma waitConfirmations_suffix: "waitConfirmations target hs = Some hs' \<Longrightarrow> set hs' \<subseteq> set hs"
  by (induction target hs rule: waitConfirmations.induct) (auto split: if_splits)

definition env_later :: "seqEnv \<Rightarrow> seqEnv \<Rightarrow> bool" where
  "env_later env env' \<longleftrightarrow> set (l1Headers env') \<subseteq> set (l1Headers env) \<and> set (scBatches env') \<subseteq> set (scBatches env)
     \<and> clocks env' = clocks env \<and> seqStateNow env' = seqStateNow env"

lemma onSeqResult_later: "onSeqResult c s r env = Some (out, env') \<Longrightarrow> env_later env env'"
  using waitConfirmations_suffix
  by (fastforce simp: onSeqResult_def env_later_def split: if_splits option.splits prod.splits list.splits)

lemma onSeqResults_ok:
  "onSeqResults c s rs env = Some (HandlerOk, env') \<Longrightarrow> env_later env env' \<and> (\<forall>r\<in>set rs. resStatus r = MonitoredTxStatusConfirmed)"
proof (induction rs arbitrary: env)
  case Nil
  then show ?case by (simp add: env_later_def)
next
  case (Cons r rs)
  then obtain env1 where e: "onSeqResult c s r env = Some (HandlerOk, env1)" "onSeqResults c s rs env1 = Some (HandlerOk, env')"
    by (auto split: option.splits prod.splits handler_outcome.splits if_splits)
  then have "resStatus r = MonitoredTxStatusConfirmed"
    by (auto simp: onSeqResult_def split: if_splits)
  with Cons.IH [OF e(2)] onSeqResult_later [OF e(1)] show ?case by (auto simp: env_later_def)
qed

lemma sanityRetries_suffix: "sanityRetries n v scs = Some (r, scs') \<Longrightarrow> set scs' \<subseteq> set scs"
  by (induction n v scs rule: sanityRetries.induct) (auto split: if_splits)

lemma sanityCheck_suffix:
  assumes "sanityCheck st scs = Some (SanityOk, scs')"
  shows "set scs' \<subseteq> set scs"
  using assms sanityRetries_suffix
  by (fastforce simp: sanityCheck_def Let_def split: if_splits list.splits option.splits prod.splits sanity.splits)

text \<open>
  A contract that has overtaken the node stops the sender: the first answer was too low, and the later
  ones are higher than the node's number instead of equal to it.
\<close>

lemma sanityRetries_overtaken:
  assumes "0 < n" "length scs \<ge> n" "\<forall>sc\<in>set scs. \<exists>b. sc = Some b \<and> v < b"
  shows "\<exists>scs'. sanityRetries n v scs = Some (SanityError, scs')"
  using assms
proof (induction n v scs rule: sanityRetries.induct)
  case (4 n v sc scs)
  then show ?case by (cases "n = 0") auto
qed auto

section \<open>What an attempt sends\<close>

lemma run_from_nth:
  "run_from c st n sqs \<Longrightarrow> i < length sqs \<Longrightarrow> lsBatchNumber (sqs ! i) = n + of_nat i \<and> seqIsChecked st (n + of_nat i) = Some True
     \<and> \<not> (ForkUpgradeBatchNumber c \<noteq> 0 \<and> n + of_nat i = ForkUpgradeBatchNumber c + 1)"
proof (induction sqs arbitrary: n i)
  case (Cons sq sqs)
  show ?case
  proof (cases i)
    case 0
    with Cons.prems show ?thesis by auto
  next
    case (Suc j)
    then have "n + of_nat i = n + 1 + of_nat j" by simp
    moreover have "run_from c st (n + 1) sqs" "j < length sqs" "(sq # sqs) ! i = sqs ! j" using Cons.prems Suc by simp_all
    ultimately show ?thesis using Cons.IH [of "n + 1" j] by metis
  qed
qed simp

lemma getSequencesToSend_run:
  assumes "numbered st" "getSequencesToSend c st (Some sc) now = Some (Inr sqs)"
  shows "run_from c st (sc + 1) sqs \<and> within c (length sqs)"
proof -
  obtain full all where l: "sequenceLoop c st (sc + 1) [] = Some (Inr (full, all))" "sqs = all \<or> sqs = []"
    using assms(2) unfolding getSequencesToSend_def option.case
    by (cases "sequenceLoop c st (sc + 1) []") (simp_all split: sum.splits prod.splits lookup.splits if_splits)
  have "within c (Suc (length ([] :: L1Sequence list)))" by (auto simp: within_def)
  with sequenceLoop_ok [OF l(1)] assms(1) have "run_from c st (sc + 1) all \<and> within c (length all)"
    unfolding loop_ok_def by simp
  with l(2) show ?thesis by (auto simp: within_def)
qed

lemma postSequences_sent:
  assumes "postSequences c s sequences env = Some (SequencesSent sqs, s', env')"
  shows "sqs = sequences" "s' = s\<lparr>senderInitialBatch := lsBatchNumber (hd sqs), senderEndBatch := lsBatchNumber (last sqs)\<rparr>"
    "\<exists>n t. Some (n, t) \<in> set (l1Headers env) \<and> fst (marginTimeElapsed (of_int (lsLastL2BLockTimestamp (last sqs))) t (L1BlockTimestampMargin c))"
    "\<exists>t\<in>set (clocks env). fst (marginTimeElapsed (of_int (lsLastL2BLockTimestamp (last sqs))) t (L1BlockTimestampMargin c))"
proof -
  let ?ts = "of_int (lsLastL2BLockTimestamp (last sequences)) :: uint64"
  obtain hs cs where w: "waitHeader ?ts (L1BlockTimestampMargin c) (l1Headers env) = Some (True, hs)"
    "waitClock ?ts (L1BlockTimestampMargin c) (clocks env) = Some cs"
    and r: "sqs = sequences" "s' = s\<lparr>senderInitialBatch := lsBatchNumber (hd sequences), senderEndBatch := lsBatchNumber (last sequences)\<rparr>"
    using assms by (auto simp: postSequences_def Let_def split: option.splits prod.splits bool.splits if_splits)
  show "sqs = sequences" "s' = s\<lparr>senderInitialBatch := lsBatchNumber (hd sqs), senderEndBatch := lsBatchNumber (last sqs)\<rparr>"
    using r by simp_all
  show "\<exists>n t. Some (n, t) \<in> set (l1Headers env) \<and> fst (marginTimeElapsed (of_int (lsLastL2BLockTimestamp (last sqs))) t (L1BlockTimestampMargin c))"
    using waitHeader_elapsed [OF w(1)] r(1) by simp
  show "\<exists>t\<in>set (clocks env). fst (marginTimeElapsed (of_int (lsLastL2BLockTimestamp (last sqs))) t (L1BlockTimestampMargin c))"
    using waitClock_elapsed [OF w(2)] r(1) by simp
qed

lemma collectAndPost_sent:
  assumes "collectAndPost c s env = Some (SequencesSent sqs, s', env')"
  obtains sc env1 where "Some sc \<in> set (scBatches env)" "getSequencesToSend c (seqStateNow env) (Some sc) (timeNow env) = Some (Inr sqs)" "sqs \<noteq> []"
    "l1Headers env1 = l1Headers env" "clocks env1 = clocks env" "postSequences c s sqs env1 = Some (SequencesSent sqs, s', env')"
proof -
  obtain sc scs where sc: "scBatches env = sc # scs" using assms by (auto simp: collectAndPost_def split: list.splits)
  obtain sequences where g: "getSequencesToSend c (seqStateNow env) sc (timeNow env) = Some (Inr sequences)" "sequences \<noteq> []"
    using assms sc by (auto simp: collectAndPost_def Let_def split: option.splits sum.splits if_splits)
  then obtain b where b: "sc = Some b" by (cases sc) (auto simp: getSequencesToSend_def)
  obtain x scs' where x: "scs = Some x # scs'" "postSequences c s sequences (env\<lparr>scBatches := scs'\<rparr>) = Some (SequencesSent sqs, s', env')"
    using assms sc g by (auto simp: collectAndPost_def Let_def split: list.splits option.splits)
  have "sqs = sequences" using postSequences_sent(1) [OF x(2)] .
  with that [of b "env\<lparr>scBatches := scs'\<rparr>"] sc b g x(2) show thesis by simp
qed

section \<open>A concrete attempt\<close>

definition sampleSeqState :: seqState where
  "sampleSeqState = \<lparr>seqGetBatch = (\<lambda>n. if n = 6 then Found \<lparr>sbBatchNumber = 6, sbBatchL2Data = [11], sbForcedBatchNum = None\<rparr> else NotFound),
     seqIsChecked = (\<lambda>n. Some (n = 6)), seqForcedBatch = (\<lambda>_. None), seqBlockParent = (\<lambda>_. None),
     seqLastL2Block = (\<lambda>_. Some (Some 1000)), seqVirtualizationTime = NotFound, seqLastVirtual = Found 5, seqLastClosed = Found 6\<rparr>"

definition sampleSeqCfg :: seqCfg where
  "sampleSeqCfg = \<lparr>ForkUpgradeBatchNumber = 0, MaxBatchesForL1 = 300, SequenceL1BlockConfirmations = 32, L1BlockTimestampMargin = 30,
     LastBatchVirtualizationTimeMaxWaitPeriod = 600\<rparr>"

definition sampleSeqEnv :: seqEnv where
  "sampleSeqEnv = \<lparr>seqResults = [], l1Headers = [Some (90, 1010), Some (91, 1040)], scBatches = [Some 5, Some 5, Some 5], clocks = [1050],
     seqStateNow = sampleSeqState, timeNow = 2000, PostSequence = (\<lambda>_. Some []), BuildSequenceBatchesTxData = (\<lambda>_ _ _ _. Some [1]),
     seqAddTx = (\<lambda>_ _ _. True)\<rparr>"

definition sampleSequence :: L1Sequence where
  "sampleSequence = \<lparr>lsBatchNumber = 6, lsBatchL2Data = [11], lsGlobalExitRoot = zero_hash, lsForcedBatchTimestamp = 0,
     lsPrevBlockHash = zero_hash, lsLastL2BLockTimestamp = 1000\<rparr>"

lemma sampleSeq_collected: "getSequencesToSend sampleSeqCfg sampleSeqState (Some 5) 2000 = Some (Inr [sampleSequence])"
proof -
  let ?b = "\<lparr>sbBatchNumber = 6, sbBatchL2Data = [11], sbForcedBatchNum = None\<rparr> :: stateBatch"
  have c: "ForkUpgradeBatchNumber sampleSeqCfg = 0" "sint (MaxBatchesForL1 sampleSeqCfg) = 300" by (simp_all add: sampleSeqCfg_def)
  have st: "seqGetBatch sampleSeqState 6 = Found ?b" "seqGetBatch sampleSeqState 7 = NotFound" "seqIsChecked sampleSeqState 6 = Some True"
    "seqIsChecked sampleSeqState 7 = Some False"
    by (simp_all add: sampleSeqState_def)
  have "sequenceOf sampleSeqState 6 ?b = Some sampleSequence" by (simp add: sequenceOf_def sampleSeqState_def sampleSequence_def)
  moreover have "sequenceLoop sampleSeqCfg sampleSeqState 7 [sampleSequence] = Some (Inr (False, [sampleSequence]))"
    by (subst sequenceLoop.simps) (simp add: c st)
  ultimately have "sequenceLoop sampleSeqCfg sampleSeqState 6 [] = Some (Inr (False, [sampleSequence]))"
    by (subst sequenceLoop.simps) (simp add: c st)
  then show ?thesis by (simp add: getSequencesToSend_def) (simp add: sampleSeqState_def sampleSeqCfg_def zeroTime_def)
qed

lemma sampleSeq_sent:
  "\<exists>env'. tryToSendSequence sampleSeqCfg NewSequenceSender sampleSeqEnv
     = Some (SequencesSent [sampleSequence], \<lparr>senderInitialBatch = 6, senderEndBatch = 6\<rparr>, env')"
proof -
  have "sanityCheck sampleSeqState [Some 5, Some 5, Some 5] = Some (SanityOk, [Some 5, Some 5])" by code_simp
  moreover have "\<not> fst (marginTimeElapsed 1000 1010 30)" "fst (marginTimeElapsed 1000 1040 30)" "fst (marginTimeElapsed 1000 1050 30)"
    by code_simp+
  ultimately show ?thesis
    using sampleSeq_collected
    by (simp add: tryToSendSequence_def sampleSeqEnv_def collectAndPost_def postSequences_def Let_def NewSequenceSender_def sampleSequence_def)
      (simp add: sampleSeqCfg_def)
qed

section \<open>Properties of the sequence sender\<close>



end
