(* ===== verification/DataCommittee.thy ===== *)
theory DataCommittee
  imports SequenceSender TxEncoding "HOL-Library.Multiset"
begin

text \<open>
  Data availability (\<open>dataavailability/dataavailability.go\<close>) with the data committee as its backend
  (\<open>datacommittee/datacommittee.go\<close>): posting the data of a sequence to the members of the committee and
  collecting their signatures, and getting the data of batches back from the node, the trusted
  sequencer or the committee.

  The contract of the committee, the clients of the members, signatures, Keccak and the random choice
  of a member are parameters.  The goroutines that ask the members each send one message; the order
  in which the messages arrive is an argument.
\<close>

section \<open>The committee\<close>

record DataCommitteeMember =
  Addr :: bytes
  URL :: string

record Committee =
  AddressesHash :: hash32
  Members :: "DataCommitteeMember list"
  RequiredSignatures :: uint64

record DataCommitteeBackend =
  committeeMembers :: "DataCommitteeMember list"
  selectedCommitteeMember :: int

text \<open>What the contract answers, \<open>None\<close> for an error.\<close>

record committeeContract =
  CommitteeHash :: "hash32 option"
  RequiredAmountOfSignatures :: "nat option"
  GetAmountOfMembers :: "nat option"
  contractMember :: "nat \<Rightarrow> DataCommitteeMember option"

text \<open>The clients of the members and the signatures on sequences.\<close>

record memberClients =
  SignSequence :: "string \<Rightarrow> bytes list \<Rightarrow> bytes \<Rightarrow> bytes option"
  Signer :: "bytes list \<Rightarrow> bytes \<Rightarrow> bytes option"
  GetOffChainData :: "string \<Rightarrow> hash32 \<Rightarrow> bytes option"

datatype da_error =
    ContractError | SigningError | TooManyFailed | LoadingCommittee | NoMemberHasData
  | InvalidArguments | MissingBatchData | UnexpectedHash | DatabaseError | RPCError | DataNotRetrieved | DAPanic

fun membersLoop :: "committeeContract \<Rightarrow> nat \<Rightarrow> nat \<Rightarrow> DataCommitteeMember list \<Rightarrow> da_error + DataCommitteeMember list" where
  "membersLoop sc i 0 members = Inr members"
| "membersLoop sc i (Suc k) members =
     (case contractMember sc i of None \<Rightarrow> Inl ContractError | Some member \<Rightarrow> membersLoop sc (i + 1) k (members @ [member]))"

definition getCurrentDataCommitteeMembers :: "committeeContract \<Rightarrow> da_error + DataCommitteeMember list" where
  "getCurrentDataCommitteeMembers sc =
     (case GetAmountOfMembers sc of
        None \<Rightarrow> Inl ContractError
      | Some nMembers \<Rightarrow>
          (let n = sint (of_nat nMembers :: int64) in if n < 0 then Inl DAPanic else membersLoop sc 0 (nat n) []))"

definition getCurrentDataCommittee :: "committeeContract \<Rightarrow> da_error + Committee" where
  "getCurrentDataCommittee sc =
     (case CommitteeHash sc of
        None \<Rightarrow> Inl ContractError
      | Some addrsHash \<Rightarrow>
          (case RequiredAmountOfSignatures sc of
             None \<Rightarrow> Inl ContractError
           | Some reqSign \<Rightarrow>
               (case getCurrentDataCommitteeMembers sc of
                  Inl err \<Rightarrow> Inl err
                | Inr members \<Rightarrow> Inr \<lparr>AddressesHash = addrsHash, Members = members, RequiredSignatures = of_nat reqSign\<rparr>)))"

text \<open>The random number \<open>rnd n\<close> lies below \<open>n\<close>.\<close>

definition dac_Init :: "committeeContract \<Rightarrow> (nat \<Rightarrow> nat) \<Rightarrow> DataCommitteeBackend \<Rightarrow> da_error option \<times> DataCommitteeBackend" where
  "dac_Init sc rnd d =
     (case getCurrentDataCommittee sc of
        Inl err \<Rightarrow> (Some err, d)
      | Inr committee \<Rightarrow>
          (None, d\<lparr>committeeMembers := Members committee,
                   selectedCommitteeMember := if length (Members committee) > 0 then int (rnd (length (Members committee))) else - 1\<rparr>))"

section \<open>Getting data from the members\<close>

definition offChainData :: "(bytes \<Rightarrow> hash32) \<Rightarrow> memberClients \<Rightarrow> hash32 \<Rightarrow> DataCommitteeMember \<Rightarrow> bytes option" where
  "offChainData kc cl hash member =
     (case GetOffChainData cl (URL member) hash of
        None \<Rightarrow> None
      | Some d \<Rightarrow> if kc d \<noteq> hash then None else Some d)"

text \<open>
  The loop over the members; it begins with the initial member selected, so that an initial member out
  of range panics in the first round.
\<close>

function memberLoop ::
  "(bytes \<Rightarrow> hash32) \<Rightarrow> memberClients \<Rightarrow> hash32 \<Rightarrow> DataCommitteeMember list \<Rightarrow> nat \<Rightarrow> nat \<Rightarrow> (da_error + bytes) \<times> nat" where
  "memberLoop kc cl hash members initial selected =
     (if initial \<ge> length members \<or> selected \<ge> length members then (Inl DAPanic, selected)
      else
        (case offChainData kc cl hash (members ! selected) of
           Some d \<Rightarrow> (Inr d, selected)
         | None \<Rightarrow>
             (let selected = (selected + 1) mod length members
              in if selected = initial then (Inl NoMemberHasData, selected)
                 else memberLoop kc cl hash members initial selected)))"
  by pat_completeness auto
termination
proof (relation "measure (\<lambda>(kc, cl, hash, members, initial, selected).
    if selected < initial then initial - selected else length members + initial - selected)", goal_cases)
  case (2 kc cl hash members initial selected)
  then show ?case by (cases "Suc selected < length members") (auto simp: not_less le_Suc_eq)
qed simp

definition loadAgain :: "committeeContract \<Rightarrow> (nat \<Rightarrow> nat) \<Rightarrow> DataCommitteeBackend \<Rightarrow> (da_error + bytes) \<times> DataCommitteeBackend" where
  "loadAgain sc rnd d =
     (case dac_Init sc rnd d of
        (None, d) \<Rightarrow> (Inl NoMemberHasData, d)
      | (Some err, d) \<Rightarrow> (Inl (if err = DAPanic then DAPanic else LoadingCommittee), d))"

definition dac_GetBatchL2Data ::
  "(bytes \<Rightarrow> hash32) \<Rightarrow> memberClients \<Rightarrow> committeeContract \<Rightarrow> (nat \<Rightarrow> nat) \<Rightarrow> DataCommitteeBackend \<Rightarrow> hash32
     \<Rightarrow> (da_error + bytes) \<times> DataCommitteeBackend" where
  "dac_GetBatchL2Data kc cl sc rnd d hash =
     (let intialMember = selectedCommitteeMember d;
          r = (if intialMember = - 1 then (Inl NoMemberHasData, intialMember)
               else if intialMember < 0 then (Inl DAPanic, intialMember)
               else map_prod id int (memberLoop kc cl hash (committeeMembers d) (nat intialMember) (nat intialMember)));
          d = d\<lparr>selectedCommitteeMember := snd r\<rparr>
      in case fst r of
           Inr da \<Rightarrow> (Inr da, d)
         | Inl NoMemberHasData \<Rightarrow> loadAgain sc rnd d
         | Inl err \<Rightarrow> (Inl err, d))"

fun sequenceDataLoop ::
  "(bytes \<Rightarrow> hash32) \<Rightarrow> memberClients \<Rightarrow> committeeContract \<Rightarrow> (nat \<Rightarrow> nat) \<Rightarrow> DataCommitteeBackend \<Rightarrow> hash32 list \<Rightarrow> bytes list
     \<Rightarrow> (da_error + bytes list) \<times> DataCommitteeBackend" where
  "sequenceDataLoop kc cl sc rnd d [] batchData = (Inr batchData, d)"
| "sequenceDataLoop kc cl sc rnd d (h # hashes) batchData =
     (case dac_GetBatchL2Data kc cl sc rnd d h of
        (Inl err, d) \<Rightarrow> (Inl err, d)
      | (Inr da, d) \<Rightarrow> sequenceDataLoop kc cl sc rnd d hashes (batchData @ [da]))"

definition GetSequence ::
  "(bytes \<Rightarrow> hash32) \<Rightarrow> memberClients \<Rightarrow> committeeContract \<Rightarrow> (nat \<Rightarrow> nat) \<Rightarrow> DataCommitteeBackend \<Rightarrow> hash32 list
     \<Rightarrow> (da_error + bytes list) \<times> DataCommitteeBackend" where
  "GetSequence kc cl sc rnd d hashes = sequenceDataLoop kc cl sc rnd d hashes []"

section \<open>Collecting signatures\<close>

record signatureMsg =
  msgAddr :: bytes
  msgSignature :: bytes
  msgErr :: bool

definition requestSignatureFromMember :: "memberClients \<Rightarrow> bytes list \<Rightarrow> bytes \<Rightarrow> DataCommitteeMember \<Rightarrow> signatureMsg" where
  "requestSignatureFromMember cl batches own member =
     (case SignSequence cl (URL member) batches own of
        None \<Rightarrow> \<lparr>msgAddr = Addr member, msgSignature = [], msgErr = True\<rparr>
      | Some signature \<Rightarrow>
          (case Signer cl batches signature of
             None \<Rightarrow> \<lparr>msgAddr = Addr member, msgSignature = [], msgErr = True\<rparr>
           | Some signer \<Rightarrow>
               if signer \<noteq> Addr member then \<lparr>msgAddr = Addr member, msgSignature = [], msgErr = True\<rparr>
               else \<lparr>msgAddr = Addr member, msgSignature = signature, msgErr = False\<rparr>))"

text \<open>The upper case hexadecimal text of an address and the order of texts.\<close>

definition upperDigit :: "nat \<Rightarrow> nat" where
  "upperDigit d = (if d < 10 then 48 + d else 55 + d)"

definition upperHex :: "bytes \<Rightarrow> nat list" where
  "upperHex a = [48, 88] @ concat (map (\<lambda>b. [upperDigit (unat b div 16), upperDigit (unat b mod 16)]) a)"

fun textLess :: "nat list \<Rightarrow> nat list \<Rightarrow> bool" where
  "textLess xs [] \<longleftrightarrow> False"
| "textLess [] (y # ys) \<longleftrightarrow> True"
| "textLess (x # xs) (y # ys) \<longleftrightarrow> x < y \<or> x = y \<and> textLess xs ys"

definition msgLess :: "signatureMsg \<Rightarrow> signatureMsg \<Rightarrow> bool" where
  "msgLess m1 m2 \<longleftrightarrow> textLess (upperHex (msgAddr m1)) (upperHex (msgAddr m2))"

text \<open>Sorting; with different addresses there is only one sorted order.\<close>

fun insertMsg :: "signatureMsg \<Rightarrow> signatureMsg list \<Rightarrow> signatureMsg list" where
  "insertMsg m [] = [m]"
| "insertMsg m (m' # ms) = (if msgLess m' m then m' # insertMsg m ms else m # m' # ms)"

definition sortMsgs :: "signatureMsg list \<Rightarrow> signatureMsg list" where
  "sortMsgs ms = foldr insertMsg ms []"

definition buildSignaturesAndAddrs :: "signatureMsg list \<Rightarrow> DataCommitteeMember list \<Rightarrow> bytes" where
  "buildSignaturesAndAddrs sigs members = concat (map msgSignature (sortMsgs sigs)) @ concat (map Addr members)"

text \<open>The collecting loop over the messages in the order they arrive; \<open>None\<close> means that it still waits.\<close>

fun collectLoop ::
  "nat \<Rightarrow> uint64 \<Rightarrow> uint64 \<Rightarrow> uint64 \<Rightarrow> signatureMsg list \<Rightarrow> signatureMsg list \<Rightarrow> (da_error + signatureMsg list) option" where
  "collectLoop n required collected failed msgs [] = (if collected < required then None else Some (Inr msgs))"
| "collectLoop n required collected failed msgs (msg # arriving) =
     (if collected < required then
        (if msgErr msg then
           (let failed = failed + 1
            in if int n - sint failed < sint required then Some (Inl TooManyFailed)
               else collectLoop n required collected failed (msgs @ [msg]) arriving)
         else collectLoop n required (collected + 1) failed (msgs @ [msg]) arriving)
      else Some (Inr msgs))"

definition dac_PostSequence ::
  "memberClients \<Rightarrow> committeeContract \<Rightarrow> (bytes list \<Rightarrow> bytes option) \<Rightarrow> bytes list \<Rightarrow> (signatureMsg list \<Rightarrow> signatureMsg list)
     \<Rightarrow> (da_error + bytes) option" where
  "dac_PostSequence cl sc sign batchesData arrival =
     (case getCurrentDataCommittee sc of
        Inl err \<Rightarrow> Some (Inl err)
      | Inr committee \<Rightarrow>
          (case sign batchesData of
             None \<Rightarrow> Some (Inl SigningError)
           | Some own \<Rightarrow>
               (case collectLoop (length (Members committee)) (RequiredSignatures committee) 0 0 []
                       (arrival (map (requestSignatureFromMember cl batchesData own) (Members committee))) of
                  None \<Rightarrow> None
                | Some (Inl err) \<Rightarrow> Some (Inl err)
                | Some (Inr msgs) \<Rightarrow> Some (Inr (buildSignaturesAndAddrs msgs (Members committee))))))"

section \<open>Data availability\<close>

datatype DataSourcePriority = Local | Trusted | External | OtherSource string

definition DefaultPriority :: "DataSourcePriority list" where
  "DefaultPriority = [Local, Trusted, External]"

record DataAvailability =
  isTrustedSequencer :: bool
  dataSourcePriority :: "DataSourcePriority list"
  backend :: DataCommitteeBackend

text \<open>The database of the node and the trusted sequencer; a pointer of the answer can be nil.\<close>

record daSources =
  GetBatchL2DataByNumbers :: "uint64 list \<Rightarrow> (uint64 \<rightharpoonup> bytes) option"
  BatchesByNumbers :: "nat list \<Rightarrow> bytes option list option"

definition da_New ::
  "committeeContract \<Rightarrow> (nat \<Rightarrow> nat) \<Rightarrow> bool \<Rightarrow> DataCommitteeBackend \<Rightarrow> DataSourcePriority list \<Rightarrow> da_error option \<times> DataAvailability" where
  "da_New sc rnd trusted d priority =
     (case dac_Init sc rnd d of
        (err, d) \<Rightarrow> (err, \<lparr>isTrustedSequencer = trusted,
                       dataSourcePriority = if length priority = 0 then DefaultPriority else priority, backend = d\<rparr>))"

definition batchesToPost :: "L1Sequence list \<Rightarrow> bytes list" where
  "batchesToPost sequences = map lsBatchL2Data (filter (\<lambda>batch. lsForcedBatchTimestamp batch = 0) sequences)"

definition da_PostSequence ::
  "memberClients \<Rightarrow> committeeContract \<Rightarrow> (bytes list \<Rightarrow> bytes option) \<Rightarrow> L1Sequence list \<Rightarrow> (signatureMsg list \<Rightarrow> signatureMsg list)
     \<Rightarrow> (da_error + bytes) option" where
  "da_PostSequence cl sc sign sequences arrival = dac_PostSequence cl sc sign (batchesToPost sequences) arrival"

fun checkLoop :: "(bytes \<Rightarrow> hash32) \<Rightarrow> (uint64 \<rightharpoonup> bytes) \<Rightarrow> uint64 list \<Rightarrow> hash32 list \<Rightarrow> bytes list \<Rightarrow> da_error + bytes list" where
  "checkLoop kc batchData (n # ns) (h # hs) result =
     (case batchData n of
        None \<Rightarrow> Inl MissingBatchData
      | Some bd \<Rightarrow> if kc bd \<noteq> h then Inl UnexpectedHash else checkLoop kc batchData ns hs (result @ [bd]))"
| "checkLoop kc batchData _ _ result = Inr result"

definition checkBatches :: "(bytes \<Rightarrow> hash32) \<Rightarrow> uint64 list \<Rightarrow> hash32 list \<Rightarrow> (uint64 \<rightharpoonup> bytes) \<Rightarrow> da_error + bytes list" where
  "checkBatches kc batchNumbers expectedHashes batchData =
     (if length batchNumbers \<noteq> length expectedHashes then Inl InvalidArguments
      else checkLoop kc batchData batchNumbers expectedHashes [])"

fun rpcLoop ::
  "(bytes \<Rightarrow> hash32) \<Rightarrow> uint64 list \<Rightarrow> hash32 list \<Rightarrow> bytes option list \<Rightarrow> (uint64 \<rightharpoonup> bytes) \<Rightarrow> da_error + (uint64 \<rightharpoonup> bytes)" where
  "rpcLoop kc (n # ns) (h # hs) (batch # batches) result =
     (case batch of
        None \<Rightarrow> Inl DAPanic
      | Some bd \<Rightarrow> if h \<noteq> kc bd then Inl UnexpectedHash else rpcLoop kc ns hs batches (result(n \<mapsto> bd)))"
| "rpcLoop kc _ _ _ result = Inr result"

definition rpcData ::
  "(bytes \<Rightarrow> hash32) \<Rightarrow> uint64 list \<Rightarrow> hash32 list \<Rightarrow> (nat list \<Rightarrow> bytes option list option) \<Rightarrow> da_error + bytes list" where
  "rpcData kc batchNums expectedHashes rpcFunc =
     (if length batchNums \<noteq> length expectedHashes then Inl InvalidArguments
      else
        (case rpcFunc (map unat batchNums) of
           None \<Rightarrow> Inl RPCError
         | Some batchData \<Rightarrow>
             if length batchData \<noteq> length batchNums then Inl MissingBatchData
             else
               (case rpcLoop kc batchNums expectedHashes batchData Map.empty of
                  Inl err \<Rightarrow> Inl err
                | Inr result \<Rightarrow> checkBatches kc batchNums expectedHashes result)))"

text \<open>The loop over the sources; \<open>getSequence\<close> is the operation of the backend.\<close>

fun sourceLoop ::
  "(bytes \<Rightarrow> hash32) \<Rightarrow> daSources \<Rightarrow> ('b \<Rightarrow> hash32 list \<Rightarrow> (da_error + bytes list) \<times> 'b) \<Rightarrow> bool \<Rightarrow> 'b
     \<Rightarrow> uint64 list \<Rightarrow> hash32 list \<Rightarrow> DataSourcePriority list \<Rightarrow> (da_error + bytes list) \<times> 'b" where
  "sourceLoop kc src getSequence trusted b ns hs [] = (Inl DataNotRetrieved, b)"
| "sourceLoop kc src getSequence trusted b ns hs (Local # ps) =
     (case GetBatchL2DataByNumbers src ns of
        None \<Rightarrow> (Inl DatabaseError, b)
      | Some localData \<Rightarrow>
          (case checkBatches kc ns hs localData of
             Inr da \<Rightarrow> (Inr da, b)
           | Inl err \<Rightarrow> sourceLoop kc src getSequence trusted b ns hs ps))"
| "sourceLoop kc src getSequence trusted b ns hs (Trusted # ps) =
     (if trusted then sourceLoop kc src getSequence trusted b ns hs ps
      else
        (case rpcData kc ns hs (BatchesByNumbers src) of
           Inr da \<Rightarrow> (Inr da, b)
         | Inl DAPanic \<Rightarrow> (Inl DAPanic, b)
         | Inl err \<Rightarrow> sourceLoop kc src getSequence trusted b ns hs ps))"
| "sourceLoop kc src getSequence trusted b ns hs (External # ps) = getSequence b hs"
| "sourceLoop kc src getSequence trusted b ns hs (OtherSource p # ps) = sourceLoop kc src getSequence trusted b ns hs ps"

definition da_GetBatchL2Data ::
  "(bytes \<Rightarrow> hash32) \<Rightarrow> memberClients \<Rightarrow> committeeContract \<Rightarrow> (nat \<Rightarrow> nat) \<Rightarrow> daSources \<Rightarrow> DataAvailability \<Rightarrow> uint64 list \<Rightarrow> hash32 list
     \<Rightarrow> (da_error + bytes list) \<times> DataAvailability" where
  "da_GetBatchL2Data kc cl sc rnd src d batchNums batchHashes =
     (if length batchNums \<noteq> length batchHashes then (Inl InvalidArguments, d)
      else map_prod id (\<lambda>b. d\<lparr>backend := b\<rparr>)
             (sourceLoop kc src (GetSequence kc cl sc rnd) (isTrustedSequencer d) (backend d) batchNums batchHashes (dataSourcePriority d)))"

section \<open>The order of addresses\<close>

lemma upperDigit_mono: "upperDigit d < upperDigit d' \<longleftrightarrow> d < d'"
  by (auto simp: upperDigit_def)

lemma upperDigit_inj: "upperDigit d = upperDigit d' \<longleftrightarrow> d = d'"
  using upperDigit_mono [of d d'] upperDigit_mono [of d' d] by (metis nat_neq_iff)

lemma two_digits:
  fixes a b r s :: nat
  assumes "r < 16" "s < 16"
  shows "a < b \<or> a = b \<and> r < s \<longleftrightarrow> a * 16 + r < b * 16 + s" "a = b \<and> r = s \<longleftrightarrow> a * 16 + r = b * 16 + s"
  using assms by (linarith, presburger)

lemma byte_digits_less:
  fixes x y :: nat
  shows "x div 16 < y div 16 \<or> x div 16 = y div 16 \<and> x mod 16 < y mod 16 \<longleftrightarrow> x < y"
    and "x div 16 = y div 16 \<and> x mod 16 = y mod 16 \<longleftrightarrow> x = y"
  using two_digits [of "x mod 16" "y mod 16" "x div 16" "y div 16"] by simp_all

lemma textLess_hex_Cons:
  "textLess (upperDigit (unat b div 16) # upperDigit (unat b mod 16) # xs) (upperDigit (unat c div 16) # upperDigit (unat c mod 16) # ys)
     \<longleftrightarrow> unat b < unat c \<or> b = c \<and> textLess xs ys" for b c :: byte
proof -
  have "b = c \<longleftrightarrow> unat b div 16 = unat c div 16 \<and> unat b mod 16 = unat c mod 16"
    unfolding byte_digits_less(2) by (simp add: word_unat_eq_iff)
  then show ?thesis
    using byte_digits_less(1) [of "unat b" "unat c"] by (auto simp: upperDigit_mono upperDigit_inj)
qed

lemma SetBytes_less_Cons:
  assumes "length bs = length cs"
  shows "SetBytes (b # bs) < SetBytes (c # cs) \<longleftrightarrow> unat b < unat c \<or> b = c \<and> SetBytes bs < SetBytes cs"
proof -
  let ?k = "256 ^ length cs :: nat"
  have l: "SetBytes bs < ?k" "SetBytes cs < ?k" using SetBytes_less [of bs] SetBytes_less [of cs] assms by simp_all
  have less: "x * ?k + r < y * ?k + s" if "x < y" "r < ?k" for x y r s :: nat
  proof -
    have "x * ?k + r < (x + 1) * ?k" using that(2) by simp
    also have "\<dots> \<le> y * ?k" using that(1) by (intro mult_le_mono1) simp
    finally show ?thesis by simp
  qed
  show ?thesis
    unfolding SetBytes_Cons assms
    using less [of "unat b" "unat c", OF _ l(1), of "SetBytes cs"] less [of "unat c" "unat b", OF _ l(2), of "SetBytes bs"]
    by (cases "unat b" "unat c" rule: linorder_cases) (auto simp: word_unat_eq_iff intro: less_not_sym)
qed

lemma textLess_addresses:
  "length a = length b \<Longrightarrow> textLess (upperHex a) (upperHex b) \<longleftrightarrow> SetBytes a < SetBytes b"
proof (induction a b rule: list_induct2)
  case (Cons x xs y ys)
  let ?t = "\<lambda>a. concat (map (\<lambda>b. [upperDigit (unat b div 16), upperDigit (unat b mod 16)]) a)"
  have t: "textLess (upperHex a) (upperHex b) \<longleftrightarrow> textLess (?t a) (?t b)" for a b :: bytes by (simp add: upperHex_def)
  have "textLess (?t (x # xs)) (?t (y # ys)) \<longleftrightarrow> unat x < unat y \<or> x = y \<and> textLess (?t xs) (?t ys)"
    using textLess_hex_Cons [of x "?t xs" y "?t ys"] by (simp only: list.map concat.simps append.simps)
  then have "textLess (upperHex (x # xs)) (upperHex (y # ys)) \<longleftrightarrow> unat x < unat y \<or> x = y \<and> textLess (upperHex xs) (upperHex ys)"
    unfolding t .
  with Cons show ?case by (simp add: SetBytes_less_Cons)
qed (simp add: upperHex_def)

lemma SetBytes_inj: "length a = length b \<Longrightarrow> SetBytes a = SetBytes b \<longleftrightarrow> a = b"
proof (induction a b rule: list_induct2)
  case (Cons x xs y ys)
  then show ?case
    using SetBytes_less_Cons [OF Cons.hyps, of x y] SetBytes_less_Cons [of ys xs y x]
    by (metis linorder_neq_iff list.inject word_unat_eq_iff)
qed simp

section \<open>Sorting messages\<close>

definition addr_less :: "signatureMsg \<Rightarrow> signatureMsg \<Rightarrow> bool" where
  "addr_less m m' \<longleftrightarrow> SetBytes (msgAddr m) < SetBytes (msgAddr m')"

lemma mset_insertMsg: "mset (insertMsg m ms) = add_mset m (mset ms)"
  by (induction ms) auto

lemma mset_sortMsgs: "mset (sortMsgs ms) = mset ms"
  unfolding sortMsgs_def by (induction ms) (simp_all add: mset_insertMsg)

lemma set_insertMsg: "set (insertMsg m ms) = insert m (set ms)"
  using mset_insertMsg [of m ms] by (metis set_mset_add_mset_insert set_mset_mset)

lemma insertMsg_sorted:
  assumes "sorted_wrt addr_less ms" "\<forall>m'\<in>set ms. length (msgAddr m') = length (msgAddr m) \<and> msgAddr m' \<noteq> msgAddr m"
  shows "sorted_wrt addr_less (insertMsg m ms)"
  using assms
proof (induction ms)
  case (Cons m' ms)
  have l: "msgLess m' m \<longleftrightarrow> addr_less m' m" "\<not> msgLess m' m \<Longrightarrow> addr_less m m'"
    using Cons.prems(2) textLess_addresses [of "msgAddr m'" "msgAddr m"] SetBytes_inj [of "msgAddr m'" "msgAddr m"]
    by (auto simp: msgLess_def addr_less_def)
  show ?case
  proof (cases "msgLess m' m")
    case True
    with l(1) Cons show ?thesis by (auto simp: set_insertMsg)
  next
    case False
    have "\<forall>m''\<in>set ms. addr_less m m''" using l(2) [OF False] Cons.prems(1) by (auto simp: addr_less_def)
    with l(2) [OF False] False Cons.prems(1) show ?thesis by simp
  qed
qed simp

lemma sortMsgs_sorted:
  assumes "distinct (map msgAddr ms)" "\<forall>m\<in>set ms. length (msgAddr m) = k"
  shows "sorted_wrt addr_less (sortMsgs ms)"
  using assms
proof (induction ms)
  case (Cons m ms)
  have "set (foldr insertMsg ms []) = set ms" using mset_sortMsgs [of ms] unfolding sortMsgs_def by (metis set_mset_mset)
  moreover have "\<forall>m'\<in>set ms. length (msgAddr m') = length (msgAddr m) \<and> msgAddr m' \<noteq> msgAddr m" using Cons.prems by simp (metis image_eqI)
  ultimately show ?case using Cons by (simp add: sortMsgs_def insertMsg_sorted)
qed (simp add: sortMsgs_def)

section \<open>The quorum\<close>

abbreviation answered :: "signatureMsg list \<Rightarrow> signatureMsg list" where
  "answered ms \<equiv> filter (\<lambda>m. \<not> msgErr m) ms"

lemma sint_of_nat64: "n < 2 ^ 63 \<Longrightarrow> sint (of_nat n :: 64 word) = int n"
  by (simp add: signed_of_nat signed_take_bit_eq_if_positive bit_simps signed_take_bit_int_eq_self)

lemma collectLoop_quorum:
  assumes "n = ci + fi + length arr" "ci \<le> req" "req + fi \<le> n" "n < 2 ^ 63"
  shows "if req \<le> ci + length (answered arr)
     then \<exists>pre post. arr = pre @ post \<and> length (answered pre) = req - ci
            \<and> collectLoop n (of_nat req) (of_nat ci) (of_nat fi) msgs arr = Some (Inr (msgs @ pre))
     else collectLoop n (of_nat req) (of_nat ci) (of_nat fi) msgs arr = Some (Inl TooManyFailed)"
  using assms
proof (induction arr arbitrary: ci fi msgs)
  case Nil
  then have "req = ci" by simp
  then show ?case by simp
next
  case (Cons msg arr)
  have less: "(of_nat ci :: uint64) < of_nat req \<longleftrightarrow> ci < req"
    using Cons.prems by (simp add: word_less_nat_alt unat_of_nat)
  have f: "sint (of_nat fi + 1 :: uint64) = int fi + 1" "sint (of_nat req :: uint64) = int req"
    using sint_of_nat64 [of "Suc fi"] sint_of_nat64 [of req] Cons.prems by (simp_all add: add.commute)
  show ?case
  proof (cases "ci < req")
    case False
    then have "req = ci" using Cons.prems by simp
    with less show ?thesis by (auto intro: exI [of _ "[]"])
  next
    case ci: True
    show ?thesis
    proof (cases "msgErr msg")
      case True
      show ?thesis
      proof (cases "n < req + Suc fi")
        case full: True
        have "ci + length (answered arr) < req"
          using full Cons.prems(1) length_filter_le [of "\<lambda>m. \<not> msgErr m" arr] by (simp del: length_filter_le)
        with full Cons.prems True ci less f show ?thesis by auto
      next
        case False
        with Cons.IH [of ci "Suc fi" "msgs @ [msg]"] Cons.prems True ci less f show ?thesis
          by (auto simp: add.commute split: if_splits)
      qed
    next
      case False
      with Cons.IH [of "Suc ci" fi "msgs @ [msg]"] Cons.prems ci less show ?thesis
        by (auto simp: add.commute split: if_splits)
    qed
  qed
qed

definition signs_for :: "memberClients \<Rightarrow> bytes list \<Rightarrow> bytes \<Rightarrow> DataCommitteeMember \<Rightarrow> bool" where
  "signs_for cl batches own m \<longleftrightarrow> (\<exists>signature. SignSequence cl (URL m) batches own = Some signature \<and> Signer cl batches signature = Some (Addr m))"

lemma request_facts:
  shows "msgAddr (requestSignatureFromMember cl batches own m) = Addr m"
    and "msgErr (requestSignatureFromMember cl batches own m) \<longleftrightarrow> \<not> signs_for cl batches own m"
    and "msgSignature (requestSignatureFromMember cl batches own m)
       = (if signs_for cl batches own m then the (SignSequence cl (URL m) batches own) else [])"
  by (auto simp: requestSignatureFromMember_def signs_for_def split: option.splits)

lemma concat_answered:
  assumes "\<forall>m\<in>set ms. msgErr m \<longrightarrow> msgSignature m = []"
  shows "concat (map msgSignature ms) = concat (map msgSignature (answered ms))"
  using assms by (induction ms) auto

text \<open>The messages of members that signed, sorted, come from members in the order of their addresses.\<close>

lemma signers_of_messages:
  assumes "set pre \<subseteq> requestSignatureFromMember cl batches own ` set ms" "distinct (map msgAddr pre)" "\<forall>m\<in>set ms. length (Addr m) = 20"
  shows "\<exists>signers. set signers \<subseteq> {m \<in> set ms. signs_for cl batches own m} \<and> length signers = length (answered pre)
    \<and> sorted_wrt (\<lambda>m m'. SetBytes (Addr m) < SetBytes (Addr m')) signers
    \<and> concat (map msgSignature (sortMsgs pre)) = concat (map (\<lambda>m. the (SignSequence cl (URL m) batches own)) signers)"
proof -
  let ?r = "requestSignatureFromMember cl batches own"
  let ?fs = "answered (sortMsgs pre)"
  have set_sort: "set (sortMsgs pre) = set pre" using mset_sortMsgs by (metis set_mset_mset)
  have "\<forall>msg\<in>set pre. \<exists>m. m \<in> set ms \<and> ?r m = msg" using assms(1) by blast
  from bchoice [OF this] obtain g where g: "\<And>msg. msg \<in> set pre \<Longrightarrow> g msg \<in> set ms \<and> ?r (g msg) = msg" by blast
  have "\<forall>m\<in>set pre. length (msgAddr m) = 20" using assms(1,3) by (auto simp: request_facts(1))
  from sorted_wrt_filter [OF sortMsgs_sorted [OF assms(2) this]] have sorted: "sorted_wrt addr_less ?fs" .
  have addr: "Addr (g msg) = msgAddr msg" if "msg \<in> set ?fs" for msg
    using g [of msg] that set_sort request_facts(1) [of cl batches own "g msg"] by auto
  have signing: "signs_for cl batches own (g msg)" "msgSignature msg = the (SignSequence cl (URL (g msg)) batches own)" if "msg \<in> set ?fs" for msg
    using g [of msg] that set_sort request_facts(2,3) [of cl batches own "g msg"] by auto
  have "mset ?fs = mset (answered pre)" by (simp add: mset_sortMsgs)
  then have len: "length ?fs = length (answered pre)" by (metis size_mset)
  have "concat (map msgSignature (sortMsgs pre)) = concat (map msgSignature ?fs)"
    using g set_sort by (intro concat_answered ballI impI) (metis request_facts(2,3))
  also have "\<dots> = concat (map (\<lambda>m. the (SignSequence cl (URL m) batches own)) (map g ?fs))"
    using signing(2) by (auto intro: arg_cong [where f = concat])
  finally have c: "concat (map msgSignature (sortMsgs pre)) = \<dots>" .
  have "sorted_wrt (\<lambda>m m'. SetBytes (Addr m) < SetBytes (Addr m')) (map g ?fs)"
    unfolding sorted_wrt_map by (rule sorted_wrt_mono_rel [OF _ sorted]) (simp add: addr addr_less_def)
  moreover have "set (map g ?fs) \<subseteq> {m \<in> set ms. signs_for cl batches own m}" using g signing(1) set_sort by auto
  ultimately show ?thesis using c len by (intro exI [of _ "map g ?fs"]) simp
qed

section \<open>What the members answer\<close>

definition to_visit :: "nat \<Rightarrow> nat \<Rightarrow> nat \<Rightarrow> nat set" where
  "to_visit n initial selected = (if selected < initial then {selected..<initial} else {selected..<n} \<union> {..<initial})"

lemma next_member: "selected < n \<Longrightarrow> (selected + 1) mod n = (if selected + 1 < n then selected + 1 else 0)" for n :: nat
  by (auto simp: not_less le_Suc_eq)

lemma to_visit_next:
  assumes "initial < n" "selected < n" "(selected + 1) mod n \<noteq> initial"
  shows "to_visit n initial selected = insert selected (to_visit n initial ((selected + 1) mod n))"
  using assms unfolding next_member [OF assms(2)] by (auto simp: to_visit_def split: if_splits)

lemma to_visit_end:
  assumes "initial < n" "selected < n" "(selected + 1) mod n = initial"
  shows "to_visit n initial selected = {selected}"
  using assms unfolding next_member [OF assms(2)] by (auto simp: to_visit_def split: if_splits)

lemma memberLoop_result:
  assumes "initial < length members" "selected < length members"
  shows "(case memberLoop kc cl hash members initial selected of
      (Inr d, s) \<Rightarrow> s < length members \<and> offChainData kc cl hash (members ! s) = Some d
    | (Inl e, s) \<Rightarrow> e = NoMemberHasData \<and> s = initial
        \<and> (\<forall>j\<in>to_visit (length members) initial selected. offChainData kc cl hash (members ! j) = None))"
  using assms
proof (induction kc cl hash members initial selected rule: memberLoop.induct)
  case (1 kc cl hash members initial selected)
  let ?s = "(selected + 1) mod length members"
  show ?case
  proof (cases "offChainData kc cl hash (members ! selected)")
    case (Some d)
    then show ?thesis using "1.prems" by (subst memberLoop.simps) simp
  next
    case none: None
    show ?thesis
    proof (cases "?s = initial")
      case True
      then show ?thesis
        using "1.prems" none to_visit_end [OF "1.prems" True] by (subst memberLoop.simps) simp
    next
      case False
      have "?s < length members" using "1.prems" by (intro mod_less_divisor) linarith
      then show ?thesis
        using "1.prems" none False "1.IH" [OF _ none refl False] to_visit_next [OF "1.prems" False]
        by (subst memberLoop.simps) (auto split: prod.splits sum.splits)
    qed
  qed
qed

definition backend_ok :: "DataCommitteeBackend \<Rightarrow> bool" where
  "backend_ok d \<longleftrightarrow> (if committeeMembers d = [] then selectedCommitteeMember d = - 1
     else 0 \<le> selectedCommitteeMember d \<and> selectedCommitteeMember d < int (length (committeeMembers d)))"

definition random_ok :: "(nat \<Rightarrow> nat) \<Rightarrow> bool" where
  "random_ok rnd \<longleftrightarrow> (\<forall>n>0. rnd n < n)"

lemma dac_Init_ok: "random_ok rnd \<Longrightarrow> backend_ok d \<Longrightarrow> backend_ok (snd (dac_Init sc rnd d))"
  by (auto simp: dac_Init_def backend_ok_def random_ok_def split: sum.splits)

text \<open>
  The data comes from a member and has the hash; without it, no member has it, and the committee is
  loaded anew.
\<close>

lemma loadAgain_reloads: "\<exists>e. loadAgain sc rnd d = (Inl e, snd (dac_Init sc rnd d))"
  by (auto simp: loadAgain_def split: prod.splits option.splits)

lemma dac_GetBatchL2Data_result:
  assumes "backend_ok d"
  shows "(case dac_GetBatchL2Data kc cl sc rnd d hash of
      (Inr da, d') \<Rightarrow> kc da = hash \<and> backend_ok d' \<and> committeeMembers d' = committeeMembers d
    | (Inl e, d') \<Rightarrow> (\<forall>m\<in>set (committeeMembers d). offChainData kc cl hash m = None) \<and> d' = snd (dac_Init sc rnd d))"
proof (cases "committeeMembers d = []")
  case True
  then have s: "selectedCommitteeMember d = - 1" using assms by (simp add: backend_ok_def)
  then have "dac_GetBatchL2Data kc cl sc rnd d hash = loadAgain sc rnd (d\<lparr>selectedCommitteeMember := - 1\<rparr>)"
    by (simp add: dac_GetBatchL2Data_def)
  moreover have "d\<lparr>selectedCommitteeMember := - 1\<rparr> = d" using s by simp
  ultimately show ?thesis using loadAgain_reloads [of sc rnd d] True by auto
next
  case False
  define i where "i = nat (selectedCommitteeMember d)"
  have i: "selectedCommitteeMember d = int i" "i < length (committeeMembers d)" using assms False by (auto simp: backend_ok_def i_def)
  have all: "to_visit (length (committeeMembers d)) i i = {..<length (committeeMembers d)}" using i(2) by (auto simp: to_visit_def)
  obtain r s where r: "memberLoop kc cl hash (committeeMembers d) i i = (r, s)" by fastforce
  show ?thesis
  proof (cases r)
    case (Inr da)
    with memberLoop_result [OF i(2) i(2), of kc cl hash] r i False show ?thesis
      by (auto simp: dac_GetBatchL2Data_def Let_def backend_ok_def offChainData_def split: option.splits if_splits)
  next
    case (Inl e)
    with memberLoop_result [OF i(2) i(2), of kc cl hash] r all have e: "e = NoMemberHasData" "s = i"
      "\<forall>m\<in>set (committeeMembers d). offChainData kc cl hash m = None"
      by (auto simp: in_set_conv_nth)
    with r i Inl have "dac_GetBatchL2Data kc cl sc rnd d hash = loadAgain sc rnd (d\<lparr>selectedCommitteeMember := int i\<rparr>)"
      by (simp add: dac_GetBatchL2Data_def Let_def)
    moreover have "d\<lparr>selectedCommitteeMember := int i\<rparr> = d" using i(1) by simp
    ultimately show ?thesis using loadAgain_reloads [of sc rnd d] e(3) by auto
  qed
qed

section \<open>The sources of data\<close>

text \<open>What a backend promises: the data it returns has the hashes, and it stays in order.\<close>

locale data_backend =
  fixes keccak :: "bytes \<Rightarrow> hash32" and getSequence :: "'b \<Rightarrow> hash32 list \<Rightarrow> (da_error + bytes list) \<times> 'b" and in_order :: "'b \<Rightarrow> bool"
  assumes preimages: "in_order b \<Longrightarrow> fst (getSequence b hs) = Inr da \<Longrightarrow> map keccak da = hs"
    and stays_in_order: "in_order b \<Longrightarrow> in_order (snd (getSequence b hs))"
begin

lemma checkLoop_preimages: "length ns = length hs \<Longrightarrow> checkLoop keccak m ns hs acc = Inr da \<Longrightarrow> map keccak da = map keccak acc @ hs"
  by (induction ns hs arbitrary: acc rule: list_induct2) (auto split: option.splits if_splits)

lemma checkBatches_preimages: "checkBatches keccak ns hs m = Inr da \<Longrightarrow> map keccak da = hs"
  using checkLoop_preimages [of ns hs m "[]" da] by (simp add: checkBatches_def split: if_splits)

lemma rpcData_preimages: "rpcData keccak ns hs rpc = Inr da \<Longrightarrow> map keccak da = hs"
  by (auto simp: rpcData_def checkBatches_preimages split: if_splits option.splits sum.splits)

lemma sourceLoop_preimages:
  assumes "in_order b" "fst (sourceLoop keccak src getSequence trusted b ns hs ps) = Inr da"
  shows "map keccak da = hs"
  using assms(2)
proof (induction ps)
  case (Cons p ps)
  then show ?case
    using assms(1)
    by (cases p) (auto simp: checkBatches_preimages rpcData_preimages preimages split: option.splits sum.splits if_splits da_error.splits)
qed simp

lemma sourceLoop_stays_in_order:
  assumes "in_order b"
  shows "in_order (snd (sourceLoop keccak src getSequence trusted b ns hs ps))"
proof (induction ps)
  case (Cons p ps)
  then show ?case
    using assms stays_in_order by (cases p) (auto split: option.splits sum.splits da_error.splits)
qed (simp add: assms)

text \<open>A backend among the sources is reached unless the database fails or an answer has a nil pointer.\<close>

lemma sourceLoop_reaches_backend:
  assumes "External \<in> set ps" "GetBatchL2DataByNumbers src ns \<noteq> None"
    and "\<not> trusted \<Longrightarrow> rpcData keccak ns hs (BatchesByNumbers src) \<noteq> Inl DAPanic"
    and "\<exists>da. fst (getSequence b hs) = Inr da"
  shows "\<exists>da. fst (sourceLoop keccak src getSequence trusted b ns hs ps) = Inr da"
  using assms(1)
proof (induction ps)
  case (Cons p ps)
  show ?case
  proof (cases "p = External")
    case True
    with assms(4) show ?thesis by simp
  next
    case False
    with Cons have "\<exists>da. fst (sourceLoop keccak src getSequence trusted b ns hs ps) = Inr da" by simp
    with False assms(2,3) show ?thesis
      by (cases p) (auto split: option.splits sum.splits da_error.splits)
  qed
qed simp

end

lemma sequenceDataLoop_result:
  assumes "random_ok rnd" "backend_ok d"
  shows "backend_ok (snd (sequenceDataLoop kc cl sc rnd d hs acc))"
    and "fst (sequenceDataLoop kc cl sc rnd d hs acc) = Inr da \<Longrightarrow> map kc da = map kc acc @ hs"
proof -
  have "backend_ok (snd (sequenceDataLoop kc cl sc rnd d hs acc))
    \<and> (\<forall>da. fst (sequenceDataLoop kc cl sc rnd d hs acc) = Inr da \<longrightarrow> map kc da = map kc acc @ hs)"
    using assms(2)
  proof (induction hs arbitrary: d acc)
    case (Cons h hs)
    with dac_GetBatchL2Data_result [OF Cons.prems, where kc = kc and cl = cl and sc = sc and rnd = rnd and hash = h] dac_Init_ok [OF assms(1) Cons.prems] show ?case
      by (auto split: prod.splits sum.splits)
  qed simp
  then show "backend_ok (snd (sequenceDataLoop kc cl sc rnd d hs acc))"
    "fst (sequenceDataLoop kc cl sc rnd d hs acc) = Inr da \<Longrightarrow> map kc da = map kc acc @ hs"
    by blast+
qed

interpretation dac: data_backend kc "GetSequence kc cl sc rnd" "\<lambda>d. random_ok rnd \<and> backend_ok d" for kc cl sc rnd
  by unfold_locales (use sequenceDataLoop_result [where acc = "[]"] in \<open>auto simp: GetSequence_def\<close>)

text \<open>The committee has all the data as long as each hash is served by some member.\<close>

lemma GetSequence_served:
  assumes "backend_ok d" "\<forall>h\<in>set hs. \<exists>m\<in>set (committeeMembers d). offChainData kc cl h m \<noteq> None"
  shows "\<exists>da. fst (GetSequence kc cl sc rnd d hs) = Inr da"
proof -
  have "\<exists>da. fst (sequenceDataLoop kc cl sc rnd d hs acc) = Inr da" for acc
    using assms
  proof (induction hs arbitrary: d acc)
    case (Cons h hs)
    with dac_GetBatchL2Data_result [OF Cons.prems(1), where kc = kc and cl = cl and sc = sc and rnd = rnd and hash = h] show ?case
      by (auto split: prod.splits sum.splits)
  qed simp
  then show ?thesis by (simp add: GetSequence_def)
qed

section \<open>A committee of three\<close>

definition sampleAddr :: "byte \<Rightarrow> bytes" where
  "sampleAddr b = replicate 19 0 @ [b]"

definition sampleMembers :: "DataCommitteeMember list" where
  "sampleMembers = [\<lparr>Addr = sampleAddr 10, URL = ''a''\<rparr>, \<lparr>Addr = sampleAddr 9, URL = ''b''\<rparr>, \<lparr>Addr = sampleAddr 200, URL = ''c''\<rparr>]"

definition sampleContract :: committeeContract where
  "sampleContract = \<lparr>CommitteeHash = Some zero_hash, RequiredAmountOfSignatures = Some 2, GetAmountOfMembers = Some 3,
     contractMember = (\<lambda>i. if i < 3 then Some (sampleMembers ! i) else None)\<rparr>"

definition sampleClients :: memberClients where
  "sampleClients = \<lparr>SignSequence = (\<lambda>url batches own. if url = ''a'' then Some [10] else if url = ''b'' then None else Some [200]),
     Signer = (\<lambda>batches signature. Some (sampleAddr (hd signature))),
     GetOffChainData = (\<lambda>url h. if url = ''c'' then Some [1] else Some [2])\<rparr>"

definition sampleCommittee :: Committee where
  "sampleCommittee = \<lparr>AddressesHash = zero_hash, Members = sampleMembers, RequiredSignatures = 2\<rparr>"

lemma sampleCommittee_current: "getCurrentDataCommittee sampleContract = Inr sampleCommittee"
proof -
  have "membersLoop sampleContract 0 3 [] = Inr sampleMembers" by (simp add: eval_nat_numeral sampleContract_def sampleMembers_def)
  then show ?thesis by (simp add: getCurrentDataCommittee_def getCurrentDataCommitteeMembers_def sampleContract_def sampleCommittee_def)
qed

section \<open>Properties of the committee\<close>

text \<open>
  C31: whatever the order in which the answers of the members arrive, posting a sequence ends, and
  succeeds exactly when enough members sign.  The message then consists of exactly the required number of
  signatures, each by another member and valid for that member, in ascending order of the addresses of
  the signers, followed by the addresses of all members.  Assumed are a contract with different
  addresses that does not require more signatures than it has members, and that each member answers
  or fails.
\<close>

theorem dac_PostSequence_quorum:
  assumes "getCurrentDataCommittee sc = Inr committee" "sign batches = Some own" "\<And>msgs. mset (arrival msgs) = mset msgs"
    and "distinct (map Addr (Members committee))" "\<And>m. m \<in> set (Members committee) \<Longrightarrow> length (Addr m) = 20"
    and "unat (RequiredSignatures committee) \<le> length (Members committee)" "length (Members committee) < 2 ^ 63"
  shows "if unat (RequiredSignatures committee) \<le> length (filter (signs_for cl batches own) (Members committee))
    then \<exists>signers. set signers \<subseteq> {m \<in> set (Members committee). signs_for cl batches own m} \<and> length signers = unat (RequiredSignatures committee)
      \<and> sorted_wrt (\<lambda>m m'. SetBytes (Addr m) < SetBytes (Addr m')) signers
      \<and> dac_PostSequence cl sc sign batches arrival
          = Some (Inr (concat (map (\<lambda>m. the (SignSequence cl (URL m) batches own)) signers) @ concat (map Addr (Members committee))))
    else dac_PostSequence cl sc sign batches arrival = Some (Inl TooManyFailed)"
proof -
  let ?ms = "Members committee" and ?r = "requestSignatureFromMember cl batches own" and ?n = "unat (RequiredSignatures committee)"
  define arr where "arr = arrival (map ?r ?ms)"
  have arr: "mset arr = mset (map ?r ?ms)" unfolding arr_def by (rule assms(3))
  then have len: "length arr = length ?ms" by (metis length_map size_mset)
  have "mset (answered arr) = mset (answered (map ?r ?ms))" using arr by (metis mset_filter)
  then have "length (answered arr) = length (answered (map ?r ?ms))" by (metis size_mset)
  then have count: "length (answered arr) = length (filter (signs_for cl batches own) ?ms)" by (simp add: filter_map o_def request_facts)
  have post: "dac_PostSequence cl sc sign batches arrival = (case collectLoop (length ?ms) (RequiredSignatures committee) 0 0 [] arr of
      None \<Rightarrow> None | Some (Inl err) \<Rightarrow> Some (Inl err) | Some (Inr msgs) \<Rightarrow> Some (Inr (buildSignaturesAndAddrs msgs ?ms)))"
    by (simp add: dac_PostSequence_def assms(1,2) arr_def)
  have loop: "if ?n \<le> length (answered arr)
     then \<exists>pre post. arr = pre @ post \<and> length (answered pre) = ?n \<and> collectLoop (length ?ms) (RequiredSignatures committee) 0 0 [] arr = Some (Inr pre)
     else collectLoop (length ?ms) (RequiredSignatures committee) 0 0 [] arr = Some (Inl TooManyFailed)"
    using collectLoop_quorum [of "length ?ms" 0 0 arr ?n "[]"] len assms(6,7) by (auto split: if_splits)
  show ?thesis
  proof (cases "?n \<le> length (answered arr)")
    case True
    with loop obtain pre rest where pre: "arr = pre @ rest" "length (answered pre) = ?n"
      "collectLoop (length ?ms) (RequiredSignatures committee) 0 0 [] arr = Some (Inr pre)" by auto
    have "mset (map msgAddr arr) = mset (map Addr ?ms)" by (simp add: mset_map arr image_mset.compositionality o_def request_facts(1))
    then have "distinct (map msgAddr pre)" using assms(4) pre(1) by (metis distinct_append map_append mset_eq_imp_distinct_iff)
    moreover have "set pre \<subseteq> ?r ` set ?ms" using arg_cong [OF arr, of set_mset] pre(1) by auto
    ultimately obtain signers where "set signers \<subseteq> {m \<in> set ?ms. signs_for cl batches own m}" "length signers = ?n"
      "sorted_wrt (\<lambda>m m'. SetBytes (Addr m) < SetBytes (Addr m')) signers"
      "concat (map msgSignature (sortMsgs pre)) = concat (map (\<lambda>m. the (SignSequence cl (URL m) batches own)) signers)"
      using signers_of_messages [of pre cl batches own ?ms] assms(5) pre(2) by auto
    then show ?thesis using True count pre(3) post by (auto simp: buildSignaturesAndAddrs_def)
  next
    case False
    with loop post count show ?thesis by simp
  qed
qed

theorem dac_PostSequence_quorum_witness:
  "\<exists>signers. set signers \<subseteq> {m \<in> set sampleMembers. signs_for sampleClients [[7]] [5] m} \<and> length signers = 2
     \<and> dac_PostSequence sampleClients sampleContract (\<lambda>_. Some [5]) [[7]] rev
         = Some (Inr (concat (map (\<lambda>m. the (SignSequence sampleClients (URL m) [[7]] [5])) signers) @ concat (map Addr sampleMembers)))"
proof -
  have m: "Members sampleCommittee = sampleMembers" "RequiredSignatures sampleCommittee = 2" by (simp_all add: sampleCommittee_def)
  have "distinct (map Addr sampleMembers)" by (simp add: sampleMembers_def sampleAddr_def)
  moreover have "length (Addr m) = 20" if "m \<in> set sampleMembers" for m using that by (auto simp: sampleMembers_def sampleAddr_def)
  moreover have "filter (signs_for sampleClients [[7]] [5]) sampleMembers = [sampleMembers ! 0, sampleMembers ! 2]"
    by (simp add: sampleMembers_def signs_for_def sampleClients_def)
  moreover have "length sampleMembers = 3" by (simp add: sampleMembers_def)
  ultimately show ?thesis
    using dac_PostSequence_quorum [OF sampleCommittee_current, of "\<lambda>_. Some [5]" "[[7]]" "[5]" rev sampleClients] by (auto simp: m)
qed

text \<open>
  C30: data of batches is returned only if it has the expected hashes, in their order, from whatever
  source it comes, and the backend stays usable.  With the committee among the sources, the data is
  returned whenever each hash is served by some member, provided that the database answers and the
  trusted sequencer returns no nil pointer.  Random numbers are assumed to be in range.
\<close>

theorem da_GetBatchL2Data_preimages:
  assumes "random_ok rnd" "backend_ok (backend d)"
  shows "(fst (da_GetBatchL2Data kc cl sc rnd src d nums hs) = Inr da \<longrightarrow> map kc da = hs)
    \<and> backend_ok (backend (snd (da_GetBatchL2Data kc cl sc rnd src d nums hs)))
    \<and> (length nums = length hs \<and> External \<in> set (dataSourcePriority d) \<and> GetBatchL2DataByNumbers src nums \<noteq> None
         \<and> (isTrustedSequencer d \<or> rpcData kc nums hs (BatchesByNumbers src) \<noteq> Inl DAPanic)
         \<and> (\<forall>h\<in>set hs. \<exists>m\<in>set (committeeMembers (backend d)). offChainData kc cl h m \<noteq> None)
       \<longrightarrow> (\<exists>da. fst (da_GetBatchL2Data kc cl sc rnd src d nums hs) = Inr da \<and> map kc da = hs))"
proof -
  let ?loop = "sourceLoop kc src (GetSequence kc cl sc rnd) (isTrustedSequencer d) (backend d) nums hs (dataSourcePriority d)"
  have sound: "map kc da = hs" if "fst (da_GetBatchL2Data kc cl sc rnd src d nums hs) = Inr da" for da
    using that dac.sourceLoop_preimages [of rnd "backend d" kc src cl sc "isTrustedSequencer d" nums hs "dataSourcePriority d" da] assms
    by (simp add: da_GetBatchL2Data_def split: if_splits)
  have "backend_ok (snd ?loop)" using dac.sourceLoop_stays_in_order [of rnd "backend d"] assms by simp
  then have order: "backend_ok (backend (snd (da_GetBatchL2Data kc cl sc rnd src d nums hs)))"
    using assms(2) by (simp add: da_GetBatchL2Data_def)
  have "\<exists>da. fst ?loop = Inr da"
    if "External \<in> set (dataSourcePriority d)" "GetBatchL2DataByNumbers src nums \<noteq> None"
      "isTrustedSequencer d \<or> rpcData kc nums hs (BatchesByNumbers src) \<noteq> Inl DAPanic"
      "\<forall>h\<in>set hs. \<exists>m\<in>set (committeeMembers (backend d)). offChainData kc cl h m \<noteq> None"
    using that GetSequence_served [OF assms(2) that(4), of sc rnd] by (intro dac.sourceLoop_reaches_backend) auto
  then show ?thesis using sound order by (auto simp: da_GetBatchL2Data_def)
qed

theorem da_GetBatchL2Data_preimages_witness:
  "\<exists>da. fst (da_GetBatchL2Data (\<lambda>d. d) sampleClients sampleContract (\<lambda>n. 0)
       \<lparr>GetBatchL2DataByNumbers = (\<lambda>_. Some Map.empty), BatchesByNumbers = (\<lambda>_. None)\<rparr>
       \<lparr>isTrustedSequencer = False, dataSourcePriority = DefaultPriority, backend = \<lparr>committeeMembers = sampleMembers, selectedCommitteeMember = 0\<rparr>\<rparr>
       [4, 5] [[1], [1]]) = Inr da \<and> map (\<lambda>d. d) da = [[1], [1]]"
proof -
  let ?b = "\<lparr>committeeMembers = sampleMembers, selectedCommitteeMember = 0\<rparr>"
  let ?d = "\<lparr>isTrustedSequencer = False, dataSourcePriority = DefaultPriority, backend = ?b\<rparr>"
  let ?src = "\<lparr>GetBatchL2DataByNumbers = (\<lambda>_. Some Map.empty), BatchesByNumbers = (\<lambda>_. None)\<rparr>"
  have ok: "random_ok (\<lambda>n. 0)" "backend_ok (backend ?d)" by (simp_all add: random_ok_def backend_ok_def sampleMembers_def)
  have "\<exists>m\<in>set sampleMembers. offChainData (\<lambda>d. d) sampleClients [1] m \<noteq> None"
    by (simp add: sampleMembers_def offChainData_def sampleClients_def)
  moreover have "External \<in> set DefaultPriority" by (simp add: DefaultPriority_def)
  ultimately show ?thesis
    using da_GetBatchL2Data_preimages [OF ok, of "\<lambda>d. d" sampleClients sampleContract ?src "[4, 5]" "[[1], [1]]"]
    by (simp add: rpcData_def)
qed

end
