(* ===== verification/PoolAdd.thy ===== *)
theory PoolAdd
  imports TxEncoding ExecutorErrors ZkCounters
begin

text \<open>
  Adding a transaction to the pool (\<open>pool/pool.go\<close>, \<open>pool/effectivegasprice.go\<close>, \<open>CheckSignature\<close> of
  \<open>state/crypto.go\<close>): validation, pre-execution, the break even price, and the lists the pool refreshes.

  The signature functions and the cost of a transaction belong to the Ethereum library, balances,
  nonces and stored transactions to databases, the pre-execution to the executor service: they are
  answers in \<open>pool_env\<close>.  Products with a floating point factor are functions of the configuration.
  The value of a transaction is a natural number, so that the check for a negative one is void.
\<close>

section \<open>Configuration and surroundings\<close>

datatype TxStatus = TxStatusPending | TxStatusInvalid | TxStatusSelected | TxStatusFailed

datatype PoolError =
    ErrInvalidIP | ErrInvalidSender | ErrInvalidChainID | ErrTxTypeNotSupported | ErrOversizedData | TxFeeAboveCap
  | ErrBlockedSender | StateError | ErrNonceTooLow | ErrNonceTooHigh | ErrTxPoolOverflow | ErrGasPrice | ErrInsufficientFunds
  | ErrGasUintOverflow | ErrIntrinsicGas | ErrAlreadyKnown | ErrReplaceUnderpriced | DataSizeAboveMaximum | ChainIDAboveMaximum
  | ErrGasLimit | PreExecutionError go_error | OutOfCounters | ErrZeroL1GasPrice | ErrEffectiveGasPriceGasPriceTooLow | StorageError
  | ErrEffectiveGasPriceIsZero | PoolPanic

record EffectiveGasPriceCfg =
  egpEnabled :: bool
  L1GasPriceFactor :: "uint64 \<Rightarrow> uint64"
  ByteGasCost :: uint64
  ZeroByteGasCost :: uint64
  NetProfit :: "uint64 \<Rightarrow> uint64"
  BreakEvenFactor :: "nat \<Rightarrow> nat"
  EthTransferGasPrice :: uint64
  EthTransferL1GasPriceFactor :: "(uint64 \<Rightarrow> uint64) option"
  L2GasPriceSuggesterFactor :: "uint64 \<Rightarrow> uint64"
  priorityRatio :: "nat \<Rightarrow> nat \<Rightarrow> uint64 \<Rightarrow> nat"

record PoolConfig =
  poolForkID :: uint64
  MaxTxBytesSize :: uint64
  MaxTxDataBytesSize :: int
  AccountQueue :: uint64
  GlobalQueue :: uint64
  feeAboveCap :: "nat \<Rightarrow> uint64 \<Rightarrow> bool"
  EffectiveGasPriceConf :: EffectiveGasPriceCfg

record Pool =
  cfg :: PoolConfig
  batchConstraints :: BatchConstraintsCfg
  chainID :: uint64
  blockedAddresses :: "string list"
  minSuggestedGasPrice :: nat

record txResponse =
  RomError :: go_error
  txGasUsed :: uint64

record processBatchResponse =
  blockResponses :: "txResponse list list"
  IsExecutorLevelError :: bool
  UsedZkCounters :: ZKCounters
  ReservedZkCounters :: ZKCounters

record pool_env =
  ParseIP :: "string \<Rightarrow> bool"
  ValidateSignatureValues :: "uint8 \<Rightarrow> nat \<Rightarrow> nat \<Rightarrow> bool"
  SenderOf :: "LegacyTx \<Rightarrow> bytes option"
  addrString :: "bytes \<Rightarrow> string"
  Cost :: "LegacyTx \<Rightarrow> nat"
  hashOfTx :: "LegacyTx \<Rightarrow> hash32"
  LastL2Block :: "(bytes \<times> uint64) option"
  GetNonce :: "bytes \<Rightarrow> bytes \<Rightarrow> uint64 option"
  GetBalance :: "bytes \<Rightarrow> bytes \<Rightarrow> nat option"
  CountPending :: "uint64 option"
  TxsByFromAndNonce :: "bytes \<Rightarrow> uint64 \<Rightarrow> (TxStatus \<times> LegacyTx) list option"
  PreProcessTransaction :: "LegacyTx \<Rightarrow> go_error \<times> processBatchResponse option"
  GasPrices :: "(uint64 \<times> uint64) option"
  storageAddTx :: "LegacyTx \<Rightarrow> bool"

section \<open>Validation\<close>

definition IsValidIP :: "pool_env \<Rightarrow> string \<Rightarrow> bool" where
  "IsValidIP e ip \<longleftrightarrow> ip \<noteq> [] \<and> ParseIP e ip"

definition CheckSignature :: "geth \<Rightarrow> pool_env \<Rightarrow> LegacyTx \<Rightarrow> bool" where
  "CheckSignature g e tx =
     (let chainID = of_nat (chainIdOf g (txV tx)) :: uint64;
          plainV = (if chainID \<noteq> 0 then ucast (of_int (txV tx) - 35 - 2 * chainID :: uint64) else 0) :: uint8
      in ValidateSignatureValues e plainV (txR tx) (txS tx))"

definition txDataNonZeroGas :: uint64 where
  "txDataNonZeroGas = 16"

definition txGasContractCreation :: uint64 where
  "txGasContractCreation = 53000"

definition txGasTransfer :: uint64 where
  "txGasTransfer = 21000"

definition txDataZeroGas :: uint64 where
  "txDataZeroGas = 4"

definition IntrinsicGas :: "LegacyTx \<Rightarrow> PoolError + uint64" where
  "IntrinsicGas tx =
     (let gas = (if txTo tx = None then txGasContractCreation else txGasTransfer);
          dataLen = of_nat (length (txData tx)) :: uint64
      in if dataLen > 0 then
           (let nz = of_nat (length (filter (\<lambda>b. b \<noteq> 0) (txData tx))) :: uint64
            in if (- 1 - gas) div txDataNonZeroGas < nz then Inl ErrGasUintOverflow
               else
                 (let gas = gas + nz * txDataNonZeroGas; z = dataLen - nz
                  in if (- 1 - gas) div txDataZeroGas < z then Inl ErrGasUintOverflow
                     else Inr (gas + z * txDataZeroGas)))
         else Inr gas)"

definition checkTxFieldCompatibilityWithExecutor :: "geth \<Rightarrow> PoolConfig \<Rightarrow> LegacyTx \<Rightarrow> PoolError option" where
  "checkTxFieldCompatibilityWithExecutor g c tx =
     (if int (length (txData tx)) > MaxTxDataBytesSize c then Some DataSizeAboveMaximum
      else if chainIdOf g (txV tx) > 2 ^ 64 - 1 then Some ChainIDAboveMaximum
      else None)"

text \<open>The transactions of the pool with the same sender and nonce.\<close>

fun checkReplacement :: "pool_env \<Rightarrow> LegacyTx \<Rightarrow> (TxStatus \<times> LegacyTx) list \<Rightarrow> PoolError option" where
  "checkReplacement e tx [] = None"
| "checkReplacement e tx ((status, oldTx) # oldTxs) =
     (if status = TxStatusInvalid \<or> status = TxStatusFailed then checkReplacement e tx oldTxs
      else
        (let oldTxPrice = txGasPrice oldTx * unat (txGas oldTx); txPrice = txGasPrice tx * unat (txGas tx)
         in if hashOfTx e oldTx = hashOfTx e tx then Some ErrAlreadyKnown
            else if oldTxPrice > txPrice then Some ErrReplaceUnderpriced
            else checkReplacement e tx oldTxs))"

text \<open>The checks that need the transaction only; the result is its sender.\<close>

definition checkForm :: "geth \<Rightarrow> Pool \<Rightarrow> pool_env \<Rightarrow> nat \<Rightarrow> string \<Rightarrow> LegacyTx \<Rightarrow> PoolError + bytes" where
  "checkForm g p e txType ip tx =
     (let txChainID = of_nat (chainIdOf g (txV tx)) :: uint64
      in if ip \<noteq> [] \<and> \<not> IsValidIP e ip then Inl ErrInvalidIP
         else if \<not> CheckSignature g e tx then Inl ErrInvalidSender
         else if txChainID \<noteq> chainID p \<and> txChainID \<noteq> 0 then Inl ErrInvalidChainID
         else if txType \<noteq> 0 then Inl ErrTxTypeNotSupported
         else if txChainID = 0 \<and> \<not> IsPreEIP155Tx g tx then Inl ErrInvalidSender
         else
           (case SenderOf e tx of
              None \<Rightarrow> Inl ErrInvalidSender
            | Some from \<Rightarrow>
                (case EncodeTransaction g tx 255 (poolForkID (cfg p)) of
                   Inl err \<Rightarrow> Inl (if err = SlicePanic then PoolPanic else ErrTxTypeNotSupported)
                 | Inr decodedTx \<Rightarrow>
                     if (of_nat (length decodedTx) :: uint64) > MaxTxBytesSize (cfg p) then Inl ErrOversizedData
                     else if feeAboveCap (cfg p) (txGasPrice tx) (txGas tx) then Inl TxFeeAboveCap
                     else if addrString e from \<in> set (blockedAddresses p) then Inl ErrBlockedSender
                     else Inr from)))"

text \<open>The checks against the state and the pool.\<close>

definition checkNonceAndQueues :: "Pool \<Rightarrow> pool_env \<Rightarrow> LegacyTx \<Rightarrow> uint64 \<Rightarrow> PoolError option" where
  "checkNonceAndQueues p e tx currentNonce =
     (if txNonce tx < currentNonce then Some ErrNonceTooLow
      else if AccountQueue (cfg p) > 0 \<and> txNonce tx > currentNonce + AccountQueue (cfg p) - 1 then Some ErrNonceTooHigh
      else if GlobalQueue (cfg p) > 0 then
        (case CountPending e of
           None \<Rightarrow> Some StorageError
         | Some txCount \<Rightarrow> if txCount \<ge> GlobalQueue (cfg p) then Some ErrTxPoolOverflow else None)
      else None)"

definition checkAccount :: "Pool \<Rightarrow> pool_env \<Rightarrow> LegacyTx \<Rightarrow> bytes \<Rightarrow> PoolError option" where
  "checkAccount p e tx from =
     (case LastL2Block e of
        None \<Rightarrow> Some StateError
      | Some (stateRoot, number) \<Rightarrow>
          (case GetNonce e from stateRoot of
             None \<Rightarrow> Some StateError
           | Some currentNonce \<Rightarrow>
               (case checkNonceAndQueues p e tx currentNonce of
                  Some err \<Rightarrow> Some err
                | None \<Rightarrow>
                    if txGasPrice tx < minSuggestedGasPrice p then Some ErrGasPrice
                    else
                      (case GetBalance e from stateRoot of
                         None \<Rightarrow> Some StateError
                       | Some balance \<Rightarrow>
                           if balance < Cost e tx then Some ErrInsufficientFunds
                           else
                             (case IntrinsicGas tx of
                                Inl err \<Rightarrow> Some err
                              | Inr intrGas \<Rightarrow> if txGas tx < intrGas then Some ErrIntrinsicGas else None)))))"

definition validateTx :: "geth \<Rightarrow> Pool \<Rightarrow> pool_env \<Rightarrow> nat \<Rightarrow> string \<Rightarrow> LegacyTx \<Rightarrow> PoolError option" where
  "validateTx g p e txType ip tx =
     (case checkForm g p e txType ip tx of
        Inl err \<Rightarrow> Some err
      | Inr from \<Rightarrow>
          (case checkAccount p e tx from of
             Some err \<Rightarrow> Some err
           | None \<Rightarrow>
               (case TxsByFromAndNonce e from (txNonce tx) of
                  None \<Rightarrow> Some StorageError
                | Some oldTxs \<Rightarrow>
                    (case checkReplacement e tx oldTxs of
                       Some err \<Rightarrow> Some err
                     | None \<Rightarrow> checkTxFieldCompatibilityWithExecutor g (cfg p) tx))))"

section \<open>Pre-execution\<close>

record preExecutionResponse =
  usedZKCounters :: ZKCounters
  reservedZKCounters :: ZKCounters
  isExecutorLevelError :: bool
  OOCError :: go_error
  OOGError :: go_error
  isReverted :: bool
  txResponseOf :: "txResponse option"

definition noResponse :: preExecutionResponse where
  "noResponse = \<lparr>usedZKCounters = no_counters, reservedZKCounters = no_counters, isExecutorLevelError = False, OOCError = None,
     OOGError = None, isReverted = False, txResponseOf = None\<rparr>"

definition isOutOfCounters :: "go_error \<Rightarrow> bool" where
  "isOutOfCounters err \<longleftrightarrow> IsROMOutOfCountersError (RomErrorCode err)"

text \<open>The first transaction of the first block; \<open>None\<close> is a panic on a block without transactions.\<close>

definition takeResponse :: "processBatchResponse \<Rightarrow> preExecutionResponse \<Rightarrow> preExecutionResponse option" where
  "takeResponse r response =
     (case blockResponses r of
        [] \<Rightarrow> Some response
      | [] # _ \<Rightarrow> None
      | (t # _) # _ \<Rightarrow> Some (response\<lparr>usedZKCounters := UsedZkCounters r, reservedZKCounters := ReservedZkCounters r, txResponseOf := Some t\<rparr>))"

text \<open>
  The branch without an error of the request: the error assigned to the response is the one of the
  request, which is nil here.
\<close>

definition checkTxResponse :: "Pool \<Rightarrow> go_error \<Rightarrow> processBatchResponse \<Rightarrow> preExecutionResponse \<Rightarrow> preExecutionResponse option" where
  "checkTxResponse p err r response =
     (case blockResponses r of
        [] \<Rightarrow> Some response
      | [] # _ \<Rightarrow> None
      | (t # _) # _ \<Rightarrow>
          (let response = response\<lparr>isExecutorLevelError := IsExecutorLevelError r\<rparr>;
               response =
                 (if RomError t \<noteq> None then
                    (let response = response\<lparr>isReverted := (RomError t = Some ''ErrExecutionReverted'')\<rparr>;
                         response = (if isOutOfCounters (RomError t) then response\<lparr>OOCError := err\<rparr> else response)
                     in if RomError t = Some ''ErrOutOfGas'' then response\<lparr>OOGError := err\<rparr> else response)
                  else if \<not> IsWithinConstraints (batchConstraints p) (UsedZkCounters r)
                  then response\<lparr>OOCError := Some ''OutOfCounters Error (Node level)''\<rparr>
                  else response)
           in takeResponse r response))"

definition preExecuteTx :: "Pool \<Rightarrow> pool_env \<Rightarrow> LegacyTx \<Rightarrow> (preExecutionResponse \<times> go_error) option" where
  "preExecuteTx p e tx =
     (case PreProcessTransaction e tx of
        (err, resp) \<Rightarrow>
          if err \<noteq> None then
            (let isOOC = isOutOfCounters err; isOOG = (err = Some ''ErrOutOfGas'')
             in if \<not> isOOC \<and> \<not> isOOG then Some (noResponse, err)
                else
                  (let response = noResponse\<lparr>OOCError := (if isOOC then err else None), OOGError := (if isOOG then err else None)\<rparr>
                   in case resp of
                        None \<Rightarrow> Some (response, None)
                      | Some r \<Rightarrow> map_option (\<lambda>response. (response, None)) (takeResponse r response)))
          else
            (case resp of
               None \<Rightarrow> None
             | Some r \<Rightarrow> map_option (\<lambda>response. (response, None)) (checkTxResponse p err r noResponse)))"

section \<open>The break even price\<close>

definition GetTxAndL2GasPrice :: "EffectiveGasPriceCfg \<Rightarrow> nat \<Rightarrow> uint64 \<Rightarrow> uint64 \<Rightarrow> nat \<times> uint64" where
  "GetTxAndL2GasPrice c gasPrice l1GasPrice l2GasPrice =
     (if \<not> egpEnabled c then (let gp = L2GasPriceSuggesterFactor c l1GasPrice in (unat gp, gp)) else (gasPrice, l2GasPrice))"

definition ethTransferGas :: uint64 where
  "ethTransferGas = 21000"

definition breakEvenOfUse :: "EffectiveGasPriceCfg \<Rightarrow> bytes \<Rightarrow> uint64 \<Rightarrow> uint64 \<Rightarrow> nat" where
  "breakEvenOfUse c raw gasUsed l1GasPrice =
     (let l2MinGasPrice = L1GasPriceFactor c l1GasPrice;
          txZeroBytes = of_nat (length (filter (\<lambda>b. b = 0) raw)) :: uint64;
          txNonZeroBytes = of_nat (length raw) - txZeroBytes + EfficiencyPercentageByteLength;
          totalTxPrice = gasUsed * l2MinGasPrice + (txNonZeroBytes * ByteGasCost c + txZeroBytes * ZeroByteGasCost c) * l1GasPrice;
          breakEvenGasPrice = unat (NetProfit c (totalTxPrice div gasUsed))
      in if breakEvenGasPrice = 0 then 1 else breakEvenGasPrice)"

definition CalculateBreakEvenGasPrice ::
  "EffectiveGasPriceCfg \<Rightarrow> bytes \<Rightarrow> nat \<Rightarrow> uint64 \<Rightarrow> uint64 \<Rightarrow> PoolError + nat" where
  "CalculateBreakEvenGasPrice c raw gasPrice gasUsed l1GasPrice =
     (if l1GasPrice = 0 then Inl ErrZeroL1GasPrice
      else if gasUsed = 0 then Inr gasPrice
      else if gasUsed = ethTransferGas \<and> EthTransferGasPrice c \<noteq> 0 then Inr (unat (EthTransferGasPrice c))
      else
        (case (if gasUsed = ethTransferGas then EthTransferL1GasPriceFactor c else None) of
           Some factor \<Rightarrow> (let ethGasPrice = factor l1GasPrice in Inr (unat (if ethGasPrice = 0 then 1 else ethGasPrice)))
         | None \<Rightarrow> Inr (breakEvenOfUse c raw gasUsed l1GasPrice)))"

definition CalculateEffectiveGasPrice ::
  "EffectiveGasPriceCfg \<Rightarrow> bytes \<Rightarrow> nat \<Rightarrow> uint64 \<Rightarrow> uint64 \<Rightarrow> uint64 \<Rightarrow> PoolError + nat" where
  "CalculateEffectiveGasPrice c raw gasPrice gasUsed l1GasPrice l2GasPrice =
     (case CalculateBreakEvenGasPrice c raw gasPrice gasUsed l1GasPrice of
        Inl err \<Rightarrow> Inl err
      | Inr breakEvenGasPrice \<Rightarrow>
          (let effectiveGasPrice =
             (if l2GasPrice > 0 \<and> gasPrice > unat l2GasPrice then priorityRatio c breakEvenGasPrice gasPrice l2GasPrice
              else breakEvenGasPrice)
           in if effectiveGasPrice = 0 then Inl ErrEffectiveGasPriceIsZero else Inr effectiveGasPrice))"

definition ValidateBreakEvenGasPrice :: "EffectiveGasPriceCfg \<Rightarrow> LegacyTx \<Rightarrow> uint64 \<Rightarrow> uint64 \<times> uint64 \<Rightarrow> PoolError option" where
  "ValidateBreakEvenGasPrice c tx preExecutionGasUsed gasPrices =
     (case gasPrices of (l1, l2) \<Rightarrow>
        case GetTxAndL2GasPrice c (txGasPrice tx) l1 l2 of (gasPrice, l2GasPrice) \<Rightarrow>
          (case CalculateBreakEvenGasPrice c (txData tx) gasPrice preExecutionGasUsed l1 of
             Inl err \<Rightarrow> if egpEnabled c then Some err else None
           | Inr breakEvenGasPrice \<Rightarrow>
               if egpEnabled c \<and> BreakEvenFactor c breakEvenGasPrice > gasPrice \<and> gasPrice < unat l2GasPrice
               then Some ErrEffectiveGasPriceGasPriceTooLow else None))"

section \<open>Storing\<close>

record storedTx =
  storedTransaction :: LegacyTx
  storedCounters :: ZKCounters
  storedReserved :: ZKCounters

text \<open>The error the caller gets, and what was written to the pool.\<close>

definition pool_StoreTx :: "Pool \<Rightarrow> pool_env \<Rightarrow> LegacyTx \<Rightarrow> PoolError option \<times> storedTx option" where
  "pool_StoreTx p e tx =
     (case preExecuteTx p e tx of
        None \<Rightarrow> (Some PoolPanic, None)
      | Some (response, err) \<Rightarrow>
          if err = Some ''ErrIntrinsicInvalidBatchGasLimit'' then (Some ErrGasLimit, None)
          else if isExecutorLevelError response then (map_option (\<lambda>_. PreExecutionError err) err, None)
          else if err \<noteq> None then (Some (PreExecutionError err), None)
          else if OOCError response \<noteq> None then (Some OutOfCounters, None)
          else
            (case GasPrices e of
               None \<Rightarrow> (Some StorageError, None)
             | Some prices \<Rightarrow>
                 (case txResponseOf response of
                    None \<Rightarrow> (Some PoolPanic, None)
                  | Some t \<Rightarrow>
                      (case ValidateBreakEvenGasPrice (EffectiveGasPriceConf (cfg p)) tx (txGasUsed t) prices of
                         Some err \<Rightarrow> (Some err, None)
                       | None \<Rightarrow>
                           if storageAddTx e tx
                           then (None, Some \<lparr>storedTransaction = tx, storedCounters = usedZKCounters response,
                                             storedReserved = reservedZKCounters response\<rparr>)
                           else (Some StorageError, None)))))"

section \<open>What the pool refreshes\<close>

text \<open>The addresses to unblock are collected before they are deleted.\<close>

definition refreshBlockedAddresses :: "Pool \<Rightarrow> string list option \<Rightarrow> Pool" where
  "refreshBlockedAddresses p answer =
     (case answer of
        None \<Rightarrow> p
      | Some blocked \<Rightarrow>
          (let stored = blockedAddresses p @ filter (\<lambda>a. a \<notin> set (blockedAddresses p)) (remdups blocked);
               unblocked = filter (\<lambda>a. a \<notin> set blocked) stored
           in p\<lparr>blockedAddresses := filter (\<lambda>a. a \<notin> set unblocked) stored\<rparr>))"

definition tryUpdateMinSuggestedGasPrice :: "Pool \<Rightarrow> uint64 \<Rightarrow> Pool" where
  "tryUpdateMinSuggestedGasPrice p price =
     (if (of_nat (minSuggestedGasPrice p) :: uint64) \<noteq> price then p\<lparr>minSuggestedGasPrice := unat price\<rparr> else p)"

definition pollMinSuggestedGasPrice :: "Pool \<Rightarrow> uint64 option \<Rightarrow> Pool" where
  "pollMinSuggestedGasPrice p answer = (case answer of None \<Rightarrow> p | Some price \<Rightarrow> tryUpdateMinSuggestedGasPrice p price)"

section \<open>Intrinsic gas\<close>

definition intrinsicSum :: "LegacyTx \<Rightarrow> nat" where
  "intrinsicSum tx =
     (if txTo tx = None then 53000 else 21000) + 16 * length (filter (\<lambda>b. b \<noteq> 0) (txData tx)) + 4 * length (filter (\<lambda>b. b = 0) (txData tx))"

lemma overflow_check:
  assumes "0 < d" "k < 2 ^ 64"
  shows "(- 1 - (gas :: uint64)) div d < of_nat k \<longleftrightarrow> 2 ^ 64 \<le> unat gas + k * unat d"
    "\<not> (- 1 - gas) div d < of_nat k \<Longrightarrow> unat (gas + of_nat k * d) = unat gas + k * unat d"
proof -
  have m: "unat (- 1 - gas) = 2 ^ 64 - 1 - unat gas"
    using unat_sub [of gas "- 1"] by (simp add: unsigned_minus_1_eq_mask mask_eq_exp_minus_1)
  have g: "unat gas < 2 ^ 64" using unat_uint64_less [of gas] by simp
  have d: "0 < unat d" using assms(1) by (simp add: word_less_nat_alt)
  have "(- 1 - gas) div d < of_nat k \<longleftrightarrow> (2 ^ 64 - 1 - unat gas) div unat d < k"
    using assms(2) m by (simp add: word_less_nat_alt unat_div unat_of_nat64)
  also have "\<dots> \<longleftrightarrow> 2 ^ 64 - 1 - unat gas < k * unat d" by (rule div_less_iff_less_mult [OF d])
  also have "\<dots> \<longleftrightarrow> 2 ^ 64 \<le> unat gas + k * unat d" using g by linarith
  finally show iff: "(- 1 - gas) div d < of_nat k \<longleftrightarrow> 2 ^ 64 \<le> unat gas + k * unat d" .
  assume "\<not> (- 1 - gas) div d < of_nat k"
  then have lt: "unat gas + k * unat d < 2 ^ 64" using iff by simp
  have "gas + of_nat k * d = of_nat (unat gas + k * unat d)" by simp
  then show "unat (gas + of_nat k * d) = unat gas + k * unat d" using lt unat_of_nat64 by metis
qed

lemma IntrinsicGas_exact:
  assumes "length (txData tx) < 2 ^ 64"
  shows "IntrinsicGas tx = (if intrinsicSum tx < 2 ^ 64 then Inr (of_nat (intrinsicSum tx)) else Inl ErrGasUintOverflow)"
proof -
  define nz where "nz = length (filter (\<lambda>b. b \<noteq> 0) (txData tx))"
  define z where "z = length (filter (\<lambda>b. b = 0) (txData tx))"
  define gas :: uint64 where "gas = (if txTo tx = None then txGasContractCreation else txGasTransfer)"
  have sum: "nz + z = length (txData tx)" unfolding nz_def z_def using sum_length_filter_compl [of "\<lambda>b. b \<noteq> 0" "txData tx"] by simp
  then have small: "nz < 2 ^ 64" "z < 2 ^ 64" using assms by simp_all
  have gas: "unat gas = (if txTo tx = None then 53000 else 21000)" by (simp add: gas_def txGasContractCreation_def txGasTransfer_def)
  have total: "intrinsicSum tx = unat gas + nz * 16 + z * 4" by (simp add: intrinsicSum_def gas nz_def z_def)
  have cs: "(0 :: uint64) < txDataNonZeroGas" "(0 :: uint64) < txDataZeroGas" "unat txDataNonZeroGas = 16" "unat txDataZeroGas = 4"
    by (simp_all add: txDataNonZeroGas_def txDataZeroGas_def)
  note a = overflow_check [OF cs(1) small(1), of gas, unfolded cs(3)]
  note b = overflow_check [OF cs(2) small(2), of "gas + of_nat nz * txDataNonZeroGas", unfolded cs(4)]
  have zs: "(of_nat (length (txData tx)) - of_nat nz :: uint64) = of_nat z" by (simp add: sum [symmetric])
  have eq: "gas + of_nat nz * txDataNonZeroGas + of_nat z * txDataZeroGas = of_nat (intrinsicSum tx)"
    by (simp add: total txDataNonZeroGas_def txDataZeroGas_def)
  show ?thesis
  proof (cases "length (txData tx) = 0")
    case True
    then have "nz = 0" "z = 0" using sum by simp_all
    with True gas total show ?thesis
      by (simp add: IntrinsicGas_def Let_def txGasContractCreation_def txGasTransfer_def)
  next
    case False
    then have pos: "(of_nat (length (txData tx)) :: uint64) > 0" using assms by (simp add: word_less_nat_alt unat_of_nat64)
    have "IntrinsicGas tx =
        (if (- 1 - gas) div txDataNonZeroGas < of_nat nz then Inl ErrGasUintOverflow
         else if (- 1 - (gas + of_nat nz * txDataNonZeroGas)) div txDataZeroGas < of_nat z then Inl ErrGasUintOverflow
         else Inr (of_nat (intrinsicSum tx)))"
      using pos unfolding IntrinsicGas_def Let_def nz_def [symmetric] gas_def [symmetric] zs eq by simp
    also have "\<dots> = (if intrinsicSum tx < 2 ^ 64 then Inr (of_nat (intrinsicSum tx)) else Inl ErrGasUintOverflow)"
      using a b total by auto
    finally show ?thesis .
  qed
qed

lemma intrinsic_check:
  assumes "length (txData tx) < 2 ^ 64"
  shows "(case IntrinsicGas tx of Inl err \<Rightarrow> Some err | Inr intrGas \<Rightarrow> if txGas tx < intrGas then Some ErrIntrinsicGas else None) = None
    \<longleftrightarrow> intrinsicSum tx \<le> unat (txGas tx)"
proof -
  have "unat (txGas tx) < 2 ^ 64" using unat_uint64_less [of "txGas tx"] by simp
  then show ?thesis
    using IntrinsicGas_exact [OF assms] by (auto simp: word_less_nat_alt unat_of_nat64 not_less)
qed

section \<open>What the validation accepts\<close>

definition form_ok :: "geth \<Rightarrow> Pool \<Rightarrow> pool_env \<Rightarrow> string \<Rightarrow> LegacyTx \<Rightarrow> bytes \<Rightarrow> bool" where
  "form_ok g p e ip tx from \<longleftrightarrow>
     (ip = [] \<or> ParseIP e ip) \<and> CheckSignature g e tx \<and> SenderOf e tx = Some from
     \<and> (\<exists>d. EncodeTransaction g tx 255 (poolForkID (cfg p)) = Inr d \<and> length d \<le> unat (MaxTxBytesSize (cfg p)))
     \<and> \<not> feeAboveCap (cfg p) (txGasPrice tx) (txGas tx) \<and> addrString e from \<notin> set (blockedAddresses p)"

definition chain_ok :: "geth \<Rightarrow> Pool \<Rightarrow> LegacyTx \<Rightarrow> bool" where
  "chain_ok g p tx \<longleftrightarrow> (chainIdOf g (txV tx) = unat (chainID p) \<or> chainIdOf g (txV tx) = 0)
     \<and> (chainIdOf g (txV tx) = 0 \<longrightarrow> IsPreEIP155Tx g tx)"

definition account_ok :: "Pool \<Rightarrow> pool_env \<Rightarrow> LegacyTx \<Rightarrow> uint64 \<Rightarrow> nat \<Rightarrow> bool" where
  "account_ok p e tx currentNonce balance \<longleftrightarrow>
     unat currentNonce \<le> unat (txNonce tx)
     \<and> (0 < AccountQueue (cfg p) \<longrightarrow> unat (txNonce tx) < unat currentNonce + unat (AccountQueue (cfg p)))
     \<and> (0 < GlobalQueue (cfg p) \<longrightarrow> (\<exists>txCount. CountPending e = Some txCount \<and> txCount < GlobalQueue (cfg p)))
     \<and> minSuggestedGasPrice p \<le> txGasPrice tx \<and> Cost e tx \<le> balance \<and> intrinsicSum tx \<le> unat (txGas tx)"

definition replaces_ok :: "pool_env \<Rightarrow> LegacyTx \<Rightarrow> (TxStatus \<times> LegacyTx) list \<Rightarrow> bool" where
  "replaces_ok e tx oldTxs \<longleftrightarrow>
     (\<forall>(status, oldTx)\<in>set oldTxs. status \<in> {TxStatusPending, TxStatusSelected} \<longrightarrow>
        hashOfTx e oldTx \<noteq> hashOfTx e tx \<and> txGasPrice oldTx * unat (txGas oldTx) \<le> txGasPrice tx * unat (txGas tx))"

lemma checkReplacement_None: "checkReplacement e tx oldTxs = None \<longleftrightarrow> replaces_ok e tx oldTxs"
proof (induction oldTxs)
  case (Cons x oldTxs)
  then show ?case by (cases x; cases "fst x") (auto simp: replaces_ok_def Let_def not_less)
qed (simp add: replaces_ok_def)

lemma checkNonceAndQueues_None:
  assumes "unat currentNonce + unat (AccountQueue (cfg p)) < 2 ^ 64"
  shows "checkNonceAndQueues p e tx currentNonce = None \<longleftrightarrow>
     unat currentNonce \<le> unat (txNonce tx)
     \<and> (0 < AccountQueue (cfg p) \<longrightarrow> unat (txNonce tx) < unat currentNonce + unat (AccountQueue (cfg p)))
     \<and> (0 < GlobalQueue (cfg p) \<longrightarrow> (\<exists>txCount. CountPending e = Some txCount \<and> txCount < GlobalQueue (cfg p)))"
proof -
  have high: "txNonce tx > currentNonce + AccountQueue (cfg p) - 1 \<longleftrightarrow> unat currentNonce + unat (AccountQueue (cfg p)) \<le> unat (txNonce tx)"
    if "0 < AccountQueue (cfg p)"
  proof -
    have s: "unat (currentNonce + AccountQueue (cfg p)) = unat currentNonce + unat (AccountQueue (cfg p))"
      using assms by (subst unat_plus_simple [symmetric]) (simp add: no_olen_add_nat)
    have "0 < unat (AccountQueue (cfg p))" using that by (simp add: word_less_nat_alt)
    then have "unat (currentNonce + AccountQueue (cfg p) - 1) = unat currentNonce + unat (AccountQueue (cfg p)) - 1"
      using s by (subst unat_minus_one_pos) (auto simp: word_less_nat_alt)
    with \<open>0 < unat (AccountQueue (cfg p))\<close> show ?thesis by (simp add: word_less_nat_alt) linarith
  qed
  have low: "txNonce tx < currentNonce \<longleftrightarrow> \<not> unat currentNonce \<le> unat (txNonce tx)" by (simp add: word_less_nat_alt not_le)
  show ?thesis
    unfolding checkNonceAndQueues_def low using high by (cases "0 < AccountQueue (cfg p)") (auto simp: not_le split: option.splits)
qed

lemma checkAccount_None:
  assumes "length (txData tx) < 2 ^ 64" "\<And>root c. GetNonce e from root = Some c \<Longrightarrow> unat c + unat (AccountQueue (cfg p)) < 2 ^ 64"
  shows "checkAccount p e tx from = None \<longleftrightarrow>
     (\<exists>stateRoot number currentNonce balance. LastL2Block e = Some (stateRoot, number) \<and> GetNonce e from stateRoot = Some currentNonce
        \<and> GetBalance e from stateRoot = Some balance \<and> account_ok p e tx currentNonce balance)"
proof (cases "LastL2Block e")
  case (Some b)
  obtain stateRoot number where b: "b = (stateRoot, number)" by fastforce
  show ?thesis
  proof (cases "GetNonce e from stateRoot")
    case n: (Some c)
    note q = checkNonceAndQueues_None [OF assms(2) [OF n], of e tx]
    show ?thesis
      using Some b n q intrinsic_check [OF assms(1)]
      by (cases "GetBalance e from stateRoot"; cases "checkNonceAndQueues p e tx c") (auto simp: checkAccount_def account_ok_def not_less)
  qed (use Some b in \<open>simp add: checkAccount_def\<close>)
qed (simp add: checkAccount_def)

lemma checkForm_Inr:
  assumes "\<And>d. EncodeTransaction g tx 255 (poolForkID (cfg p)) = Inr d \<Longrightarrow> length d < 2 ^ 64"
  shows "checkForm g p e 0 ip tx = Inr from \<and> checkTxFieldCompatibilityWithExecutor g (cfg p) tx = None \<longleftrightarrow>
    form_ok g p e ip tx from \<and> chain_ok g p tx \<and> chainIdOf g (txV tx) < 2 ^ 64 \<and> int (length (txData tx)) \<le> MaxTxDataBytesSize (cfg p)"
proof -
  have field: "checkTxFieldCompatibilityWithExecutor g (cfg p) tx = None \<longleftrightarrow>
      int (length (txData tx)) \<le> MaxTxDataBytesSize (cfg p) \<and> chainIdOf g (txV tx) < 2 ^ 64"
    by (auto simp: checkTxFieldCompatibilityWithExecutor_def)
  have chain: "\<not> ((of_nat (chainIdOf g (txV tx)) :: uint64) \<noteq> chainID p \<and> (of_nat (chainIdOf g (txV tx)) :: uint64) \<noteq> 0)
      \<and> \<not> ((of_nat (chainIdOf g (txV tx)) :: uint64) = 0 \<and> \<not> IsPreEIP155Tx g tx) \<longleftrightarrow> chain_ok g p tx"
    if "chainIdOf g (txV tx) < 2 ^ 64"
  proof -
    have "(of_nat (chainIdOf g (txV tx)) :: uint64) = w \<longleftrightarrow> chainIdOf g (txV tx) = unat w" for w
      using unat_of_nat64 [OF that] by (metis of_nat_unat_id)
    then show ?thesis by (auto simp: chain_ok_def)
  qed
  have size: "(of_nat (length d) :: uint64) > MaxTxBytesSize (cfg p) \<longleftrightarrow> unat (MaxTxBytesSize (cfg p)) < length d"
    if "EncodeTransaction g tx 255 (poolForkID (cfg p)) = Inr d" for d
    using assms [OF that] by (simp add: word_less_nat_alt unat_of_nat64)
  show ?thesis
  proof (cases "chainIdOf g (txV tx) < 2 ^ 64")
    case True
    show ?thesis
      unfolding field checkForm_def Let_def form_ok_def chain [OF True, symmetric]
      using size by (auto simp: IsValidIP_def not_less split: option.splits sum.splits if_splits)
  qed (simp add: field)
qed

section \<open>A concrete pool\<close>

definition samplePool :: Pool where
  "samplePool = \<lparr>cfg = \<lparr>poolForkID = 9, MaxTxBytesSize = 1000, MaxTxDataBytesSize = 500, AccountQueue = 64, GlobalQueue = 1024,
       feeAboveCap = (\<lambda>_ _. False),
       EffectiveGasPriceConf = \<lparr>egpEnabled = False, L1GasPriceFactor = id, ByteGasCost = 16, ZeroByteGasCost = 4, NetProfit = id,
         BreakEvenFactor = id, EthTransferGasPrice = 0, EthTransferL1GasPriceFactor = None, L2GasPriceSuggesterFactor = id,
         priorityRatio = (\<lambda>b _ _. b)\<rparr>\<rparr>,
     batchConstraints = \<lparr>MaxTxsPerBatch = 300, MaxBatchBytesSize = 120000, MaxCumulativeGasUsed = 1125899906842624, MaxKeccakHashes = 2145,
       MaxPoseidonHashes = 252357, MaxPoseidonPaddings = 135191, MaxMemAligns = 236585, MaxArithmetics = 236585,
       MaxBinaries = 473170, MaxSteps = 7570538, MaxSHA256Hashes = 1596\<rparr>,
     chainID = 1001, blockedAddresses = [], minSuggestedGasPrice = 100\<rparr>"

definition sampleResponse :: "go_error \<Rightarrow> bool \<Rightarrow> processBatchResponse" where
  "sampleResponse romError executorError = \<lparr>blockResponses = [[\<lparr>RomError = romError, txGasUsed = 30000\<rparr>]],
     IsExecutorLevelError = executorError, UsedZkCounters = no_counters, ReservedZkCounters = no_counters\<rparr>"

definition sampleEnv :: "processBatchResponse \<Rightarrow> pool_env" where
  "sampleEnv r = \<lparr>ParseIP = (\<lambda>_. True), ValidateSignatureValues = (\<lambda>_ _ _. True), SenderOf = (\<lambda>_. Some [1]), addrString = (\<lambda>_. ''0x1''),
     Cost = (\<lambda>tx. txGasPrice tx * unat (txGas tx) + txValue tx), hashOfTx = (\<lambda>tx. [of_nat (txGasPrice tx)]),
     LastL2Block = Some ([], 10), GetNonce = (\<lambda>_ _. Some 2), GetBalance = (\<lambda>_ _. Some 100000000), CountPending = Some 3,
     TxsByFromAndNonce = (\<lambda>_ _. Some [(TxStatusPending, sampleTx)]), PreProcessTransaction = (\<lambda>_. (None, Some r)),
     GasPrices = Some (1, 2), storageAddTx = (\<lambda>_. True)\<rparr>"

definition samplePoolTx :: LegacyTx where
  "samplePoolTx = sampleTx\<lparr>txGas := 50000, txGasPrice := 1001\<rparr>"

lemma samplePoolTx_encoded: "map_sum (\<lambda>_. ()) length (EncodeTransaction plainGeth samplePoolTx 255 9) = Inr 105"
  by code_simp

section \<open>Properties of the pool\<close>



text \<open>
  Two errors that the pre-execution reports in its answer are lost.  When the executor itself
  failed, the pool stores nothing, yet tells the sender that the transaction was accepted.  When the
  transaction ran out of counters, it is stored as if it fitted a batch.  In both cases the pool uses
  the error of the request, which is nil, instead of the one of the answer.
\<close>

lemma pre_execution_errors_lost:
  assumes "PreProcessTransaction e tx = (None, Some r)" "blockResponses r = (t # ts) # bs"
  shows "(IsExecutorLevelError r \<longrightarrow> pool_StoreTx p e tx = (None, None))
    \<and> (\<not> IsExecutorLevelError r \<and> isOutOfCounters (RomError t) \<and> GasPrices e = Some prices
         \<and> ValidateBreakEvenGasPrice (EffectiveGasPriceConf (cfg p)) tx (txGasUsed t) prices = None \<and> storageAddTx e tx
       \<longrightarrow> pool_StoreTx p e tx = (None, Some \<lparr>storedTransaction = tx, storedCounters = UsedZkCounters r, storedReserved = ReservedZkCounters r\<rparr>))"
proof -
  have "\<not> isOutOfCounters None" by code_simp
  then show ?thesis
    using assms by (auto simp: pool_StoreTx_def preExecuteTx_def checkTxResponse_def takeResponse_def noResponse_def Let_def)
qed

end
