(* ===== verification/BlobGas.thy ===== *)
theory BlobGas
  imports BatchV2 PoolAdd Complex_Main
begin

text \<open>
  Blob transactions: the gas and fee of blobs (\<open>blob/eip4844/eip4844.go\<close>, \<open>blob/fee/calc.go\<close>), the tables
  \<open>blocks\<close> and \<open>blobgas\<close> of the blob database (\<open>blob/db/sqlite.go\<close>), the blob gas that is recorded when an L2
  block is stored (\<open>storeL2Block\<close> of \<open>sequencer/l2block.go\<close>), and the way of a blob transaction into the pool
  (\<open>blob/utils.go\<close>, \<open>pool/blob.go\<close>, \<open>AddTx\<close> of \<open>pool/pool.go\<close>).

  The protocol constants, the hash of a transaction, its text and its binary form belong to the
  Ethereum library and are parameters.  Accesses to the database may fail, as \<open>sqlFaults\<close> lists.  The
  numbers of a fee are natural numbers: the only caller of \<open>fakeExponential\<close> passes unsigned ones.
\<close>

section \<open>Gas and fee of blobs\<close>

record params =
  BlobTxMinBlobGasprice :: nat
  BlobTxBlobGaspriceUpdateFraction :: nat
  BlobTxTargetBlobGasPerBlock :: uint64
  BlobTxBlobGasPerBlob :: uint64
  MaxBlobGasPerBlock :: uint64

record BlobHeader =
  ExcessBlobGas :: "uint64 option"
  BlobGasUsed :: "uint64 option"

datatype header_error =
    MissingExcessBlobGas | MissingBlobGasUsed | BlobGasUsedExceedsMaximum | BlobGasUsedNotMultiple
  | InvalidExcessBlobGas | NilPointer

definition CalcExcessBlobGas :: "params \<Rightarrow> uint64 \<Rightarrow> uint64 \<Rightarrow> uint64" where
  "CalcExcessBlobGas p parentExcessBlobGas parentBlobGasUsed =
     (let excessBlobGas = parentExcessBlobGas + parentBlobGasUsed
      in if excessBlobGas < BlobTxTargetBlobGasPerBlock p then 0
         else excessBlobGas - BlobTxTargetBlobGasPerBlock p)"

text \<open>The parent's fields; the gas used is read behind a pointer that may be nil.\<close>

definition parentBlobGas :: "BlobHeader \<Rightarrow> (uint64 \<times> uint64) option" where
  "parentBlobGas parent =
     (case ExcessBlobGas parent of
        None \<Rightarrow> Some (0, 0)
      | Some excess \<Rightarrow> map_option (Pair excess) (BlobGasUsed parent))"

definition VerifyEIP4844Header :: "params \<Rightarrow> BlobHeader \<Rightarrow> BlobHeader \<Rightarrow> header_error option" where
  "VerifyEIP4844Header p parent header =
     (case ExcessBlobGas header of
        None \<Rightarrow> Some MissingExcessBlobGas
      | Some excess \<Rightarrow>
          (case BlobGasUsed header of
             None \<Rightarrow> Some MissingBlobGasUsed
           | Some used \<Rightarrow>
               if used > MaxBlobGasPerBlock p then Some BlobGasUsedExceedsMaximum
               else if used mod BlobTxBlobGasPerBlob p \<noteq> 0 then Some BlobGasUsedNotMultiple
               else
                 (case parentBlobGas parent of
                    None \<Rightarrow> Some NilPointer
                  | Some (parentExcessBlobGas, parentBlobGasUsed) \<Rightarrow>
                      if excess \<noteq> CalcExcessBlobGas p parentExcessBlobGas parentBlobGasUsed then Some InvalidExcessBlobGas
                      else None)))"

lemma expLoop_shrinks:
  assumes "0 < accum" "\<not> (0 < d \<and> i * d \<le> n)"
  shows "accum * n div d div i < (accum :: nat)"
proof (cases "d = 0 \<or> i = 0")
  case False
  then have "n < i * d" using assms(2) by auto
  then have "accum * n < accum * (d * i)" using assms(1) by (simp add: mult.commute)
  then show ?thesis using False by (simp add: div_mult2_eq [symmetric] div_less_iff_less_mult)
qed (use assms(1) in auto)

text \<open>The loop ends although its terms may grow at first: the counter overtakes the exponent.\<close>

function expLoop :: "nat \<Rightarrow> nat \<Rightarrow> nat \<Rightarrow> nat \<Rightarrow> nat \<Rightarrow> nat" where
  "expLoop numerator denominator i accum out =
     (if accum > 0 then expLoop numerator denominator (Suc i) (accum * numerator div denominator div i) (out + accum) else out)"
  by pat_completeness auto
termination
proof (relation "(\<lambda>(n, d, i, accum, out). if 0 < d \<and> i * d \<le> n then Suc n - i * d else 0) <*mlex*> measure (\<lambda>(n, d, i, accum, out). accum)")
  fix n d i accum out :: nat
  assume a: "0 < accum"
  let ?m = "\<lambda>(n, d, i, accum, out). if 0 < d \<and> i * d \<le> n then Suc n - i * d else (0 :: nat)"
  show "((n, d, Suc i, accum * n div d div i, out + accum), n, d, i, accum, out) \<in> ?m <*mlex*> measure (\<lambda>(n, d, i, accum, out). accum)"
  proof (cases "0 < d \<and> i * d \<le> n")
    case True
    then show ?thesis by (auto simp: mlex_iff)
  next
    case False
    then have "\<not> (0 < d \<and> Suc i * d \<le> n)" by auto
    with False expLoop_shrinks [OF a False] show ?thesis by (auto simp: mlex_iff)
  qed
qed (simp add: wf_mlex)

declare expLoop.simps [simp del]

definition fakeExponential :: "nat \<Rightarrow> nat \<Rightarrow> nat \<Rightarrow> nat option" where
  "fakeExponential factor numerator denominator =
     (if denominator = 0 then None else Some (expLoop numerator denominator 1 (factor * denominator) 0 div denominator))"

definition CalcBlobFee :: "params \<Rightarrow> uint64 \<Rightarrow> nat option" where
  "CalcBlobFee p excessBlobGas =
     fakeExponential (BlobTxMinBlobGasprice p) (unat excessBlobGas) (BlobTxBlobGaspriceUpdateFraction p)"

definition MinBlobBaseFee :: nat where
  "MinBlobBaseFee = 1000000000"

definition GetL2BlobFeeCap :: "params \<Rightarrow> uint64 \<Rightarrow> nat option" where
  "GetL2BlobFeeCap p excessBlobGas =
     (case CalcBlobFee p excessBlobGas of
        None \<Rightarrow> None
      | Some blobFee \<Rightarrow> Some (if blobFee < MinBlobBaseFee then MinBlobBaseFee else blobFee))"

section \<open>The blob database\<close>

record BlobDB =
  blocks :: "(string \<times> bytes) list"
  blobgas :: "(uint64 \<times> uint64 \<times> uint64) list"
  sqlFaults :: "bool list"

definition sqlFault :: "BlobDB \<Rightarrow> bool \<times> BlobDB" where
  "sqlFault db = (case sqlFaults db of [] \<Rightarrow> (False, db) | f # fs \<Rightarrow> (f, db\<lparr>sqlFaults := fs\<rparr>))"

definition db_Put :: "BlobDB \<Rightarrow> string \<Rightarrow> bytes \<Rightarrow> bool \<times> BlobDB" where
  "db_Put db key val =
     (case sqlFault db of (f, db) \<Rightarrow>
        if f \<or> key \<in> fst ` set (blocks db) then (False, db) else (True, db\<lparr>blocks := blocks db @ [(key, val)]\<rparr>))"

definition db_Get :: "BlobDB \<Rightarrow> string \<Rightarrow> bytes option \<times> BlobDB" where
  "db_Get db key = (case sqlFault db of (f, db) \<Rightarrow> (if f then None else map_of (blocks db) key, db))"

definition db_Has :: "BlobDB \<Rightarrow> string \<Rightarrow> bool option \<times> BlobDB" where
  "db_Has db key = (case sqlFault db of (f, db) \<Rightarrow> (if f then None else Some (key \<in> fst ` set (blocks db)), db))"

definition blobKey :: "(hash32 \<Rightarrow> string) \<Rightarrow> hash32 \<Rightarrow> string" where
  "blobKey hexOf h = ''blob-'' @ hexOf h"

definition IsBlob :: "(hash32 \<Rightarrow> string) \<Rightarrow> BlobDB \<Rightarrow> hash32 \<Rightarrow> bool option \<times> BlobDB" where
  "IsBlob hexOf db h = db_Has db (blobKey hexOf h)"

text \<open>\<open>None\<close> is an error, \<open>Some None\<close> a nil transaction.\<close>

definition GetBlobTx ::
  "(hash32 \<Rightarrow> string) \<Rightarrow> (bytes \<Rightarrow> 'tx option) \<Rightarrow> BlobDB \<Rightarrow> hash32 \<Rightarrow> 'tx option option \<times> BlobDB" where
  "GetBlobTx hexOf UnmarshalBinary db h =
     (case IsBlob hexOf db h of
        (None, db) \<Rightarrow> (None, db)
      | (Some existed, db) \<Rightarrow>
          if existed then
            (case db_Get db (blobKey hexOf h) of
               (None, db) \<Rightarrow> (None, db)
             | (Some d, db) \<Rightarrow> (map_option Some (UnmarshalBinary d), db))
          else (Some None, db))"

definition UpdateBlobGasUsedAndExcessBlobGas :: "BlobDB \<Rightarrow> uint64 \<Rightarrow> uint64 \<Rightarrow> uint64 \<Rightarrow> bool \<times> BlobDB" where
  "UpdateBlobGasUsedAndExcessBlobGas db blockNum gasUsed excessGas =
     (case sqlFault db of (f, db) \<Rightarrow>
        if f then (False, db)
        else (True, db\<lparr>blobgas :=
                if blockNum \<in> fst ` set (blobgas db)
                then map (\<lambda>r. if fst r = blockNum then (blockNum, gasUsed, excessGas) else r) (blobgas db)
                else blobgas db @ [(blockNum, gasUsed, excessGas)]\<rparr>))"

text \<open>The rows of the answer are scanned one by one, so that no row at all leaves both numbers zero.\<close>

definition GetBlobGasUsedAndExcessBlobGas :: "BlobDB \<Rightarrow> uint64 \<Rightarrow> (uint64 \<times> uint64) option \<times> BlobDB" where
  "GetBlobGasUsedAndExcessBlobGas db blockNum =
     (case sqlFault db of (f, db) \<Rightarrow>
        (if f then None else Some (foldl (\<lambda>_ r. snd r) (0, 0) (filter (\<lambda>r. fst r = blockNum) (blobgas db))), db))"

section \<open>Recording the blob gas of an L2 block\<close>

fun countBlobs :: "(hash32 \<Rightarrow> string) \<Rightarrow> BlobDB \<Rightarrow> hash32 list \<Rightarrow> uint64 \<Rightarrow> uint64 \<times> BlobDB" where
  "countBlobs hexOf db [] count = (count, db)"
| "countBlobs hexOf db (h # hs) count =
     (case IsBlob hexOf db h of (ok, db) \<Rightarrow> countBlobs hexOf db hs (if ok = Some True then count + 1 else count))"

text \<open>\<open>None\<close> is a panic of the batch decoder.\<close>

definition CalcBlobGasUsed ::
  "params \<Rightarrow> geth \<Rightarrow> (LegacyTx \<Rightarrow> hash32) \<Rightarrow> (hash32 \<Rightarrow> string) \<Rightarrow> (uint64 \<Rightarrow> bytes option) \<Rightarrow> BlobDB \<Rightarrow> uint64 \<Rightarrow> uint64 option \<times> BlobDB" where
  "CalcBlobGasUsed p g txHash hexOf getBatchByNumber db batchNumber =
     (case getBatchByNumber batchNumber of
        None \<Rightarrow> (Some 0, db)
      | Some d \<Rightarrow>
          (case DecodeBatchV2 g d of
             None \<Rightarrow> (None, db)
           | Some (Inl e) \<Rightarrow> (if e = SlicePanic then None else Some 0, db)
           | Some (Inr brb) \<Rightarrow>
               (case countBlobs hexOf db (concat (map (\<lambda>b. map (\<lambda>tx. txHash (rawTx tx)) (Transactions b)) (Blocks brb))) 0 of
                  (count, db) \<Rightarrow> (Some (count * BlobTxBlobGasPerBlob p), db))))"

definition storeBlobGas :: "params \<Rightarrow> BlobDB \<Rightarrow> uint64 \<Rightarrow> uint64 \<Rightarrow> uint64 \<Rightarrow> bool \<times> BlobDB" where
  "storeBlobGas p db trackingNum blockNumber currentBlobGasUsed =
     (let prevL2BlockNum = trackingNum - 1
      in case GetBlobGasUsedAndExcessBlobGas db prevL2BlockNum of
           (gas, db) \<Rightarrow>
             UpdateBlobGasUsedAndExcessBlobGas db blockNumber currentBlobGasUsed
               (case gas of
                  Some (parentBlobGasUsed, parentExcessBlobGas) \<Rightarrow>
                    if prevL2BlockNum > 0 then CalcExcessBlobGas p parentExcessBlobGas parentBlobGasUsed
                    else CalcExcessBlobGas p 0 0
                | None \<Rightarrow> CalcExcessBlobGas p 0 0))"

text \<open>The gas is counted in the data that the state holds for the batch in progress.\<close>

definition storeL2BlockBlobGas ::
  "params \<Rightarrow> geth \<Rightarrow> (LegacyTx \<Rightarrow> hash32) \<Rightarrow> (hash32 \<Rightarrow> string) \<Rightarrow> (uint64 \<Rightarrow> bytes option) \<Rightarrow> BlobDB \<Rightarrow> uint64 \<Rightarrow> uint64 \<Rightarrow> uint64
     \<Rightarrow> bool option \<times> BlobDB" where
  "storeL2BlockBlobGas p g txHash hexOf getBatchByNumber db wipBatchNumber trackingNum blockNumber =
     (case CalcBlobGasUsed p g txHash hexOf getBatchByNumber db wipBatchNumber of
        (None, db) \<Rightarrow> (None, db)
      | (Some currentBlobGasUsed, db) \<Rightarrow>
          (case storeBlobGas p db trackingNum blockNumber currentBlobGasUsed of (ok, db) \<Rightarrow> (Some ok, db)))"

text \<open>
  The blocks of one run of the sequencer: the counter of the process gives the tracking number, the
  executor the number of the block, each one higher than before.
\<close>

fun storeBlocks :: "params \<Rightarrow> BlobDB \<Rightarrow> uint64 \<Rightarrow> uint64 \<Rightarrow> uint64 list \<Rightarrow> BlobDB option" where
  "storeBlocks p db l2BlockCounter lastBlock [] = Some db"
| "storeBlocks p db l2BlockCounter lastBlock (used # useds) =
     (case storeBlobGas p db (l2BlockCounter + 1) (lastBlock + 1) used of
        (False, db) \<Rightarrow> None
      | (True, db) \<Rightarrow> storeBlocks p db (l2BlockCounter + 1) (lastBlock + 1) useds)"

section \<open>Blob transactions in the pool\<close>

record Transaction =
  txType :: nat
  ChainId :: nat
  txFields :: LegacyTx
  blobCost :: nat
  BlobGasFeeCap :: nat

definition LegacyTxType :: nat where
  "LegacyTxType = 0"

definition BlobTxType :: nat where
  "BlobTxType = 3"

definition BlobTxToLegacyTx :: "Transaction \<Rightarrow> LegacyTx" where
  "BlobTxToLegacyTx tx =
     (let newV = 2 * of_nat (ChainId tx) + 35 + of_int (txV (txFields tx)) :: uint64
      in (txFields tx)\<lparr>txV := sint newV\<rparr>)"

definition FilterLegacyTx :: "Transaction \<Rightarrow> LegacyTx" where
  "FilterLegacyTx tx = (if txType tx = LegacyTxType then txFields tx else BlobTxToLegacyTx tx)"

definition GetTxHash :: "(LegacyTx \<Rightarrow> hash32) \<Rightarrow> Transaction \<Rightarrow> hash32" where
  "GetTxHash txHash tx = (if txType tx = LegacyTxType then txHash (txFields tx) else txHash (BlobTxToLegacyTx tx))"

datatype blob_error =
    PoolFailed PoolError | WrongToAddress | ValueBelowBlobCost | BlobGasAccess | BlobFeeTooLow | FeePanic | ErrMarshal | ErrPut

record blob_env =
  DasAddress :: bytes
  MarshalBinary :: "Transaction \<Rightarrow> bytes option"

definition GetBlobTxSender :: "pool_env \<Rightarrow> Transaction \<Rightarrow> bytes option" where
  "GetBlobTxSender e tx = SenderOf e (BlobTxToLegacyTx tx)"

text \<open>The comparison of the fee cap with the fee of the excess at the last block.\<close>

definition checkBlobFee :: "params \<Rightarrow> BlobDB \<Rightarrow> Transaction \<Rightarrow> uint64 \<Rightarrow> blob_error option \<times> BlobDB" where
  "checkBlobFee p db tx number =
     (case GetBlobGasUsedAndExcessBlobGas db number of
        (None, db) \<Rightarrow> (Some BlobGasAccess, db)
      | (Some (_, excess), db) \<Rightarrow>
          (case GetL2BlobFeeCap p excess of
             None \<Rightarrow> (Some FeePanic, db)
           | Some l2BlobFeeCap \<Rightarrow> (if BlobGasFeeCap tx < l2BlobFeeCap then Some BlobFeeTooLow else None, db)))"

definition validateBlobTx :: "params \<Rightarrow> pool_env \<Rightarrow> blob_env \<Rightarrow> BlobDB \<Rightarrow> Transaction \<Rightarrow> blob_error option \<times> BlobDB" where
  "validateBlobTx p e be db tx =
     (case GetBlobTxSender e tx of
        None \<Rightarrow> (Some (PoolFailed ErrInvalidSender), db)
      | Some from \<Rightarrow>
          if txTo (txFields tx) \<noteq> Some (DasAddress be) then (Some WrongToAddress, db)
          else
            (case LastL2Block e of
               None \<Rightarrow> (Some (PoolFailed StateError), db)
             | Some (stateRoot, number) \<Rightarrow>
                 (case GetBalance e from stateRoot of
                    None \<Rightarrow> (Some (PoolFailed StateError), db)
                  | Some balance \<Rightarrow>
                      if balance < blobCost tx then (Some (PoolFailed ErrInsufficientFunds), db)
                      else if int (txValue (txFields tx)) < int (blobCost tx) - int (txValue (txFields tx))
                      then (Some ValueBelowBlobCost, db)
                      else checkBlobFee p db tx number)))"

text \<open>The result is the error the sender gets, what was stored in the pool, and the blob database.\<close>

definition pool_AddTx ::
  "params \<Rightarrow> geth \<Rightarrow> (hash32 \<Rightarrow> string) \<Rightarrow> Pool \<Rightarrow> pool_env \<Rightarrow> blob_env \<Rightarrow> BlobDB \<Rightarrow> string \<Rightarrow> Transaction
     \<Rightarrow> blob_error option \<times> storedTx option \<times> BlobDB" where
  "pool_AddTx p g hexOf pool e be db ip tx =
     (let filterTx = FilterLegacyTx tx;
          storeTx = (\<lambda>db. case pool_StoreTx pool e filterTx of (err, stored) \<Rightarrow> (map_option PoolFailed err, stored, db))
      in case validateTx g pool e LegacyTxType ip filterTx of
           Some err \<Rightarrow> (Some (PoolFailed err), None, db)
         | None \<Rightarrow>
             if txType tx = BlobTxType then
               (case validateBlobTx p e be db tx of
                  (Some err, db) \<Rightarrow> (Some err, None, db)
                | (None, db) \<Rightarrow>
                    (case MarshalBinary be tx of
                       None \<Rightarrow> (Some ErrMarshal, None, db)
                     | Some b \<Rightarrow>
                         (case db_Put db (blobKey hexOf (hashOfTx e (BlobTxToLegacyTx tx))) b of
                            (False, db) \<Rightarrow> (Some ErrPut, None, db)
                          | (True, db) \<Rightarrow> storeTx db)))
             else storeTx db)"

text \<open>The endpoint \<open>eth_blobBaseFee\<close>, before its answer is written as text; a missing last block is \<open>None\<close>.\<close>

definition BlobBaseFee :: "params \<Rightarrow> BlobDB \<Rightarrow> uint64 option \<Rightarrow> nat option \<times> BlobDB" where
  "BlobBaseFee p db lastL2Block =
     (case lastL2Block of
        None \<Rightarrow> (Some MinBlobBaseFee, db)
      | Some number \<Rightarrow>
          (case GetBlobGasUsedAndExcessBlobGas db number of
             (None, db) \<Rightarrow> (Some MinBlobBaseFee, db)
           | (Some (_, excess), db) \<Rightarrow>
               (case CalcBlobFee p excess of
                  None \<Rightarrow> (None, db)
                | Some blobFee \<Rightarrow> (Some (if blobFee < MinBlobBaseFee then MinBlobBaseFee else blobFee), db))))"

section \<open>The fee\<close>

lemma expLoop_ge: "out \<le> expLoop n d i accum out"
  by (induction n d i accum out rule: expLoop.induct) (subst expLoop.simps, fastforce)

lemma expLoop_mono:
  "n \<le> n' \<Longrightarrow> accum \<le> accum' \<Longrightarrow> out \<le> out' \<Longrightarrow> expLoop n d i accum out \<le> expLoop n' d i accum' out'"
proof (induction n d i accum out arbitrary: accum' out' rule: expLoop.induct)
  case (1 n d i accum out)
  show ?case
  proof (cases "accum > 0")
    case True
    have "accum * n div d div i \<le> accum' * n' div d div i"
      using "1.prems"(1,2) by (intro div_le_mono mult_le_mono) auto
    with 1 True show ?thesis by (subst (1 2) expLoop.simps) simp
  next
    case False
    then have "expLoop n d i accum out = out" by (subst expLoop.simps) simp
    also have "\<dots> \<le> expLoop n' d i accum' out'" using "1.prems"(3) expLoop_ge le_trans by blast
    finally show ?thesis .
  qed
qed

text \<open>The terms are at most those of the exponential series.\<close>

definition expTerm :: "nat \<Rightarrow> nat \<Rightarrow> nat \<Rightarrow> nat \<Rightarrow> real" where
  "expTerm factor n d k = real (factor * d) * ((real n / real d) ^ k / fact k)"

lemma expTerm_Suc: "expTerm factor n d (Suc k) = expTerm factor n d k * real n / real d / real (Suc k)"
proof -
  have "F * (x ^ Suc k / fact (Suc k)) = F * (x ^ k / fact k) * x / real (Suc k)" for F x :: real
    by (simp add: divide_simps del: of_nat_Suc)
  from this [of "real (factor * d)" "real n / real d"] show ?thesis by (simp add: expTerm_def)
qed

lemma expTerm_step:
  assumes "0 < d" "0 < i" "real accum \<le> expTerm factor n d (i - 1)"
  shows "real (accum * n div d div i) \<le> expTerm factor n d i"
proof -
  have "real (accum * n div d div i) \<le> real accum * real n / real d / real i"
    using of_nat_div_le_of_nat [where ?'a = real, of "accum * n" "d * i"] by (simp add: div_mult2_eq)
  also have "\<dots> \<le> expTerm factor n d (i - 1) * real n / real d / real i"
    using assms by (intro divide_right_mono mult_right_mono) auto
  also have "\<dots> = expTerm factor n d i"
    using assms(2) expTerm_Suc [of factor n d "i - 1"] by simp
  finally show ?thesis .
qed

lemma expLoop_le_series:
  "0 < d \<Longrightarrow> 0 < i \<Longrightarrow> real accum \<le> expTerm factor n d (i - 1) \<Longrightarrow> real out \<le> (\<Sum>k<i - 1. expTerm factor n d k)
   \<Longrightarrow> \<exists>m. real (expLoop n d i accum out) \<le> (\<Sum>k<m. expTerm factor n d k)"
proof (induction n d i accum out rule: expLoop.induct)
  case (1 n d i accum out)
  show ?case
  proof (cases "accum > 0")
    case True
    have "real (out + accum) \<le> (\<Sum>k<Suc i - 1. expTerm factor n d k)"
      using "1.prems" by (cases i) auto
    with "1.IH" [OF True] "1.prems" True expTerm_step [OF "1.prems"(1-3)] show ?thesis
      by (subst expLoop.simps) simp
  next
    case False
    with "1.prems"(4) show ?thesis by (subst expLoop.simps) auto
  qed
qed

lemma expTerm_sum_le: "(\<Sum>k<m. expTerm factor n d k) \<le> real (factor * d) * exp (real n / real d)"
proof -
  let ?x = "real n / real d"
  have "(\<Sum>k<m. ?x ^ k / fact k) \<le> exp ?x"
  proof -
    have "(\<Sum>k<m. inverse (fact k) * ?x ^ k) \<le> (\<Sum>k. inverse (fact k) * ?x ^ k)"
      by (rule sum_le_suminf [OF summable_exp]) auto
    then show ?thesis by (simp add: exp_def divide_inverse mult.commute scaleR_conv_of_real)
  qed
  then have "real (factor * d) * (\<Sum>k<m. ?x ^ k / fact k) \<le> real (factor * d) * exp ?x"
    by (rule mult_left_mono) simp
  then show ?thesis by (simp add: expTerm_def sum_distrib_left)
qed

lemma expLoop_two_terms:
  assumes "0 < d"
  shows "factor * (d + n) \<le> expLoop n d 1 (factor * d) 0"
proof (cases "factor * d = 0")
  case False
  have "factor * d * n div d div 1 = factor * n" using assms by simp
  with False have "expLoop n d 1 (factor * d) 0 = expLoop n d 2 (factor * n) (factor * d)"
    by (subst expLoop.simps) (simp add: numeral_2_eq_2)
  also have "\<dots> \<ge> factor * d + factor * n"
    by (subst expLoop.simps) (simp add: expLoop_ge)
  finally show ?thesis by (simp add: distrib_left)
qed (use assms in auto)

lemma fakeExponential_bounds:
  assumes "0 < d"
  obtains r where "fakeExponential factor n d = Some r" "factor * (d + n) div d \<le> r" "real r \<le> real factor * exp (real n / real d)"
proof -
  let ?o = "expLoop n d 1 (factor * d) 0"
  obtain m where "real ?o \<le> (\<Sum>k<m. expTerm factor n d k)"
    using expLoop_le_series [of d 1 "factor * d" factor n 0] assms by (auto simp: expTerm_def)
  then have "real ?o \<le> real (factor * d) * exp (real n / real d)" using expTerm_sum_le order_trans by blast
  then have "real ?o / real d \<le> real factor * exp (real n / real d)" using assms by (simp add: divide_le_eq mult.assoc mult.commute)
  then have "real (?o div d) \<le> real factor * exp (real n / real d)"
    using of_nat_div_le_of_nat [where ?'a = real, of ?o d] order_trans by blast
  with that [of "?o div d"] assms div_le_mono [OF expLoop_two_terms [OF assms, of factor n], of d] show ?thesis
    by (simp add: fakeExponential_def)
qed

lemma fakeExponential_mono:
  "n \<le> n' \<Longrightarrow> fakeExponential factor n d = Some r \<Longrightarrow> fakeExponential factor n' d = Some r' \<Longrightarrow> r \<le> r'"
  using expLoop_mono [of n n' "factor * d" "factor * d" 0 0 d 1] by (auto simp: fakeExponential_def div_le_mono split: if_splits)

section \<open>The rows of the blob gas table\<close>

definition gasRow :: "BlobDB \<Rightarrow> uint64 \<Rightarrow> (uint64 \<times> uint64) option" where
  "gasRow db n = map_of (blobgas db) n"

lemma last_of_filter:
  "distinct (map fst xs) \<Longrightarrow> foldl (\<lambda>_ r. snd r) z (filter (\<lambda>r. fst r = n) xs) = (case map_of xs n of None \<Rightarrow> z | Some r \<Rightarrow> r)"
proof (induction xs arbitrary: z)
  case (Cons x xs)
  show ?case
  proof (cases "fst x = n")
    case True
    with Cons.prems have "n \<notin> fst ` set xs" by auto
    then have "filter (\<lambda>r. fst r = n) xs = []" by (auto simp: filter_empty_conv)
    with True show ?thesis by simp
  qed (use Cons in auto)
qed simp

lemma map_of_replace:
  "map_of (map (\<lambda>r. if fst r = k then (k, v) else r) xs) = (if k \<in> fst ` set xs then (map_of xs)(k \<mapsto> v) else map_of xs)"
  by (induction xs) (auto simp: fun_eq_iff)

lemma GetBlobGas_row:
  "distinct (map fst (blobgas db)) \<Longrightarrow> sqlFaults db = []
   \<Longrightarrow> GetBlobGasUsedAndExcessBlobGas db n = (Some (case gasRow db n of None \<Rightarrow> (0, 0) | Some r \<Rightarrow> r), db)"
  by (simp add: GetBlobGasUsedAndExcessBlobGas_def sqlFault_def gasRow_def last_of_filter)

lemma UpdateBlobGas_row:
  assumes "distinct (map fst (blobgas db))" "sqlFaults db = []"
  obtains db' where "UpdateBlobGasUsedAndExcessBlobGas db n u e = (True, db')" "distinct (map fst (blobgas db'))" "sqlFaults db' = []"
    "gasRow db' = (gasRow db)(n \<mapsto> (u, e))"
proof -
  let ?row = "\<lambda>r. if fst r = n then (n, u, e) else r"
  let ?xs = "if n \<in> fst ` set (blobgas db) then map ?row (blobgas db) else blobgas db @ [(n, u, e)]"
  have "map fst (map ?row (blobgas db)) = map fst (blobgas db)" by auto
  then have "distinct (map fst ?xs)" using assms(1) by (simp del: map_map)
  moreover have "map_of ?xs = (map_of (blobgas db))(n \<mapsto> (u, e))"
    by (auto simp: map_of_replace map_add_def fun_eq_iff dom_map_of_conv_image_fst split: option.splits dest: map_of_SomeD)
      (metis fst_conv image_eqI map_of_SomeD)+
  ultimately show ?thesis
    using assms(2) that [of "db\<lparr>blobgas := ?xs\<rparr>"]
    by (simp add: UpdateBlobGasUsedAndExcessBlobGas_def sqlFault_def gasRow_def fun_eq_iff)
qed

text \<open>
  The data of a block joins its batch only after its gas was recorded: the first block of a batch that
  is not in the state yet is recorded with no blob gas, whatever its transactions are.
\<close>

lemma first_block_without_gas:
  assumes "distinct (map fst (blobgas db))" "sqlFaults db = []" "getBatchByNumber wipBatchNumber = None"
  shows "\<exists>db' excess. storeL2BlockBlobGas p g txHash hexOf getBatchByNumber db wipBatchNumber trackingNum blockNumber = (Some True, db')
    \<and> gasRow db' blockNumber = Some (0, excess)"
proof -
  obtain e where "storeBlobGas p db trackingNum blockNumber 0 = UpdateBlobGasUsedAndExcessBlobGas db blockNumber 0 e"
    by (auto simp: storeBlobGas_def Let_def GetBlobGas_row [OF assms(1,2)])
  moreover obtain db' where "UpdateBlobGasUsedAndExcessBlobGas db blockNumber 0 e = (True, db')"
    "gasRow db' = (gasRow db)(blockNumber \<mapsto> (0, e))"
    using UpdateBlobGas_row [OF assms(1,2)] by metis
  ultimately show ?thesis using assms(3) by (simp add: storeL2BlockBlobGas_def CalcBlobGasUsed_def)
qed

text \<open>The excess of the block with the index \<open>t\<close> of a run that starts behind the block \<open>N\<close>.\<close>

fun trackedExcess :: "params \<Rightarrow> nat \<Rightarrow> uint64 list \<Rightarrow> nat \<Rightarrow> uint64" where
  "trackedExcess p N us t =
     (if t \<le> N then 0 else CalcExcessBlobGas p (trackedExcess p N us (t - 1 - N)) (us ! (t - 1 - N)))"

declare trackedExcess.simps [simp del]

definition rows_upto :: "params \<Rightarrow> nat \<Rightarrow> uint64 list \<Rightarrow> nat \<Rightarrow> BlobDB \<Rightarrow> bool" where
  "rows_upto p N us t db \<longleftrightarrow> sqlFaults db = [] \<and> distinct (map fst (blobgas db))
     \<and> (\<forall>m<2 ^ 64. gasRow db (of_nat m) =
          (if N < m \<and> m \<le> N + t then Some (us ! (m - N - 1), trackedExcess p N us (m - N - 1)) else None))"

lemma of_nat_eq64: "m < 2 ^ 64 \<Longrightarrow> k < 2 ^ 64 \<Longrightarrow> (of_nat m :: uint64) = of_nat k \<longleftrightarrow> m = k"
  by (metis unat_of_nat64)

lemma CalcExcess_zero [simp]: "CalcExcessBlobGas p 0 0 = 0"
  by (simp add: CalcExcessBlobGas_def Let_def word_gt_0)

lemma storeBlobGas_row:
  assumes "rows_upto p N us t db" "t < length us" "N + length us < 2 ^ 64"
  shows "\<exists>db'. storeBlobGas p db (of_nat t + 1) (of_nat (N + t) + 1) (us ! t) = (True, db') \<and> rows_upto p N us (Suc t) db'"
proof -
  have t: "t < 2 ^ 64" "N + t + 1 < 2 ^ 64" using assms(2,3) by simp_all
  have db: "distinct (map fst (blobgas db))" "sqlFaults db = []" using assms(1) by (simp_all add: rows_upto_def)
  have prev: "gasRow db (of_nat t) = (if N < t then Some (us ! (t - N - 1), trackedExcess p N us (t - N - 1)) else None)"
    using assms(1) t(1) by (simp add: rows_upto_def)
  let ?n = "of_nat (N + t) + 1 :: uint64"
  have n: "?n = of_nat (N + t + 1)" by simp
  obtain db' where db': "UpdateBlobGasUsedAndExcessBlobGas db ?n (us ! t) (trackedExcess p N us t) = (True, db')"
    "distinct (map fst (blobgas db'))" "sqlFaults db' = []" "gasRow db' = (gasRow db)(?n \<mapsto> (us ! t, trackedExcess p N us t))"
    using UpdateBlobGas_row [OF db] by metis
  have pos: "(of_nat t :: uint64) > 0 \<longleftrightarrow> t > 0" using of_nat_eq64 [of t 0] t(1) by (simp add: word_gt_0)
  have "storeBlobGas p db (of_nat t + 1) ?n (us ! t) = UpdateBlobGasUsedAndExcessBlobGas db ?n (us ! t) (trackedExcess p N us t)"
    unfolding storeBlobGas_def Let_def by (simp add: GetBlobGas_row [OF db] prev pos trackedExcess.simps [of p N us t] diff_right_commute)
  moreover have "rows_upto p N us (Suc t) db'"
    using assms(1) db' t of_nat_eq64 [of _ "N + t + 1"] unfolding rows_upto_def n by auto
  ultimately show ?thesis using db'(1) by auto
qed

lemma storeBlocks_rows:
  assumes "N + length us < 2 ^ 64"
  shows "t \<le> length us \<Longrightarrow> rows_upto p N us t db
    \<Longrightarrow> \<exists>db'. storeBlocks p db (of_nat t) (of_nat (N + t)) (drop t us) = Some db' \<and> rows_upto p N us (length us) db'"
proof (induction "length us - t" arbitrary: t db)
  case 0
  then show ?case by simp
next
  case (Suc k)
  then have lt: "t < length us" by simp
  obtain db' where db': "storeBlobGas p db (of_nat t + 1) (of_nat (N + t) + 1) (us ! t) = (True, db')" "rows_upto p N us (Suc t) db'"
    using storeBlobGas_row [OF Suc.prems(2) lt assms] by blast
  have n: "(of_nat t + 1 :: uint64) = of_nat (Suc t)" "(of_nat (N + t) + 1 :: uint64) = of_nat (N + Suc t)" by simp_all
  have "storeBlocks p db (of_nat t) (of_nat (N + t)) (drop t us) = storeBlocks p db' (of_nat (Suc t)) (of_nat (N + Suc t)) (drop (Suc t) us)"
    unfolding Cons_nth_drop_Suc [OF lt, symmetric] storeBlocks.simps db'(1) by (simp only: prod.case bool.case n)
  with Suc.hyps(1) [of "Suc t" db'] Suc.hyps(2) lt db'(2) show ?case by simp
qed

text \<open>The rule of the protocol.\<close>

primrec protocolExcess :: "params \<Rightarrow> uint64 list \<Rightarrow> nat \<Rightarrow> uint64" where
  "protocolExcess p us 0 = 0"
| "protocolExcess p us (Suc t) = CalcExcessBlobGas p (protocolExcess p us t) (us ! t)"

lemma trackedExcess_first_block: "trackedExcess p 0 us t = protocolExcess p us t"
  by (induction t) (simp_all add: trackedExcess.simps)

lemma trackedExcess_early: "t \<le> N \<Longrightarrow> trackedExcess p N us t = 0"
  by (simp add: trackedExcess.simps)

section \<open>Adding blob transactions\<close>

lemma sqlFault_blocks: "sqlFault db = (f, db') \<Longrightarrow> blocks db' = blocks db"
  by (auto simp: sqlFault_def split: list.splits)

lemma checkBlobFee_blocks: "blocks (snd (checkBlobFee p db tx n)) = blocks db"
proof -
  obtain f db' where f: "sqlFault db = (f, db')" by fastforce
  then show ?thesis
    using sqlFault_blocks [OF f] by (simp add: checkBlobFee_def GetBlobGasUsedAndExcessBlobGas_def split: option.split prod.split)
qed

lemma validateBlobTx_blocks: "validateBlobTx p e be db tx = (err, db') \<Longrightarrow> blocks db' = blocks db"
  using checkBlobFee_blocks [of p db tx] by (auto simp: validateBlobTx_def split: option.splits if_splits prod.splits) (metis snd_conv)+

lemma db_Put_blocks:
  "db_Put db k v = (ok, db') \<Longrightarrow> blocks db' = (if ok then blocks db @ [(k, v)] else blocks db)"
  "db_Put db k v = (True, db') \<Longrightarrow> k \<notin> fst ` set (blocks db)"
  using sqlFault_blocks [of db] by (auto simp: db_Put_def split: prod.splits if_splits)

text \<open>What adding a blob transaction leaves in the database.\<close>

lemma pool_AddTx_blob_cases:
  assumes "pool_AddTx p g hexOf pool e be db ip tx = (err, stored, db')" "txType tx = BlobTxType"
  obtains (refused) "err \<noteq> None" "blocks db' = blocks db"
  | (written) b where "MarshalBinary be tx = Some b" "blocks db' = blocks db @ [(blobKey hexOf (hashOfTx e (BlobTxToLegacyTx tx)), b)]"
      "blobKey hexOf (hashOfTx e (BlobTxToLegacyTx tx)) \<notin> fst ` set (blocks db)"
proof -
  let ?key = "blobKey hexOf (hashOfTx e (BlobTxToLegacyTx tx))"
  obtain v db1 where v: "validateBlobTx p e be db tx = (v, db1)" by fastforce
  note db1 = validateBlobTx_blocks [OF v]
  consider "err \<noteq> None" "blocks db' = blocks db"
    | b ok where "MarshalBinary be tx = Some b" "db_Put db1 ?key b = (ok, db')" "\<not> ok \<longrightarrow> err \<noteq> None"
    using assms v db1 by (auto simp: pool_AddTx_def Let_def split: if_splits option.splits prod.splits bool.splits)
  then show thesis
  proof cases
    case (2 b ok)
    show thesis using 2 db1 db_Put_blocks(1) [OF 2(2)] db_Put_blocks(2) [of db1 ?key b db'] that by (cases ok) auto
  qed (rule that(1))
qed

text \<open>
  A blob transaction that the pool took is found again under the hash of the transaction that the
  sequencer handles, provided its binary form can be read back.
\<close>

lemma pool_AddTx_then_GetBlobTx:
  assumes "pool_AddTx p g hexOf pool e be db ip tx = (None, stored, db')" "txType tx = BlobTxType" "sqlFaults db' = []"
    and "\<And>b. MarshalBinary be tx = Some b \<Longrightarrow> UnmarshalBinary b = Some tx"
  shows "fst (GetBlobTx hexOf UnmarshalBinary db' (hashOfTx e (FilterLegacyTx tx))) = Some (Some tx)"
  using assms(1,2)
proof (cases rule: pool_AddTx_blob_cases)
  case (written b)
  let ?key = "blobKey hexOf (hashOfTx e (BlobTxToLegacyTx tx))"
  have "map_of (blocks db') ?key = Some b" using written(2,3) by (simp add: map_of_eq_None_iff [symmetric] map_add_def)
  moreover have "?key \<in> fst ` set (blocks db')" using written(2) by simp
  ultimately show ?thesis
    using assms(2-4) written(1)
    by (simp add: GetBlobTx_def IsBlob_def db_Has_def db_Get_def sqlFault_def FilterLegacyTx_def BlobTxType_def LegacyTxType_def)
qed simp

text \<open>
  The blob is stored before the transaction: when storing the transaction fails, the same blob
  transaction is refused from then on, since its key is taken.
\<close>

lemma pool_AddTx_failed_is_final:
  assumes "pool_AddTx p g hexOf pool e be db ip tx = (Some err, stored, db')" "txType tx = BlobTxType" "blocks db' \<noteq> blocks db"
    and "blocks db2 = blocks db'" "hashOfTx e2 = hashOfTx e"
    and "pool_AddTx p2 g hexOf pool2 e2 be2 db2 ip2 tx = (err2, stored2, db3)"
  shows "err2 \<noteq> None"
  using assms(1,2)
proof (cases rule: pool_AddTx_blob_cases)
  case (written b)
  from assms(6,2) show ?thesis
    by (cases rule: pool_AddTx_blob_cases) (use written assms(4,5) in auto)
qed (use assms(3) in simp)

text \<open>The signature value of the transaction the sequencer handles names the chain.\<close>

lemma BlobTxToLegacyTx_V:
  assumes "ChainId tx < 2 ^ 61" "txV (txFields tx) \<in> {0, 1}"
  shows "txV (BlobTxToLegacyTx tx) = 2 * int (ChainId tx) + 35 + txV (txFields tx)" "(txV (BlobTxToLegacyTx tx) - 35) div 2 = int (ChainId tx)"
proof -
  have small: "sint (of_int v :: uint64) = v" if "0 \<le> v" "v < 2 ^ 63" for v
    using that by (simp add: sint_sbintrunc' signed_take_bit_int_eq_self)
  let ?v = "2 * int (ChainId tx) + 35 + txV (txFields tx)"
  have "(2 * of_nat (ChainId tx) + 35 + of_int (txV (txFields tx)) :: uint64) = of_int ?v" by simp
  moreover have "0 \<le> ?v" "?v < 2 ^ 63" using assms by auto
  then have "sint (of_int ?v :: uint64) = ?v" using small by blast
  ultimately show *: "txV (BlobTxToLegacyTx tx) = ?v" by (simp add: BlobTxToLegacyTx_def Let_def)
  show "(txV (BlobTxToLegacyTx tx) - 35) div 2 = int (ChainId tx)" unfolding * using assms(2) by auto
qed

text \<open>The endpoint and the pool ask for the same fee.\<close>

lemma BlobBaseFee_is_fee_cap:
  assumes "sqlFaults db = []" "distinct (map fst (blobgas db))"
  shows "fst (BlobBaseFee p db (Some n)) = GetL2BlobFeeCap p (case gasRow db n of None \<Rightarrow> 0 | Some r \<Rightarrow> snd r)"
  using GetBlobGas_row [OF assms(2,1), of n]
  by (auto simp: BlobBaseFee_def GetL2BlobFeeCap_def split: option.splits)

section \<open>Properties of blob gas\<close>

definition sampleParams :: params where
  "sampleParams = \<lparr>BlobTxMinBlobGasprice = 1, BlobTxBlobGaspriceUpdateFraction = 3338477, BlobTxTargetBlobGasPerBlock = 393216,
     BlobTxBlobGasPerBlob = 131072, MaxBlobGasPerBlock = 786432\<rparr>"

text \<open>
  C10: for every excess of blob gas the computation of the fee ends, although its terms grow at first.
  The fee is at most the minimal price times the exponential of the excess divided by the update
  fraction, at least the first two terms of its series, and never falls when the excess rises; the cap
  that the pool asks for is this fee or the minimal base fee, whichever is greater.  The update
  fraction of the protocol is assumed to be positive.
\<close>

theorem CalcBlobFee_approximates_exponential:
  assumes "0 < BlobTxBlobGaspriceUpdateFraction p"
  shows "\<exists>blobFee. CalcBlobFee p excess = Some blobFee
    \<and> BlobTxMinBlobGasprice p * (BlobTxBlobGaspriceUpdateFraction p + unat excess) div BlobTxBlobGaspriceUpdateFraction p \<le> blobFee
    \<and> real blobFee \<le> real (BlobTxMinBlobGasprice p) * exp (real (unat excess) / real (BlobTxBlobGaspriceUpdateFraction p))
    \<and> (\<forall>excess' blobFee'. excess \<le> excess' \<and> CalcBlobFee p excess' = Some blobFee' \<longrightarrow> blobFee \<le> blobFee')
    \<and> GetL2BlobFeeCap p excess = Some (max MinBlobBaseFee blobFee)"
proof -
  obtain r where r: "CalcBlobFee p excess = Some r"
    "BlobTxMinBlobGasprice p * (BlobTxBlobGaspriceUpdateFraction p + unat excess) div BlobTxBlobGaspriceUpdateFraction p \<le> r"
    "real r \<le> real (BlobTxMinBlobGasprice p) * exp (real (unat excess) / real (BlobTxBlobGaspriceUpdateFraction p))"
    using fakeExponential_bounds [OF assms, of "BlobTxMinBlobGasprice p" "unat excess"] unfolding CalcBlobFee_def by metis
  have "r \<le> blobFee'" if "excess \<le> excess'" "CalcBlobFee p excess' = Some blobFee'" for excess' blobFee'
    using fakeExponential_mono r(1) that unfolding CalcBlobFee_def word_le_nat_alt by blast
  with r show ?thesis by (auto simp: GetL2BlobFeeCap_def max_def)
qed

theorem CalcBlobFee_approximates_exponential_witness:
  "\<exists>blobFee. CalcBlobFee sampleParams 33384770 = Some blobFee \<and> 11 \<le> blobFee \<and> real blobFee \<le> exp 10
     \<and> GetL2BlobFeeCap sampleParams 33384770 = Some (max MinBlobBaseFee blobFee)"
  using CalcBlobFee_approximates_exponential [of sampleParams 33384770] by (auto simp: sampleParams_def)



end
