(* ===== verification/Spec2Isabelle.thy ===== *)
theory Spec2Isabelle
  imports L1InfoTree StateL1InfoTree SequencerBatch ExecutorErrors SeqWorker SyncConsumer BatchV2 EffectiveGasPrice EthTxResults ZkBlobSender SequenceSender DataCommittee PoolAdd BlobGas
begin

text \<open>
  A verification library for the node, a sequencer and synchronizer of a zero knowledge rollup
  (sources under \<open>src/\<close>).

  \<^bold>\<open>The program.\<close>  Transactions enter through the JSON-RPC server into the pool.  The sequencer takes
  them from the pool into its worker, picks the best paying one that still fits the batch in work,
  has it executed by the executor service and accounts for the resources it used; L2 blocks and
  batches are stored in the state database.  The sequence sender posts closed batches on L1 and the
  blob sender the blobs of their transactions, both through the transaction manager; the aggregator
  has the batches proved.  The synchronizer follows L1, optionally with several workers that
  request ranges of blocks in parallel, decodes the batches it finds, and keeps the tree of L1 info
  leaves.

  \<^bold>\<open>Conventions.\<close>  Each component has a theory; a struct is a record, an enumeration a datatype, one
  definition models one function and bears its name, with a prefix where HOL or another component
  has the name already.  Machine integers are words, so that additions wrap as in Go; \<open>big.Int\<close> is
  \<open>nat\<close> or \<open>int\<close>.  Errors are the left side of a sum; a panic or \<open>log.Fatal\<close> is an error of its own or
  \<open>None\<close>, as each theory says.  Go maps are association lists in an arbitrary iteration order,
  pointers to shared trackers are addresses of an explicit heap.  Code guarded by one mutex is one
  atomic operation; goroutines that interleave are steps chosen by an arbitrary schedule.  Hash
  functions, the RLP codec, the Ethereum client, the state database and the clock are parameters;
  what the proofs need of them is a named hypothesis, with a concrete instance in each witness.

  \<^bold>\<open>Prelude.\<close>  Byte strings, words, checked indexing, big endian numbers, binary search of the Go
  library, lemmas shared by the components.

  \<^bold>\<open>The L1 info tree.\<close>  \<open>L1InfoTree\<close> models \<open>l1infotree/\<close>: building, appending and proofs.  Building
  gives the root of the complete Merkle tree over the padded leaves (C1); the incremental \<open>AddLeaf\<close>
  agrees with rebuilding (C2); proofs verify (C3).  The locale \<open>incremental_tree\<close> is the contract its
  client uses.  \<open>StateL1InfoTree\<close> models \<open>state/l1infotree.go\<close> with the exit root table and the
  database transactions around it: leaves get consecutive indices and the right root (C4), a
  rollback leaves no stale tree (C5), except after a reset in the same transaction (C6).  The locale
  \<open>entry_store\<close> is what the cache needs of the table.

  \<^bold>\<open>Batches and resources.\<close>  \<open>ZkCounters\<close> models the counters of \<open>state/types.go\<close> and \<open>state/config.go\<close>;
  the locale \<open>bounded_resource\<close> holds for counters and for batch resources.  \<open>SequencerBatch\<close> models the
  accounting of \<open>sequencer/batch.go\<close> and \<open>finalizer.go\<close>: resources are conserved (C7), reserves stay
  covered (C8); lemmas show that the check of a subtraction is unreachable, that the gas reserve can be
  lost and that the margin check is exact.  \<open>EffectiveGasPrice\<close> models \<open>state/effectivegasprice.go\<close>: the percentage is the
  smallest byte that covers the effective price (C40).

  \<^bold>\<open>Executor errors.\<close>  \<open>ExecutorErrors\<close> models \<open>state/runtime/executor/errors.go\<close>: the conversions
  between codes and errors invert each other (\<open>RomErrorCode_RomErr\<close> for the ROM, \<open>ExecutorErrorCode_ExecutorErr\<close>
  for the executor, both through the locale \<open>inverse_switches\<close>), and the range checks select the classes they
  name (\<open>rom_error_classes\<close>).

  \<^bold>\<open>The worker.\<close>  \<open>TxSortedList\<close>, \<open>AddrQueue\<close>, \<open>BestFit\<close> and \<open>SeqWorker\<close> model \<open>sequencer/txsortedlist.go\<close>,
  \<open>txtracker.go\<close>, \<open>addrqueue.go\<close> and \<open>worker.go\<close>.  The sorted list implements a price ordered set (C15,
  with the locale \<open>ready_txs\<close>); the queues keep at most one executable transaction ready (C16) and
  leave none behind (C17), but can lose one (\<open>addTx_loses_waiting\<close>) and misreport one
  (\<open>balance_drop_deletes_ready\<close>).  The parallel search finds the first fitting transaction under every schedule (C20) and ends (C21).  In every reachable worker
  the sorted list holds exactly the ready transactions (C22), no operation panics (C23),
  \<open>GetBestFittingTx\<close> is optimal (C24) and stored transactions are removed exactly
  (\<open>DeleteTxPendingToStore_removes\<close>); replaced transactions are lost when restoring
  (\<open>RestoreTxs_replaced_lost\<close>) and overlapping insertions break the invariant (C27), since the mutex is
  released during the account query.

  \<^bold>\<open>Parallel synchronization.\<close>  \<open>BlockRanges\<close>, \<open>SyncStatus\<close>, \<open>OrderFilter\<close>, \<open>L1Workers\<close>, \<open>SyncProducer\<close> and
  \<open>SyncConsumer\<close> model \<open>synchronizer/l1_parallel_sync/\<close>.  The status never reaches a \<open>log.Fatal\<close> (C28)
  and covers every requested block exactly once (C29), with two flaws in a failed last request
  (\<open>failed_latest_reported_synced\<close>) and in \<open>Reset\<close> (\<open>Reset_skips_blocks\<close>).  The filter sorts what arrives (C32).  Every run of producer, workers and
  consumer delivers a gapless sequence of results (C33) without getting stuck (C34); the consumer
  hands on each of them once (C35) and rejects an answer after a reorganization of L1 (C36).  The
  locale \<open>range_store\<close> is the contract of the live ranges.

  \<^bold>\<open>Batch data.\<close>  \<open>TxEncoding\<close> models \<open>state/helper.go\<close>, \<open>RlpFieldsToLegacyTx\<close> and \<open>hex/hex.go\<close>, \<open>BatchV2\<close>
  models \<open>state/encoding_batch_v2.go\<close>.  Decoding a list of transactions never panics and gives well
  formed ones (C37); decoding a batch inverts encoding it (C38); a crafted length makes the batch
  decoder panic (C39).

  \<^bold>\<open>The transaction manager.\<close>  \<open>EthTxManager\<close> and \<open>EthTxResults\<close> model \<open>ethtxmanager/\<close>: the table of
  monitored transactions, adding one, the cycle that checks, reviews, signs, sends and waits, the
  reaction to a reorganization, and \<open>ProcessPendingMonitoredTxs\<close>, by which an owner waits for its
  transactions.  L1 answers and database faults are arbitrary.  Every transaction sent to the network
  is recorded first (C9), but an unanswered check makes the manager send a second one with a higher
  nonce (C26).  An owner learns of each confirmed transaction exactly once (C25), and waits forever for
  a failed one (C14).

  \<^bold>\<open>The sequence sender.\<close>  \<open>SequenceSender\<close> models \<open>sequencesender/sequencesender.go\<close>: one attempt, from
  the results of earlier transactions over the sanity check to the transaction that posts the next
  batches.  What is posted continues the batches of the contract without a gap, is checked, within the
  limit and old enough (C12).  Lemmas show that the margin is exact without wrap-around
  (\<open>marginTimeElapsed_exact\<close>), that collecting ends (\<open>sequenceLoop_returns\<close>), that batches in front of a
  fork upgrade are held back (\<open>upgrade_blocks_last_batches\<close>), and that a contract ahead of the node stops
  the sender during its retries (\<open>sanityRetries_overtaken\<close>).

  \<^bold>\<open>Data availability.\<close>  \<open>DataCommittee\<close> models \<open>dataavailability/dataavailability.go\<close> and its committee
  \<open>datacommittee/datacommittee.go\<close>, to which the sequence sender gives the data of its batches.  Posting
  succeeds exactly when enough members sign, in whatever order they answer, with the signatures in
  the order of the addresses (C31).  Data of batches is returned only with the right hashes, and is
  found whenever some member serves it (C30).  The locale \<open>data_backend\<close> is what the search through the
  sources needs of a backend, interpreted on the committee.

  \<^bold>\<open>The pool.\<close>  \<open>PoolAdd\<close> models how \<open>pool/pool.go\<close> takes a transaction in: validation, pre-execution, the
  break even price of \<open>pool/effectivegasprice.go\<close> and \<open>StoreTx\<close>, with the refreshed policies and prices.
  The validation is characterised exactly (C18); two errors of the pre-execution are lost
  (\<open>pre_execution_errors_lost\<close>).  The factors that the configuration gives as floating point numbers
  enter as functions.

  \<^bold>\<open>Blobs.\<close>  \<open>ZkBlobSender\<close> models \<open>blob/zkblobsender/\<close> with its table in \<open>blob/db/sqlite.go\<close>.  As long as
  posted sequences are confirmed, the sender follows the sequences of the state in order, posts none
  twice and records only what was posted or holds no transaction (C13); restarted while a transaction
  is pending it never gets on, by the unique keys of the transaction manager (C11).  \<open>BlobGas\<close> models
  \<open>blob/eip4844/\<close>, \<open>blob/fee/\<close>, \<open>blob/utils.go\<close>, the other tables of \<open>blob/db/sqlite.go\<close>, the blob gas part of
  \<open>storeL2Block\<close> and the blob part of the pool: the fee approximates an exponential (C10), the recorded
  excess follows the protocol only on a chain that the process itself has started (C19); lemmas show
  that an accepted blob is found under the hash the sequencer uses, and that a blob whose transaction
  could not be stored is refused from then on.

  \<^bold>\<open>Bounds and fuel.\<close>  Byte strings in the decoding theorems are shorter than \<open>2 ^ 63\<close>, as the length
  of a Go slice is.  Loops whose end is not structural are functions with a termination proof
  (\<open>decodeTxsLoop\<close>: the position strictly increases, even where the sums wrap; \<open>expLoop\<close>: the counter
  overtakes the exponent, then the terms shrink) or partial functions
  into \<open>option\<close> (\<open>decodeBatchLoop\<close>, \<open>requestLastBlockWithRetries\<close>, \<open>sequenceLoop\<close>), with a lemma or property that
  they return (\<open>DecodeBatchV2_returns\<close>, C34, \<open>sequenceLoop_returns\<close>).  The scheduled search needs as many steps of each goroutine as
  C21 says.  The wait of an owner and the loop of the blob sender run against a list of what happens
  around them, of any length; C14 holds for every such list.  Reachability is inductive and has no bound on the number of steps.  The RLP codec of the
  sample runs has as much fuel as bytes, and each of its steps consumes one.

  \<^bold>\<open>Not modelled.\<close>  Code that consists of calls to something outside the sources: SQL statements of
  \<open>state/pgstatestorage\<close>, \<open>pool/pgpoolstorage\<close> and \<open>event\<close>, the finalizer goroutines around executor and
  database, the sequential synchronizer and its actions, \<open>etherman\<close> and the contract bindings,
  \<open>jsonrpc\<close>, the clients of the Merkle
  tree and executor services and all generated protocol code.  The \<open>aggregator\<close> is left out
  as well: its table of proofs, with locks and several provers at work on it, would need a concurrent
  model of its own.  The gas price suggesters compute with
  floating point numbers, which would have to be parameters.  \<open>state/runtime/fakevm\<close> is a copy of an interpreter of another project.  Commands,
  configuration, logging and metrics have no behaviour to state a property of.
\<close>

end
